(* ===== verification/Naja_Prelude.thy ===== *)
theory Naja_Prelude
  imports Main "HOL-Library.Word"
begin

unbundle bit_operations_syntax

text \<open>
  The vocabulary the components share.

  \<^item> C++ failures are values.  A \<open>throw\<close> is \<open>Raise\<close> of the exception's class and message,
    an access the C++ standard leaves undefined (a shift by at least the width, a vector index
    out of range) is \<open>UndefinedBehaviour\<close>.  An operation that can fail returns
    \<open>'a result = cpp_error + 'a\<close>.
  \<^item> Fixed width integers.  \<open>uint64_t\<close> masks are \<open>64 word\<close>; sizes and indexes
    (\<open>uint32_t\<close>, \<open>size_t\<close>) are naturals with every narrowing conversion written out by \<open>u32\<close>.
  \<^item> The \<open>std::\<close> bit functions the sources call (\<open>popcount\<close>, \<open>countr_zero\<close>).
  \<^item> The collections \<open>result_simps\<close> and \<open>row_simps\<close> of rewrite rules the components extend.
\<close>

section \<open>Failures as values\<close>

datatype cpp_error =
    Raise string string
  | UndefinedBehaviour string

type_synonym 'a result = "cpp_error + 'a"

abbreviation NLException :: "string \<Rightarrow> cpp_error" where
  "NLException msg \<equiv> Raise ''NLException'' msg"

abbreviation BadVariantAccess :: cpp_error where
  "BadVariantAccess \<equiv> Raise ''std::bad_variant_access'' ''''"

named_theorems result_simps "evaluation of computations that may fail"

definition rbind :: "'a result \<Rightarrow> ('a \<Rightarrow> 'b result) \<Rightarrow> 'b result" where
  "rbind r f = (case r of Inl e \<Rightarrow> Inl e | Inr x \<Rightarrow> f x)"

lemma rbind_Inr [simp, result_simps]: "rbind (Inr x) f = f x"
  by (simp add: rbind_def)

lemma rbind_Inl [simp, result_simps]: "rbind (Inl e) f = Inl e"
  by (simp add: rbind_def)

lemma rbind_eq_Inr_iff: "rbind r f = Inr y \<longleftrightarrow> (\<exists>x. r = Inr x \<and> f x = Inr y)"
  by (cases r) auto

lemma rbind_cong [fundef_cong]:
  "r = s \<Longrightarrow> (\<And>x. s = Inr x \<Longrightarrow> f x = g x) \<Longrightarrow> rbind r f = rbind s g"
  by (cases s) auto

text \<open>The failure of a computation, if any.\<close>

definition failure :: "'a result \<Rightarrow> cpp_error option" where
  "failure r = (case r of Inl e \<Rightarrow> Some e | Inr _ \<Rightarrow> None)"

lemma failure_simps [simp, result_simps]: "failure (Inl e) = Some e" "failure (Inr x) = None"
  by (simp_all add: failure_def)

text \<open>\<open>require c e\<close> is a guard \<open>if (!c) throw e\<close>.\<close>

definition require :: "bool \<Rightarrow> cpp_error \<Rightarrow> unit result" where
  "require c e = (if c then Inr () else Inl e)"

lemma require_True [simp, result_simps]: "require True e = Inr ()"
  by (simp add: require_def)

lemma require_False [simp, result_simps]: "require False e = Inl e"
  by (simp add: require_def)

text \<open>The loop \<open>for (x : xs) ys.push_back(f(x))\<close> of a function that may fail.\<close>

fun rmap :: "('a \<Rightarrow> 'b result) \<Rightarrow> 'a list \<Rightarrow> 'b list result" where
  "rmap f [] = Inr []"
| "rmap f (x # xs) = rbind (f x) (\<lambda>y. rbind (rmap f xs) (\<lambda>ys. Inr (y # ys)))"

lemma rmap_total:
  "(\<And>x. x \<in> set xs \<Longrightarrow> f x = Inr (g x)) \<Longrightarrow> rmap f xs = Inr (map g xs)"
  by (induction xs) auto

text \<open>The loop \<open>for (x : xs) f(x)\<close> of an operation on a state that may fail.\<close>

fun rfold :: "('a \<Rightarrow> 's \<Rightarrow> 's result) \<Rightarrow> 'a list \<Rightarrow> 's \<Rightarrow> 's result" where
  "rfold f [] s = Inr s"
| "rfold f (x # xs) s = rbind (f x s) (rfold f xs)"

lemma rfold_append: "rfold f (xs @ ys) s = rbind (rfold f xs s) (rfold f ys)"
proof (induction xs arbitrary: s)
  case (Cons x xs)
  then show ?case by (cases "f x s") auto
qed simp

lemma rfold_cong [fundef_cong]:
  "xs = ys \<Longrightarrow> s = t \<Longrightarrow> (\<And>x s. x \<in> set ys \<Longrightarrow> f x s = g x s) \<Longrightarrow> rfold f xs s = rfold g ys t"
proof (induction xs arbitrary: ys s t)
  case (Cons x xs)
  then show ?case by (cases "g x t") auto
qed simp

text \<open>An invariant of every step is an invariant of the loop.\<close>

lemma rfold_inv:
  assumes "\<And>x s t. x \<in> set xs \<Longrightarrow> P s \<Longrightarrow> f x s = Inr t \<Longrightarrow> P t"
  shows "P s \<Longrightarrow> rfold f xs s = Inr t \<Longrightarrow> P t"
  using assms
proof (induction xs arbitrary: s)
  case (Cons x xs)
  from Cons.prems(2) obtain s' where s': "f x s = Inr s'" "rfold f xs s' = Inr t"
    by (auto simp: rbind_eq_Inr_iff)
  show ?case
  proof (rule Cons.IH [OF _ s'(2)])
    show "P s'" by (rule Cons.prems(3) [OF _ Cons.prems(1) s'(1)]) simp
    show "\<And>y s t. y \<in> set xs \<Longrightarrow> P s \<Longrightarrow> f y s = Inr t \<Longrightarrow> P t" by (rule Cons.prems(3)) simp_all
  qed
qed simp

text \<open>A loop whose steps succeed under an invariant succeeds.\<close>

lemma rfold_total:
  assumes "\<And>x s. x \<in> set xs \<Longrightarrow> P s \<Longrightarrow> \<exists>t. f x s = Inr t \<and> P t"
  shows "P s \<Longrightarrow> \<exists>t. rfold f xs s = Inr t \<and> P t"
  using assms
proof (induction xs arbitrary: s)
  case (Cons x xs)
  then obtain s' where s': "f x s = Inr s'" "P s'" by (metis list.set_intros(1))
  have "\<exists>t. rfold f xs s' = Inr t \<and> P t"
    by (rule Cons.IH [OF s'(2)]) (simp add: Cons.prems(2))
  with s'(1) show ?case by simp
qed simp

text \<open>Reading \<open>v[i]\<close> of a \<open>std::vector\<close>: outside the vector the behaviour is undefined.\<close>

definition vec_at :: "'a list \<Rightarrow> nat \<Rightarrow> 'a result" where
  "vec_at xs i = (if i < length xs then Inr (xs ! i) else Inl (UndefinedBehaviour ''vector index''))"

lemma vec_at_in [simp, result_simps]: "i < length xs \<Longrightarrow> vec_at xs i = Inr (xs ! i)"
  by (simp add: vec_at_def)

section \<open>Fixed width integers\<close>

type_synonym u64 = "64 word"

text \<open>Conversion to \<open>uint32_t\<close>.\<close>

definition u32 :: "nat \<Rightarrow> nat" where
  "u32 n = n mod 2 ^ 32"

lemma u32_code [code]: "u32 n = nat (int n mod 4294967296)"
  by (simp add: u32_def nat_mod_distrib)

lemma u32_id [simp]: "n < 2 ^ 32 \<Longrightarrow> u32 n = n"
  by (simp add: u32_def)

lemma u32_bound [simp]: "u32 n < 2 ^ 32"
  by (simp add: u32_def)

definition u32_max :: nat where
  "u32_max = 2 ^ 32 - 1"

text \<open>\<open>1u << n\<close> on \<open>uint32_t\<close>.\<close>

definition shl1_u32 :: "nat \<Rightarrow> nat result" where
  "shl1_u32 n = (if n < 32 then Inr (2 ^ n) else Inl (UndefinedBehaviour ''shift of uint32_t''))"

lemma shl1_u32_in [simp, result_simps]: "n < 32 \<Longrightarrow> shl1_u32 n = Inr (2 ^ n)"
  by (simp add: shl1_u32_def)

text \<open>\<open>std::to_string\<close> of an unsigned number.\<close>

fun to_string :: "nat \<Rightarrow> string" where
  "to_string n = (if n < 10 then [char_of (48 + n)]
     else to_string (n div 10) @ [char_of (48 + n mod 10)])"

declare to_string.simps [simp del]

section \<open>Bit functions of the standard library\<close>

definition popcount :: "u64 \<Rightarrow> nat" where
  "popcount x = length (filter (bit x) [0..<64])"

definition countr_zero :: "u64 \<Rightarrow> nat" where
  "countr_zero x = length (takeWhile (\<lambda>i. \<not> bit x i) [0..<64])"

lemma bit_u64_bound: "bit (x :: u64) i \<Longrightarrow> i < 64"
  using bit_imp_le_length by fastforce

lemma popcount_card: "popcount x = card {i. bit x i}"
proof -
  have "popcount x = card (set (filter (bit x) [0..<64]))"
    unfolding popcount_def by (subst distinct_card) auto
  also have "set (filter (bit x) [0..<64]) = {i. bit x i}"
    by (auto dest: bit_u64_bound)
  finally show ?thesis .
qed

lemma takeWhile_upt_le: "length (takeWhile P [0..<n]) \<le> n"
  by (metis length_takeWhile_le length_upt minus_nat.diff_0)

lemma countr_zero_less: "i < countr_zero x \<Longrightarrow> \<not> bit x i"
proof -
  assume i: "i < countr_zero x"
  have le: "countr_zero x \<le> 64"
    by (simp add: countr_zero_def takeWhile_upt_le)
  have "takeWhile (\<lambda>i. \<not> bit x i) [0..<64] ! i = [0..<64] ! i"
    using i by (intro takeWhile_nth) (simp add: countr_zero_def)
  moreover have "[0..<64::nat] ! i = i"
    using i le by simp
  moreover have "takeWhile (\<lambda>i. \<not> bit x i) [0..<64] ! i \<in> set (takeWhile (\<lambda>i. \<not> bit x i) [0..<64])"
    using i by (simp add: countr_zero_def)
  ultimately show ?thesis
    by (metis (no_types, lifting) set_takeWhileD)
qed

lemma countr_zero_bit: "x \<noteq> 0 \<Longrightarrow> bit x (countr_zero x)"
proof -
  assume "x \<noteq> 0"
  then obtain i where i: "bit x i"
    using bit_eqI bit_0_eq by (metis bot_apply bot_bool_def)
  have "countr_zero x \<le> i"
    using countr_zero_less i not_le by blast
  moreover have "i < 64" using i by (rule bit_u64_bound)
  ultimately have lt: "countr_zero x < length [0..<64::nat]"
    by simp
  have "\<not> (\<not> bit x ([0..<64] ! countr_zero x))"
    using nth_length_takeWhile [of "\<lambda>i. \<not> bit x i" "[0..<64]"] lt
    by (simp add: countr_zero_def)
  then show ?thesis using lt by simp
qed

text \<open>\<open>x & (x - 1)\<close> clears exactly the lowest set bit.\<close>

lemma clear_lowest:
  assumes "x \<noteq> (0 :: u64)"
  shows "x AND (x - 1) = unset_bit (countr_zero x) x"
proof -
  let ?k = "countr_zero x" and ?y = "unset_bit (countr_zero x) x"
  have k: "bit x ?k" using assms by (rule countr_zero_bit)
  have y: "?y = x - 2 ^ ?k"
    using k by (simp add: unset_bit_eq)
  have m: "mask ?k = (2 ^ ?k - 1 :: u64)"
    by (simp add: mask_eq_exp_minus_1)
  have disj: "?y AND mask ?k = 0"
    by (rule bit_eqI)
      (auto simp: bit_and_iff bit_unset_bit_iff bit_mask_iff dest: countr_zero_less)
  have "x - 1 = ?y + mask ?k"
    by (simp add: y m)
  also have "\<dots> = ?y OR mask ?k"
    using disj by (simp add: disjunctive_add_eq_or)
  finally have "x - 1 = ?y OR mask ?k" .
  then show ?thesis
    by (intro bit_eqI)
      (auto simp: bit_and_iff bit_or_iff bit_unset_bit_iff bit_mask_iff dest: countr_zero_less)
qed

lemma popcount_unset:
  "bit x k \<Longrightarrow> popcount (unset_bit k x) < popcount x"
proof -
  assume k: "bit x k"
  have "{i. bit (unset_bit k x) i} = {i. bit x i} - {k}"
    by (auto simp: bit_unset_bit_iff dest: bit_u64_bound)
  moreover have "finite {i. bit x i}"
    by (rule finite_subset [of _ "{..<64}"]) (auto dest: bit_u64_bound)
  ultimately show ?thesis
    using k unfolding popcount_card by (metis card_Diff1_less mem_Collect_eq)
qed

section \<open>Rows of a truth table\<close>

named_theorems row_simps "reading the bits of a row number"

text \<open>The row number of an assignment: input \<open>i\<close> is bit \<open>i\<close>.\<close>

fun row_of :: "nat \<Rightarrow> (nat \<Rightarrow> bool) \<Rightarrow> nat" where
  "row_of 0 a = 0"
| "row_of (Suc n) a = row_of n a + of_bool (a n) * 2 ^ n"

lemma row_of_less [simp, row_simps]: "row_of n a < 2 ^ n"
  by (induction n) (auto simp: of_bool_def)

lemma bit_row_of [row_simps]: "bit (row_of n a) i \<longleftrightarrow> i < n \<and> a i"
proof (induction n arbitrary: i)
  case 0
  then show ?case by simp
next
  case (Suc n)
  have "row_of (Suc n) a = row_of n a OR (of_bool (a n) * 2 ^ n)"
  proof -
    have "row_of n a AND (of_bool (a n) * 2 ^ n) = 0"
      by (rule bit_eqI) (use Suc in \<open>auto simp: bit_and_iff of_bool_def bit_exp_iff\<close>)
    then show ?thesis by (simp add: disjunctive_add_eq_or)
  qed
  then show ?case
    using Suc by (auto simp: bit_or_iff of_bool_def bit_exp_iff less_Suc_eq)
qed

lemma row_of_cong: "(\<And>i. i < n \<Longrightarrow> a i = b i) \<Longrightarrow> row_of n a = row_of n b"
  by (induction n) auto

lemma row_of_bit: "r < 2 ^ n \<Longrightarrow> row_of n (bit r) = r"
proof (rule bit_eqI)
  fix i
  assume "r < 2 ^ n"
  then have "bit r i \<Longrightarrow> i < n"
    by (metis bit_take_bit_iff take_bit_nat_eq_self_iff)
  then show "bit (row_of n (bit r)) i = bit r i"
    by (auto simp: bit_row_of)
qed

end
