(* ===== verification/BitVec.thy ===== *)
theory BitVec
  imports Naja_Prelude
begin

unbundle bit_operations_syntax

text \<open>
  \<^verbatim>\<open>src/nl/netlist/decorators/NLBitVecDynamic.h\<close>: the bit vector of a truth table.  Up to 64 bits
  it is a \<open>uint64_t\<close> mask, beyond that a \<open>std::vector<bool>\<close>.  The record has the two data members,
  each operation is one definition, and \<open>bv_wf\<close> is the invariant every constructor establishes.
  The abstraction of a vector is the function \<open>bv_get\<close> from positions to bits; \<open>bv_value\<close> is the
  number the bits spell.
\<close>

section \<open>Data and operations\<close>

datatype bv_data = Mask u64 | Vec "bool list"

record NLBitVecDynamic =
  nbits :: nat
  bdata :: bv_data

definition bv_default :: NLBitVecDynamic where
  "bv_default = \<lparr>nbits = 0, bdata = Mask 0\<rparr>"

definition bv_of_mask :: "u64 \<Rightarrow> nat \<Rightarrow> NLBitVecDynamic result" where
  "bv_of_mask m len = (if len \<le> 64 then Inr \<lparr>nbits = len, bdata = Mask m\<rparr>
     else Inl (NLException ''NLBitVecDynamic: cannot construct from mask when length>64''))"

definition bv_of_bits :: "bool list \<Rightarrow> nat \<Rightarrow> NLBitVecDynamic result" where
  "bv_of_bits bs len = (if len > 64 then Inr \<lparr>nbits = len, bdata = Vec bs\<rparr>
     else Inl (NLException ''When not over size of 64, use mask constructor.''))"

definition bv_zero :: "nat \<Rightarrow> NLBitVecDynamic" where
  "bv_zero len = (if len \<le> 64 then \<lparr>nbits = len, bdata = Mask 0\<rparr>
     else \<lparr>nbits = len, bdata = Vec (replicate len False)\<rparr>)"

text \<open>\<open>operator>>\<close>: the bit at a position, false beyond the length.\<close>

definition bv_shr :: "NLBitVecDynamic \<Rightarrow> nat \<Rightarrow> bool result" where
  "bv_shr b pos = (if pos \<ge> nbits b then Inr False
     else case bdata b of
       Mask m \<Rightarrow> if pos < 64 then Inr (bit m pos) else Inl (UndefinedBehaviour ''shift of uint64_t'')
     | Vec v \<Rightarrow> vec_at v pos)"

text \<open>The loop of \<open>operator|=\<close> over the low 64 positions of a \<open>vector<bool>\<close>.\<close>

fun or_loop :: "u64 \<Rightarrow> nat list \<Rightarrow> bool list \<Rightarrow> bool list result" where
  "or_loop m [] v = Inr v"
| "or_loop m (i # is) v =
     (if bit m i
      then (if i < length v then or_loop m is (v[i := True])
            else Inl (UndefinedBehaviour ''vector index''))
      else or_loop m is v)"

definition bv_or :: "NLBitVecDynamic \<Rightarrow> u64 \<Rightarrow> NLBitVecDynamic result" where
  "bv_or b m = (case bdata b of
       Mask w \<Rightarrow> Inr (b\<lparr>bdata := Mask (w OR m)\<rparr>)
     | Vec v \<Rightarrow> rbind (or_loop m [0..<min (nbits b) 64] v) (\<lambda>v'. Inr (b\<lparr>bdata := Vec v'\<rparr>)))"

fun and_loop :: "u64 \<Rightarrow> bool list \<Rightarrow> nat list \<Rightarrow> bool list \<Rightarrow> bool list result" where
  "and_loop m v [] out = Inr out"
| "and_loop m v (i # is) out = rbind (vec_at v i) (\<lambda>x. and_loop m v is (out[i := x \<and> bit m i]))"

definition bv_and :: "NLBitVecDynamic \<Rightarrow> u64 \<Rightarrow> NLBitVecDynamic result" where
  "bv_and b m = (case bdata b of
       Mask w \<Rightarrow> bv_of_mask (w AND m) (nbits b)
     | Vec v \<Rightarrow> rbind (and_loop m v [0..<min (nbits b) 64] (replicate (nbits b) False))
         (\<lambda>ov. Inr ((bv_zero (nbits b))\<lparr>bdata := Vec ov\<rparr>)))"

definition bv_eq :: "NLBitVecDynamic \<Rightarrow> NLBitVecDynamic \<Rightarrow> bool" where
  "bv_eq b c \<longleftrightarrow> nbits b = nbits c \<and> bdata b = bdata c"

text \<open>\<open>operator<\<close>: the loop walks the positions from the most significant one down.\<close>

fun less_loop :: "NLBitVecDynamic \<Rightarrow> NLBitVecDynamic \<Rightarrow> nat \<Rightarrow> bool result" where
  "less_loop b c 0 = Inr False"
| "less_loop b c (Suc pos) =
     rbind (if pos < nbits b then bv_shr b pos else Inr False) (\<lambda>b1.
     rbind (if pos < nbits c then bv_shr c pos else Inr False) (\<lambda>b2.
     if b1 \<noteq> b2 then Inr (\<not> b1 \<and> b2) else less_loop b c pos))"

definition bv_less :: "NLBitVecDynamic \<Rightarrow> NLBitVecDynamic \<Rightarrow> bool result" where
  "bv_less b c = (case (bdata b, bdata c) of
       (Mask x, Mask y) \<Rightarrow> Inr (x < y)
     | _ \<Rightarrow> less_loop b c (max (nbits b) (nbits c)))"

definition bv_to_u64 :: "NLBitVecDynamic \<Rightarrow> u64 result" where
  "bv_to_u64 b = (case bdata b of
       Mask m \<Rightarrow> Inr m
     | Vec v \<Rightarrow> Inl (NLException ''NLBitVecDynamic: cannot generate uint64_t for above 64 bits''))"

definition bv_bit :: "NLBitVecDynamic \<Rightarrow> nat \<Rightarrow> bool result" where
  "bv_bit b i = (if nbits b \<le> 64
     then (case bdata b of
         Mask m \<Rightarrow> if i < 64 then Inr (bit m i) else Inl (UndefinedBehaviour ''shift of uint64_t'')
       | Vec v \<Rightarrow> Inl BadVariantAccess)
     else (case bdata b of Mask m \<Rightarrow> Inl BadVariantAccess | Vec v \<Rightarrow> vec_at v i))"

fun pack_loop :: "bool list \<Rightarrow> nat list \<Rightarrow> u64 list \<Rightarrow> u64 list" where
  "pack_loop bs [] out = out"
| "pack_loop bs (i # is) out =
     pack_loop bs is
       (if bs ! i then out[i div 64 := out ! (i div 64) OR push_bit (i mod 64) 1] else out)"

definition packBits :: "bool list \<Rightarrow> u64 list" where
  "packBits bs = pack_loop bs [0..<length bs] (replicate ((length bs + 63) div 64) 0)"

definition getChunks :: "NLBitVecDynamic \<Rightarrow> u64 list result" where
  "getChunks b = (if nbits b \<le> 64
     then (case bdata b of Mask m \<Rightarrow> Inr [m] | Vec v \<Rightarrow> Inl BadVariantAccess)
     else (case bdata b of Mask m \<Rightarrow> Inl BadVariantAccess | Vec v \<Rightarrow> Inr (packBits v)))"

section \<open>Invariant and abstraction\<close>

definition bv_wf :: "NLBitVecDynamic \<Rightarrow> bool" where
  "bv_wf b \<longleftrightarrow> (case bdata b of Mask m \<Rightarrow> nbits b \<le> 64 | Vec v \<Rightarrow> 64 < nbits b \<and> length v = nbits b)"

text \<open>No mask bit is set beyond the length; the mask constructor leaves this to its caller.\<close>

definition bv_clean :: "NLBitVecDynamic \<Rightarrow> bool" where
  "bv_clean b \<longleftrightarrow> bv_wf b \<and> (case bdata b of Mask m \<Rightarrow> unat m < 2 ^ nbits b | Vec v \<Rightarrow> True)"

definition bv_get :: "NLBitVecDynamic \<Rightarrow> nat \<Rightarrow> bool" where
  "bv_get b i \<longleftrightarrow> i < nbits b \<and> (case bdata b of Mask m \<Rightarrow> bit m i | Vec v \<Rightarrow> v ! i)"

definition bv_value :: "NLBitVecDynamic \<Rightarrow> nat" where
  "bv_value b = row_of (nbits b) (bv_get b)"

lemma bv_wf_default [simp]: "bv_wf bv_default"
  by (simp add: bv_wf_def bv_default_def)

lemma bv_wf_zero [simp]: "bv_wf (bv_zero n)"
  by (simp add: bv_wf_def bv_zero_def)

lemma bv_wf_of_mask: "bv_of_mask m n = Inr b \<Longrightarrow> bv_wf b \<and> nbits b = n"
  by (auto simp: bv_of_mask_def bv_wf_def split: if_splits)

lemma bv_wf_of_bits: "bv_of_bits v n = Inr b \<Longrightarrow> length v = n \<Longrightarrow> bv_wf b \<and> nbits b = n"
  by (auto simp: bv_of_bits_def bv_wf_def split: if_splits)

lemma bv_get_beyond [simp]: "nbits b \<le> i \<Longrightarrow> \<not> bv_get b i"
  by (simp add: bv_get_def)

lemma bv_shr_get [simp]: "bv_wf b \<Longrightarrow> bv_shr b i = Inr (bv_get b i)"
  by (auto simp: bv_shr_def bv_get_def bv_wf_def split: bv_data.splits)

lemma bv_bit_get [simp]: "bv_wf b \<Longrightarrow> i < nbits b \<Longrightarrow> bv_bit b i = Inr (bv_get b i)"
  by (auto simp: bv_bit_def bv_get_def bv_wf_def split: bv_data.splits)

lemma or_loop_spec:
  "\<forall>i\<in>set is. i < length v \<Longrightarrow>
   or_loop m is v = Inr (map (\<lambda>i. v ! i \<or> (i \<in> set is \<and> bit m i)) [0..<length v])"
proof (induction "is" arbitrary: v)
  case Nil
  then show ?case by (simp add: map_nth)
next
  case (Cons i "is")
  then show ?case
    by (auto simp: nth_list_update intro!: map_cong)
qed

lemma bv_or_spec:
  assumes "bv_wf b"
  obtains c where "bv_or b m = Inr c" "bv_wf c" "nbits c = nbits b"
    "\<And>i. bv_get c i \<longleftrightarrow> bv_get b i \<or> (i < nbits b \<and> bit m i)"
proof (cases "bdata b")
  case (Mask w)
  with assms that [of "b\<lparr>bdata := Mask (w OR m)\<rparr>"] show ?thesis
    by (auto simp: bv_or_def bv_wf_def bv_get_def bit_or_iff)
next
  case (Vec v)
  with assms have n: "64 < nbits b" "length v = nbits b"
    by (auto simp: bv_wf_def)
  let ?v = "map (\<lambda>i. v ! i \<or> (i \<in> set [0..<min (nbits b) 64] \<and> bit m i)) [0..<length v]"
  have "or_loop m [0..<min (nbits b) 64] v = Inr ?v"
    by (rule or_loop_spec) (use n in auto)
  then have 1: "bv_or b m = Inr (b\<lparr>bdata := Vec ?v\<rparr>)"
    using Vec by (simp add: bv_or_def)
  have 2: "bv_wf (b\<lparr>bdata := Vec ?v\<rparr>)"
    using n by (simp add: bv_wf_def)
  have 3: "bv_get (b\<lparr>bdata := Vec ?v\<rparr>) i \<longleftrightarrow> bv_get b i \<or> (i < nbits b \<and> bit m i)" for i
    using Vec n by (cases "i < nbits b") (auto simp: bv_get_def dest: bit_u64_bound)
  show ?thesis by (rule that [OF 1 2 _ 3]) simp
qed

lemma and_loop_spec:
  "\<forall>i\<in>set is. i < length v \<Longrightarrow> distinct is \<Longrightarrow> length out = length v \<Longrightarrow>
   and_loop m v is out =
     Inr (map (\<lambda>i. if i \<in> set is then v ! i \<and> bit m i else out ! i) [0..<length v])"
proof (induction "is" arbitrary: out)
  case Nil
  then show ?case using map_nth [of out] by simp
next
  case (Cons i "is")
  then show ?case
    by (auto simp: nth_list_update intro!: map_cong)
qed

lemma bv_and_spec:
  assumes "bv_wf b"
  obtains c where "bv_and b m = Inr c" "bv_wf c" "nbits c = nbits b"
    "\<And>i. bv_get c i \<longleftrightarrow> bv_get b i \<and> bit m i"
proof (cases "bdata b")
  case (Mask w)
  with assms that [of "\<lparr>nbits = nbits b, bdata = Mask (w AND m)\<rparr>"] show ?thesis
    by (auto simp: bv_and_def bv_of_mask_def bv_wf_def bv_get_def bit_and_iff)
next
  case (Vec v)
  with assms have n: "64 < nbits b" "length v = nbits b"
    by (auto simp: bv_wf_def)
  let ?v = "map (\<lambda>i. if i \<in> set [0..<min (nbits b) 64] then v ! i \<and> bit m i
    else replicate (nbits b) False ! i) [0..<length v]"
  have "and_loop m v [0..<min (nbits b) 64] (replicate (nbits b) False) = Inr ?v"
    by (rule and_loop_spec) (use n in auto)
  then have 1: "bv_and b m = Inr ((bv_zero (nbits b))\<lparr>bdata := Vec ?v\<rparr>)"
    using Vec by (simp add: bv_and_def)
  have 2: "bv_wf ((bv_zero (nbits b))\<lparr>bdata := Vec ?v\<rparr>)"
    using n by (simp add: bv_wf_def bv_zero_def)
  have 3: "bv_get ((bv_zero (nbits b))\<lparr>bdata := Vec ?v\<rparr>) i \<longleftrightarrow> bv_get b i \<and> bit m i" for i
    using Vec n by (cases "i < nbits b") (auto simp: bv_get_def bv_zero_def dest: bit_u64_bound)
  show ?thesis by (rule that [OF 1 2 _ 3]) (simp add: bv_zero_def)
qed

section \<open>Packing into 64-bit chunks\<close>

lemma bit_push_one [simp]: "bit ((2 :: u64) ^ k) j \<longleftrightarrow> j = k \<and> k < 64"
  by (auto simp: bit_exp_iff)

lemma length_pack_loop [simp]: "length (pack_loop bs is out) = length out"
  by (induction bs "is" out rule: pack_loop.induct) auto

lemma pack_loop_bit:
  "\<forall>i\<in>set is. i div 64 < length out \<Longrightarrow> w < length out \<Longrightarrow> j < 64 \<Longrightarrow>
   bit (pack_loop bs is out ! w) j \<longleftrightarrow>
     bit (out ! w) j \<or> (64 * w + j \<in> set is \<and> bs ! (64 * w + j))"
proof (induction "is" arbitrary: out)
  case Nil
  then show ?case by simp
next
  case (Cons i "is")
  have key: "i div 64 = w \<and> i mod 64 = j \<longleftrightarrow> i = 64 * w + j"
    using Cons.prems(3) by auto
  show ?case
  proof (cases "bs ! i")
    case True
    let ?out = "out[i div 64 := out ! (i div 64) OR push_bit (i mod 64) 1]"
    have "bit (?out ! w) j \<longleftrightarrow> bit (out ! w) j \<or> (i = 64 * w + j)"
      using Cons.prems key by (auto simp: nth_list_update bit_or_iff)
    with True Cons show ?thesis by auto
  next
    case False
    with Cons show ?thesis by auto
  qed
qed

lemma packBits_bit:
  assumes "i < length bs"
  shows "i div 64 < length (packBits bs) \<and> (bit (packBits bs ! (i div 64)) (i mod 64) \<longleftrightarrow> bs ! i)"
proof -
  have w: "i div 64 < (length bs + 63) div 64" using assms by (simp add: less_eq_div_iff_mult_less_eq Suc_le_eq [symmetric])
  show ?thesis
    unfolding packBits_def
    using assms w by (subst pack_loop_bit) auto
qed

lemma length_packBits: "length (packBits bs) = (length bs + 63) div 64"
  by (simp add: packBits_def)

section \<open>The order\<close>

lemma row_of_mono_top:
  "a (n::nat) = False \<Longrightarrow> b n = True \<Longrightarrow> row_of (Suc n) a < row_of (Suc n) b"
  using row_of_less [of n a] by (simp del: row_of_less)

lemma less_loop_row:
  "bv_wf b \<Longrightarrow> bv_wf c \<Longrightarrow>
   less_loop b c n = Inr (row_of n (bv_get b) < row_of n (bv_get c))"
proof (induction n)
  case 0
  then show ?case by simp
next
  case (Suc n)
  have g: "(if n < nbits d then bv_shr d n else Inr False) = Inr (bv_get d n)" if "bv_wf d" for d
    using that by simp
  show ?case
    using Suc g [of b] g [of c] row_of_less [of n "bv_get b"] row_of_less [of n "bv_get c"]
    by (auto simp del: row_of_less)
qed

lemma row_of_extend:
  "(\<And>i. n \<le> i \<Longrightarrow> \<not> a i) \<Longrightarrow> n \<le> m \<Longrightarrow> row_of m a = row_of n a"
  by (induction m) (auto simp: le_Suc_eq)

lemma bv_value_mask:
  "bv_clean b \<Longrightarrow> bdata b = Mask m \<Longrightarrow> bv_value b = unat m"
proof -
  assume c: "bv_clean b" "bdata b = Mask m"
  then have lt: "unat m < 2 ^ nbits b" by (simp add: bv_clean_def)
  have "row_of (nbits b) (bv_get b) = row_of (nbits b) (bit (unat m))"
    by (rule row_of_cong) (simp add: bv_get_def c bit_unsigned_iff)
  with lt show ?thesis
    by (simp add: bv_value_def row_of_bit)
qed

lemma bv_less_value:
  assumes "bv_clean b" "bv_clean c"
  shows "bv_less b c = Inr (bv_value b < bv_value c)"
proof (cases "\<exists>x y. bdata b = Mask x \<and> bdata c = Mask y")
  case True
  with assms show ?thesis
    by (auto simp: bv_less_def bv_value_mask word_less_nat_alt)
next
  case False
  have wf: "bv_wf b" "bv_wf c" using assms by (auto simp: bv_clean_def)
  let ?n = "max (nbits b) (nbits c)"
  have "bv_less b c = less_loop b c ?n"
    using False by (auto simp: bv_less_def split: bv_data.splits)
  also have "\<dots> = Inr (row_of ?n (bv_get b) < row_of ?n (bv_get c))"
    using wf by (rule less_loop_row)
  also have "row_of ?n (bv_get b) = bv_value b"
    unfolding bv_value_def by (rule row_of_extend) auto
  also have "row_of ?n (bv_get c) = bv_value c"
    unfolding bv_value_def by (rule row_of_extend) auto
  finally show ?thesis .
qed

end
