(* ===== verification/BitDeps.thy ===== *)
theory BitDeps
  imports Naja_Prelude
begin

unbundle bit_operations_syntax

text \<open>
  \<^verbatim>\<open>src/nl/netlist/decorators/NLBitDependencies.cpp\<close>: sets of bit positions packed into 64-bit
  blocks.  \<open>dep_set\<close> is the set a block vector stands for; encoding, decoding, counting and the
  hole test are related to it.
\<close>

section \<open>Operations\<close>

fun encode_loop :: "nat list \<Rightarrow> u64 list \<Rightarrow> u64 list" where
  "encode_loop [] result = result"
| "encode_loop (pos # ps) result =
     encode_loop ps (result[pos div 64 := result ! (pos div 64) OR push_bit (pos mod 64) 1])"

definition encodeBits :: "nat list \<Rightarrow> u64 list" where
  "encodeBits positions = (if positions = [] then []
     else encode_loop positions (replicate (foldr max positions 0 div 64 + 1) 0))"

definition countBits :: "u64 \<Rightarrow> nat" where
  "countBits x = popcount x"

definition countBitsForVector :: "u64 list \<Rightarrow> nat" where
  "countBitsForVector blocks = foldl (\<lambda>n block. n + popcount block) 0 blocks"

text \<open>
  The \<open>while (x != 0)\<close> loop over one block.  The position is computed as
  \<open>(DesignObjectID) blockIdx * 64 + bit\<close>, whose product is a 32-bit one.
\<close>

function decode_block :: "nat \<Rightarrow> u64 \<Rightarrow> nat list" where
  "decode_block blockIdx x = (if x = 0 then []
     else (u32 (u32 blockIdx * 64) + countr_zero x) # decode_block blockIdx (x AND (x - 1)))"
  by pat_completeness auto
termination
  by (relation "measure (\<lambda>(b, x). popcount x)")
    (auto simp: clear_lowest popcount_unset countr_zero_bit)

declare decode_block.simps [simp del]

fun decode_loop :: "nat \<Rightarrow> u64 list \<Rightarrow> nat list" where
  "decode_loop blockIdx [] = []"
| "decode_loop blockIdx (x # xs) = decode_block blockIdx x @ decode_loop (Suc blockIdx) xs"

definition decodeBits :: "u64 list \<Rightarrow> nat list" where
  "decodeBits blocks = decode_loop 0 blocks"

text \<open>
  \<open>isSimple\<close>: the inner loop over the 64 bits of a block carries \<open>found_zero_bit\<close> and returns
  \<open>None\<close> where the source returns false.
\<close>

fun simple_bits :: "bool list \<Rightarrow> bool \<Rightarrow> bool option" where
  "simple_bits [] found_zero = Some found_zero"
| "simple_bits (bit_set # bs) found_zero =
     (if bit_set then (if found_zero then None else simple_bits bs found_zero)
      else simple_bits bs True)"

fun simple_blocks :: "u64 list \<Rightarrow> bool \<Rightarrow> bool" where
  "simple_blocks [] found_zero = True"
| "simple_blocks (block # blocks) found_zero =
     (case simple_bits (map (bit block) [0..<64]) found_zero of
        None \<Rightarrow> False
      | Some found_zero' \<Rightarrow> simple_blocks blocks found_zero')"

definition isSimple :: "u64 list \<Rightarrow> bool" where
  "isSimple blocks = simple_blocks blocks False"

section \<open>The set of positions\<close>

definition dep_bit :: "u64 list \<Rightarrow> nat \<Rightarrow> bool" where
  "dep_bit blocks p \<longleftrightarrow> p div 64 < length blocks \<and> bit (blocks ! (p div 64)) (p mod 64)"

definition dep_set :: "u64 list \<Rightarrow> nat set" where
  "dep_set blocks = {p. dep_bit blocks p}"

lemma dep_bit_bound: "dep_bit blocks p \<Longrightarrow> p < 64 * length blocks"
  by (auto simp: dep_bit_def)

lemma finite_dep_set [simp]: "finite (dep_set blocks)"
  by (rule finite_subset [of _ "{..<64 * length blocks}"]) (auto simp: dep_set_def dep_bit_bound)

lemma dep_bit_Nil [simp]: "\<not> dep_bit [] p"
  by (simp add: dep_bit_def)

lemma dep_set_Nil [simp]: "dep_set [] = {}"
  by (simp add: dep_set_def)

lemma dep_bit_Cons:
  "dep_bit (x # xs) p \<longleftrightarrow> (if p < 64 then bit x p else dep_bit xs (p - 64))"
proof (cases "p < 64")
  case True
  then show ?thesis by (simp add: dep_bit_def)
next
  case False
  then obtain q where p: "p = 64 + q" by (metis le_iff_add not_less)
  then have "p div 64 = Suc (q div 64)" by simp
  with p show ?thesis by (simp add: dep_bit_def)
qed

subsection \<open>Encoding\<close>

lemma bit_two_power: "bit ((2 :: u64) ^ k) j \<longleftrightarrow> j = k \<and> k < 64"
  by (auto simp: bit_exp_iff)

lemma length_encode_loop [simp]: "length (encode_loop ps r) = length r"
  by (induction ps r rule: encode_loop.induct) auto

lemma encode_loop_bit:
  "\<forall>p\<in>set ps. p div 64 < length r \<Longrightarrow> dep_bit (encode_loop ps r) p \<longleftrightarrow> dep_bit r p \<or> p \<in> set ps"
proof (induction ps arbitrary: r)
  case Nil
  then show ?case by simp
next
  case (Cons q ps)
  let ?r = "r[q div 64 := r ! (q div 64) OR push_bit (q mod 64) 1]"
  have "p div 64 = q div 64 \<and> p mod 64 = q mod 64 \<longleftrightarrow> p = q"
    by (metis mult_div_mod_eq)
  then have "dep_bit ?r p \<longleftrightarrow> dep_bit r p \<or> p = q"
    using Cons.prems by (auto simp: dep_bit_def nth_list_update bit_or_iff bit_two_power)
  then show ?case using Cons by auto
qed

lemma foldr_max_upper: "p \<in> set ps \<Longrightarrow> p \<le> foldr max ps (0::nat)"
  by (induction ps) auto

lemma foldr_max_in: "ps \<noteq> [] \<Longrightarrow> foldr max ps (0::nat) \<in> set ps"
proof (induction ps)
  case (Cons p ps)
  then show ?case by (cases "ps = []") (auto simp: max_def)
qed simp

lemma dep_set_encodeBits [simp]: "dep_set (encodeBits ps) = set ps"
proof (cases "ps = []")
  case True
  then show ?thesis by (simp add: encodeBits_def)
next
  case False
  have "dep_bit (encodeBits ps) p \<longleftrightarrow> p \<in> set ps" for p
  proof -
    have "\<forall>q\<in>set ps. q div 64 < foldr max ps 0 div 64 + 1"
      by (auto simp: less_Suc_eq_le intro: div_le_mono foldr_max_upper)
    then have "dep_bit (encodeBits ps) p \<longleftrightarrow>
        dep_bit (replicate (foldr max ps 0 div 64 + 1) 0) p \<or> p \<in> set ps"
      using False by (simp add: encodeBits_def encode_loop_bit del: replicate.simps)
    then show ?thesis
      by (auto simp: dep_bit_def nth_replicate simp del: replicate.simps)
  qed
  then show ?thesis by (simp add: dep_set_def)
qed

lemma length_encodeBits:
  "ps \<noteq> [] \<Longrightarrow> length (encodeBits ps) = foldr max ps 0 div 64 + 1"
  by (simp add: encodeBits_def)

subsection \<open>Decoding and counting\<close>

lemma filter_bits_unfold:
  assumes "x \<noteq> 0"
  shows "filter (bit x) [0..<64] =
    countr_zero x # filter (bit (x AND (x - 1))) [0..<64]"
proof -
  let ?k = "countr_zero x"
  have k: "bit x ?k" "?k < 64"
    using assms countr_zero_bit bit_u64_bound by blast+
  have split: "[0..<64] = [0..<?k] @ ?k # [Suc ?k..<64]"
    using k(2) by (metis upt_add_eq_append upt_conv_Cons add.left_neutral le_add_diff_inverse
        less_or_eq_imp_le zero_le)
  have low: "filter (bit x) [0..<?k] = []" "filter (bit (unset_bit ?k x)) [0..<?k] = []"
    by (auto simp: filter_empty_conv bit_unset_bit_iff dest: countr_zero_less)
  have high: "filter (bit (unset_bit ?k x)) [Suc ?k..<64] = filter (bit x) [Suc ?k..<64]"
    by (rule filter_cong) (auto simp: bit_unset_bit_iff)
  show ?thesis
    unfolding clear_lowest [OF assms] split
    by (simp add: low high k bit_unset_bit_iff)
qed

lemma decode_block_filter:
  "64 * b < 2 ^ 32 \<Longrightarrow> decode_block b x = map (\<lambda>i. 64 * b + i) (filter (bit x) [0..<64])"
proof (induction b x rule: decode_block.induct)
  case (1 b x)
  show ?case
  proof (cases "x = 0")
    case True
    then show ?thesis by (simp add: decode_block.simps filter_empty_conv)
  next
    case False
    have "u32 (u32 b * 64) = 64 * b"
      using "1.prems" by (simp add: mult.commute)
    then show ?thesis
      using False 1 by (simp add: decode_block.simps [of b x] filter_bits_unfold)
  qed
qed

lemma upt_block: "[0..<64 * Suc n] = [0..<64] @ map (\<lambda>i. 64 + i) [0..<64 * n]"
proof -
  have "[0..<64 + 64 * n] = [0..<64] @ [64..<64 + 64 * n]"
    by (subst upt_add_eq_append) simp_all
  moreover have "[64..<64 + 64 * n] = map (\<lambda>i. 64 + i) [0..<64 * n]"
    by (simp add: map_add_upt add.commute)
  ultimately show ?thesis by simp
qed

lemma filter_dep_bit_Cons:
  "filter (dep_bit (x # xs)) [0..<64 * length (x # xs)] =
     filter (bit x) [0..<64] @ map (\<lambda>i. 64 + i) (filter (dep_bit xs) [0..<64 * length xs])"
proof -
  have "filter (dep_bit (x # xs)) [0..<64] = filter (bit x) [0..<64]"
    by (rule filter_cong) (auto simp: dep_bit_Cons)
  moreover have "filter (dep_bit (x # xs)) (map (\<lambda>i. 64 + i) ys) = map (\<lambda>i. 64 + i) (filter (dep_bit xs) ys)" for ys
    by (simp add: filter_map comp_def dep_bit_Cons)
  ultimately show ?thesis
    using upt_block [of "length xs"] by simp
qed

lemma decode_loop_filter:
  "64 * (b + length xs) \<le> 2 ^ 32 \<Longrightarrow>
   decode_loop b xs = map (\<lambda>i. 64 * b + i) (filter (dep_bit xs) [0..<64 * length xs])"
proof (induction xs arbitrary: b)
  case Nil
  then show ?case by simp
next
  case (Cons x xs)
  have "decode_block b x = map (\<lambda>i. 64 * b + i) (filter (bit x) [0..<64])"
    using Cons.prems by (intro decode_block_filter) simp
  moreover have "decode_loop (Suc b) xs =
      map (\<lambda>i. 64 * Suc b + i) (filter (dep_bit xs) [0..<64 * length xs])"
    using Cons.prems by (intro Cons.IH) simp
  moreover have "(\<lambda>i. 64 * Suc b + i) = (\<lambda>i. 64 * b + i) \<circ> (\<lambda>i. 64 + i)"
    by (auto simp: fun_eq_iff)
  ultimately show ?case
    unfolding filter_dep_bit_Cons by (simp only: decode_loop.simps map_append map_map)
qed

lemma decodeBits_filter:
  "64 * length blocks \<le> 2 ^ 32 \<Longrightarrow> decodeBits blocks = filter (dep_bit blocks) [0..<64 * length blocks]"
  by (simp add: decodeBits_def decode_loop_filter)

lemma decodeBits_sorted:
  assumes "64 * length blocks \<le> 2 ^ 32"
  shows "decodeBits blocks = sorted_list_of_set (dep_set blocks)"
proof -
  let ?l = "filter (dep_bit blocks) [0..<64 * length blocks]"
  have "set ?l = dep_set blocks"
    by (auto simp: dep_set_def dest: dep_bit_bound)
  moreover have "sorted ?l" "distinct ?l"
    by (simp_all add: sorted_wrt_filter distinct_filter)
  ultimately have "?l = sorted_list_of_set (dep_set blocks)"
    using sorted_list_of_set.idem_if_sorted_distinct by metis
  with assms show ?thesis by (simp add: decodeBits_filter)
qed

lemma countBitsForVector_filter:
  "foldl (\<lambda>n block. n + popcount block) k xs = k + length (filter (dep_bit xs) [0..<64 * length xs])"
proof (induction xs arbitrary: k)
  case Nil
  then show ?case by simp
next
  case (Cons x xs)
  show ?case
    unfolding filter_dep_bit_Cons by (simp add: Cons.IH) (simp add: popcount_def)
qed

lemma countBitsForVector_card: "countBitsForVector blocks = card (dep_set blocks)"
proof -
  let ?l = "filter (dep_bit blocks) [0..<64 * length blocks]"
  have "countBitsForVector blocks = length ?l"
    by (simp add: countBitsForVector_def countBitsForVector_filter)
  also have "\<dots> = card (set ?l)"
    by (subst distinct_card) auto
  also have "set ?l = dep_set blocks"
    by (auto simp: dep_set_def dest: dep_bit_bound)
  finally show ?thesis .
qed

subsection \<open>The hole test\<close>

lemma simple_bits_append:
  "simple_bits (xs @ ys) f = Option.bind (simple_bits xs f) (simple_bits ys)"
  by (induction xs f rule: simple_bits.induct) auto

lemma simple_bits_True: "simple_bits bs True \<noteq> None \<longleftrightarrow> True \<notin> set bs"
  by (induction bs) auto

lemma simple_bits_False:
  "simple_bits bs False \<noteq> None \<longleftrightarrow> (\<forall>j < length bs. bs ! j \<longrightarrow> (\<forall>i < j. bs ! i))"
proof (induction bs)
  case Nil
  then show ?case by simp
next
  case (Cons b bs)
  have un: "(\<forall>j < length (b # bs). (b # bs) ! j \<longrightarrow> (\<forall>i < j. (b # bs) ! i)) \<longleftrightarrow>
      (\<forall>j < length bs. bs ! j \<longrightarrow> b \<and> (\<forall>i < j. bs ! i))"
    by (simp add: All_less_Suc2)
  show ?case
  proof (cases b)
    case True
    then show ?thesis using Cons unfolding un by simp
  next
    case False
    have "True \<notin> set bs \<longleftrightarrow> (\<forall>j<length bs. \<not> bs ! j)"
      by (auto simp: in_set_conv_nth)
    with False show ?thesis
      unfolding un using simple_bits_True [of bs] by simp
  qed
qed

definition flat_bits :: "u64 list \<Rightarrow> bool list" where
  "flat_bits xs = map (dep_bit xs) [0..<64 * length xs]"

lemma flat_bits_Cons: "flat_bits (x # xs) = map (bit x) [0..<64] @ flat_bits xs"
proof -
  have "map (dep_bit (x # xs)) [0..<64] = map (bit x) [0..<64]"
    by (rule map_cong) (auto simp: dep_bit_Cons)
  then show ?thesis
    using upt_block [of "length xs"] by (simp add: flat_bits_def comp_def dep_bit_Cons)
qed

lemma simple_blocks_flat: "simple_blocks xs f \<longleftrightarrow> simple_bits (flat_bits xs) f \<noteq> None"
proof (induction xs f rule: simple_blocks.induct)
  case (1 f)
  then show ?case by (simp add: flat_bits_def)
next
  case (2 x xs f)
  then show ?case
    unfolding flat_bits_Cons simple_bits_append by (auto split: option.splits)
qed

lemma down_closed_nat_set:
  "finite S \<Longrightarrow> (\<forall>j\<in>S. \<forall>i<j. i \<in> S) \<longleftrightarrow> S = {..<card S}" for S :: "nat set"
proof
  assume fin: "finite S" and dc: "\<forall>j\<in>S. \<forall>i<j. i \<in> S"
  show "S = {..<card S}"
  proof (cases "S = {}")
    case False
    define m where "m = Max S"
    have "m \<in> S" using fin False by (simp add: m_def)
    then have "{..<Suc m} \<subseteq> S"
      using dc by (auto simp: less_Suc_eq)
    moreover have "S \<subseteq> {..<Suc m}"
      using fin by (auto simp: m_def less_Suc_eq_le)
    ultimately show ?thesis by (metis card_lessThan subset_antisym)
  qed simp
next
  assume S: "S = {..<card S}"
  show "\<forall>j\<in>S. \<forall>i<j. i \<in> S"
    by (subst (1 2) S) auto
qed

lemma isSimple_iff: "isSimple blocks \<longleftrightarrow> dep_set blocks = {..<card (dep_set blocks)}"
proof -
  have "isSimple blocks \<longleftrightarrow>
      (\<forall>j < 64 * length blocks. dep_bit blocks j \<longrightarrow> (\<forall>i < j. dep_bit blocks i))"
    unfolding isSimple_def simple_blocks_flat simple_bits_False by (auto simp: flat_bits_def)
  also have "\<dots> \<longleftrightarrow> (\<forall>j\<in>dep_set blocks. \<forall>i<j. i \<in> dep_set blocks)"
    using dep_bit_bound by (auto simp: dep_set_def)
  also have "\<dots> \<longleftrightarrow> dep_set blocks = {..<card (dep_set blocks)}"
    by (rule down_closed_nat_set) simp
  finally show ?thesis .
qed

end
