(* ===== verification/TruthTable.thy ===== *)
theory TruthTable
  imports BitVec BitDeps
begin

unbundle bit_operations_syntax

text \<open>
  \<^verbatim>\<open>src/nl/netlist/decorators/SNLTruthTable.h\<close>, first half: the data members, the constructors and
  factories with their metadata check, the predicates that recognise gates, and the two operators
  \<open>==\<close> and \<open><\<close>.  A generic table stands for a function by its kind and metadata; a plain one
  (\<open>G_NONE\<close>) carries its \<open>2 ^ sz\<close> rows.  Sizes are naturals below \<open>2 ^ 32\<close>, the conversions
  from \<open>size_t\<close> and \<open>uint64_t\<close> are the \<open>u32\<close> of the definitions.
\<close>

section \<open>Data\<close>

datatype GenericType =
    G_NONE | G_OR | G_NOR | G_AND | G_NAND | G_XOR | G_XNOR
  | TABLE_SELECT | DIVMOD | ADD_SUB | MULTIPLY | SHIFT | ROM | VECTOR_UPDATE | VECTOR_SELECT

datatype DivModResult = QUOTIENT | REMAINDER

record WordMetadata =
  w_width :: nat
  w_outputBit :: nat
  w_countWidth :: nat
  w_subtract :: bool
  w_right :: bool
  w_arithmetic :: bool

record RomMetadata =
  r_addressSize :: nat
  r_depth :: nat
  r_column :: "bool list"

record VectorUpdateMetadata =
  u_width :: nat
  u_updateWidth :: nat
  u_addressSize :: nat
  u_outputBit :: nat
  u_isSigned :: bool

record VectorSelectMetadata =
  s_width :: nat
  s_selectWidth :: nat
  s_addressSize :: nat
  s_outputBit :: nat
  s_isSigned :: bool

definition word0 :: WordMetadata where
  "word0 = \<lparr>w_width = 0, w_outputBit = 0, w_countWidth = 0, w_subtract = False, w_right = False,
     w_arithmetic = False\<rparr>"

definition rom0 :: RomMetadata where
  "rom0 = \<lparr>r_addressSize = 0, r_depth = 0, r_column = []\<rparr>"

definition vupd0 :: VectorUpdateMetadata where
  "vupd0 = \<lparr>u_width = 0, u_updateWidth = 0, u_addressSize = 0, u_outputBit = 0, u_isSigned = False\<rparr>"

definition vsel0 :: VectorSelectMetadata where
  "vsel0 = \<lparr>s_width = 0, s_selectWidth = 0, s_addressSize = 0, s_outputBit = 0, s_isSigned = False\<rparr>"

record SNLTruthTable =
  tt_size :: nat
  tt_bits :: NLBitVecDynamic
  tt_deps :: "u64 list"
  tt_generic :: GenericType
  tt_selAddressSize :: nat
  tt_selDepth :: nat
  tt_divWidth :: nat
  tt_divSigned :: bool
  tt_divResult :: DivModResult
  tt_divOutputBit :: nat
  tt_word :: WordMetadata
  tt_rom :: RomMetadata
  tt_vupd :: VectorUpdateMetadata
  tt_vsel :: VectorSelectMetadata

definition tt_default :: SNLTruthTable where
  "tt_default = \<lparr>tt_size = 0, tt_bits = bv_default, tt_deps = [], tt_generic = G_NONE,
     tt_selAddressSize = 0, tt_selDepth = 0, tt_divWidth = 0, tt_divSigned = False,
     tt_divResult = QUOTIENT, tt_divOutputBit = 0, tt_word = word0, tt_rom = rom0,
     tt_vupd = vupd0, tt_vsel = vsel0\<rparr>"

section \<open>The metadata check\<close>

definition isWordArithmetic :: "SNLTruthTable \<Rightarrow> bool" where
  "isWordArithmetic t \<longleftrightarrow> tt_generic t = ADD_SUB \<or> tt_generic t = MULTIPLY \<or> tt_generic t = SHIFT"

definition word_inputs :: "GenericType \<Rightarrow> WordMetadata \<Rightarrow> nat" where
  "word_inputs g w = w_width w + (if g = SHIFT then w_countWidth w else w_width w)"

definition validateGenericMetadata :: "SNLTruthTable \<Rightarrow> unit result" where
  "validateGenericMetadata t =
    (if tt_generic t = VECTOR_SELECT then
       (if s_width (tt_vsel t) = 0 \<or> s_selectWidth (tt_vsel t) = 0 \<or> s_addressSize (tt_vsel t) = 0
           \<or> s_outputBit (tt_vsel t) \<ge> s_selectWidth (tt_vsel t)
           \<or> s_width (tt_vsel t) + s_addressSize (tt_vsel t) \<noteq> tt_size t
        then Inl (NLException ''Invalid VECTOR_SELECT truth table metadata'') else Inr ())
     else if tt_vsel t \<noteq> vsel0 then
       Inl (NLException ''Unexpected VECTOR_SELECT metadata on truth table'')
     else if tt_generic t = VECTOR_UPDATE then
       (if u_width (tt_vupd t) = 0 \<or> u_updateWidth (tt_vupd t) = 0 \<or> u_addressSize (tt_vupd t) = 0
           \<or> u_outputBit (tt_vupd t) \<ge> u_width (tt_vupd t)
           \<or> u_updateWidth (tt_vupd t) + u_addressSize (tt_vupd t) + 2 \<noteq> tt_size t
        then Inl (NLException ''Invalid VECTOR_UPDATE truth table metadata'') else Inr ())
     else if tt_vupd t \<noteq> vupd0 then
       Inl (NLException ''Unexpected VECTOR_UPDATE metadata on truth table'')
     else if tt_generic t = TABLE_SELECT then
       (if tt_selAddressSize t = 0 \<or> tt_selDepth t = 0
           \<or> tt_size t \<noteq> tt_selAddressSize t + tt_selDepth t
        then Inl (NLException ''Invalid TABLE_SELECT truth table metadata'') else Inr ())
     else if tt_generic t = DIVMOD then
       (if tt_selAddressSize t \<noteq> 0 \<or> tt_selDepth t \<noteq> 0 \<or> tt_divWidth t = 0
           \<or> tt_divWidth t > u32_max div 2 \<or> tt_size t \<noteq> u32 (tt_divWidth t * 2)
           \<or> tt_divOutputBit t \<ge> tt_divWidth t
        then Inl (NLException ''Invalid DIVMOD truth table metadata'') else Inr ())
     else if tt_generic t = ROM then
       (if tt_selAddressSize t \<noteq> 0 \<or> tt_selDepth t \<noteq> 0 \<or> tt_divWidth t \<noteq> 0 \<or> tt_word t \<noteq> word0
           \<or> r_addressSize (tt_rom t) = 0 \<or> r_addressSize (tt_rom t) \<ge> 64 \<or> r_depth (tt_rom t) = 0
           \<or> r_depth (tt_rom t) > 2 ^ r_addressSize (tt_rom t)
           \<or> tt_size t \<noteq> r_addressSize (tt_rom t) \<or> length (r_column (tt_rom t)) \<noteq> r_depth (tt_rom t)
        then Inl (NLException ''Invalid ROM truth table metadata'') else Inr ())
     else if isWordArithmetic t then
       (if tt_selAddressSize t \<noteq> 0 \<or> tt_selDepth t \<noteq> 0 \<or> tt_divWidth t \<noteq> 0 \<or> w_width (tt_word t) = 0
           \<or> w_outputBit (tt_word t) \<ge> w_width (tt_word t)
           \<or> tt_size t \<noteq> word_inputs (tt_generic t) (tt_word t)
           \<or> (tt_generic t = SHIFT) \<noteq> (w_countWidth (tt_word t) \<noteq> 0)
           \<or> tt_generic t \<noteq> ADD_SUB \<and> w_subtract (tt_word t)
           \<or> tt_generic t \<noteq> SHIFT \<and> (w_right (tt_word t) \<or> w_arithmetic (tt_word t))
           \<or> w_arithmetic (tt_word t) \<and> \<not> w_right (tt_word t)
        then Inl (NLException ''Invalid word arithmetic truth table metadata'') else Inr ())
     else if tt_selAddressSize t \<noteq> 0 \<or> tt_selDepth t \<noteq> 0 then
       Inl (NLException ''Unexpected table select metadata on truth table'')
     else if tt_divWidth t \<noteq> 0 \<or> tt_divSigned t \<or> tt_divResult t \<noteq> QUOTIENT \<or> tt_divOutputBit t \<noteq> 0 then
       Inl (NLException ''Unexpected DIVMOD metadata on truth table'')
     else if tt_word t \<noteq> word0 then
       Inl (NLException ''Unexpected word arithmetic metadata on truth table'')
     else if tt_rom t \<noteq> rom0 then
       Inl (NLException ''Unexpected ROM metadata on truth table'')
     else Inr ())"

section \<open>Constructors\<close>

definition fullDependencies :: "nat \<Rightarrow> u64 list" where
  "fullDependencies sz = (if sz = 0 then [] else encodeBits [0..<sz])"

definition too_many_deps :: cpp_error where
  "too_many_deps = NLException ''Dependencies count cannot exceed truth table size''"

text \<open>\<open>SNLTruthTable(size_t, GenericType, deps)\<close> and the overload with table select metadata.\<close>

definition tt_of_generic_sel ::
  "nat \<Rightarrow> GenericType \<Rightarrow> u64 list \<Rightarrow> nat \<Rightarrow> nat \<Rightarrow> SNLTruthTable result" where
  "tt_of_generic_sel sz g deps addressSize depth =
     (let t = tt_default\<lparr>tt_size := u32 sz, tt_deps := deps, tt_generic := g,
                tt_selAddressSize := addressSize, tt_selDepth := depth\<rparr>
      in rbind (require (\<not> (sz > 0 \<and> countBitsForVector deps > sz)) too_many_deps)
           (\<lambda>_. rbind (validateGenericMetadata t) (\<lambda>_. Inr t)))"

definition tt_of_generic :: "nat \<Rightarrow> GenericType \<Rightarrow> u64 list \<Rightarrow> SNLTruthTable result" where
  "tt_of_generic sz g deps =
     (let t = tt_default\<lparr>tt_size := u32 sz, tt_deps := deps, tt_generic := g\<rparr>
      in rbind (require (\<not> (sz > 0 \<and> countBitsForVector deps > sz)) too_many_deps)
           (\<lambda>_. rbind (validateGenericMetadata t) (\<lambda>_. Inr t)))"

text \<open>\<open>SNLTruthTable(uint32_t, uint64_t, deps)\<close>: at most 6 inputs.\<close>

definition tt_of_mask :: "nat \<Rightarrow> u64 \<Rightarrow> u64 list \<Rightarrow> SNLTruthTable result" where
  "tt_of_mask sz m deps =
     rbind (require (sz \<le> 6)
        (NLException (''Cannot create SNLTruthTable with bits_: '' @ to_string (unat m) @
           '' and size: '' @ to_string sz @ '' (max=6)'')))
     (\<lambda>_. rbind (shl1_u32 sz) (\<lambda>n. rbind (bv_of_mask m n) (\<lambda>b.
        rbind (require (\<not> (sz > 0 \<and> countBitsForVector deps > sz)) too_many_deps)
          (\<lambda>_. Inr (tt_default\<lparr>tt_size := sz, tt_bits := b, tt_deps := deps\<rparr>)))))"

text \<open>\<open>SNLTruthTable(uint32_t, vector<bool>, deps)\<close>: more than 6 inputs.\<close>

definition tt_of_bits :: "nat \<Rightarrow> bool list \<Rightarrow> u64 list \<Rightarrow> SNLTruthTable result" where
  "tt_of_bits sz v deps =
     rbind (require (sz > 6) (NLException ''Should use mask constructor for 6 or less inputs''))
     (\<lambda>_. rbind (shl1_u32 sz) (\<lambda>n. rbind (bv_of_bits v n) (\<lambda>b.
        rbind (require (\<not> (sz > 0 \<and> countBitsForVector deps > sz)) too_many_deps)
          (\<lambda>_. Inr (tt_default\<lparr>tt_size := sz, tt_bits := b, tt_deps := deps\<rparr>)))))"

definition Logic0 :: "SNLTruthTable result" where "Logic0 = tt_of_mask 0 0 []"
definition Logic1 :: "SNLTruthTable result" where "Logic1 = tt_of_mask 0 1 []"
definition Inv :: "SNLTruthTable result" where "Inv = tt_of_mask 1 1 (fullDependencies 1)"
definition Buf :: "SNLTruthTable result" where "Buf = tt_of_mask 1 2 (fullDependencies 1)"

definition TableSelect :: "nat \<Rightarrow> nat \<Rightarrow> u64 list \<Rightarrow> SNLTruthTable result" where
  "TableSelect addressSize depth deps =
     tt_of_generic_sel (addressSize + depth) TABLE_SELECT deps addressSize depth"

definition DivMod :: "nat \<Rightarrow> bool \<Rightarrow> DivModResult \<Rightarrow> nat \<Rightarrow> u64 list \<Rightarrow> SNLTruthTable result" where
  "DivMod width isSigned res outputBit deps =
     (if width = 0 \<or> width > u32_max div 2 then Inl (NLException ''Invalid DIVMOD truth table width'')
      else if outputBit \<ge> width then Inl (NLException ''DIVMOD truth table output bit is out of range'')
      else if countBitsForVector deps \<noteq> u32 (width * 2)
      then Inl (NLException ''DIVMOD truth table must depend on every operand bit'')
      else let t = tt_default\<lparr>tt_size := u32 (width * 2), tt_deps := deps, tt_generic := DIVMOD,
             tt_divWidth := width, tt_divSigned := isSigned, tt_divResult := res,
             tt_divOutputBit := outputBit\<rparr>
           in rbind (validateGenericMetadata t) (\<lambda>_. Inr t))"

definition Word_table :: "GenericType \<Rightarrow> WordMetadata \<Rightarrow> u64 list \<Rightarrow> SNLTruthTable result" where
  "Word_table g w deps =
     (if word_inputs g w > u32_max \<or> countBitsForVector deps \<noteq> word_inputs g w
      then Inl (NLException ''Word arithmetic truth table must depend on every operand bit'')
      else let t = tt_default\<lparr>tt_size := u32 (word_inputs g w), tt_deps := deps, tt_generic := g,
             tt_word := w\<rparr>
           in rbind (validateGenericMetadata t) (\<lambda>_. Inr t))"

definition AddSub :: "nat \<Rightarrow> bool \<Rightarrow> nat \<Rightarrow> u64 list \<Rightarrow> SNLTruthTable result" where
  "AddSub width subtract outputBit deps = Word_table ADD_SUB
     \<lparr>w_width = width, w_outputBit = outputBit, w_countWidth = 0, w_subtract = subtract,
      w_right = False, w_arithmetic = False\<rparr> deps"

definition Multiply :: "nat \<Rightarrow> nat \<Rightarrow> u64 list \<Rightarrow> SNLTruthTable result" where
  "Multiply width outputBit deps = Word_table MULTIPLY
     \<lparr>w_width = width, w_outputBit = outputBit, w_countWidth = 0, w_subtract = False,
      w_right = False, w_arithmetic = False\<rparr> deps"

definition Shift :: "nat \<Rightarrow> nat \<Rightarrow> bool \<Rightarrow> bool \<Rightarrow> nat \<Rightarrow> u64 list \<Rightarrow> SNLTruthTable result" where
  "Shift width countWidth right arithmetic outputBit deps = Word_table SHIFT
     \<lparr>w_width = width, w_outputBit = outputBit, w_countWidth = countWidth, w_subtract = False,
      w_right = right, w_arithmetic = arithmetic\<rparr> deps"

definition Rom :: "RomMetadata \<Rightarrow> u64 list \<Rightarrow> SNLTruthTable result" where
  "Rom rom deps =
     (if countBitsForVector deps \<noteq> r_addressSize rom
      then Inl (NLException ''ROM truth table must depend on every address bit'')
      else let t = tt_default\<lparr>tt_size := r_addressSize rom, tt_deps := deps, tt_generic := ROM,
             tt_rom := rom\<rparr>
           in rbind (validateGenericMetadata t) (\<lambda>_. Inr t))"

definition VectorUpdate :: "VectorUpdateMetadata \<Rightarrow> u64 list \<Rightarrow> SNLTruthTable result" where
  "VectorUpdate m deps =
     (let sz = u_updateWidth m + u_addressSize m + 2 in
      if sz > u32_max \<or> countBitsForVector deps \<noteq> sz
      then Inl (NLException ''Invalid VECTOR_UPDATE dependency count'')
      else let t = tt_default\<lparr>tt_generic := VECTOR_UPDATE, tt_vupd := m, tt_size := u32 sz,
             tt_deps := deps\<rparr>
           in rbind (validateGenericMetadata t) (\<lambda>_. Inr t))"

definition VectorSelect :: "VectorSelectMetadata \<Rightarrow> u64 list \<Rightarrow> SNLTruthTable result" where
  "VectorSelect m deps =
     (let sz = s_width m + s_addressSize m in
      if sz > u32_max \<or> countBitsForVector deps \<noteq> sz
      then Inl (NLException ''Invalid VECTOR_SELECT dependency count'')
      else let t = tt_default\<lparr>tt_generic := VECTOR_SELECT, tt_vsel := m, tt_size := u32 sz,
             tt_deps := deps\<rparr>
           in rbind (validateGenericMetadata t) (\<lambda>_. Inr t))"

section \<open>Queries\<close>

definition isNull :: "SNLTruthTable \<Rightarrow> bool" where
  "isNull t \<longleftrightarrow> tt_size t = u32_max"

definition isGeneric :: "SNLTruthTable \<Rightarrow> bool" where
  "isGeneric t \<longleftrightarrow> tt_generic t \<noteq> G_NONE"

definition isInitialized :: "SNLTruthTable \<Rightarrow> bool" where
  "isInitialized t \<longleftrightarrow> (if tt_size t = 0 then nbits (tt_bits t) \<noteq> 0
     else if tt_deps t = [] then False
     else isGeneric t \<or> nbits (tt_bits t) \<noteq> 0)"

text \<open>The loop of \<open>expectedGenericValue\<close> over the inputs: (hasZero, hasOne, oddParity).\<close>

fun gate_scan :: "bool list \<Rightarrow> bool \<times> bool \<times> bool \<Rightarrow> bool \<times> bool \<times> bool" where
  "gate_scan [] acc = acc"
| "gate_scan (v # vs) (z, o1, p) = gate_scan vs (z \<or> \<not> v, o1 \<or> v, p \<noteq> v)"

definition expectedGenericValue :: "SNLTruthTable \<Rightarrow> GenericType \<Rightarrow> nat \<Rightarrow> bool" where
  "expectedGenericValue t g idx =
     (case gate_scan (map (\<lambda>b. b < 64 \<and> bit idx b) [0..<tt_size t]) (False, False, False) of
        (hasZero, hasOne, oddParity) \<Rightarrow>
          (case g of
             G_AND \<Rightarrow> \<not> hasZero
           | G_NAND \<Rightarrow> hasZero
           | G_OR \<Rightarrow> hasOne
           | G_NOR \<Rightarrow> \<not> hasOne
           | G_XOR \<Rightarrow> oddParity
           | G_XNOR \<Rightarrow> \<not> oddParity
           | _ \<Rightarrow> False))"

fun rows_match :: "SNLTruthTable \<Rightarrow> GenericType \<Rightarrow> nat list \<Rightarrow> bool result" where
  "rows_match t g [] = Inr True"
| "rows_match t g (idx # is) = rbind (bv_bit (tt_bits t) idx)
     (\<lambda>v. if v \<noteq> expectedGenericValue t g idx then Inr False else rows_match t g is)"

definition isGenericOrEquivalent :: "SNLTruthTable \<Rightarrow> GenericType \<Rightarrow> bool result" where
  "isGenericOrEquivalent t g =
     (if tt_generic t = g then Inr True
      else if tt_generic t \<noteq> G_NONE \<or> \<not> isInitialized t \<or> tt_size t < 2 then Inr False
      else rows_match t g [0..<nbits (tt_bits t)])"

definition isAnd :: "SNLTruthTable \<Rightarrow> bool result" where "isAnd t = isGenericOrEquivalent t G_AND"
definition isNand :: "SNLTruthTable \<Rightarrow> bool result" where "isNand t = isGenericOrEquivalent t G_NAND"
definition isOr :: "SNLTruthTable \<Rightarrow> bool result" where "isOr t = isGenericOrEquivalent t G_OR"
definition isNor :: "SNLTruthTable \<Rightarrow> bool result" where "isNor t = isGenericOrEquivalent t G_NOR"
definition isXor :: "SNLTruthTable \<Rightarrow> bool result" where "isXor t = isGenericOrEquivalent t G_XOR"
definition isXnor :: "SNLTruthTable \<Rightarrow> bool result" where "isXnor t = isGenericOrEquivalent t G_XNOR"

definition isMux :: "SNLTruthTable \<Rightarrow> bool result" where
  "isMux t = (if tt_generic t = G_NONE \<and> isInitialized t \<and> \<not> isGeneric t \<and> tt_size t = 3
       \<and> nbits (tt_bits t) = 8
     then rbind (bv_to_u64 (tt_bits t)) (\<lambda>m. Inr (m = 0xCA)) else Inr False)"

definition getVectorUpdateMetadata :: "SNLTruthTable \<Rightarrow> VectorUpdateMetadata result" where
  "getVectorUpdateMetadata t = (if tt_generic t \<noteq> VECTOR_UPDATE
     then Inl (NLException ''Truth table is not a VECTOR_UPDATE generic'') else Inr (tt_vupd t))"

definition getVectorSelectMetadata :: "SNLTruthTable \<Rightarrow> VectorSelectMetadata result" where
  "getVectorSelectMetadata t = (if tt_generic t \<noteq> VECTOR_SELECT
     then Inl (NLException ''Truth table is not a VECTOR_SELECT generic'') else Inr (tt_vsel t))"

definition getTableSelectAddressSize :: "SNLTruthTable \<Rightarrow> nat result" where
  "getTableSelectAddressSize t = (if tt_generic t \<noteq> TABLE_SELECT
     then Inl (NLException ''Truth table is not a table select generic'') else Inr (tt_selAddressSize t))"

definition getTableSelectDepth :: "SNLTruthTable \<Rightarrow> nat result" where
  "getTableSelectDepth t = (if tt_generic t \<noteq> TABLE_SELECT
     then Inl (NLException ''Truth table is not a table select generic'') else Inr (tt_selDepth t))"

definition requireDivMod :: "SNLTruthTable \<Rightarrow> unit result" where
  "requireDivMod t = require (tt_generic t = DIVMOD)
     (NLException ''Truth table is not a DIVMOD generic'')"

definition getDivModWidth :: "SNLTruthTable \<Rightarrow> nat result" where
  "getDivModWidth t = rbind (requireDivMod t) (\<lambda>_. Inr (tt_divWidth t))"

definition getWordMetadata :: "SNLTruthTable \<Rightarrow> WordMetadata result" where
  "getWordMetadata t = (if \<not> isWordArithmetic t
     then Inl (NLException ''Truth table has no word arithmetic metadata'') else Inr (tt_word t))"

definition getRomMetadata :: "SNLTruthTable \<Rightarrow> RomMetadata result" where
  "getRomMetadata t = (if tt_generic t \<noteq> ROM
     then Inl (NLException ''Truth table has no ROM metadata'') else Inr (tt_rom t))"

text \<open>\<open>all0\<close> and \<open>all1\<close>: on a mask through its low \<open>2 ^ sz\<close> bits, otherwise a loop.\<close>

definition rows_mask :: "nat \<Rightarrow> u64" where
  "rows_mask sz = (if (2::nat) ^ sz < 64 then push_bit (2 ^ sz) 1 - 1 else - 1)"

definition all0 :: "SNLTruthTable \<Rightarrow> bool result" where
  "all0 t = (if nbits (tt_bits t) = 0 then Inr False
     else if tt_size t \<le> 6 then
       rbind (bv_to_u64 (tt_bits t)) (\<lambda>m. Inr (m AND rows_mask (tt_size t) = 0))
     else rbind (rmap (bv_bit (tt_bits t)) [0..<nbits (tt_bits t)])
       (\<lambda>bs. Inr (foldl (\<or>) False bs = False)))"

definition all1 :: "SNLTruthTable \<Rightarrow> bool result" where
  "all1 t = (if nbits (tt_bits t) = 0 then Inr False
     else if tt_size t \<le> 6 then
       rbind (bv_to_u64 (tt_bits t)) (\<lambda>m. Inr (m AND rows_mask (tt_size t) = rows_mask (tt_size t)))
     else rbind (rmap (bv_bit (tt_bits t)) [0..<nbits (tt_bits t)])
       (\<lambda>bs. Inr (foldl (\<and>) True bs)))"

section \<open>Well-formed tables and what they denote\<close>

text \<open>
  \<open>tt_wf\<close> is what every constructor and factory establishes: the metadata check passes, the
  dependencies fit, a plain table carries all its rows and a generic one no row.
\<close>

definition tt_wf :: "SNLTruthTable \<Rightarrow> bool" where
  "tt_wf t \<longleftrightarrow> tt_size t < 2 ^ 32 \<and> validateGenericMetadata t = Inr () \<and>
     (tt_size t > 0 \<longrightarrow> countBitsForVector (tt_deps t) \<le> tt_size t) \<and>
     (if tt_generic t = G_NONE
      then tt_size t < 32 \<and> bv_wf (tt_bits t) \<and> nbits (tt_bits t) = 2 ^ tt_size t
      else tt_bits t = bv_default)"

definition is_gate :: "GenericType \<Rightarrow> bool" where
  "is_gate g \<longleftrightarrow> g \<in> {G_AND, G_NAND, G_OR, G_NOR, G_XOR, G_XNOR}"

text \<open>The function of an \<open>n\<close>-input gate on a list of input values.\<close>

fun gate_fun :: "GenericType \<Rightarrow> bool list \<Rightarrow> bool" where
  "gate_fun G_AND vs \<longleftrightarrow> list_all id vs"
| "gate_fun G_NAND vs \<longleftrightarrow> \<not> list_all id vs"
| "gate_fun G_OR vs \<longleftrightarrow> list_ex id vs"
| "gate_fun G_NOR vs \<longleftrightarrow> \<not> list_ex id vs"
| "gate_fun G_XOR vs \<longleftrightarrow> odd (length (filter id vs))"
| "gate_fun G_XNOR vs \<longleftrightarrow> even (length (filter id vs))"
| "gate_fun _ vs \<longleftrightarrow> False"

text \<open>The value of a plain table or gate under an assignment of its inputs.\<close>

definition tt_eval :: "SNLTruthTable \<Rightarrow> (nat \<Rightarrow> bool) \<Rightarrow> bool" where
  "tt_eval t a = (if tt_generic t = G_NONE then bv_get (tt_bits t) (row_of (tt_size t) a)
     else gate_fun (tt_generic t) (map a [0..<tt_size t]))"

end
