(* ===== verification/TruthTableProps.thy ===== *)
theory TruthTableProps
  imports TruthTable
begin

unbundle bit_operations_syntax

text \<open>
  What the constructors and predicates of \<open>SNLTruthTable\<close> guarantee: every constructor that returns
  yields a well-formed table, the gate recognisers decide the function a table denotes, \<open>all0\<close>
  and \<open>all1\<close> decide constancy.
\<close>

section \<open>Constructors\<close>

lemma validate_mask_table [simp]:
  "validateGenericMetadata (tt_default\<lparr>tt_size := n, tt_bits := b, tt_deps := deps\<rparr>) = Inr ()"
  by (auto simp: validateGenericMetadata_def tt_default_def isWordArithmetic_def)

lemma validate_gate_table [simp]:
  "is_gate g \<Longrightarrow>
   validateGenericMetadata (tt_default\<lparr>tt_size := n, tt_deps := deps, tt_generic := g\<rparr>) = Inr ()"
  by (cases g) (simp_all add: validateGenericMetadata_def tt_default_def is_gate_def isWordArithmetic_def)

lemma tt_of_mask_Inr:
  assumes "n \<le> 6" "countBitsForVector deps \<le> n"
  shows "tt_of_mask n m deps =
    Inr (tt_default\<lparr>tt_size := n, tt_bits := \<lparr>nbits = 2 ^ n, bdata = Mask m\<rparr>, tt_deps := deps\<rparr>)"
proof -
  have "(2::nat) ^ n \<le> 2 ^ 6" using assms(1) by (rule power_increasing) simp
  then have "bv_of_mask m (2 ^ n) = Inr \<lparr>nbits = 2 ^ n, bdata = Mask m\<rparr>"
    by (simp add: bv_of_mask_def)
  with assms show ?thesis by (simp add: tt_of_mask_def)
qed

lemma tt_of_bits_Inr:
  assumes "6 < n" "n < 32" "countBitsForVector deps \<le> n"
  shows "tt_of_bits n v deps =
    Inr (tt_default\<lparr>tt_size := n, tt_bits := \<lparr>nbits = 2 ^ n, bdata = Vec v\<rparr>, tt_deps := deps\<rparr>)"
proof -
  have "(2::nat) ^ 7 \<le> 2 ^ n" using assms(1) by (intro power_increasing) simp_all
  then have "bv_of_bits v (2 ^ n) = Inr \<lparr>nbits = 2 ^ n, bdata = Vec v\<rparr>"
    by (simp add: bv_of_bits_def)
  with assms show ?thesis by (simp add: tt_of_bits_def)
qed

lemma tt_of_generic_Inr:
  assumes "is_gate g" "n < 2 ^ 32" "countBitsForVector deps \<le> n"
  shows "tt_of_generic n g deps = Inr (tt_default\<lparr>tt_size := n, tt_deps := deps, tt_generic := g\<rparr>)"
  using assms by (simp add: tt_of_generic_def)

lemma tt_wf_mask:
  "n \<le> 6 \<Longrightarrow> countBitsForVector deps \<le> n \<Longrightarrow>
   tt_wf (tt_default\<lparr>tt_size := n, tt_bits := \<lparr>nbits = 2 ^ n, bdata = Mask m\<rparr>, tt_deps := deps\<rparr>)"
  using power_increasing [of n 6 "2::nat"]
  by (simp add: tt_wf_def bv_wf_def) (simp add: tt_default_def)

lemma tt_wf_bits:
  "6 < n \<Longrightarrow> n < 32 \<Longrightarrow> length v = 2 ^ n \<Longrightarrow> countBitsForVector deps \<le> n \<Longrightarrow>
   tt_wf (tt_default\<lparr>tt_size := n, tt_bits := \<lparr>nbits = 2 ^ n, bdata = Vec v\<rparr>, tt_deps := deps\<rparr>)"
  using power_increasing [of 7 n "2::nat"]
  by (simp add: tt_wf_def bv_wf_def) (simp add: tt_default_def)

lemma tt_wf_gate:
  "is_gate g \<Longrightarrow> n < 2 ^ 32 \<Longrightarrow> countBitsForVector deps \<le> n \<Longrightarrow>
   tt_wf (tt_default\<lparr>tt_size := n, tt_deps := deps, tt_generic := g\<rparr>)"
  by (auto simp: tt_wf_def is_gate_def) (auto simp: tt_default_def)

subsection \<open>Full dependencies\<close>

lemma dep_set_full [simp]: "dep_set (fullDependencies n) = {..<n}"
  by (auto simp: fullDependencies_def)

lemma isSimple_full [simp]: "isSimple (fullDependencies n)"
  by (simp add: isSimple_iff)

lemma count_full [simp]: "countBitsForVector (fullDependencies n) = n"
  by (simp add: countBitsForVector_card)

lemma full_empty [simp]: "fullDependencies n = [] \<longleftrightarrow> n = 0"
proof -
  have "{..<n} = {} \<longleftrightarrow> n = 0" by auto
  then show ?thesis
    by (metis dep_set_Nil dep_set_full fullDependencies_def)
qed

subsection \<open>Factories\<close>

lemma metadata_factory_wf:
  assumes "validateGenericMetadata t = Inr ()" "tt_size t < 2 ^ 32" "tt_generic t \<noteq> G_NONE"
    "tt_bits t = bv_default" "countBitsForVector (tt_deps t) \<le> tt_size t"
  shows "tt_wf t"
  using assms by (simp add: tt_wf_def)

lemma validate_then_return:
  "rbind (validateGenericMetadata t) (\<lambda>_. Inr t) = Inr r \<longleftrightarrow> validateGenericMetadata t = Inr () \<and> r = t"
  by (auto simp: rbind_eq_Inr_iff)

lemma u32_max_less: "\<not> u32_max < n \<Longrightarrow> n < 2 ^ 32"
  by (simp add: u32_max_def)

lemma u32_le: "u32 n \<le> n"
  by (simp add: u32_def)

lemma DivMod_wf: "DivMod w sg res ob deps = Inr t \<Longrightarrow> tt_wf t"
  by (auto simp: DivMod_def Let_def validate_then_return split: if_splits
      intro!: metadata_factory_wf) (auto simp: tt_default_def u32_def)

lemma Word_table_wf: "Word_table g w deps = Inr t \<Longrightarrow> g \<in> {ADD_SUB, MULTIPLY, SHIFT} \<Longrightarrow> tt_wf t"
  by (auto simp: Word_table_def Let_def validate_then_return split: if_splits
      intro!: metadata_factory_wf) (auto simp: tt_default_def dest: u32_max_less)

lemma Rom_wf: "Rom rom deps = Inr t \<Longrightarrow> r_addressSize rom < 2 ^ 32 \<Longrightarrow> tt_wf t"
  by (auto simp: Rom_def Let_def validate_then_return split: if_splits
      intro!: metadata_factory_wf) (auto simp: tt_default_def)

lemma VectorUpdate_wf: "VectorUpdate m deps = Inr t \<Longrightarrow> tt_wf t"
  by (auto simp: VectorUpdate_def Let_def validate_then_return split: if_splits
      intro!: metadata_factory_wf) (auto simp: tt_default_def u32_max_def)

lemma VectorSelect_wf: "VectorSelect m deps = Inr t \<Longrightarrow> tt_wf t"
  by (auto simp: VectorSelect_def Let_def validate_then_return split: if_splits
      intro!: metadata_factory_wf) (auto simp: tt_default_def u32_max_def)

section \<open>Gates\<close>

lemma gate_scan_spec:
  "gate_scan vs (z, o1, p) =
     (z \<or> \<not> list_all id vs, o1 \<or> list_ex id vs, p \<noteq> odd (length (filter id vs)))"
  by (induction vs "(z, o1, p)" arbitrary: z o1 p rule: gate_scan.induct) auto

lemma expected_gate:
  assumes "is_gate g" "tt_size t \<le> 64"
  shows "expectedGenericValue t g (row_of (tt_size t) a) = gate_fun g (map a [0..<tt_size t])"
proof -
  have "map (\<lambda>b. b < 64 \<and> bit (row_of (tt_size t) a) b) [0..<tt_size t] = map a [0..<tt_size t]"
    using assms(2) by (auto simp: bit_row_of)
  then have "expectedGenericValue t g (row_of (tt_size t) a) =
      (case gate_scan (map a [0..<tt_size t]) (False, False, False) of
        (hasZero, hasOne, oddParity) \<Rightarrow>
          (case g of G_AND \<Rightarrow> \<not> hasZero | G_NAND \<Rightarrow> hasZero | G_OR \<Rightarrow> hasOne | G_NOR \<Rightarrow> \<not> hasOne
           | G_XOR \<Rightarrow> oddParity | G_XNOR \<Rightarrow> \<not> oddParity | _ \<Rightarrow> False))"
    by (simp only: expectedGenericValue_def)
  with assms(1) show ?thesis
    unfolding gate_scan_spec by (cases g) (simp_all add: is_gate_def)
qed

lemma rows_match_spec:
  "bv_wf (tt_bits t) \<Longrightarrow> \<forall>i\<in>set is. i < nbits (tt_bits t) \<Longrightarrow>
   rows_match t g is = Inr (\<forall>i\<in>set is. bv_get (tt_bits t) i = expectedGenericValue t g i)"
  by (induction t g "is" rule: rows_match.induct) auto

lemma all_rows:
  "(\<forall>i < 2 ^ n. P i) \<longleftrightarrow> (\<forall>a. P (row_of n a))"
  by (metis row_of_bit row_of_less)

text \<open>Assignments that tell any two gates of at least two inputs apart.\<close>

lemma gate_fun_inj:
  assumes "is_gate g" "is_gate h" "2 \<le> n"
    and eq: "\<And>a. gate_fun g (map a [0..<n]) = gate_fun h (map a [0..<n])"
  shows "g = h"
proof -
  have n: "[0..<n] = 0 # 1 # [2..<n]"
    using assms(3) by (simp add: upt_rec numeral_2_eq_2)
  have rest: "filter id (map (\<lambda>i. i < k) [2..<n]) = []" if "k \<le> 2" for k :: nat
    using that by (auto simp: filter_empty_conv)
  have all1: "list_all id (map (\<lambda>_. True) xs)" "\<not> list_ex id (map (\<lambda>_. False) xs)" for xs :: "nat list"
    by (simp_all add: list_all_iff list_ex_iff)
  have F: "filter id (map (\<lambda>_. False) xs) = []" for xs :: "nat list"
    by (auto simp: filter_empty_conv)
  note e = eq [of "\<lambda>_. True"] eq [of "\<lambda>_. False"] eq [of "\<lambda>i. i < 1"] eq [of "\<lambda>i. i < 2"]
  show ?thesis
    using assms(1,2) e
    by (auto simp: is_gate_def n all1 F rest [of 1, simplified] rest [of 2, simplified]
        simp del: upt_Suc)
qed

lemma isGenericOrEquivalent_iff:
  assumes "tt_wf t" "tt_generic t = G_NONE \<or> is_gate (tt_generic t)" "is_gate g"
    "2 \<le> tt_size t" "tt_deps t \<noteq> []"
  shows "isGenericOrEquivalent t g =
    Inr (\<forall>a. tt_eval t a = gate_fun g (map a [0..<tt_size t]))"
proof (cases "tt_generic t = G_NONE")
  case True
  have wf: "tt_size t < 32" "bv_wf (tt_bits t)" "nbits (tt_bits t) = 2 ^ tt_size t"
    using assms(1) True by (auto simp: tt_wf_def)
  have "isGenericOrEquivalent t g = rows_match t g [0..<2 ^ tt_size t]"
    using True assms wf by (auto simp: isGenericOrEquivalent_def isInitialized_def is_gate_def)
  also have "\<dots> = Inr (\<forall>i < 2 ^ tt_size t. bv_get (tt_bits t) i = expectedGenericValue t g i)"
    using wf by (subst rows_match_spec) auto
  finally show ?thesis
    using True wf assms(3) by (simp add: all_rows expected_gate tt_eval_def)
next
  case False
  then have g: "is_gate (tt_generic t)" using assms(2) by simp
  have "isGenericOrEquivalent t g = Inr (tt_generic t = g)"
    using False by (simp add: isGenericOrEquivalent_def)
  moreover have "tt_generic t = g \<longleftrightarrow> (\<forall>a. tt_eval t a = gate_fun g (map a [0..<tt_size t]))"
    using gate_fun_inj [OF g assms(3,4)] False by (auto simp: tt_eval_def)
  ultimately show ?thesis by simp
qed

section \<open>Constant tables\<close>

lemma bit_rows_mask: "n \<le> 6 \<Longrightarrow> bit (rows_mask n) i \<longleftrightarrow> i < 2 ^ n"
proof -
  assume n: "n \<le> 6"
  have eq: "rows_mask n = (mask (2 ^ n) :: u64)"
  proof (cases "n = 6")
    case True
    then show ?thesis
      by (simp add: rows_mask_def mask_eq_exp_minus_1 exp_eq_zero_iff)
  next
    case False
    with n have "n \<le> 5" by simp
    then have "(2::nat) ^ n \<le> 2 ^ 5" by (intro power_increasing) auto
    then show ?thesis
      by (simp add: rows_mask_def mask_eq_exp_minus_1)
  qed
  have "(2::nat) ^ n \<le> 2 ^ 6" using n by (rule power_increasing) simp
  then show ?thesis
    unfolding eq by (auto simp: bit_mask_iff)
qed

lemma foldl_or: "foldl (\<or>) b bs \<longleftrightarrow> b \<or> True \<in> set bs"
  by (induction bs arbitrary: b) auto

lemma foldl_and: "foldl (\<and>) b bs \<longleftrightarrow> b \<and> False \<notin> set bs"
  by (induction bs arbitrary: b) auto

lemma masked_table:
  assumes "tt_wf t" "tt_generic t = G_NONE" "tt_size t \<le> 6"
  obtains m where "bdata (tt_bits t) = Mask m"
    "\<And>i. bit (m AND rows_mask (tt_size t)) i \<longleftrightarrow> bv_get (tt_bits t) i"
proof -
  have "(2::nat) ^ tt_size t \<le> 2 ^ 6" using assms(3) by (rule power_increasing) simp
  with assms obtain m where m: "bdata (tt_bits t) = Mask m"
    by (auto simp: tt_wf_def bv_wf_def split: bv_data.splits)
  with assms have "bit (m AND rows_mask (tt_size t)) i \<longleftrightarrow> bv_get (tt_bits t) i" for i
    by (auto simp: bit_and_iff bit_rows_mask bv_get_def tt_wf_def)
  with m show ?thesis by (rule that)
qed

lemma word_eq_bits: "(v :: u64) = w \<longleftrightarrow> (\<forall>i. bit v i = bit w i)"
  by (auto intro: bit_eqI)

lemma word_zero_iff: "(w :: u64) = 0 \<longleftrightarrow> (\<forall>i. \<not> bit w i)"
  by (metis bit_0_eq bit_eqI bot_apply bot_bool_def)

lemma rmap_rows:
  assumes "tt_wf t" "tt_generic t = G_NONE"
  shows "rmap (bv_bit (tt_bits t)) [0..<nbits (tt_bits t)] =
    Inr (map (bv_get (tt_bits t)) [0..<2 ^ tt_size t])"
  using assms by (subst rmap_total [where g = "bv_get (tt_bits t)"]) (auto simp: tt_wf_def)

lemma all0_iff:
  assumes "tt_wf t" "tt_generic t = G_NONE"
  shows "all0 t = Inr (\<forall>a. \<not> tt_eval t a)"
proof -
  have wf: "nbits (tt_bits t) = 2 ^ tt_size t" using assms by (simp add: tt_wf_def)
  have ev: "(\<forall>a. \<not> tt_eval t a) \<longleftrightarrow> (\<forall>i < 2 ^ tt_size t. \<not> bv_get (tt_bits t) i)"
    using assms(2) by (simp add: tt_eval_def all_rows)
  show ?thesis
  proof (cases "tt_size t \<le> 6")
    case True
    obtain m where m: "bdata (tt_bits t) = Mask m"
      "\<And>i. bit (m AND rows_mask (tt_size t)) i \<longleftrightarrow> bv_get (tt_bits t) i"
      using masked_table [OF assms True] by blast
    have "m AND rows_mask (tt_size t) = 0 \<longleftrightarrow> (\<forall>i < 2 ^ tt_size t. \<not> bv_get (tt_bits t) i)"
      unfolding word_zero_iff m(2) using wf by (auto simp: bv_get_def)
    then show ?thesis
      using True m(1) wf by (simp add: all0_def bv_to_u64_def ev)
  next
    case False
    then show ?thesis
      using rmap_rows [OF assms] wf by (auto simp: all0_def ev foldl_or)
  qed
qed

lemma all1_iff:
  assumes "tt_wf t" "tt_generic t = G_NONE"
  shows "all1 t = Inr (\<forall>a. tt_eval t a)"
proof -
  have wf: "nbits (tt_bits t) = 2 ^ tt_size t" using assms by (simp add: tt_wf_def)
  have ev: "(\<forall>a. tt_eval t a) \<longleftrightarrow> (\<forall>i < 2 ^ tt_size t. bv_get (tt_bits t) i)"
    using assms(2) by (simp add: tt_eval_def all_rows)
  show ?thesis
  proof (cases "tt_size t \<le> 6")
    case True
    obtain m where m: "bdata (tt_bits t) = Mask m"
      "\<And>i. bit (m AND rows_mask (tt_size t)) i \<longleftrightarrow> bv_get (tt_bits t) i"
      using masked_table [OF assms True] by blast
    have "m AND rows_mask (tt_size t) = rows_mask (tt_size t) \<longleftrightarrow>
        (\<forall>i. bv_get (tt_bits t) i \<longleftrightarrow> i < 2 ^ tt_size t)"
      unfolding word_eq_bits m(2) bit_rows_mask [OF True] by simp
    also have "\<dots> \<longleftrightarrow> (\<forall>i < 2 ^ tt_size t. bv_get (tt_bits t) i)"
      using wf by (auto simp: bv_get_def)
    finally show ?thesis
      using True m(1) wf by (simp add: all1_def bv_to_u64_def ev)
  next
    case False
    then show ?thesis
      using rmap_rows [OF assms] wf by (auto simp: all1_def ev foldl_and)
  qed
qed

end
