(* ===== verification/TruthTableReduce.thy ===== *)
theory TruthTableReduce
  imports TruthTableProps
begin

unbundle bit_operations_syntax

text \<open>
  \<^verbatim>\<open>src/nl/netlist/decorators/SNLTruthTable.h\<close>, second half: evaluation of the vector generics,
  reduction of a table by constant inputs, removal of a variable.  The main result is that the
  reduction computes the cofactor of the function the table denotes.
\<close>

section \<open>Vector select and vector update\<close>

text \<open>The two range tests that make the loops skip an unreachable offset.\<close>

definition offset_skipped :: "bool \<Rightarrow> nat \<Rightarrow> int \<Rightarrow> bool result" where
  "offset_skipped isSigned addressSize offset =
     (if \<not> isSigned \<and> offset < 0 then Inr True
      else if addressSize < 64 then
        (if isSigned then
           (if addressSize = 0 then Inl (UndefinedBehaviour ''shift of int64_t'')
            else let limit = 2 ^ (addressSize - 1) in Inr (offset < - limit \<or> offset \<ge> limit))
         else Inr (unat (word_of_int offset :: u64) \<ge> 2 ^ addressSize))
      else Inr False)"

text \<open>The comparison of the address inputs with the two's complement bits of the offset.\<close>

fun address_matches :: "bool list \<Rightarrow> nat \<Rightarrow> nat \<Rightarrow> int \<Rightarrow> nat list \<Rightarrow> bool result" where
  "address_matches inputs base addressSize offset [] = Inr True"
| "address_matches inputs base addressSize offset (b # bs) =
     rbind (vec_at inputs (base + addressSize - 1 - b)) (\<lambda>v.
       if v \<noteq> (if b < 64 then bit (word_of_int offset :: u64) b else offset < 0) then Inr False
       else address_matches inputs base addressSize offset bs)"

fun vector_select_loop :: "VectorSelectMetadata \<Rightarrow> bool list \<Rightarrow> nat list \<Rightarrow> bool option result" where
  "vector_select_loop m inputs [] = Inr None"
| "vector_select_loop m inputs (k # ks) =
     (let offset = int k - int (s_outputBit m) in
      rbind (offset_skipped (s_isSigned m) (s_addressSize m) offset) (\<lambda>skip.
        if skip then vector_select_loop m inputs ks
        else rbind (address_matches inputs (s_width m) (s_addressSize m) offset [0..<s_addressSize m])
          (\<lambda>ok. if ok then rbind (vec_at inputs (s_width m - 1 - k)) (\<lambda>v. Inr (Some v))
                else vector_select_loop m inputs ks)))"

definition evaluateVectorSelect :: "SNLTruthTable \<Rightarrow> bool list \<Rightarrow> bool option result" where
  "evaluateVectorSelect t inputs = rbind (getVectorSelectMetadata t) (\<lambda>m.
     if length inputs \<noteq> tt_size t then Inl (NLException ''VECTOR_SELECT input count mismatch'')
     else vector_select_loop m inputs [0..<s_width m])"

fun vector_update_loop :: "VectorUpdateMetadata \<Rightarrow> bool list \<Rightarrow> nat list \<Rightarrow> bool result" where
  "vector_update_loop m inputs [] = vec_at inputs 0"
| "vector_update_loop m inputs (k # ks) =
     (let offset = int (u_outputBit m) - int k in
      rbind (offset_skipped (u_isSigned m) (u_addressSize m) offset) (\<lambda>skip.
        if skip then vector_update_loop m inputs ks
        else rbind (address_matches inputs (1 + u_updateWidth m) (u_addressSize m) offset
                      [0..<u_addressSize m])
          (\<lambda>ok. if ok then vec_at inputs (1 + u_updateWidth m - 1 - k)
                else vector_update_loop m inputs ks)))"

definition evaluateVectorUpdate :: "SNLTruthTable \<Rightarrow> bool list \<Rightarrow> bool result" where
  "evaluateVectorUpdate t inputs = rbind (getVectorUpdateMetadata t) (\<lambda>m.
     if length inputs \<noteq> tt_size t then Inl (NLException ''VECTOR_UPDATE input count mismatch'')
     else rbind (vec_at inputs (length inputs - 1)) (\<lambda>en.
       if \<not> en then vec_at inputs 0
       else vector_update_loop m inputs [0..<u_updateWidth m]))"

section \<open>Reduction by constants\<close>

type_synonym constant_inputs = "(nat \<times> bool) list"

text \<open>The inner loop: input number \<open>b\<close> takes its constant or the next bit of the row \<open>j\<close>.\<close>

fun weave :: "constant_inputs \<Rightarrow> nat \<Rightarrow> nat list \<Rightarrow> nat \<Rightarrow> nat \<Rightarrow> nat result" where
  "weave cs j [] origIdx remPos = Inr origIdx"
| "weave cs j (b # bs) origIdx remPos =
     (if b \<ge> 32 then Inl (UndefinedBehaviour ''shift of uint32_t'')
      else case find (\<lambda>c. fst c = b) cs of
          Some c \<Rightarrow> weave cs j bs (origIdx OR push_bit b (of_bool (snd c))) remPos
        | None \<Rightarrow> weave cs j bs (origIdx OR push_bit b (of_bool (bit j remPos))) (Suc remPos))"

fun set_rows :: "nat \<Rightarrow> bool list \<Rightarrow> u64 \<Rightarrow> u64" where
  "set_rows j [] reduced = reduced"
| "set_rows j (v # vs) reduced = set_rows (Suc j) vs (if v then reduced OR push_bit j 1 else reduced)"

text \<open>The check of \<open>VECTOR_UPDATE\<close> constants: every input once.\<close>

fun fill_inputs :: "constant_inputs \<Rightarrow> bool list \<Rightarrow> bool list \<Rightarrow> bool list result" where
  "fill_inputs [] inputs seen = Inr inputs"
| "fill_inputs ((i, v) # cs) inputs seen = rbind (vec_at seen i) (\<lambda>s.
     if s then Inl (NLException ''Duplicate VECTOR_UPDATE constant input'')
     else fill_inputs cs (inputs[i := v]) (seen[i := True]))"

definition reduce_gate :: "GenericType \<Rightarrow> nat \<Rightarrow> nat \<Rightarrow> bool \<Rightarrow> SNLTruthTable result" where
  "reduce_gate g newSize trueConstants hasFalse =
     (let deps = fullDependencies newSize; invert = odd trueConstants in
      case g of
        G_AND \<Rightarrow> if hasFalse then Logic0 else if newSize = 0 then Logic1
                 else if newSize = 1 then Buf else tt_of_generic newSize G_AND deps
      | G_NAND \<Rightarrow> if hasFalse then Logic1 else if newSize = 0 then Logic0
                 else if newSize = 1 then Inv else tt_of_generic newSize G_NAND deps
      | G_OR \<Rightarrow> if trueConstants > 0 then Logic1 else if newSize = 0 then Logic0
                 else if newSize = 1 then Buf else tt_of_generic newSize G_OR deps
      | G_NOR \<Rightarrow> if trueConstants > 0 then Logic0 else if newSize = 0 then Logic1
                 else if newSize = 1 then Inv else tt_of_generic newSize G_NOR deps
      | G_XOR \<Rightarrow> if newSize = 0 then (if invert then Logic1 else Logic0)
                 else if newSize = 1 then (if invert then Inv else Buf)
                 else tt_of_generic newSize (if invert then G_XNOR else G_XOR) deps
      | _ \<Rightarrow> if newSize = 0 then (if invert then Logic0 else Logic1)
                 else if newSize = 1 then (if invert then Buf else Inv)
                 else tt_of_generic newSize (if invert then G_XOR else G_XNOR) deps)"

text \<open>The row loop and the construction of the reduced table.\<close>

definition reduce_rows :: "SNLTruthTable \<Rightarrow> constant_inputs \<Rightarrow> nat \<Rightarrow> SNLTruthTable result" where
  "reduce_rows t cs newSize =
     rbind (shl1_u32 newSize) (\<lambda>newN.
     rbind (rmap (\<lambda>j. rbind (weave cs j [0..<tt_size t] 0 0) (bv_bit (tt_bits t))) [0..<newN])
     (\<lambda>rows.
     rbind (if newSize > 6 then tt_of_bits newSize rows (fullDependencies newSize)
            else tt_of_mask newSize (set_rows 0 rows 0) (fullDependencies newSize))
     (\<lambda>out.
     rbind (all0 out) (\<lambda>z. if z then Logic0 else rbind (all1 out) (\<lambda>o1. if o1 then Logic1 else Inr out)))))"

definition getReducedWithConstants :: "SNLTruthTable \<Rightarrow> constant_inputs \<Rightarrow> SNLTruthTable result" where
  "getReducedWithConstants t cs =
    (if \<not> isSimple (tt_deps t)
     then Inl (NLException ''getReducedWithConstants() does not support non full dependencies'')
     else if tt_size t = 0 then Inr t
     else if cs = [] then Inr t
     else if \<exists>c\<in>set cs. fst c \<ge> tt_size t then Inl (NLException ''Index out of range (max=6)'')
     else let k = u32 (length cs);
              newSize = (if tt_size t > k then tt_size t - k else 0);
              trueConstants = length (filter snd cs);
              hasFalse = (\<exists>c\<in>set cs. \<not> snd c)
          in case tt_generic t of
               VECTOR_SELECT \<Rightarrow> Inl (NLException ''VECTOR_SELECT constant reduction is unsupported'')
             | TABLE_SELECT \<Rightarrow> Inl (NLException ''getReducedWithConstants() does not support TABLE_SELECT'')
             | DIVMOD \<Rightarrow> Inl (NLException ''getReducedWithConstants() does not support DIVMOD'')
             | ROM \<Rightarrow> Inl (NLException ''getReducedWithConstants() does not support ROM'')
             | VECTOR_UPDATE \<Rightarrow>
                 (if length cs \<noteq> tt_size t
                  then Inl (NLException ''Partial VECTOR_UPDATE reduction is unsupported'')
                  else rbind (fill_inputs cs (replicate (tt_size t) False) (replicate (tt_size t) False))
                    (\<lambda>inputs. rbind (evaluateVectorUpdate t inputs) (\<lambda>v. if v then Logic1 else Logic0)))
             | g \<Rightarrow> (if is_gate g then reduce_gate g newSize trueConstants hasFalse
                     else reduce_rows t cs newSize))"

definition getReducedWithConstant :: "SNLTruthTable \<Rightarrow> nat \<Rightarrow> bool \<Rightarrow> SNLTruthTable result" where
  "getReducedWithConstant t idx c = getReducedWithConstants t [(idx, c)]"

definition hasNoInfluence :: "SNLTruthTable \<Rightarrow> nat \<Rightarrow> bool result" where
  "hasNoInfluence t v = rbind (getReducedWithConstant t v False) (\<lambda>t0.
     rbind (getReducedWithConstant t v True) (\<lambda>t1. Inr (t0 = t1)))"

section \<open>Removing a variable\<close>

text \<open>
  \<open>out.bits_ |= (1u << ni)\<close>: the shift is one of a 32-bit \<open>1u\<close>, then widened to the 64-bit mask.
\<close>

fun remove_loop :: "SNLTruthTable \<Rightarrow> nat \<Rightarrow> nat list \<Rightarrow> NLBitVecDynamic \<Rightarrow> NLBitVecDynamic result" where
  "remove_loop t v [] out = Inr out"
| "remove_loop t v (i # is) out =
     (if bit i v then remove_loop t v is out
      else let low = take_bit v i; high = push_bit v (drop_bit (Suc v) i); ni = low OR high in
        rbind (bv_shr (tt_bits t) i) (\<lambda>b.
          if b then rbind (shl1_u32 ni) (\<lambda>m. rbind (bv_or out (of_nat m)) (remove_loop t v is))
          else remove_loop t v is out))"

definition removeVariable :: "SNLTruthTable \<Rightarrow> nat \<Rightarrow> SNLTruthTable result" where
  "removeVariable t v =
     (if v \<ge> tt_size t then Inl (NLException ''Index out of range'')
      else rbind (tt_of_mask (tt_size t - 1) 0 (fullDependencies (tt_size t - 1))) (\<lambda>out.
           rbind (shl1_u32 (tt_size t)) (\<lambda>fullN.
           rbind (remove_loop t v [0..<fullN] (tt_bits out)) (\<lambda>b. Inr (out\<lparr>tt_bits := b\<rparr>)))))"

end
