(* ===== verification/TruthTableCofactor.thy ===== *)
theory TruthTableCofactor
  imports TruthTableReduce
begin

unbundle bit_operations_syntax

text \<open>
  Correctness of the reduction of plain tables and gates by constant inputs: the reduced table
  denotes the cofactor.  \<open>remaining\<close> lists the inputs that are not constant, in order; input \<open>p\<close> of
  the reduced table is input \<open>remaining n cs ! p\<close> of the original one.
\<close>

section \<open>Constant and remaining inputs\<close>

definition remaining :: "nat \<Rightarrow> constant_inputs \<Rightarrow> nat list" where
  "remaining n cs = filter (\<lambda>i. map_of cs i = None) [0..<n]"

definition cofactor :: "constant_inputs \<Rightarrow> (nat \<Rightarrow> bool) \<Rightarrow> nat \<Rightarrow> bool" where
  "cofactor cs a i = (case map_of cs i of Some v \<Rightarrow> v | None \<Rightarrow> a i)"

lemma remaining_Suc:
  "remaining (Suc n) cs = remaining n cs @ (if map_of cs n = None then [n] else [])"
  by (simp add: remaining_def)

lemma find_map_of: "map_option snd (find (\<lambda>c. fst c = b) cs) = map_of cs b"
  by (induction cs) auto

lemma find_None_map_of: "find (\<lambda>c. fst c = b) cs = None \<longleftrightarrow> map_of cs b = None"
  by (metis find_map_of map_option_is_None)

lemma length_remaining:
  assumes "distinct (map fst cs)" "\<forall>c\<in>set cs. fst c < n"
  shows "length (remaining n cs) = n - length cs"
proof -
  have "length (remaining n cs) = card (set (remaining n cs))"
    by (rule distinct_card [symmetric]) (simp add: remaining_def)
  also have "set (remaining n cs) = {..<n} - fst ` set cs"
    by (auto simp: remaining_def map_of_eq_None_iff)
  also have "card \<dots> = n - card (fst ` set cs)"
    using assms(2) by (subst card_Diff_subset) auto
  also have "card (fst ` set cs) = length cs"
    using assms(1) distinct_card [of "map fst cs"] by simp
  finally show ?thesis .
qed

lemma nth_remaining_rank:
  "map_of cs i = None \<Longrightarrow> i < n \<Longrightarrow>
   length (remaining i cs) < length (remaining n cs) \<and> remaining n cs ! length (remaining i cs) = i"
proof (induction n)
  case 0
  then show ?case by simp
next
  case (Suc n)
  then show ?case
    by (cases "i = n") (auto simp: remaining_Suc nth_append)
qed

section \<open>The row loop\<close>

definition woven :: "constant_inputs \<Rightarrow> nat \<Rightarrow> nat \<Rightarrow> bool" where
  "woven cs j i = (case map_of cs i of Some v \<Rightarrow> v | None \<Rightarrow> bit j (length (remaining i cs)))"

lemma row_of_step: "row_of b f OR push_bit b (of_bool (f b)) = row_of (Suc b) f"
  by (rule bit_eqI)
    (auto simp: bit_or_iff bit_row_of bit_push_bit_iff of_bool_def bit_1_iff less_Suc_eq
      simp del: row_of.simps One_nat_def)

lemma weave_from:
  assumes "n \<le> 32"
  shows "b \<le> n \<Longrightarrow>
    weave cs j [b..<n] (row_of b (woven cs j)) (length (remaining b cs)) = Inr (row_of n (woven cs j))"
proof (induction "n - b" arbitrary: b)
  case 0
  then show ?case by simp
next
  case (Suc d)
  then have b: "b < n" by simp
  then have upt: "[b..<n] = b # [Suc b..<n]" by (rule upt_conv_Cons)
  have IH: "weave cs j [Suc b..<n] (row_of (Suc b) (woven cs j)) (length (remaining (Suc b) cs)) =
      Inr (row_of n (woven cs j))"
    using Suc b by (intro Suc.hyps(1)) auto
  show ?case
  proof (cases "find (\<lambda>c. fst c = b) cs")
    case None
    then have m: "map_of cs b = None" by (simp add: find_None_map_of)
    then have "woven cs j b = bit j (length (remaining b cs))" by (simp add: woven_def)
    with row_of_step [of b "woven cs j"] IH None m b assms show ?thesis
      by (simp add: upt remaining_Suc)
  next
    case (Some c)
    then have m: "map_of cs b = Some (snd c)" using find_map_of [of b cs] by simp
    then have "woven cs j b = snd c" by (simp add: woven_def)
    with row_of_step [of b "woven cs j"] IH Some m b assms show ?thesis
      by (simp add: upt remaining_Suc)
  qed
qed

lemma weave_row:
  "n \<le> 32 \<Longrightarrow> weave cs j [0..<n] 0 0 = Inr (row_of n (woven cs j))"
  using weave_from [of n 0 cs j] by (simp add: remaining_def)

lemma woven_cofactor:
  assumes "i < n" "j = row_of (length (remaining n cs)) (\<lambda>p. a (remaining n cs ! p))"
  shows "woven cs j i = cofactor cs a i"
proof (cases "map_of cs i")
  case None
  with assms nth_remaining_rank [OF None assms(1)] show ?thesis
    by (simp add: woven_def cofactor_def bit_row_of)
qed (simp add: woven_def cofactor_def)

lemma bit_set_rows:
  "i < 64 \<Longrightarrow> bit (set_rows j vs m) i \<longleftrightarrow> bit m i \<or> (j \<le> i \<and> i < j + length vs \<and> vs ! (i - j))"
proof (induction j vs m rule: set_rows.induct)
  case (1 j m)
  then show ?case by auto
next
  case (2 j v vs m)
  let ?m = "if v then m OR push_bit j 1 else m"
  have "bit ?m i \<longleftrightarrow> bit m i \<or> (v \<and> i = j)"
    using "2.prems" by (auto simp: bit_or_iff)
  moreover have "(v # vs) ! (i - j) = (if i = j then v else vs ! (i - Suc j))" if "j \<le> i"
    using that by (auto simp: nth_Cons')
  ultimately show ?case using 2 by (cases "i = j") auto
qed

section \<open>The reduced table\<close>

text \<open>What the row loop builds before the constant tables are folded.\<close>

lemma reduced_out:
  assumes "newSize < 32" "length rows = 2 ^ newSize"
  obtains out where
    "(if newSize > 6 then tt_of_bits newSize rows (fullDependencies newSize)
      else tt_of_mask newSize (set_rows 0 rows 0) (fullDependencies newSize)) = Inr out"
    "tt_wf out" "tt_generic out = G_NONE" "tt_size out = newSize" "tt_deps out = fullDependencies newSize"
    "\<And>i. i < 2 ^ newSize \<Longrightarrow> bv_get (tt_bits out) i = rows ! i"
proof (cases "newSize > 6")
  case True
  let ?out = "tt_default\<lparr>tt_size := newSize, tt_bits := \<lparr>nbits = 2 ^ newSize, bdata = Vec rows\<rparr>,
    tt_deps := fullDependencies newSize\<rparr>"
  have 1: "(if newSize > 6 then tt_of_bits newSize rows (fullDependencies newSize)
      else tt_of_mask newSize (set_rows 0 rows 0) (fullDependencies newSize)) = Inr ?out"
    using True assms by (simp add: tt_of_bits_Inr)
  have 2: "tt_wf ?out" using True assms by (intro tt_wf_bits) auto
  show ?thesis
    by (rule that [OF 1 2]) (simp_all add: tt_default_def bv_get_def)
next
  case False
  let ?out = "tt_default\<lparr>tt_size := newSize,
    tt_bits := \<lparr>nbits = 2 ^ newSize, bdata = Mask (set_rows 0 rows 0)\<rparr>,
    tt_deps := fullDependencies newSize\<rparr>"
  have 1: "(if newSize > 6 then tt_of_bits newSize rows (fullDependencies newSize)
      else tt_of_mask newSize (set_rows 0 rows 0) (fullDependencies newSize)) = Inr ?out"
    using False by (simp add: tt_of_mask_Inr)
  have 2: "tt_wf ?out" using False by (intro tt_wf_mask) auto
  have "(2::nat) ^ newSize \<le> 2 ^ 6" using False by (intro power_increasing) auto
  then show ?thesis
    by (intro that [OF 1 2]) (simp_all add: tt_default_def bv_get_def bit_set_rows assms)
qed

lemma Logic_tables:
  "Logic0 = Inr (tt_default\<lparr>tt_bits := \<lparr>nbits = 1, bdata = Mask 0\<rparr>\<rparr>)"
  "Logic1 = Inr (tt_default\<lparr>tt_bits := \<lparr>nbits = 1, bdata = Mask 1\<rparr>\<rparr>)"
  by (simp_all add: Logic0_def Logic1_def tt_of_mask_Inr countBitsForVector_def)
    (simp_all add: tt_default_def)

lemma Logic0_spec: "\<exists>r. Logic0 = Inr r \<and> tt_wf r \<and> (\<forall>a. tt_eval r a = False)"
  by (simp add: Logic_tables tt_wf_def bv_wf_def tt_eval_def bv_get_def)
    (simp add: tt_default_def validateGenericMetadata_def isWordArithmetic_def)

lemma Logic1_spec: "\<exists>r. Logic1 = Inr r \<and> tt_wf r \<and> (\<forall>a. tt_eval r a = True)"
  by (simp add: Logic_tables tt_wf_def bv_wf_def tt_eval_def bv_get_def)
    (simp add: tt_default_def validateGenericMetadata_def isWordArithmetic_def)

lemma Buf_Inv_spec:
  "\<exists>r. Buf = Inr r \<and> tt_wf r \<and> (\<forall>a. tt_eval r a = a 0)"
  "\<exists>r. Inv = Inr r \<and> tt_wf r \<and> (\<forall>a. tt_eval r a = (\<not> a 0))"
proof -
  have row: "row_of (Suc 0) a = of_bool (a 0)" for a by simp
  have b2: "bit (2 :: u64) n \<longleftrightarrow> n = 1" for n
    using bit_push_one [of 1 n] by simp
  show "\<exists>r. Buf = Inr r \<and> tt_wf r \<and> (\<forall>a. tt_eval r a = a 0)"
    unfolding Buf_def using tt_wf_mask [of 1 "fullDependencies 1" 2]
    by (simp add: tt_of_mask_Inr tt_eval_def bv_get_def b2) (simp add: tt_default_def row b2 of_bool_def)
  show "\<exists>r. Inv = Inr r \<and> tt_wf r \<and> (\<forall>a. tt_eval r a = (\<not> a 0))"
    unfolding Inv_def using tt_wf_mask [of 1 "fullDependencies 1" 1]
    by (simp add: tt_of_mask_Inr tt_eval_def bv_get_def) (simp add: tt_default_def row of_bool_def bit_1_iff)
qed

lemma reduce_rows_spec:
  assumes wf: "tt_wf t" "tt_generic t = G_NONE"
    and cs: "distinct (map fst cs)" "\<forall>c\<in>set cs. fst c < tt_size t"
  shows "\<exists>r. reduce_rows t cs (tt_size t - length cs) = Inr r \<and> tt_wf r \<and>
    (\<forall>a. tt_eval r (\<lambda>p. a (remaining (tt_size t) cs ! p)) = tt_eval t (cofactor cs a))"
proof -
  let ?n = "tt_size t" and ?new = "tt_size t - length cs" and ?b = "tt_bits t"
  have n: "?n < 32" "bv_wf ?b" "nbits ?b = 2 ^ ?n" using wf by (auto simp: tt_wf_def)
  let ?rows = "map (\<lambda>j. bv_get ?b (row_of ?n (woven cs j))) [0..<2 ^ ?new]"
  have rows: "rmap (\<lambda>j. rbind (weave cs j [0..<?n] 0 0) (bv_bit ?b)) [0..<2 ^ ?new] = Inr ?rows"
    by (rule rmap_total) (use n in \<open>simp add: weave_row\<close>)
  obtain out where out:
    "(if ?new > 6 then tt_of_bits ?new ?rows (fullDependencies ?new)
      else tt_of_mask ?new (set_rows 0 ?rows 0) (fullDependencies ?new)) = Inr out"
    "tt_wf out" "tt_generic out = G_NONE" "tt_size out = ?new"
    "\<And>i. i < 2 ^ ?new \<Longrightarrow> bv_get (tt_bits out) i = ?rows ! i"
    using n by (rule_tac reduced_out [of ?new ?rows]) auto
  have len: "length (remaining ?n cs) = ?new" using cs by (rule length_remaining)
  have ev: "tt_eval out (\<lambda>p. a (remaining ?n cs ! p)) = tt_eval t (cofactor cs a)" for a
  proof -
    let ?j = "row_of ?new (\<lambda>p. a (remaining ?n cs ! p))"
    have "row_of ?n (woven cs ?j) = row_of ?n (cofactor cs a)"
      by (rule row_of_cong) (simp add: woven_cofactor [of _ ?n _ _ a] len)
    with out n wf(2) show ?thesis
      by (simp add: tt_eval_def)
  qed
  have red: "reduce_rows t cs ?new =
      rbind (all0 out) (\<lambda>z. if z then Logic0 else rbind (all1 out) (\<lambda>o1. if o1 then Logic1 else Inr out))"
    using n rows out(1) by (simp add: reduce_rows_def)
  have a0: "all0 out = Inr (\<forall>a. \<not> tt_eval out a)" "all1 out = Inr (\<forall>a. tt_eval out a)"
    using out by (simp_all add: all0_iff all1_iff)
  consider "\<forall>a. \<not> tt_eval out a" | "\<not> (\<forall>a. \<not> tt_eval out a)" "\<forall>a. tt_eval out a"
    | "\<not> (\<forall>a. \<not> tt_eval out a)" "\<not> (\<forall>a. tt_eval out a)" by blast
  then show ?thesis
  proof cases
    case 1
    with red a0 have "reduce_rows t cs ?new = Logic0" by simp
    with Logic0_spec ev 1 show ?thesis by metis
  next
    case 2
    with red a0 have "reduce_rows t cs ?new = Logic1" by simp
    with Logic1_spec ev 2 show ?thesis by metis
  next
    case 3
    with red a0 have "reduce_rows t cs ?new = Inr out" by simp
    with out(2) ev show ?thesis by blast
  qed
qed

section \<open>Gates\<close>

text \<open>Splitting the inputs of a gate into the constant and the remaining ones.\<close>

lemma count_inputs:
  assumes cs: "distinct (map fst cs)" "\<forall>c\<in>set cs. fst c < n"
  shows "length (filter (cofactor cs a) [0..<n]) =
    length (filter snd cs) + length (filter a (remaining n cs))"
proof -
  let ?A = "{i. i < n \<and> map_of cs i = Some True}" and ?B = "set (filter a (remaining n cs))"
  have "length (filter (cofactor cs a) [0..<n]) = card (set (filter (cofactor cs a) [0..<n]))"
    by (rule distinct_card [symmetric]) simp
  also have "set (filter (cofactor cs a) [0..<n]) = ?A \<union> ?B"
    by (auto simp: cofactor_def remaining_def split: option.splits) (metis (full_types) not_Some_eq)
  also have "card \<dots> = card ?A + card ?B"
    by (rule card_Un_disjoint) (auto simp: remaining_def)
  also have "card ?B = length (filter a (remaining n cs))"
    by (rule distinct_card) (simp add: remaining_def)
  also have "?A = set (map fst (filter snd cs))"
    using cs by (force simp: map_of_eq_Some_iff [OF cs(1)])
  also have "card \<dots> = length (filter snd cs)"
    using distinct_map_filter [OF cs(1)] by (subst distinct_card) simp_all
  finally show ?thesis .
qed

fun gate_count :: "GenericType \<Rightarrow> nat \<Rightarrow> nat \<Rightarrow> bool" where
  "gate_count G_AND k n \<longleftrightarrow> k = n"
| "gate_count G_NAND k n \<longleftrightarrow> k \<noteq> n"
| "gate_count G_OR k n \<longleftrightarrow> k > 0"
| "gate_count G_NOR k n \<longleftrightarrow> k = 0"
| "gate_count G_XOR k n \<longleftrightarrow> odd k"
| "gate_count G_XNOR k n \<longleftrightarrow> even k"
| "gate_count _ k n \<longleftrightarrow> False"

lemma length_filter_neq [simp]: "length (filter f xs) \<noteq> Suc (length xs + d)"
proof -
  have "length (filter f xs) \<le> length xs" by simp
  then show ?thesis by linarith
qed

lemma gate_fun_count:
  assumes "is_gate g"
  shows "gate_fun g (map f xs) = gate_count g (length (filter f xs)) (length xs)"
proof -
  have all: "list_all id (map f xs) \<longleftrightarrow> length (filter f xs) = length xs"
  proof (induction xs)
    case (Cons x xs)
    with length_filter_neq [of f xs 0] show ?case by auto
  qed simp
  have ex: "list_ex id (map f xs) \<longleftrightarrow> length (filter f xs) > 0"
    by (auto simp: list_ex_iff filter_empty_conv)
  have "filter id (map f xs) = map f (filter f xs)" by (simp add: filter_map comp_def)
  then show ?thesis
    using assms by (cases g) (simp_all add: is_gate_def all ex)
qed

text \<open>\<open>denotes R xs F\<close>: the computation returns a well-formed table of the function \<open>F\<close> of the inputs \<open>xs\<close>.\<close>

definition denotes :: "SNLTruthTable result \<Rightarrow> nat list \<Rightarrow> ((nat \<Rightarrow> bool) \<Rightarrow> bool) \<Rightarrow> bool" where
  "denotes R xs F \<longleftrightarrow> (\<exists>r. R = Inr r \<and> tt_wf r \<and> (\<forall>a. tt_eval r (\<lambda>p. a (xs ! p)) = F a))"

lemma denotes_Logic:
  "(\<And>a. \<not> F a) \<Longrightarrow> denotes Logic0 xs F"
  "(\<And>a. F a) \<Longrightarrow> denotes Logic1 xs F"
  using Logic0_spec Logic1_spec unfolding denotes_def by metis+

lemma denotes_Buf_Inv:
  "(\<And>a. F a = a (xs ! 0)) \<Longrightarrow> denotes Buf xs F"
  "(\<And>a. F a = (\<not> a (xs ! 0))) \<Longrightarrow> denotes Inv xs F"
  using Buf_Inv_spec unfolding denotes_def by metis+

lemma denotes_gate:
  assumes "is_gate g" "n < 2 ^ 32" "n = length xs"
    and F: "\<And>a. F a = gate_count g (length (filter a xs)) (length xs)"
  shows "denotes (tt_of_generic n g (fullDependencies n)) xs F"
proof -
  let ?r = "tt_default\<lparr>tt_size := n, tt_deps := fullDependencies n, tt_generic := g\<rparr>"
  have 1: "tt_of_generic n g (fullDependencies n) = Inr ?r"
    using assms by (intro tt_of_generic_Inr) simp_all
  have 2: "tt_wf ?r" using assms by (intro tt_wf_gate) simp_all
  have "map (\<lambda>p. a (xs ! p)) [0..<n] = map a xs" for a
    using assms(3) by (intro nth_equalityI) auto
  moreover have "tt_eval ?r b = gate_fun g (map b [0..<n])" for b
    using assms(1) by (auto simp: tt_eval_def tt_default_def is_gate_def)
  ultimately have "tt_eval ?r (\<lambda>p. a (xs ! p)) = gate_fun g (map a xs)" for a
    by metis
  with 1 2 F show ?thesis
    unfolding denotes_def by (simp add: gate_fun_count [OF assms(1)])
qed

text \<open>
  The case analysis of \<open>reduce_gate\<close>, stated on the numbers of constant and remaining inputs: \<open>k\<close>
  constants of which \<open>u\<close> are true, \<open>xs\<close> the remaining inputs.
\<close>

lemma reduce_gate_spec:
  assumes g: "is_gate g" and m: "length xs < 2 ^ 32" and u: "u \<le> k" "hasFalse \<longleftrightarrow> u \<noteq> k"
  shows "denotes (reduce_gate g (length xs) u hasFalse) xs
    (\<lambda>a. gate_count g (u + length (filter a xs)) (k + length xs))"
proof -
  have lt: "u + length (filter a xs) \<noteq> k + length xs" if "u \<noteq> k" for a
  proof -
    have "length (filter a xs) \<le> length xs" by simp
    then show ?thesis using that u(1) by linarith
  qed
  have one: "length (filter a xs) = of_bool (a (xs ! 0))" if "length xs = Suc 0" for a
    using that by (cases xs) auto
  have one_filter: "filter a xs = [] \<longleftrightarrow> \<not> a (xs ! 0)" if "length xs = Suc 0" for a
    using that by (cases xs) auto
  note intros = denotes_Logic denotes_Buf_Inv denotes_gate [OF _ m refl]
  show ?thesis
  proof (cases g)
    case G_AND
    then show ?thesis using u lt
      by (auto simp: reduce_gate_def Let_def one one_filter is_gate_def intro!: intros)
  next
    case G_NAND
    then show ?thesis using u lt
      by (auto simp: reduce_gate_def Let_def one one_filter is_gate_def intro!: intros)
  next
    case G_OR
    then show ?thesis using u
      by (auto simp: reduce_gate_def Let_def one one_filter is_gate_def intro!: intros)
  next
    case G_NOR
    then show ?thesis using u
      by (auto simp: reduce_gate_def Let_def one one_filter is_gate_def intro!: intros)
  next
    case G_XOR
    then show ?thesis using u
      by (auto simp: reduce_gate_def Let_def one one_filter is_gate_def intro!: intros)
  next
    case G_XNOR
    then show ?thesis using u
      by (auto simp: reduce_gate_def Let_def one one_filter is_gate_def intro!: intros)
  qed (use g in \<open>simp_all add: is_gate_def\<close>)
qed

lemma reduce_rows_denotes:
  assumes "tt_wf t" "tt_generic t = G_NONE" "distinct (map fst cs)" "\<forall>c\<in>set cs. fst c < tt_size t"
  shows "denotes (reduce_rows t cs (tt_size t - length cs)) (remaining (tt_size t) cs)
    (\<lambda>a. tt_eval t (cofactor cs a))"
  using reduce_rows_spec [OF assms] by (simp add: denotes_def)

lemma distinct_consts_length:
  assumes "distinct (map fst cs)" "\<forall>c\<in>set cs. fst c < n"
  shows "length cs \<le> n"
proof -
  have "card (set (map fst cs)) \<le> card {..<n}"
    by (rule card_mono) (use assms(2) in auto)
  then show ?thesis using distinct_card [OF assms(1)] by simp
qed

lemma reduced_denotes:
  assumes wf: "tt_wf t" and g: "tt_generic t = G_NONE \<or> is_gate (tt_generic t)"
    and simple: "isSimple (tt_deps t)" and ne: "cs \<noteq> []"
    and cs: "distinct (map fst cs)" "\<forall>c\<in>set cs. fst c < tt_size t"
  shows "denotes (getReducedWithConstants t cs) (remaining (tt_size t) cs)
    (\<lambda>a. tt_eval t (cofactor cs a))"
proof -
  let ?n = "tt_size t" and ?k = "length cs"
  have size: "?n < 2 ^ 32" using wf by (simp add: tt_wf_def)
  have kn: "?k \<le> ?n" using cs by (rule distinct_consts_length)
  with size have u32: "u32 ?k = ?k" by simp
  have pos: "?n \<noteq> 0" using kn ne by (cases cs) auto
  have new: "(if ?n > ?k then ?n - ?k else 0) = ?n - ?k" by simp
  have range: "\<not> (\<exists>c\<in>set cs. fst c \<ge> ?n)" using cs(2) by (meson not_le)
  show ?thesis
  proof (cases "tt_generic t = G_NONE")
    case True
    then have "getReducedWithConstants t cs = reduce_rows t cs (?n - ?k)"
      using simple pos ne range u32 new by (simp add: getReducedWithConstants_def Let_def is_gate_def)
    then show ?thesis using reduce_rows_denotes [OF wf True cs] by simp
  next
    case False
    let ?g = "tt_generic t" and ?hf = "\<exists>c\<in>set cs. \<not> snd c" and ?u = "length (filter snd cs)"
    have gate: "is_gate ?g" using g False by simp
    have red: "getReducedWithConstants t cs = reduce_gate ?g (?n - ?k) ?u ?hf"
      using simple pos ne range u32 new gate
      by (cases ?g) (simp_all add: getReducedWithConstants_def Let_def is_gate_def)
    have len: "length (remaining ?n cs) = ?n - ?k" using cs by (rule length_remaining)
    have hf: "?hf \<longleftrightarrow> ?u \<noteq> ?k"
      by (metis filter_True length_filter_less less_irrefl)
    have "denotes (reduce_gate ?g (length (remaining ?n cs)) ?u ?hf) (remaining ?n cs)
        (\<lambda>a. gate_count ?g (?u + length (filter a (remaining ?n cs))) (?k + length (remaining ?n cs)))"
      using gate size len hf by (intro reduce_gate_spec) auto
    moreover have "gate_count ?g (?u + length (filter a (remaining ?n cs))) (?k + length (remaining ?n cs)) =
        tt_eval t (cofactor cs a)" for a
      using False len kn
      by (simp add: tt_eval_def gate_fun_count [OF gate] count_inputs [OF cs])
    ultimately show ?thesis using red len by simp
  qed
qed

end
