(* ===== verification/TruthTableVector.thy ===== *)
theory TruthTableVector
  imports TruthTableCofactor
begin

unbundle bit_operations_syntax

text \<open>
  The vector generics and the removal of a variable.  \<open>address_value\<close> is the integer the address
  inputs spell, signed or not, at any width; the loops of \<open>evaluateVectorSelect\<close> and
  \<open>evaluateVectorUpdate\<close> compute a single indexed read or write at that offset.
\<close>

section \<open>The address\<close>

definition address_value :: "bool \<Rightarrow> nat \<Rightarrow> (nat \<Rightarrow> bool) \<Rightarrow> int" where
  "address_value isSigned A addr =
     (if isSigned then signed_take_bit (A - 1) (int (row_of A addr)) else int (row_of A addr))"

lemma bit_int_row: "bit (int (row_of A addr)) b \<longleftrightarrow> b < A \<and> addr b"
  by (simp add: bit_of_nat_iff bit_row_of)

lemma offset_bit:
  assumes "\<bar>offset\<bar> < 2 ^ 63"
  shows "(if b < 64 then bit (word_of_int offset :: u64) b else offset < 0) \<longleftrightarrow> bit offset b"
proof (cases "b < 64")
  case True
  then show ?thesis by (simp add: bit_word_of_int_iff)
next
  case False
  have self: "signed_take_bit 63 offset = offset"
    using assms unfolding signed_take_bit_int_eq_self_iff by linarith
  have "bit (signed_take_bit 63 offset) b \<longleftrightarrow> bit offset 63"
    using False by (simp add: bit_signed_take_bit_iff min_def)
  then have "bit offset b \<longleftrightarrow> bit offset 63"
    unfolding self .
  moreover have "bit offset 63 \<longleftrightarrow> offset < 0"
    using signed_take_bit_negative_iff [of 63 offset] unfolding self by simp
  ultimately show ?thesis using False by simp
qed

lemma address_matches_spec:
  assumes "\<bar>offset\<bar> < 2 ^ 63" "base + A \<le> length inputs"
  shows "\<forall>b\<in>set bs. b < A \<Longrightarrow>
    address_matches inputs base A offset bs =
      Inr (\<forall>b\<in>set bs. inputs ! (base + A - 1 - b) = bit offset b)"
proof (induction bs)
  case (Cons b bs)
  then have "base + A - 1 - b < length inputs" using assms(2) by auto
  then show ?case
    using Cons offset_bit [OF assms(1), of b] by auto
qed simp

lemma take_bit_row:
  "(\<forall>b < A. addr b = bit offset b) \<longleftrightarrow> take_bit A offset = int (row_of A addr)"
proof
  assume eq: "\<forall>b < A. addr b = bit offset b"
  show "take_bit A offset = int (row_of A addr)"
    by (rule bit_eqI) (use eq in \<open>auto simp: bit_take_bit_iff bit_int_row\<close>)
next
  assume eq: "take_bit A offset = int (row_of A addr)"
  show "\<forall>b < A. addr b = bit offset b"
    using arg_cong [OF eq, of bit] by (metis bit_int_row bit_take_bit_iff)
qed

lemma take_bit_int_row [simp]: "take_bit A (int (row_of A addr)) = int (row_of A addr)"
  by (simp add: take_bit_of_nat take_bit_nat_eq_self)

lemma address_hit:
  assumes small: "\<bar>offset\<bar> < 2 ^ 32" and A: "0 < A"
  obtains skip where "offset_skipped sg A offset = Inr skip"
    "(\<not> skip \<and> (\<forall>b < A. addr b = bit offset b)) \<longleftrightarrow> offset = address_value sg A addr"
proof (cases sg)
  case True
  let ?skip = "A < 64 \<and> (offset < - (2 ^ (A - 1)) \<or> offset \<ge> 2 ^ (A - 1))"
  have 1: "offset_skipped sg A offset = Inr ?skip"
    using True A by (simp add: offset_skipped_def Let_def)
  have inrange: "\<not> ?skip \<longleftrightarrow> signed_take_bit (A - 1) offset = offset"
  proof (cases "A < 64")
    case False
    then have "(2::int) ^ 32 \<le> 2 ^ (A - 1)" by (intro power_increasing) auto
    with small False show ?thesis by (auto simp: signed_take_bit_int_eq_self_iff)
  qed (auto simp: signed_take_bit_int_eq_self_iff)
  have "(\<not> ?skip \<and> (\<forall>b < A. addr b = bit offset b)) \<longleftrightarrow> offset = address_value sg A addr"
    (is "?l \<longleftrightarrow> ?r")
  proof
    assume ?l
    then have "take_bit (Suc (A - 1)) offset = take_bit (Suc (A - 1)) (int (row_of A addr))"
      using A take_bit_row [of A addr offset] by simp
    then have "signed_take_bit (A - 1) offset = signed_take_bit (A - 1) (int (row_of A addr))"
      by (simp add: signed_take_bit_eq_iff_take_bit_eq)
    with \<open>?l\<close> inrange True show ?r by (simp add: address_value_def)
  next
    assume ?r
    then have off: "offset = signed_take_bit (A - 1) (int (row_of A addr))"
      using True by (simp add: address_value_def)
    then have "signed_take_bit (A - 1) offset = offset" by simp
    moreover have "take_bit (Suc (A - 1)) offset = take_bit (Suc (A - 1)) (int (row_of A addr))"
      using off by (simp add: signed_take_bit_eq_iff_take_bit_eq [symmetric])
    ultimately show ?l using inrange A by (simp add: take_bit_row)
  qed
  with 1 show ?thesis by (rule that)
next
  case False
  let ?skip = "offset < 0 \<or> (A < 64 \<and> offset \<ge> 2 ^ A)"
  have u: "unat (word_of_int offset :: u64) = nat offset" if "0 \<le> offset"
    using small that by (simp add: unat_eq_nat_uint uint_word_of_int)
  have 1: "offset_skipped sg A offset = Inr ?skip"
    using False u by (auto simp: offset_skipped_def le_nat_iff)
  have inrange: "\<not> ?skip \<longleftrightarrow> take_bit A offset = offset"
  proof (cases "A < 64")
    case False
    then have "(2::int) ^ 32 \<le> 2 ^ A" by (intro power_increasing) auto
    with small False show ?thesis by (auto simp: take_bit_int_eq_self_iff)
  qed (auto simp: take_bit_int_eq_self_iff)
  have "(\<not> ?skip \<and> (\<forall>b < A. addr b = bit offset b)) \<longleftrightarrow> offset = address_value sg A addr"
    using inrange False unfolding take_bit_row address_value_def
    by (metis take_bit_int_row)
  with 1 show ?thesis by (rule that)
qed

section \<open>The loops\<close>

lemma select_loop_spec:
  assumes sizes: "s_width m + s_addressSize m = length inputs" "0 < s_addressSize m"
    "s_width m < 2 ^ 32" "s_outputBit m < 2 ^ 32"
  defines "off \<equiv> address_value (s_isSigned m) (s_addressSize m)
      (\<lambda>b. inputs ! (s_width m + s_addressSize m - 1 - b))"
  shows "\<forall>k\<in>set ks. k < s_width m \<Longrightarrow>
    vector_select_loop m inputs ks =
      Inr (if off + int (s_outputBit m) \<in> int ` set ks
           then Some (inputs ! (s_width m - 1 - nat (off + int (s_outputBit m)))) else None)"
proof (induction ks)
  case (Cons k ks)
  let ?o = "int k - int (s_outputBit m)"
  have small: "\<bar>?o\<bar> < 2 ^ 32" using Cons.prems assms(3,4) by auto
  define M where "M \<longleftrightarrow> (\<forall>b < s_addressSize m. inputs ! (s_width m + s_addressSize m - 1 - b) = bit ?o b)"
  obtain skip where skip: "offset_skipped (s_isSigned m) (s_addressSize m) ?o = Inr skip"
    "(\<not> skip \<and> M) \<longleftrightarrow> ?o = off"
    unfolding off_def M_def by (rule address_hit [OF small sizes(2)])
  have match: "address_matches inputs (s_width m) (s_addressSize m) ?o [0..<s_addressSize m] = Inr M"
    using small sizes(1) by (subst address_matches_spec) (auto simp: M_def)
  have at: "vec_at inputs (s_width m - 1 - k) = Inr (inputs ! (s_width m - 1 - k))"
    using Cons.prems sizes(1) by (intro vec_at_in) auto
  have hit: "off + int (s_outputBit m) = int k \<longleftrightarrow> ?o = off" by auto
  have rest: "vector_select_loop m inputs (k # ks) =
      (if ?o = off then Inr (Some (inputs ! (s_width m - 1 - k))) else vector_select_loop m inputs ks)"
    unfolding skip(2) [symmetric]
    by (simp only: vector_select_loop.simps Let_def skip(1) match at rbind_Inr) simp
  show ?case
  proof (cases "?o = off")
    case True
    with hit have "off + int (s_outputBit m) = int k" by simp
    with True show ?thesis unfolding rest by simp
  next
    case False
    with Cons hit show ?thesis unfolding rest by simp
  qed
qed simp

lemma evaluateVectorSelect_spec:
  assumes wf: "tt_wf t" "tt_generic t = VECTOR_SELECT" "s_selectWidth (tt_vsel t) \<le> u32_max"
    and len: "length inputs = tt_size t"
  defines "m \<equiv> tt_vsel t"
  defines "pos \<equiv> address_value (s_isSigned m) (s_addressSize m)
      (\<lambda>b. inputs ! (s_width m + s_addressSize m - 1 - b)) + int (s_outputBit m)"
  shows "evaluateVectorSelect t inputs =
    Inr (if 0 \<le> pos \<and> pos < int (s_width m) then Some (inputs ! (s_width m - 1 - nat pos)) else None)"
proof -
  have valid: "s_width m \<noteq> 0" "s_addressSize m \<noteq> 0" "s_outputBit m < s_selectWidth m"
    "s_width m + s_addressSize m = tt_size t" "tt_size t < 2 ^ 32"
    using wf by (auto simp: tt_wf_def validateGenericMetadata_def m_def split: if_splits)
  have mem: "pos \<in> int ` set [0..<s_width m] \<longleftrightarrow> 0 \<le> pos \<and> pos < int (s_width m)"
    by (auto simp: image_iff intro!: bexI [of _ "nat pos"])
  have "evaluateVectorSelect t inputs = vector_select_loop m inputs [0..<s_width m]"
    using wf(2) len by (simp add: evaluateVectorSelect_def getVectorSelectMetadata_def m_def)
  also have "\<dots> = Inr (if pos \<in> int ` set [0..<s_width m]
      then Some (inputs ! (s_width m - 1 - nat pos)) else None)"
    unfolding pos_def using valid len wf(3)
    by (intro select_loop_spec) (auto simp: m_def u32_max_def)
  finally show ?thesis unfolding mem .
qed

lemma update_loop_spec:
  assumes sizes: "u_updateWidth m + u_addressSize m + 2 = length inputs" "0 < u_addressSize m"
    "u_updateWidth m < 2 ^ 32" "u_outputBit m < 2 ^ 32"
  defines "off \<equiv> address_value (u_isSigned m) (u_addressSize m)
      (\<lambda>b. inputs ! (1 + u_updateWidth m + u_addressSize m - 1 - b))"
  shows "\<forall>k\<in>set ks. k < u_updateWidth m \<Longrightarrow>
    vector_update_loop m inputs ks =
      Inr (if int (u_outputBit m) - off \<in> int ` set ks
           then inputs ! (u_updateWidth m - nat (int (u_outputBit m) - off)) else inputs ! 0)"
proof (induction ks)
  case Nil
  have "0 < length inputs" using sizes(1) by linarith
  then show ?case by simp
next
  case (Cons k ks)
  let ?o = "int (u_outputBit m) - int k"
  have small: "\<bar>?o\<bar> < 2 ^ 32" using Cons.prems assms(3,4) by auto
  define M where "M \<longleftrightarrow> (\<forall>b < u_addressSize m. inputs ! (1 + u_updateWidth m + u_addressSize m - 1 - b) = bit ?o b)"
  obtain skip where skip: "offset_skipped (u_isSigned m) (u_addressSize m) ?o = Inr skip"
    "(\<not> skip \<and> M) \<longleftrightarrow> ?o = off"
    unfolding off_def M_def by (rule address_hit [OF small sizes(2)])
  have match: "address_matches inputs (1 + u_updateWidth m) (u_addressSize m) ?o [0..<u_addressSize m] = Inr M"
    using small sizes(1) by (subst address_matches_spec) (auto simp: M_def)
  have at: "vec_at inputs (1 + u_updateWidth m - 1 - k) = Inr (inputs ! (u_updateWidth m - k))"
    using Cons.prems sizes(1) by simp
  have hit: "int (u_outputBit m) - off = int k \<longleftrightarrow> ?o = off" by auto
  have rest: "vector_update_loop m inputs (k # ks) =
      (if ?o = off then Inr (inputs ! (u_updateWidth m - k)) else vector_update_loop m inputs ks)"
    unfolding skip(2) [symmetric]
    by (simp only: vector_update_loop.simps Let_def skip(1) match at rbind_Inr) simp
  show ?case
  proof (cases "?o = off")
    case True
    with hit have "int (u_outputBit m) - off = int k" by simp
    with True show ?thesis unfolding rest by simp
  next
    case False
    with Cons hit show ?thesis unfolding rest by simp
  qed
qed

lemma evaluateVectorUpdate_spec:
  assumes wf: "tt_wf t" "tt_generic t = VECTOR_UPDATE" "u_width (tt_vupd t) \<le> u32_max"
    and len: "length inputs = tt_size t"
  defines "m \<equiv> tt_vupd t"
  defines "pos \<equiv> int (u_outputBit m) - address_value (u_isSigned m) (u_addressSize m)
      (\<lambda>b. inputs ! (1 + u_updateWidth m + u_addressSize m - 1 - b))"
  shows "evaluateVectorUpdate t inputs =
    Inr (if last inputs \<and> 0 \<le> pos \<and> pos < int (u_updateWidth m)
         then inputs ! (u_updateWidth m - nat pos) else hd inputs)"
proof -
  have valid: "u_addressSize m \<noteq> 0" "u_outputBit m < u_width m"
    "u_updateWidth m + u_addressSize m + 2 = tt_size t" "tt_size t < 2 ^ 32"
    using wf by (auto simp: tt_wf_def validateGenericMetadata_def m_def split: if_splits)
  then have ne: "inputs \<noteq> []" using len by auto
  have at: "vec_at inputs (tt_size t - Suc 0) = Inr (last inputs)" "vec_at inputs 0 = Inr (hd inputs)"
    using ne len by (simp_all add: vec_at_def last_conv_nth hd_conv_nth flip: length_greater_0_conv)
  have mem: "pos \<in> int ` set [0..<u_updateWidth m] \<longleftrightarrow> 0 \<le> pos \<and> pos < int (u_updateWidth m)"
    by (auto simp: image_iff intro!: bexI [of _ "nat pos"])
  have "evaluateVectorUpdate t inputs = (if \<not> last inputs then Inr (hd inputs)
      else vector_update_loop m inputs [0..<u_updateWidth m])"
    using wf(2) len at by (simp add: evaluateVectorUpdate_def getVectorUpdateMetadata_def m_def)
  also have "vector_update_loop m inputs [0..<u_updateWidth m] =
      Inr (if pos \<in> int ` set [0..<u_updateWidth m]
        then inputs ! (u_updateWidth m - nat pos) else inputs ! 0)"
    unfolding pos_def using valid len wf(3)
    by (intro update_loop_spec) (auto simp: m_def u32_max_def)
  finally show ?thesis unfolding mem using ne by (simp add: hd_conv_nth)
qed

end
