(* ===== verification/StdMap.thy ===== *)
theory StdMap
  imports Naja_Prelude
begin

text \<open>
  The sources keep most of their indexes in a \<open>std::map\<close> with the key's own \<open>operator<\<close>.  The model
  is an association list in key order; the operations compare keys with the given order only, as
  the library does (two keys are equivalent when neither precedes).  The locale \<open>map_key\<close> is what
  the standard asks of the comparison, on the keys a component really stores; every key order of
  the development is an interpretation of it.
\<close>

section \<open>Operations\<close>

type_synonym ('k, 'v) smap = "('k \<times> 'v) list"

text \<open>\<open>m.find(k)\<close>\<close>

fun smap_find :: "('k \<Rightarrow> 'k \<Rightarrow> bool) \<Rightarrow> 'k \<Rightarrow> ('k, 'v) smap \<Rightarrow> 'v option" where
  "smap_find lt k [] = None"
| "smap_find lt k ((a, v) # m) =
     (if lt a k then smap_find lt k m else if lt k a then None else Some v)"

text \<open>\<open>m[k] = v\<close>\<close>

fun smap_put :: "('k \<Rightarrow> 'k \<Rightarrow> bool) \<Rightarrow> 'k \<Rightarrow> 'v \<Rightarrow> ('k, 'v) smap \<Rightarrow> ('k, 'v) smap" where
  "smap_put lt k v [] = [(k, v)]"
| "smap_put lt k v ((a, w) # m) =
     (if lt a k then (a, w) # smap_put lt k v m
      else if lt k a then (k, v) # (a, w) # m else (a, v) # m)"

text \<open>\<open>m.erase(k)\<close>\<close>

fun smap_erase :: "('k \<Rightarrow> 'k \<Rightarrow> bool) \<Rightarrow> 'k \<Rightarrow> ('k, 'v) smap \<Rightarrow> ('k, 'v) smap" where
  "smap_erase lt k [] = []"
| "smap_erase lt k ((a, w) # m) =
     (if lt a k then (a, w) # smap_erase lt k m else if lt k a then (a, w) # m else m)"

text \<open>\<open>boost::intrusive::set::insert\<close>: no effect when an equivalent element is present.\<close>

definition set_insert :: "('k \<Rightarrow> 'k \<Rightarrow> bool) \<Rightarrow> 'k \<Rightarrow> 'v \<Rightarrow> ('k, 'v) smap \<Rightarrow> ('k, 'v) smap" where
  "set_insert lt k v m = (if smap_find lt k m = None then smap_put lt k v m else m)"

definition smap_inv :: "('k \<Rightarrow> 'k \<Rightarrow> bool) \<Rightarrow> ('k \<Rightarrow> bool) \<Rightarrow> ('k, 'v) smap \<Rightarrow> bool" where
  "smap_inv lt ok m \<longleftrightarrow> sorted_wrt lt (map fst m) \<and> (\<forall>k\<in>fst ` set m. ok k)"

section \<open>The contract of a key order\<close>

locale map_key =
  fixes lt :: "'k \<Rightarrow> 'k \<Rightarrow> bool"
    and ok :: "'k \<Rightarrow> bool"
  assumes irrefl: "ok x \<Longrightarrow> \<not> lt x x"
    and trans: "ok x \<Longrightarrow> ok y \<Longrightarrow> ok z \<Longrightarrow> lt x y \<Longrightarrow> lt y z \<Longrightarrow> lt x z"
    and total: "ok x \<Longrightarrow> ok y \<Longrightarrow> lt x y \<or> x = y \<or> lt y x"
begin

lemma asym: "ok x \<Longrightarrow> ok y \<Longrightarrow> lt x y \<Longrightarrow> \<not> lt y x"
  using irrefl trans by blast

lemma inv_Cons:
  "smap_inv lt ok ((a, w) # m) \<longleftrightarrow> ok a \<and> (\<forall>k\<in>fst ` set m. lt a k) \<and> smap_inv lt ok m"
  by (auto simp: smap_inv_def)

lemma keys_put: "ok k \<Longrightarrow> \<forall>a\<in>fst ` set m. ok a \<Longrightarrow> fst ` set (smap_put lt k v m) = insert k (fst ` set m)"
proof (induction m)
  case (Cons x m)
  then show ?case using total [of "fst x" k] by (cases x) auto
qed simp

lemma inv_keys: "smap_inv lt ok m \<Longrightarrow> \<forall>a\<in>fst ` set m. ok a"
  by (simp add: smap_inv_def)

lemma put_inv: "smap_inv lt ok m \<Longrightarrow> ok k \<Longrightarrow> smap_inv lt ok (smap_put lt k v m)"
proof (induction m)
  case Nil
  then show ?case by (simp add: smap_inv_def)
next
  case (Cons x m)
  obtain a w where x: "x = (a, w)" by (cases x)
  have inv: "ok a" "\<forall>k\<in>fst ` set m. lt a k" "smap_inv lt ok m"
    using Cons.prems(1) by (auto simp: x inv_Cons)
  have keys: "\<forall>b\<in>fst ` set m. ok b" using inv(3) by (rule inv_keys)
  show ?case
  proof (cases "lt a k")
    case True
    have "smap_inv lt ok (smap_put lt k v m)" using inv(3) Cons.prems(2) by (rule Cons.IH)
    then show ?thesis
      using True inv Cons.prems(2) keys by (simp add: x inv_Cons keys_put)
  next
    case False
    then show ?thesis
      using inv Cons.prems(2) keys trans [of k a] by (auto simp: x inv_Cons)
  qed
qed

lemma find_not_less: "smap_inv lt ok m \<Longrightarrow> ok k \<Longrightarrow> \<forall>a\<in>fst ` set m. lt k a \<Longrightarrow> smap_find lt k m = None"
proof (cases m)
  case (Cons x m')
  assume inv: "smap_inv lt ok m" "ok k" "\<forall>a\<in>fst ` set m. lt k a"
  obtain a w where x: "x = (a, w)" by (cases x)
  from inv Cons x have "ok a" "lt k a" by (auto simp: inv_Cons)
  then have "\<not> lt a k" using asym inv(2) by blast
  with \<open>lt k a\<close> show ?thesis by (simp add: Cons x)
qed simp

lemma find_eq_map_of: "smap_inv lt ok m \<Longrightarrow> ok k \<Longrightarrow> smap_find lt k m = map_of m k"
proof (induction m)
  case (Cons x m)
  obtain a w where x: "x = (a, w)" by (cases x)
  have inv: "ok a" "\<forall>k\<in>fst ` set m. lt a k" "smap_inv lt ok m"
    using Cons.prems(1) by (auto simp: x inv_Cons)
  consider "lt a k" | "a = k" | "lt k a" using total [OF inv(1) Cons.prems(2)] by blast
  then show ?case
  proof cases
    case 1
    then have "a \<noteq> k" using irrefl inv(1) by blast
    with 1 Cons inv show ?thesis by (simp add: x)
  next
    case 2
    then show ?thesis using irrefl [OF inv(1)] by (simp add: x)
  next
    case 3
    then have "\<not> lt a k" "a \<noteq> k" using asym irrefl inv(1) Cons.prems(2) by blast+
    moreover have "k \<notin> fst ` set m"
      using inv 3 asym Cons.prems(2) by blast
    then have "map_of m k = None" by (simp add: map_of_eq_None_iff)
    ultimately show ?thesis using 3 by (simp add: x)
  qed
qed simp

lemma find_put:
  assumes "smap_inv lt ok m" "ok k" "ok l"
  shows "smap_find lt l (smap_put lt k v m) = (if l = k then Some v else smap_find lt l m)"
proof -
  have "map_of (smap_put lt k v m) = (map_of m)(k \<mapsto> v)"
    using assms(1)
  proof (induction m)
    case (Cons x m)
    obtain a w where x: "x = (a, w)" by (cases x)
    have inv: "ok a" "\<forall>k\<in>fst ` set m. lt a k" "smap_inv lt ok m"
      using Cons.prems(1) by (auto simp: x inv_Cons)
    have "lt a k \<Longrightarrow> a \<noteq> k" using irrefl inv(1) by blast
    moreover have "\<not> lt a k \<Longrightarrow> \<not> lt k a \<Longrightarrow> a = k" using total [OF inv(1) assms(2)] by blast
    ultimately show ?case using Cons.IH inv by (auto simp: x fun_eq_iff)
  qed simp
  then show ?thesis
    using find_eq_map_of [OF put_inv [OF assms(1,2)] assms(3), of v] find_eq_map_of [OF assms(1,3)]
    by simp
qed

lemma set_erase:
  "smap_inv lt ok m \<Longrightarrow> ok k \<Longrightarrow> set (smap_erase lt k m) = {x \<in> set m. fst x \<noteq> k}"
proof (induction m)
  case (Cons x m)
  obtain a w where x: "x = (a, w)" by (cases x)
  have inv: "ok a" "\<forall>k\<in>fst ` set m. lt a k" "smap_inv lt ok m"
    using Cons.prems(1) by (auto simp: x inv_Cons)
  consider "lt a k" | "a = k" | "lt k a" using total [OF inv(1) Cons.prems(2)] by blast
  then show ?case
  proof cases
    case 1
    then have "a \<noteq> k" using irrefl inv(1) by blast
    with 1 Cons inv show ?thesis by (auto simp: x)
  next
    case 2
    then have "k \<notin> fst ` set m" using inv(1,2) irrefl by blast
    with 2 irrefl [OF inv(1)] show ?thesis by (force simp: x)
  next
    case 3
    then have "\<not> lt a k" "a \<noteq> k" using asym irrefl inv(1) Cons.prems(2) by blast+
    moreover have "k \<notin> fst ` set m" using inv 3 asym Cons.prems(2) by blast
    ultimately show ?thesis using 3 by (force simp: x)
  qed
qed simp

lemma erase_subset: "x \<in> set (smap_erase lt k m) \<Longrightarrow> x \<in> set m"
  by (induction m) (auto split: if_splits)

lemma erase_inv: "smap_inv lt ok m \<Longrightarrow> smap_inv lt ok (smap_erase lt k m)"
proof (induction m)
  case (Cons x m)
  obtain a w where x: "x = (a, w)" by (cases x)
  show ?case using Cons by (auto simp: x inv_Cons dest!: erase_subset)
qed simp

lemma keys_erase:
  "smap_inv lt ok m \<Longrightarrow> ok k \<Longrightarrow> fst ` set (smap_erase lt k m) = fst ` set m - {k}"
  by (auto simp: set_erase image_iff)

lemma find_None_iff: "smap_inv lt ok m \<Longrightarrow> ok k \<Longrightarrow> smap_find lt k m = None \<longleftrightarrow> k \<notin> fst ` set m"
  by (simp add: find_eq_map_of map_of_eq_None_iff)

lemma find_Some_iff: "smap_inv lt ok m \<Longrightarrow> ok k \<Longrightarrow> smap_find lt k m = Some v \<longleftrightarrow> (k, v) \<in> set m"
proof -
  assume m: "smap_inv lt ok m" "ok k"
  have "distinct (map fst m)"
    using m(1)
  proof (induction m)
    case (Cons x m)
    then show ?case
      using irrefl by (cases x) (fastforce simp: inv_Cons)
  qed simp
  then show ?thesis by (simp add: find_eq_map_of [OF m])
qed

lemma find_erase:
  assumes "smap_inv lt ok m" "ok k" "ok l"
  shows "smap_find lt l (smap_erase lt k m) = (if l = k then None else smap_find lt l m)"
proof -
  have "smap_find lt l (smap_erase lt k m) = Some v \<longleftrightarrow> l \<noteq> k \<and> smap_find lt l m = Some v" for v
    using assms by (auto simp: find_Some_iff [OF erase_inv [OF assms(1)] assms(3)]
        find_Some_iff [OF assms(1,3)] set_erase)
  then show ?thesis by (metis not_None_eq)
qed

lemma insert_inv: "smap_inv lt ok m \<Longrightarrow> ok k \<Longrightarrow> smap_inv lt ok (set_insert lt k v m)"
  by (simp add: set_insert_def put_inv)

lemma keys_insert:
  "smap_inv lt ok m \<Longrightarrow> ok k \<Longrightarrow> fst ` set (set_insert lt k v m) = insert k (fst ` set m)"
  using find_None_iff [of m k] inv_keys [of m] by (auto simp: set_insert_def keys_put)

lemma find_insert:
  assumes "smap_inv lt ok m" "ok k" "ok l"
  shows "smap_find lt l (set_insert lt k v m) =
    (if l = k \<and> smap_find lt k m = None then Some v else smap_find lt l m)"
  using assms by (auto simp: set_insert_def find_put)

end

end
