(* ===== verification/TruthTableOrder.thy ===== *)
theory TruthTableOrder
  imports TruthTableProps StdMap "HOL-Library.Product_Lexorder" "HOL-Library.List_Lexorder"
begin

text \<open>
  \<open>operator==\<close> and \<open>operator<\<close> of \<open>SNLTruthTable\<close>.  The order makes the class a key of \<open>std::map\<close>
  (\<open>NLLibraryTruthTables::LibraryTruthTables\<close>): on well-formed tables it is a strict total order
  whose equivalence is \<open>==\<close>, an interpretation of \<open>map_key\<close>.
\<close>

section \<open>Enumerations compare by position\<close>

fun gt_index :: "GenericType \<Rightarrow> nat" where
  "gt_index G_NONE = 0"
| "gt_index G_OR = 1"
| "gt_index G_NOR = 2"
| "gt_index G_AND = 3"
| "gt_index G_NAND = 4"
| "gt_index G_XOR = 5"
| "gt_index G_XNOR = 6"
| "gt_index TABLE_SELECT = 7"
| "gt_index DIVMOD = 8"
| "gt_index ADD_SUB = 9"
| "gt_index MULTIPLY = 10"
| "gt_index SHIFT = 11"
| "gt_index ROM = 12"
| "gt_index VECTOR_UPDATE = 13"
| "gt_index VECTOR_SELECT = 14"

lemma gt_index_inj: "gt_index a = gt_index b \<longleftrightarrow> a = b"
  by (cases a; cases b) simp_all

instantiation GenericType :: linorder
begin

definition less_eq_GenericType :: "GenericType \<Rightarrow> GenericType \<Rightarrow> bool" where
  "less_eq_GenericType a b \<longleftrightarrow> gt_index a \<le> gt_index b"

definition less_GenericType :: "GenericType \<Rightarrow> GenericType \<Rightarrow> bool" where
  "less_GenericType a b \<longleftrightarrow> gt_index a < gt_index b"

instance
  by standard (auto simp: less_eq_GenericType_def less_GenericType_def gt_index_inj)

end

instantiation DivModResult :: linorder
begin

definition less_eq_DivModResult :: "DivModResult \<Rightarrow> DivModResult \<Rightarrow> bool" where
  "less_eq_DivModResult a b \<longleftrightarrow> a = QUOTIENT \<or> b = REMAINDER"

definition less_DivModResult :: "DivModResult \<Rightarrow> DivModResult \<Rightarrow> bool" where
  "less_DivModResult a b \<longleftrightarrow> a = QUOTIENT \<and> b = REMAINDER"

instance
  by standard (auto simp: less_eq_DivModResult_def less_DivModResult_def intro: DivModResult.exhaust)

end

section \<open>The operators\<close>

definition word_tie :: "WordMetadata \<Rightarrow> nat \<times> nat \<times> nat \<times> bool \<times> bool \<times> bool" where
  "word_tie w = (w_width w, w_outputBit w, w_countWidth w, w_subtract w, w_right w, w_arithmetic w)"

definition rom_tie :: "RomMetadata \<Rightarrow> nat \<times> nat \<times> bool list" where
  "rom_tie r = (r_addressSize r, r_depth r, r_column r)"

definition vupd_tie :: "VectorUpdateMetadata \<Rightarrow> nat \<times> nat \<times> nat \<times> nat \<times> bool" where
  "vupd_tie m = (u_width m, u_updateWidth m, u_addressSize m, u_outputBit m, u_isSigned m)"

definition vsel_tie :: "VectorSelectMetadata \<Rightarrow> nat \<times> nat \<times> nat \<times> nat \<times> bool" where
  "vsel_tie m = (s_width m, s_selectWidth m, s_addressSize m, s_outputBit m, s_isSigned m)"

definition tt_eq :: "SNLTruthTable \<Rightarrow> SNLTruthTable \<Rightarrow> bool" where
  "tt_eq a b \<longleftrightarrow> tt_size a = tt_size b \<and> bv_eq (tt_bits a) (tt_bits b) \<and> tt_deps a = tt_deps b \<and>
     tt_generic a = tt_generic b \<and> tt_selAddressSize a = tt_selAddressSize b \<and>
     tt_selDepth a = tt_selDepth b \<and> tt_divWidth a = tt_divWidth b \<and> tt_divSigned a = tt_divSigned b \<and>
     tt_divResult a = tt_divResult b \<and> tt_divOutputBit a = tt_divOutputBit b \<and>
     tt_word a = tt_word b \<and> tt_rom a = tt_rom b \<and> tt_vupd a = tt_vupd b \<and> tt_vsel a = tt_vsel b"

definition tt_less :: "SNLTruthTable \<Rightarrow> SNLTruthTable \<Rightarrow> bool result" where
  "tt_less a b =
    (if tt_size a \<noteq> tt_size b then Inr (tt_size a < tt_size b)
     else if tt_generic a \<noteq> tt_generic b then Inr (tt_generic a < tt_generic b)
     else if tt_selAddressSize a \<noteq> tt_selAddressSize b then Inr (tt_selAddressSize a < tt_selAddressSize b)
     else if tt_selDepth a \<noteq> tt_selDepth b then Inr (tt_selDepth a < tt_selDepth b)
     else if tt_divWidth a \<noteq> tt_divWidth b then Inr (tt_divWidth a < tt_divWidth b)
     else if tt_divSigned a \<noteq> tt_divSigned b then Inr (tt_divSigned a < tt_divSigned b)
     else if tt_divResult a \<noteq> tt_divResult b then Inr (tt_divResult a < tt_divResult b)
     else if tt_divOutputBit a \<noteq> tt_divOutputBit b then Inr (tt_divOutputBit a < tt_divOutputBit b)
     else if tt_word a \<noteq> tt_word b then Inr (word_tie (tt_word a) < word_tie (tt_word b))
     else if tt_rom a \<noteq> tt_rom b then Inr (rom_tie (tt_rom a) < rom_tie (tt_rom b))
     else if tt_vsel a \<noteq> tt_vsel b then Inr (vsel_tie (tt_vsel a) < vsel_tie (tt_vsel b))
     else if tt_vupd a \<noteq> tt_vupd b then Inr (vupd_tie (tt_vupd a) < vupd_tie (tt_vupd b))
     else if \<not> bv_eq (tt_bits a) (tt_bits b) then bv_less (tt_bits a) (tt_bits b)
     else Inr (map unat (tt_deps a) < map unat (tt_deps b)))"

lemma tie_inj:
  "word_tie w = word_tie w' \<longleftrightarrow> w = w'" "rom_tie r = rom_tie r' \<longleftrightarrow> r = r'"
  "vupd_tie u = vupd_tie u' \<longleftrightarrow> u = u'" "vsel_tie s = vsel_tie s' \<longleftrightarrow> s = s'"
  by (auto simp: word_tie_def rom_tie_def vupd_tie_def vsel_tie_def)

lemma bv_eq_iff: "bv_eq b c \<longleftrightarrow> b = c"
  by (cases b, cases c) (simp add: bv_eq_def)

lemma tt_eq_iff: "tt_eq a b \<longleftrightarrow> a = b"
  by (auto simp: tt_eq_def bv_eq_iff)

section \<open>The key\<close>

definition bits_rank :: "NLBitVecDynamic \<Rightarrow> nat" where
  "bits_rank b = (case bdata b of Mask m \<Rightarrow> unat m | Vec v \<Rightarrow> bv_value b)"

lemma less_prod_if: "(x, y) < (x', y') \<longleftrightarrow> (if x \<noteq> x' then x < x' else y < y')"
  for x x' :: "'a :: linorder" and y y' :: "'b :: linorder"
  by auto

lemma less_loop_vec:
  assumes "bv_wf b" "bv_wf c" "nbits b = nbits c" "bdata b = Vec v"
  shows "bv_less b c = Inr (bits_rank b < bits_rank c) \<and> (bits_rank b = bits_rank c \<longrightarrow> b = c)"
proof -
  obtain w where w: "bdata c = Vec w" using assms by (auto simp: bv_wf_def split: bv_data.splits)
  have "bv_less b c = Inr (bits_rank b < bits_rank c)"
    using assms w by (simp add: bv_less_def less_loop_row bits_rank_def bv_value_def)
  moreover have "v = w" if "bits_rank b = bits_rank c"
  proof (rule nth_equalityI)
    show "length v = length w" using assms w by (auto simp: bv_wf_def)
    fix i assume i: "i < length v"
    have "bit (bv_value b) i = bit (bv_value c) i"
      using that assms(4) w by (simp add: bits_rank_def)
    then have "bv_get b i = bv_get c i"
      using assms(1,3,4) i by (simp add: bv_value_def bit_row_of bv_wf_def)
    then show "v ! i = w ! i" using assms w i by (simp add: bv_get_def bv_wf_def)
  qed
  ultimately show ?thesis using assms w by simp
qed

lemma less_mask:
  assumes "bdata b = Mask v" "bdata c = Mask w" "nbits b = nbits c"
  shows "bv_less b c = Inr (bits_rank b < bits_rank c) \<and> (bits_rank b = bits_rank c \<longrightarrow> b = c)"
proof -
  have "v = w" if "unat v = unat w" using that by (simp add: word_unat_eq_iff)
  then show ?thesis
    using assms by (cases b, cases c) (auto simp: bv_less_def bits_rank_def word_less_nat_alt)
qed

lemma tt_bits_comparable:
  assumes "tt_wf a" "tt_wf b" "tt_size a = tt_size b" "tt_generic a = tt_generic b"
  shows "bv_less (tt_bits a) (tt_bits b) = Inr (bits_rank (tt_bits a) < bits_rank (tt_bits b)) \<and>
    (bits_rank (tt_bits a) = bits_rank (tt_bits b) \<longrightarrow> tt_bits a = tt_bits b)"
proof (cases "tt_generic a = G_NONE")
  case True
  then have wf: "bv_wf (tt_bits a)" "bv_wf (tt_bits b)" "nbits (tt_bits a) = nbits (tt_bits b)"
    using assms by (auto simp: tt_wf_def)
  show ?thesis
  proof (cases "bdata (tt_bits a)")
    case (Mask v)
    then obtain w where "bdata (tt_bits b) = Mask w"
      using wf by (auto simp: bv_wf_def split: bv_data.splits)
    with Mask wf(3) show ?thesis by (intro less_mask)
  next
    case (Vec v)
    with wf show ?thesis by (intro less_loop_vec)
  qed
next
  case False
  with assms have "tt_bits a = bv_default" "tt_bits b = bv_default" by (auto simp: tt_wf_def)
  then show ?thesis by (auto simp: bv_less_def bits_rank_def bv_default_def)
qed

text \<open>The tuple of the compared fields, in the order \<open>operator<\<close> compares them.\<close>

definition tt_key where
  "tt_key t = (tt_size t, tt_generic t, tt_selAddressSize t, tt_selDepth t, tt_divWidth t,
     tt_divSigned t, tt_divResult t, tt_divOutputBit t, word_tie (tt_word t), rom_tie (tt_rom t),
     vsel_tie (tt_vsel t), vupd_tie (tt_vupd t), bits_rank (tt_bits t), map unat (tt_deps t))"

lemma tt_less_key:
  assumes "tt_wf a" "tt_wf b"
  shows "tt_less a b = Inr (tt_key a < tt_key b)"
proof (cases "tt_size a = tt_size b \<and> tt_generic a = tt_generic b")
  case True
  then have c: "bv_less (tt_bits a) (tt_bits b) = Inr (bits_rank (tt_bits a) < bits_rank (tt_bits b))"
    "bv_eq (tt_bits a) (tt_bits b) \<longleftrightarrow> bits_rank (tt_bits a) = bits_rank (tt_bits b)"
    using tt_bits_comparable [OF assms] by (auto simp: bv_eq_iff)
  show ?thesis
    unfolding tt_less_def tt_key_def less_prod_if tie_inj c by (simp only: if_distrib [of Inr])
next
  case False
  then show ?thesis
    unfolding tt_less_def tt_key_def less_prod_if by auto
qed

lemma tt_key_inj:
  assumes "tt_wf a" "tt_wf b" "tt_key a = tt_key b"
  shows "a = b"
proof -
  have "tt_bits a = tt_bits b"
    using tt_bits_comparable [OF assms(1,2)] assms(3) by (auto simp: tt_key_def)
  moreover have "tt_deps a = tt_deps b"
    using assms(3) by (auto simp: tt_key_def inj_map_eq_map [OF inj_onI])
  ultimately show ?thesis
    using assms(3) by (auto simp: tt_key_def tie_inj)
qed

text \<open>The comparison \<open>std::map\<close> calls.\<close>

definition tt_lt :: "SNLTruthTable \<Rightarrow> SNLTruthTable \<Rightarrow> bool" where
  "tt_lt a b \<longleftrightarrow> tt_less a b = Inr True"

interpretation ttk: map_key tt_lt tt_wf
proof unfold_locales
  fix x y z
  show "tt_wf x \<Longrightarrow> \<not> tt_lt x x"
    by (simp add: tt_lt_def tt_less_key)
  show "tt_wf x \<Longrightarrow> tt_wf y \<Longrightarrow> tt_wf z \<Longrightarrow> tt_lt x y \<Longrightarrow> tt_lt y z \<Longrightarrow> tt_lt x z"
    by (simp add: tt_lt_def tt_less_key)
  show "tt_wf x \<Longrightarrow> tt_wf y \<Longrightarrow> tt_lt x y \<or> x = y \<or> tt_lt y x"
    using tt_key_inj [of x y] by (auto simp: tt_lt_def tt_less_key)
qed

end
