(* ===== verification/TruthTableRemove.thy ===== *)
theory TruthTableRemove
  imports TruthTableCofactor
begin

unbundle bit_operations_syntax

text \<open>
  \<open>removeVariable\<close>: up to six inputs it returns the table with the variable tied to false.  From
  seven inputs on it does not: its accumulator is a \<open>uint64_t\<close> built by 32-bit shifts.  The word
  arithmetic generics have no case of their own in \<open>getReducedWithConstants\<close>.
\<close>

section \<open>The renumbering of rows\<close>

definition squeeze :: "nat \<Rightarrow> nat \<Rightarrow> nat" where
  "squeeze v i = take_bit v i OR push_bit v (drop_bit (Suc v) i)"

lemma bit_squeeze: "bit (squeeze v i) p \<longleftrightarrow> (if p < v then bit i p else bit i (Suc p))"
  by (auto simp: squeeze_def bit_or_iff bit_take_bit_iff bit_push_bit_iff bit_drop_bit_eq)

definition insert_false :: "nat \<Rightarrow> (nat \<Rightarrow> bool) \<Rightarrow> nat \<Rightarrow> bool" where
  "insert_false v a i = (if i < v then a i else if i = v then False else a (i - 1))"

lemma squeeze_row:
  assumes "v < n" "i < 2 ^ n" "\<not> bit i v"
  shows "squeeze v i = row_of (n - 1) a \<longleftrightarrow> i = row_of n (insert_false v a)"
proof
  assume eq: "squeeze v i = row_of (n - 1) a"
  have b: "bit (squeeze v i) p \<longleftrightarrow> p < n - 1 \<and> a p" for p
    unfolding eq by (simp add: bit_row_of)
  show "i = row_of n (insert_false v a)"
  proof (rule bit_eqI)
    fix p
    consider "p < v" | "p = v" | q where "p = Suc q" "v \<le> q"
      by (metis Suc_le_D Suc_le_mono linorder_neqE_nat not_less_eq_eq not_less_eq le_less_Suc_eq le_SucE Suc_leI)
    then show "bit i p = bit (row_of n (insert_false v a)) p"
    proof cases
      case 1
      then show ?thesis using b [of p] assms(1)
        by (auto simp: bit_squeeze bit_row_of insert_false_def)
    next
      case 2
      then show ?thesis using assms(3) by (simp add: bit_row_of insert_false_def)
    next
      case 3
      then show ?thesis using b [of q] assms(1)
        by (auto simp: bit_squeeze bit_row_of insert_false_def)
    qed
  qed
next
  assume i: "i = row_of n (insert_false v a)"
  show "squeeze v i = row_of (n - 1) a"
    by (rule bit_eqI) (use assms(1) in \<open>auto simp: i bit_squeeze bit_row_of insert_false_def\<close>)
qed

lemma squeeze_less: "v < n \<Longrightarrow> i < 2 ^ n \<Longrightarrow> squeeze v i < 2 ^ (n - 1)"
proof -
  assume v: "v < n" and i: "i < 2 ^ n"
  have "bit i p \<Longrightarrow> p < n" for p
    using i by (metis bit_take_bit_iff take_bit_nat_eq_self_iff)
  then have "take_bit (n - 1) (squeeze v i) = squeeze v i"
    using v by (intro bit_eqI) (force simp: bit_take_bit_iff bit_squeeze split: if_splits)
  then show ?thesis by (simp add: take_bit_nat_eq_self_iff)
qed

section \<open>The loop\<close>

lemma remove_loop_spec:
  assumes wf: "bv_wf (tt_bits t)"
  shows "bv_wf out \<Longrightarrow> nbits out \<le> 32 \<Longrightarrow> \<forall>i\<in>set is. squeeze v i < nbits out \<Longrightarrow>
    \<exists>b. remove_loop t v is out = Inr b \<and> bv_wf b \<and> nbits b = nbits out \<and>
      (\<forall>q. bv_get b q \<longleftrightarrow>
        bv_get out q \<or> (\<exists>i\<in>set is. \<not> bit i v \<and> bv_get (tt_bits t) i \<and> q = squeeze v i))"
proof (induction "is" arbitrary: out)
  case Nil
  then show ?case by simp
next
  case (Cons i "is")
  show ?case
  proof (cases "\<not> bit i v \<and> bv_get (tt_bits t) i")
    case True
    let ?ni = "squeeze v i"
    have ni: "?ni < nbits out" "?ni < 32" using Cons.prems by auto
    obtain c where c: "bv_or out (of_nat (2 ^ ?ni)) = Inr c" "bv_wf c" "nbits c = nbits out"
      "\<And>q. bv_get c q \<longleftrightarrow> bv_get out q \<or> (q < nbits out \<and> bit (of_nat (2 ^ ?ni) :: u64) q)"
      using bv_or_spec [OF Cons.prems(1)] by metis
    have get: "bv_get c q \<longleftrightarrow> bv_get out q \<or> q = ?ni" for q
      using ni by (auto simp: c(4))
    have "remove_loop t v (i # is) out = remove_loop t v is c"
      using True ni wf c(1) by (simp add: Let_def squeeze_def)
    moreover obtain b where "remove_loop t v is c = Inr b" "bv_wf b" "nbits b = nbits c"
      "\<forall>q. bv_get b q \<longleftrightarrow>
        bv_get c q \<or> (\<exists>i\<in>set is. \<not> bit i v \<and> bv_get (tt_bits t) i \<and> q = squeeze v i)"
      using Cons.IH [of c] Cons.prems c(2,3) by auto
    ultimately show ?thesis
      using True c(3) get by auto
  next
    case False
    then have "remove_loop t v (i # is) out = remove_loop t v is out"
      using wf by (auto simp: Let_def)
    with False show ?thesis
      using Cons.IH [of out] Cons.prems by auto
  qed
qed

lemma removeVariable_small:
  assumes wf: "tt_wf t" "tt_generic t = G_NONE" and n: "tt_size t \<le> 6" and v: "v < tt_size t"
  shows "\<exists>r. removeVariable t v = Inr r \<and> tt_wf r \<and> tt_size r = tt_size t - 1 \<and>
    (\<forall>a. tt_eval r a = tt_eval t (insert_false v a))"
proof -
  let ?n = "tt_size t" and ?deps = "fullDependencies (tt_size t - 1)"
  let ?out = "tt_default\<lparr>tt_size := ?n - 1, tt_bits := \<lparr>nbits = 2 ^ (?n - 1), bdata = Mask 0\<rparr>,
    tt_deps := ?deps\<rparr>"
  have b: "bv_wf (tt_bits t)" "nbits (tt_bits t) = 2 ^ ?n" using wf by (auto simp: tt_wf_def)
  have out: "tt_of_mask (?n - 1) 0 ?deps = Inr ?out" "tt_wf ?out"
    using n by (auto intro!: tt_of_mask_Inr tt_wf_mask)
  have zero: "\<not> bv_get (tt_bits ?out) q" for q by (simp add: bv_get_def)
  have bits: "tt_bits ?out = \<lparr>nbits = 2 ^ (?n - 1), bdata = Mask 0\<rparr>" by simp
  have "(2::nat) ^ (?n - 1) \<le> 2 ^ 5" using n by (intro power_increasing) auto
  then have "bv_wf (tt_bits ?out)" "nbits (tt_bits ?out) \<le> 32" by (simp_all add: bits bv_wf_def)
  moreover have "\<forall>i\<in>set [0..<2 ^ ?n]. squeeze v i < nbits (tt_bits ?out)"
    using squeeze_less [OF v] by simp
  ultimately obtain c where c: "remove_loop t v [0..<2 ^ ?n] (tt_bits ?out) = Inr c" "bv_wf c"
    "nbits c = 2 ^ (?n - 1)"
    "\<And>q. bv_get c q \<longleftrightarrow> bv_get (tt_bits ?out) q \<or>
      (\<exists>i\<in>set [0..<2 ^ ?n]. \<not> bit i v \<and> bv_get (tt_bits t) i \<and> q = squeeze v i)"
    using remove_loop_spec [OF b(1), of "tt_bits ?out" "[0..<2 ^ ?n]" v] by auto
  let ?r = "?out\<lparr>tt_bits := c\<rparr>"
  have rem: "removeVariable t v = Inr ?r"
    using v n out(1) c(1) by (simp add: removeVariable_def)
  have lt: "?n - 1 < 32" "?n - 1 < 2 ^ 32" using n by auto
  have "tt_wf ?r"
    using lt c(2,3)
    by (simp add: tt_wf_def) (simp add: tt_default_def validateGenericMetadata_def isWordArithmetic_def)
  moreover have "tt_eval ?r a = tt_eval t (insert_false v a)" for a
  proof -
    have i0: "row_of ?n (insert_false v a) < 2 ^ ?n" "\<not> bit (row_of ?n (insert_false v a)) v"
      by (simp_all add: bit_row_of insert_false_def)
    have "bv_get c (row_of (?n - 1) a) \<longleftrightarrow>
        (\<exists>i < 2 ^ ?n. \<not> bit i v \<and> bv_get (tt_bits t) i \<and> squeeze v i = row_of (?n - 1) a)"
      unfolding c(4) using zero by (auto intro: sym)
    also have "\<dots> \<longleftrightarrow> bv_get (tt_bits t) (row_of ?n (insert_false v a))"
      using squeeze_row [OF v] i0 by metis
    finally show ?thesis
      using wf(2) by (simp add: tt_eval_def) (simp add: tt_default_def)
  qed
  ultimately show ?thesis using rem by (intro exI [of _ ?r]) (simp add: tt_default_def)
qed

lemma remove_loop_UB:
  assumes "bv_wf (tt_bits t)"
  shows "bv_wf out \<Longrightarrow> i \<in> set is \<Longrightarrow> \<not> bit i v \<Longrightarrow> bv_get (tt_bits t) i \<Longrightarrow> 32 \<le> squeeze v i \<Longrightarrow>
    remove_loop t v is out = Inl (UndefinedBehaviour ''shift of uint32_t'')"
proof (induction "is" arbitrary: out)
  case (Cons j js)
  show ?case
  proof (cases "\<not> bit j v \<and> bv_get (tt_bits t) j")
    case True
    show ?thesis
    proof (cases "squeeze v j < 32")
      case small: True
      obtain c where c: "bv_or out (of_nat (2 ^ squeeze v j)) = Inr c" "bv_wf c"
        using bv_or_spec [OF Cons.prems(1)] by metis
      from small Cons.prems have "i \<in> set js" by auto
      with Cons.IH [OF c(2)] Cons.prems have "remove_loop t v js c = Inl (UndefinedBehaviour ''shift of uint32_t'')"
        by simp
      with True small c(1) assms show ?thesis by (simp add: Let_def squeeze_def)
    next
      case False
      with True assms show ?thesis by (simp add: Let_def shl1_u32_def squeeze_def)
    qed
  next
    case False
    then have "i \<in> set js" "remove_loop t v (j # js) out = remove_loop t v js out"
      using Cons.prems assms by (auto simp: Let_def)
    with Cons show ?thesis by simp
  qed
qed simp

section \<open>Removing a variable of a seven input table\<close>

text \<open>The rows of the result at and beyond 32 are never stored: the shift is undefined.\<close>

lemma removeVariable_seven:
  assumes wf: "tt_wf t" "tt_generic t = G_NONE" "tt_size t = 7" and v: "v < 7"
    and row: "tt_eval t (insert_false v a)" "a 5"
  shows "removeVariable t v = Inl (UndefinedBehaviour ''shift of uint32_t'')"
proof -
  let ?i = "row_of 7 (insert_false v a)"
  have b: "bv_wf (tt_bits t)" using wf by (auto simp: tt_wf_def)
  have i: "?i < 128" "\<not> bit ?i v"
    using row_of_less [of 7 "insert_false v a"] by (auto simp: bit_row_of insert_false_def)
  have sq: "squeeze v ?i = row_of 6 a"
    using squeeze_row [of v 7 ?i a] v i by simp
  have "row_of 6 a = row_of 5 a + of_bool (a 5) * 2 ^ 5"
    by (simp add: eval_nat_numeral)
  then have big: "32 \<le> squeeze v ?i" using row(2) by (simp add: sq)
  let ?out = "tt_default\<lparr>tt_size := 6, tt_bits := \<lparr>nbits = 2 ^ 6, bdata = Mask 0\<rparr>,
    tt_deps := fullDependencies 6\<rparr>"
  have out: "tt_of_mask 6 0 (fullDependencies 6) = Inr ?out" by (rule tt_of_mask_Inr) simp_all
  have "remove_loop t v [0..<128] (tt_bits ?out) = Inl (UndefinedBehaviour ''shift of uint32_t'')"
    by (rule remove_loop_UB [of t _ ?i])
      (use b i big row(1) wf in \<open>simp_all add: bv_wf_def tt_eval_def\<close>)
  with out wf v show ?thesis by (simp add: removeVariable_def)
qed

section \<open>Word arithmetic falls through to the row loop\<close>

text \<open>
  The switch of \<open>getReducedWithConstants\<close> has no case for \<open>ADD_SUB\<close>, \<open>MULTIPLY\<close> and \<open>SHIFT\<close>; the
  row loop reads the empty bit vector of the generic as all zeros and returns \<open>Logic0\<close>.
\<close>

lemma reduce_rows_empty:
  assumes "tt_bits t = bv_default" "newSize < 32" "tt_size t \<le> 6"
  shows "reduce_rows t cs newSize = Logic0"
proof -
  have "row_of (tt_size t) f < 64" for f
    using order.strict_trans2 [OF row_of_less power_increasing [OF assms(3), of "2::nat"]] by simp
  then have "rmap (\<lambda>j. rbind (weave cs j [0..<tt_size t] 0 0) (bv_bit (tt_bits t))) [0..<2 ^ newSize] =
      Inr (map (\<lambda>_. False) [0..<2 ^ newSize])"
    using assms by (intro rmap_total) (simp add: weave_row bv_bit_def bv_default_def)
  moreover obtain out where out:
    "(if newSize > 6 then tt_of_bits newSize (map (\<lambda>_. False) [0..<2 ^ newSize]) (fullDependencies newSize)
      else tt_of_mask newSize (set_rows 0 (map (\<lambda>_. False) [0..<2 ^ newSize]) 0) (fullDependencies newSize))
      = Inr out"
    "tt_wf out" "tt_generic out = G_NONE" "tt_size out = newSize"
    "\<And>i. i < 2 ^ newSize \<Longrightarrow> bv_get (tt_bits out) i = map (\<lambda>_. False) [0..<(2::nat) ^ newSize] ! i"
    using reduced_out [OF assms(2), of "map (\<lambda>_. False) [0..<2 ^ newSize]"] by auto
  moreover have "all0 out = Inr True"
    using out by (simp add: all0_iff tt_eval_def)
  ultimately show ?thesis
    using assms(2) by (simp add: reduce_rows_def)
qed

lemma word_arithmetic_reduces_to_zero:
  assumes wf: "tt_wf t" "isWordArithmetic t" and n: "tt_size t \<le> 6" and simple: "isSimple (tt_deps t)"
    and cs: "cs \<noteq> []" "\<forall>c\<in>set cs. fst c < tt_size t"
  shows "getReducedWithConstants t cs = Logic0"
proof -
  have bits: "tt_bits t = bv_default" using wf by (auto simp: tt_wf_def isWordArithmetic_def)
  have pos: "tt_size t \<noteq> 0" using cs by (cases cs) auto
  have range: "\<not> (\<exists>c\<in>set cs. fst c \<ge> tt_size t)" using cs(2) by (meson not_le)
  let ?new = "if tt_size t > u32 (length cs) then tt_size t - u32 (length cs) else 0"
  have "getReducedWithConstants t cs = reduce_rows t cs ?new"
    using wf(2) simple pos cs(1) range
    by (auto simp: getReducedWithConstants_def Let_def isWordArithmetic_def is_gate_def)
  also have "\<dots> = Logic0"
    using bits n by (intro reduce_rows_empty) auto
  finally show ?thesis .
qed

end
