(* ===== verification/LibraryTables.thy ===== *)
theory LibraryTables
  imports TruthTableOrder TruthTableRemove
begin

text \<open>
  \<^verbatim>\<open>src/nl/netlist/decorators/NLLibraryTruthTables.cpp\<close>: the index from truth tables to the
  primitives that implement them, and the lookup that retries without an input the table does not
  depend on.  What the index reads of a design (its kind and its common truth table, which come
  from \<open>NLDB0\<close> and \<open>SNLDesignModeling\<close>) is the record \<open>prim\<close>.
\<close>

section \<open>Model\<close>

text \<open>
  A primitive as \<open>addDesignTruthTable\<close> sees it: \<open>p_word\<close> is one of \<open>isMemory\<close>, \<open>isShift\<close>,
  \<open>isMultiply\<close>, \<open>isAddSub\<close>, \<open>isDivMod\<close>, \<open>isTableSelect\<close>; \<open>p_table\<close> is \<open>getCommonTruthTable\<close>.
\<close>

record 'd prim =
  p_design :: 'd
  p_word :: bool
  p_table :: SNLTruthTable

datatype 'd library = Library (lib_primitives: bool) (lib_designs: "'d prim list") (lib_children: "'d library list")

type_synonym 'd tables = "(SNLTruthTable, 'd list) smap"

definition canonicalizeTruthTableForLookup :: "SNLTruthTable \<Rightarrow> SNLTruthTable result" where
  "canonicalizeTruthTableForLookup tt =
     (let deps = fullDependencies (tt_size tt) in
      if isGeneric tt then tt_of_generic (tt_size tt) (tt_generic tt) deps
      else if tt_size tt \<le> 6 then rbind (bv_to_u64 (tt_bits tt)) (\<lambda>m. tt_of_mask (tt_size tt) m deps)
      else rbind (rmap (bv_bit (tt_bits tt)) [0..<nbits (tt_bits tt)])
        (\<lambda>bits. tt_of_bits (tt_size tt) bits deps))"

definition addDesignTruthTable :: "'d prim \<Rightarrow> 'd tables \<Rightarrow> 'd tables result" where
  "addDesignTruthTable p tables =
     (if p_word p \<or> \<not> isInitialized (p_table p) then Inr tables
      else rbind (canonicalizeTruthTableForLookup (p_table p)) (\<lambda>tt.
        case smap_find tt_lt tt tables of
          Some ds \<Rightarrow> Inr (smap_put tt_lt tt (ds @ [p_design p]) tables)
        | None \<Rightarrow> Inr (smap_put tt_lt tt [p_design p] tables)))"

fun addDesigns :: "'d prim list \<Rightarrow> 'd tables \<Rightarrow> 'd tables result" where
  "addDesigns [] tables = Inr tables"
| "addDesigns (p # ps) tables = rbind (addDesignTruthTable p tables) (addDesigns ps)"

fun addLibraryTruthTables :: "'d library \<Rightarrow> 'd tables \<Rightarrow> 'd tables result"
  and addChildren :: "'d library list \<Rightarrow> 'd tables \<Rightarrow> 'd tables result" where
  "addLibraryTruthTables (Library k ds cs) tables = rbind (addDesigns ds tables) (addChildren cs)"
| "addChildren [] tables = Inr tables"
| "addChildren (c # cs) tables =
     (if lib_primitives c then rbind (addLibraryTruthTables c tables) (addChildren cs)
      else addChildren cs tables)"

definition construct :: "'d library \<Rightarrow> 'd tables result" where
  "construct lib = (if lib_primitives lib then addLibraryTruthTables lib [] else Inr [])"

text \<open>The retry loop over the inputs: the index of the removed input and the designs found.\<close>

fun retry_loop :: "'d tables \<Rightarrow> SNLTruthTable \<Rightarrow> nat list \<Rightarrow> (nat \<times> 'd list) option result" where
  "retry_loop tables tt [] = Inr None"
| "retry_loop tables tt (i # is) = rbind (hasNoInfluence tt i) (\<lambda>free.
     if free then rbind (removeVariable tt i) (\<lambda>reduced.
       rbind (canonicalizeTruthTableForLookup reduced) (\<lambda>key.
         case smap_find tt_lt key tables of Some ds \<Rightarrow> Inr (Some (i, ds)) | None \<Rightarrow> retry_loop tables tt is))
     else retry_loop tables tt is)"

definition getDesignForTruthTable :: "'d tables \<Rightarrow> SNLTruthTable \<Rightarrow> ('d option \<times> nat list) result" where
  "getDesignForTruthTable tables tt =
     (if tables = [] then Inr (None, [])
      else rbind (canonicalizeTruthTableForLookup tt) (\<lambda>key.
        rbind (case smap_find tt_lt key tables of
            Some ds \<Rightarrow> Inr (Some ([], ds))
          | None \<Rightarrow> rbind (retry_loop tables key [0..<tt_size key])
              (\<lambda>r. Inr (map_option (\<lambda>(i, ds). ([i], ds)) r)))
        (\<lambda>found. case found of
            None \<Rightarrow> Inr (None, [])
          | Some (indexes, ds) \<Rightarrow> (case ds of [] \<Rightarrow> Inr (None, []) | d # _ \<Rightarrow> Inr (Some d, indexes)))))"

section \<open>Canonical tables\<close>

abbreviation plain :: "SNLTruthTable \<Rightarrow> bool" where
  "plain t \<equiv> tt_generic t = G_NONE \<or> is_gate (tt_generic t)"

lemma canonical_spec:
  assumes "tt_wf t" "plain t"
  shows "\<exists>c. canonicalizeTruthTableForLookup t = Inr c \<and> tt_wf c \<and> tt_size c = tt_size t \<and>
    tt_generic c = tt_generic t \<and> tt_deps c = fullDependencies (tt_size t) \<and>
    (\<forall>a. tt_eval c a = tt_eval t a)"
proof (cases "tt_generic t = G_NONE")
  case True
  have b: "tt_size t < 32" "bv_wf (tt_bits t)" "nbits (tt_bits t) = 2 ^ tt_size t"
    using assms(1) True by (auto simp: tt_wf_def)
  show ?thesis
  proof (cases "tt_size t \<le> 6")
    case small: True
    obtain m where m: "bdata (tt_bits t) = Mask m"
      using masked_table [OF assms(1) True small] by blast
    have "canonicalizeTruthTableForLookup t = tt_of_mask (tt_size t) m (fullDependencies (tt_size t))"
      using True small m by (simp add: canonicalizeTruthTableForLookup_def isGeneric_def bv_to_u64_def)
    with small tt_wf_mask [OF small, of "fullDependencies (tt_size t)" m] m True b(3) show ?thesis
      by (simp add: tt_of_mask_Inr tt_eval_def bv_get_def) (simp add: tt_default_def)
  next
    case large: False
    let ?v = "map (bv_get (tt_bits t)) [0..<2 ^ tt_size t]"
    have "canonicalizeTruthTableForLookup t = tt_of_bits (tt_size t) ?v (fullDependencies (tt_size t))"
      using True large rmap_rows [OF assms(1) True]
      by (simp add: canonicalizeTruthTableForLookup_def isGeneric_def)
    with large b tt_wf_bits [of "tt_size t" ?v "fullDependencies (tt_size t)"] True show ?thesis
      by (simp add: tt_of_bits_Inr tt_eval_def bv_get_def) (simp add: tt_default_def)
  qed
next
  case False
  then have g: "is_gate (tt_generic t)" using assms(2) by simp
  have n: "tt_size t < 2 ^ 32" using assms(1) by (simp add: tt_wf_def)
  have "canonicalizeTruthTableForLookup t =
      Inr (tt_default\<lparr>tt_size := tt_size t, tt_deps := fullDependencies (tt_size t),
        tt_generic := tt_generic t\<rparr>)"
    using False g n by (simp add: canonicalizeTruthTableForLookup_def isGeneric_def tt_of_generic_Inr)
  with tt_wf_gate [OF g n, of "fullDependencies (tt_size t)"] False show ?thesis
    by (simp add: tt_eval_def)
qed

section \<open>The index\<close>

text \<open>Every key is well-formed, and every listed design is a primitive whose canonical table is the key.\<close>

definition tables_inv :: "'d prim list \<Rightarrow> 'd tables \<Rightarrow> bool" where
  "tables_inv ps tables \<longleftrightarrow> smap_inv tt_lt tt_wf tables \<and>
     (\<forall>key ds. (key, ds) \<in> set tables \<longrightarrow> ds \<noteq> [] \<and>
       (\<forall>d\<in>set ds. \<exists>p\<in>set ps. p_design p = d \<and> \<not> p_word p \<and> isInitialized (p_table p) \<and>
          canonicalizeTruthTableForLookup (p_table p) = Inr key))"

definition prims_ok :: "'d prim list \<Rightarrow> bool" where
  "prims_ok ps \<longleftrightarrow> (\<forall>p\<in>set ps. \<not> p_word p \<and> isInitialized (p_table p) \<longrightarrow> tt_wf (p_table p) \<and> plain (p_table p))"

lemma find_mem:
  "smap_inv tt_lt tt_wf tables \<Longrightarrow> tt_wf k \<Longrightarrow> smap_find tt_lt k tables = Some ds \<Longrightarrow> (k, ds) \<in> set tables"
  by (simp add: ttk.find_eq_map_of map_of_SomeD)

lemma put_mem:
  assumes "smap_inv tt_lt tt_wf tables" "tt_wf k" "(key, ds) \<in> set (smap_put tt_lt k v tables)"
  shows "(key, ds) \<in> set tables \<or> (key = k \<and> ds = v)"
  using assms
proof (induction tables)
  case (Cons x tables)
  then show ?case
    using ttk.total [of "fst x" k] by (cases x) (auto simp: ttk.inv_Cons split: if_splits)
qed simp

definition indexed :: "'d tables \<Rightarrow> 'd prim \<Rightarrow> bool" where
  "indexed tables p \<longleftrightarrow> (\<not> p_word p \<and> isInitialized (p_table p) \<longrightarrow>
     (\<exists>key. canonicalizeTruthTableForLookup (p_table p) = Inr key \<and> tt_wf key \<and>
        smap_find tt_lt key tables \<noteq> None))"

definition grows :: "'d tables \<Rightarrow> 'd tables \<Rightarrow> bool" where
  "grows tables tables' \<longleftrightarrow>
     (\<forall>key. tt_wf key \<and> smap_find tt_lt key tables \<noteq> None \<longrightarrow> smap_find tt_lt key tables' \<noteq> None)"

lemma indexed_grows: "indexed tables p \<Longrightarrow> grows tables tables' \<Longrightarrow> indexed tables' p"
  unfolding indexed_def grows_def by blast

lemma grows_refl [simp]: "grows tables tables"
  by (simp add: grows_def)

lemma grows_trans: "grows s t \<Longrightarrow> grows t u \<Longrightarrow> grows s u"
  by (simp add: grows_def)

lemma addDesign_inv:
  assumes inv: "tables_inv ps tables" and p: "p \<in> set ps" and ok: "prims_ok ps"
  shows "\<exists>tables'. addDesignTruthTable p tables = Inr tables' \<and> tables_inv ps tables' \<and>
    grows tables tables' \<and> indexed tables' p"
proof (cases "p_word p \<or> \<not> isInitialized (p_table p)")
  case True
  then show ?thesis using inv by (auto simp: addDesignTruthTable_def indexed_def)
next
  case False
  then obtain c where c: "canonicalizeTruthTableForLookup (p_table p) = Inr c" "tt_wf c"
    using canonical_spec [of "p_table p"] ok p unfolding prims_ok_def by blast
  define ds where "ds = (case smap_find tt_lt c tables of Some ds \<Rightarrow> ds @ [p_design p] | None \<Rightarrow> [p_design p])"
  have add: "addDesignTruthTable p tables = Inr (smap_put tt_lt c ds tables)"
    using False c(1) by (auto simp: addDesignTruthTable_def ds_def split: option.splits)
  have sinv: "smap_inv tt_lt tt_wf tables" using inv by (simp add: tables_inv_def)
  have ds: "ds \<noteq> []" "\<forall>d\<in>set ds. \<exists>p\<in>set ps. p_design p = d \<and> \<not> p_word p \<and> isInitialized (p_table p) \<and>
      canonicalizeTruthTableForLookup (p_table p) = Inr c"
    using inv find_mem [OF sinv c(2)] False p c(1)
    by (auto simp: ds_def tables_inv_def split: option.splits)
  have "tables_inv ps (smap_put tt_lt c ds tables)"
    using inv ds put_mem [OF sinv c(2)] ttk.put_inv [OF sinv c(2)]
    unfolding tables_inv_def by blast
  with add c show ?thesis
    by (auto simp: ttk.find_put [OF sinv c(2)] indexed_def grows_def)
qed

lemma addDesigns_inv:
  assumes ok: "prims_ok ps"
  shows "tables_inv ps tables \<Longrightarrow> set qs \<subseteq> set ps \<Longrightarrow>
    \<exists>tables'. addDesigns qs tables = Inr tables' \<and> tables_inv ps tables' \<and>
      grows tables tables' \<and> (\<forall>q\<in>set qs. indexed tables' q)"
proof (induction qs arbitrary: tables)
  case (Cons q qs)
  obtain t1 where t1: "addDesignTruthTable q tables = Inr t1" "tables_inv ps t1" "grows tables t1" "indexed t1 q"
    using addDesign_inv [OF Cons.prems(1) _ ok] Cons.prems(2) by auto
  obtain t2 where t2: "addDesigns qs t1 = Inr t2" "tables_inv ps t2" "grows t1 t2" "\<forall>q\<in>set qs. indexed t2 q"
    using Cons.IH [OF t1(2)] Cons.prems(2) by auto
  have "grows tables t2" using t1(3) t2(3) by (rule grows_trans)
  moreover have "indexed t2 q" using t1(4) t2(3) by (rule indexed_grows)
  ultimately show ?case using t1(1) t2 by auto
qed simp

text \<open>The primitives the index is built from.\<close>

fun lib_prims :: "'d library \<Rightarrow> 'd prim list" and child_prims :: "'d library list \<Rightarrow> 'd prim list" where
  "lib_prims (Library k ds cs) = ds @ child_prims cs"
| "child_prims [] = []"
| "child_prims (c # cs) = (if lib_primitives c then lib_prims c else []) @ child_prims cs"

lemma addLibrary_inv:
  assumes ok: "prims_ok ps"
  shows "tables_inv ps tables \<Longrightarrow> set (lib_prims lib) \<subseteq> set ps \<Longrightarrow>
    \<exists>tables'. addLibraryTruthTables lib tables = Inr tables' \<and> tables_inv ps tables' \<and>
      grows tables tables' \<and> (\<forall>q\<in>set (lib_prims lib). indexed tables' q)"
    and "tables_inv ps tables \<Longrightarrow> set (child_prims cs) \<subseteq> set ps \<Longrightarrow>
    \<exists>tables'. addChildren cs tables = Inr tables' \<and> tables_inv ps tables' \<and>
      grows tables tables' \<and> (\<forall>q\<in>set (child_prims cs). indexed tables' q)"
proof (induction lib and cs arbitrary: tables and tables rule: lib_prims_child_prims.induct)
  case (1 k ds cs)
  obtain t1 where t1: "addDesigns ds tables = Inr t1" "tables_inv ps t1" "grows tables t1"
    "\<forall>q\<in>set ds. indexed t1 q"
    using addDesigns_inv [OF ok 1(2), of ds] 1(3) by auto
  obtain t2 where t2: "addChildren cs t1 = Inr t2" "tables_inv ps t2" "grows t1 t2"
    "\<forall>q\<in>set (child_prims cs). indexed t2 q"
    using 1(1) [OF t1(2)] 1(3) by auto
  show ?case
    using t1 t2 by (auto intro: grows_trans indexed_grows)
next
  case 2
  then show ?case by simp
next
  case (3 c cs)
  show ?case
  proof (cases "lib_primitives c")
    case True
    obtain t1 where t1: "addLibraryTruthTables c tables = Inr t1" "tables_inv ps t1" "grows tables t1"
      "\<forall>q\<in>set (lib_prims c). indexed t1 q"
      using 3(1) [OF True 3(3)] 3(4) True by auto
    obtain t2 where t2: "addChildren cs t1 = Inr t2" "tables_inv ps t2" "grows t1 t2"
      "\<forall>q\<in>set (child_prims cs). indexed t2 q"
      using 3(2) [OF t1(2)] 3(4) by auto
    show ?thesis
      using True t1 t2 by (auto intro: grows_trans indexed_grows)
  next
    case False
    then show ?thesis using 3(2) [OF 3(3)] 3(4) by auto
  qed
qed

lemma construct_inv:
  assumes "lib_primitives lib" "prims_ok (lib_prims lib)"
  shows "\<exists>tables. construct lib = Inr tables \<and> tables_inv (lib_prims lib) tables \<and>
    (\<forall>p\<in>set (lib_prims lib). indexed tables p)"
proof -
  have "tables_inv (lib_prims lib) []" by (simp add: tables_inv_def smap_inv_def)
  from addLibrary_inv(1) [OF assms(2) this] assms(1) show ?thesis
    by (auto simp: construct_def)
qed

section \<open>Independence of an input\<close>

lemma cofactor_single: "cofactor [(i, c)] a = a(i := c)"
  by (auto simp: cofactor_def fun_eq_iff)

lemma reduced_single:
  assumes "tt_wf t" "plain t" "isSimple (tt_deps t)" "i < tt_size t"
  shows "denotes (getReducedWithConstant t i c) (remaining (tt_size t) [(i, c)]) (\<lambda>a. tt_eval t (a(i := c)))"
  using reduced_denotes [OF assms(1-3), of "[(i, c)]"] assms(4)
  by (simp add: getReducedWithConstant_def cofactor_single)

lemma hasNoInfluence_total:
  assumes "tt_wf t" "plain t" "isSimple (tt_deps t)" "i < tt_size t"
  shows "\<exists>b. hasNoInfluence t i = Inr b \<and>
    (b \<longrightarrow> (\<forall>a. tt_eval t (a(i := True)) = tt_eval t (a(i := False))))"
proof -
  obtain t0 where t0: "getReducedWithConstant t i False = Inr t0"
    "\<forall>a. tt_eval t0 (\<lambda>p. a (remaining (tt_size t) [(i, False)] ! p)) = tt_eval t (a(i := False))"
    using reduced_single [OF assms, of False] by (auto simp: denotes_def)
  obtain t1 where t1: "getReducedWithConstant t i True = Inr t1"
    "\<forall>a. tt_eval t1 (\<lambda>p. a (remaining (tt_size t) [(i, True)] ! p)) = tt_eval t (a(i := True))"
    using reduced_single [OF assms, of True] by (auto simp: denotes_def)
  have "remaining (tt_size t) [(i, True)] = remaining (tt_size t) [(i, False)]"
    by (simp add: remaining_def)
  with t0 t1 show ?thesis by (simp add: hasNoInfluence_def) metis
qed

lemma count_one: "i < n \<Longrightarrow> length (filter ((\<lambda>_. False)(i := True)) [0..<n]) = 1"
proof (induction n)
  case (Suc n)
  then show ?case
    by (cases "i = n") (auto simp: filter_empty_conv)
qed simp

lemma count_all_but: "i < n \<Longrightarrow> length (filter ((\<lambda>_. True)(i := False)) [0..<n]) = n - 1"
proof (induction n)
  case (Suc n)
  then show ?case
    by (cases "i = n") auto
qed simp

lemma gate_depends:
  assumes g: "is_gate g" and i: "i < n"
  shows "\<exists>a. gate_fun g (map (a(i := True)) [0..<n]) \<noteq> gate_fun g (map (a(i := False)) [0..<n])"
proof -
  have t: "(\<lambda>_. True)(i := True) = (\<lambda>_. True)" "(\<lambda>_. False)(i := False) = (\<lambda>_. False)" by auto
  have "gate_count g n n \<noteq> gate_count g (n - 1) n \<or> gate_count g 1 n \<noteq> gate_count g 0 n"
    using g i by (cases g) (auto simp: is_gate_def)
  then show ?thesis
  proof
    assume "gate_count g n n \<noteq> gate_count g (n - 1) n"
    then show ?thesis
      using count_all_but [OF i] by (intro exI [of _ "\<lambda>_. True"]) (simp add: gate_fun_count [OF g] t)
  next
    assume "gate_count g 1 n \<noteq> gate_count g 0 n"
    then show ?thesis
      using count_one [OF i] by (intro exI [of _ "\<lambda>_. False"]) (simp add: gate_fun_count [OF g] t)
  qed
qed

lemma no_influence_plain:
  assumes "tt_wf t" "plain t" "isSimple (tt_deps t)" "i < tt_size t" "hasNoInfluence t i = Inr True"
  shows "tt_generic t = G_NONE"
proof (rule ccontr)
  assume ng: "tt_generic t \<noteq> G_NONE"
  then obtain a where "gate_fun (tt_generic t) (map (a(i := True)) [0..<tt_size t]) \<noteq>
      gate_fun (tt_generic t) (map (a(i := False)) [0..<tt_size t])"
    using gate_depends assms(2,4) by blast
  moreover have "\<forall>a. tt_eval t (a(i := True)) = tt_eval t (a(i := False))"
    using hasNoInfluence_total [OF assms(1-4)] assms(5) by auto
  ultimately show False using ng by (simp add: tt_eval_def)
qed

text \<open>Conversely, on an independent input both reductions run over the same rows.\<close>

lemma woven_single: "(woven [(i, True)] j)(i := False) = woven [(i, False)] j"
  "(woven [(i, True)] j)(i := True) = woven [(i, True)] j"
  by (auto simp: woven_def remaining_def fun_eq_iff)

lemma independent_reductions_equal:
  assumes t: "tt_wf t" "tt_generic t = G_NONE" "isSimple (tt_deps t)" "i < tt_size t"
    and ind: "\<forall>a. tt_eval t (a(i := True)) = tt_eval t (a(i := False))"
  shows "getReducedWithConstant t i True = getReducedWithConstant t i False"
proof -
  let ?n = "tt_size t"
  have w: "?n < 32" "bv_wf (tt_bits t)" "nbits (tt_bits t) = 2 ^ ?n" using t by (auto simp: tt_wf_def)
  have eval: "tt_eval t a = bv_get (tt_bits t) (row_of ?n a)" for a using t by (simp add: tt_eval_def)
  have row: "rbind (weave [(i, c)] j [0..<?n] 0 0) (bv_bit (tt_bits t)) = Inr (tt_eval t (woven [(i, c)] j))"
    for c j using w by (simp add: weave_row eval)
  have "tt_eval t (woven [(i, True)] j) = tt_eval t (woven [(i, False)] j)" for j
    using ind [rule_format, of "woven [(i, True)] j"] by (simp add: woven_single)
  then have "reduce_rows t [(i, True)] k = reduce_rows t [(i, False)] k" for k
    by (simp add: reduce_rows_def row)
  then show ?thesis
    using t w by (simp add: getReducedWithConstant_def getReducedWithConstants_def Let_def is_gate_def)
qed

lemma hasNoInfluence_iff:
  assumes "tt_wf t" "plain t" "isSimple (tt_deps t)" "i < tt_size t"
  shows "hasNoInfluence t i = Inr (\<forall>a. tt_eval t (a(i := True)) = tt_eval t (a(i := False)))"
proof -
  obtain b where b: "hasNoInfluence t i = Inr b"
    "b \<longrightarrow> (\<forall>a. tt_eval t (a(i := True)) = tt_eval t (a(i := False)))"
    using hasNoInfluence_total [OF assms] by blast
  have "b" if ind: "\<forall>a. tt_eval t (a(i := True)) = tt_eval t (a(i := False))"
  proof -
    have none: "tt_generic t = G_NONE"
      using gate_depends [of "tt_generic t", OF _ assms(4)] ind assms(2) unfolding tt_eval_def by metis
    from b(1) show ?thesis
      using independent_reductions_equal [OF assms(1) none assms(3,4) ind]
      by (auto simp: hasNoInfluence_def rbind_eq_Inr_iff)
  qed
  with b(2) have "b \<longleftrightarrow> (\<forall>a. tt_eval t (a(i := True)) = tt_eval t (a(i := False)))" by blast
  with b(1) show ?thesis by simp
qed

section \<open>The lookup\<close>

text \<open>
  \<open>implements p indexes tt\<close>: the table of the primitive, fed with the inputs of \<open>tt\<close> that are not in
  \<open>indexes\<close>, computes \<open>tt\<close>.
\<close>

definition skip_input :: "nat \<Rightarrow> nat \<Rightarrow> nat" where
  "skip_input i p = (if p < i then p else Suc p)"

definition implements :: "SNLTruthTable \<Rightarrow> nat list \<Rightarrow> SNLTruthTable \<Rightarrow> bool" where
  "implements pt indexes tt \<longleftrightarrow>
     (case indexes of
        [] \<Rightarrow> tt_size pt = tt_size tt \<and> (\<forall>a. tt_eval pt a = tt_eval tt a)
      | i # _ \<Rightarrow> Suc (tt_size pt) = tt_size tt \<and> (\<forall>a. tt_eval pt (\<lambda>p. a (skip_input i p)) = tt_eval tt a))"

lemma tt_eval_cong: "(\<And>i. i < tt_size t \<Longrightarrow> a i = b i) \<Longrightarrow> tt_eval t a = tt_eval t b"
proof -
  assume eq: "\<And>i. i < tt_size t \<Longrightarrow> a i = b i"
  then have "map a [0..<tt_size t] = map b [0..<tt_size t]" by simp
  with row_of_cong [of "tt_size t" a b] eq show ?thesis by (simp only: tt_eval_def)
qed

lemma removed_implements:
  assumes t: "tt_wf t" "plain t" "isSimple (tt_deps t)" "i < tt_size t"
    and free: "hasNoInfluence t i = Inr True" and r: "removeVariable t i = Inr r" "tt_size t \<le> 6"
  shows "tt_wf r \<and> tt_generic r = G_NONE \<and> implements r [i] t"
proof -
  have ind: "\<forall>a. tt_eval t (a(i := True)) = tt_eval t (a(i := False))"
    using hasNoInfluence_total [OF t] free by auto
  have none: "tt_generic t = G_NONE" using no_influence_plain [OF t free] .
  have rr: "tt_wf r" "tt_size r = tt_size t - 1" "\<forall>a. tt_eval r a = tt_eval t (insert_false i a)"
    using removeVariable_small [OF t(1) none r(2) t(4)] r(1) by auto
  have gen: "tt_generic r = G_NONE"
    using r(1) by (auto simp: removeVariable_def tt_of_mask_def rbind_eq_Inr_iff tt_default_def split: if_splits)
  have "tt_eval r (\<lambda>p. a (skip_input i p)) = tt_eval t a" for a
  proof -
    have "tt_eval r (\<lambda>p. a (skip_input i p)) = tt_eval t (insert_false i (\<lambda>p. a (skip_input i p)))"
      using rr(3) by blast
    also have "insert_false i (\<lambda>p. a (skip_input i p)) = a(i := False)"
      by (auto simp: insert_false_def skip_input_def fun_eq_iff)
    also have "tt_eval t (a(i := False)) = tt_eval t a"
    proof (cases "a i")
      case True
      then have "a(i := True) = a" by (simp add: fun_upd_idem)
      then show ?thesis using ind by metis
    next
      case False
      then have "a(i := False) = a" by (simp add: fun_upd_idem)
      then show ?thesis by simp
    qed
    finally show ?thesis .
  qed
  with rr gen t(4) show ?thesis by (simp add: implements_def)
qed

text \<open>What a key of the index tells of the primitives listed under it.\<close>

lemma found_implements:
  assumes inv: "tables_inv ps tables" and ok: "prims_ok ps"
    and t: "tt_wf t" "plain t" and key: "canonicalizeTruthTableForLookup t = Inr key"
    and found: "smap_find tt_lt key tables = Some ds"
  shows "\<exists>d ds'. ds = d # ds' \<and> (\<exists>p\<in>set ps. p_design p = d \<and> \<not> p_word p \<and> implements (p_table p) [] t)"
proof -
  have k: "tt_wf key" "tt_size key = tt_size t" "\<forall>a. tt_eval key a = tt_eval t a"
    using canonical_spec [OF t] key by auto
  have "(key, ds) \<in> set tables"
    using inv k(1) found by (auto simp: tables_inv_def intro: find_mem)
  then have "ds \<noteq> []" and all: "\<forall>d\<in>set ds. \<exists>p\<in>set ps. p_design p = d \<and> \<not> p_word p \<and> isInitialized (p_table p) \<and>
      canonicalizeTruthTableForLookup (p_table p) = Inr key"
    using inv unfolding tables_inv_def by blast+
  then obtain d ds' where ds: "ds = d # ds'" by (cases ds) auto
  then obtain p where p: "p \<in> set ps" "p_design p = d" "\<not> p_word p" "isInitialized (p_table p)"
    "canonicalizeTruthTableForLookup (p_table p) = Inr key"
    using all by auto
  then have "tt_wf (p_table p)" "plain (p_table p)" using ok by (auto simp: prims_ok_def)
  then have "implements (p_table p) [] t"
    using canonical_spec [of "p_table p"] p(5) k by (auto simp: implements_def)
  with ds p show ?thesis by blast
qed

definition found_ok :: "'d prim list \<Rightarrow> SNLTruthTable \<Rightarrow> nat list \<Rightarrow> 'd \<Rightarrow> bool" where
  "found_ok ps tt indexes d \<longleftrightarrow>
     (\<exists>p\<in>set ps. p_design p = d \<and> \<not> p_word p \<and> implements (p_table p) indexes tt)"

lemma implements_step: "implements p [] r \<Longrightarrow> implements r [i] t \<Longrightarrow> implements p [i] t"
  by (simp add: implements_def)

lemma retry_sound:
  assumes inv: "tables_inv ps tables" and ok: "prims_ok ps"
    and t: "tt_wf t" "plain t" "isSimple (tt_deps t)" "tt_size t \<le> 6 \<or> tt_generic t \<noteq> G_NONE"
  shows "\<forall>i\<in>set is. i < tt_size t \<Longrightarrow> \<exists>r. retry_loop tables t is = Inr r \<and>
    (\<forall>i ds. r = Some (i, ds) \<longrightarrow> (\<exists>d ds'. ds = d # ds' \<and> found_ok ps t [i] d))"
proof (induction "is")
  case (Cons i "is")
  then have i: "i < tt_size t" by simp
  obtain b where b: "hasNoInfluence t i = Inr b"
    using hasNoInfluence_total [OF t(1-3) i] by blast
  show ?case
  proof (cases b)
    case False
    then show ?thesis using b Cons by simp
  next
    case True
    then have free: "hasNoInfluence t i = Inr True" using b by simp
    have none: "tt_generic t = G_NONE" using no_influence_plain [OF t(1-3) i free] .
    then have six: "tt_size t \<le> 6" using t(4) by simp
    obtain r where r: "removeVariable t i = Inr r"
      using removeVariable_small [OF t(1) none six i] by blast
    have ri: "tt_wf r" "tt_generic r = G_NONE" "implements r [i] t"
      using removed_implements [OF t(1-3) i free r six] by auto
    obtain key where key: "canonicalizeTruthTableForLookup r = Inr key"
      using canonical_spec [OF ri(1)] ri(2) by blast
    show ?thesis
    proof (cases "smap_find tt_lt key tables")
      case None
      then show ?thesis using free r key Cons by simp
    next
      case (Some ds)
      then have "\<exists>d ds'. ds = d # ds' \<and> found_ok ps t [i] d"
        using found_implements [OF inv ok ri(1) _ key Some] ri(2,3) implements_step
        unfolding found_ok_def by blast
      then show ?thesis using free r key Some by simp
    qed
  qed
qed simp

lemma implements_canonical:
  assumes "tt_wf t" "plain t" "canonicalizeTruthTableForLookup t = Inr key"
  shows "implements p indexes key \<longleftrightarrow> implements p indexes t"
  using canonical_spec [OF assms(1,2)] assms(3) by (auto simp: implements_def split: list.splits)

lemma lookup_sound:
  assumes inv: "tables_inv ps tables" and ok: "prims_ok ps"
    and t: "tt_wf t" "plain t" "tt_size t \<le> 6 \<or> tt_generic t \<noteq> G_NONE"
  shows "\<exists>res. getDesignForTruthTable tables t = Inr res \<and>
    (\<forall>d indexes. res = (Some d, indexes) \<longrightarrow> found_ok ps t indexes d)"
proof (cases "tables = []")
  case True
  then show ?thesis by (simp add: getDesignForTruthTable_def)
next
  case False
  obtain key where key: "canonicalizeTruthTableForLookup t = Inr key" "tt_wf key"
    "tt_size key = tt_size t" "tt_generic key = tt_generic t" "tt_deps key = fullDependencies (tt_size t)"
    using canonical_spec [OF t(1,2)] by blast
  have ki: "found_ok ps key indexes d \<longleftrightarrow> found_ok ps t indexes d" for indexes d
    unfolding found_ok_def implements_canonical [OF t(1,2) key(1)] ..
  show ?thesis
  proof (cases "smap_find tt_lt key tables")
    case (Some ds)
    then obtain d ds' where "ds = d # ds'" "found_ok ps t [] d"
      using found_implements [OF inv ok t(1,2) key(1)] unfolding found_ok_def by blast
    then show ?thesis using False key(1) Some by (simp add: getDesignForTruthTable_def)
  next
    case None
    have simple: "isSimple (tt_deps key)" and pl: "plain key"
      and six: "tt_size key \<le> 6 \<or> tt_generic key \<noteq> G_NONE"
      using key t by simp_all
    obtain r where r: "retry_loop tables key [0..<tt_size key] = Inr r"
      "\<forall>i ds. r = Some (i, ds) \<longrightarrow> (\<exists>d ds'. ds = d # ds' \<and> found_ok ps key [i] d)"
      using retry_sound [OF inv ok key(2) pl simple six, of "[0..<tt_size key]"] by auto
    show ?thesis
    proof (cases r)
      case rN: None
      then show ?thesis using False key(1) None r(1) by (simp add: getDesignForTruthTable_def)
    next
      case (Some x)
      obtain i ds where x: "x = (i, ds)" by (cases x)
      with r(2) Some obtain d ds' where "ds = d # ds'" "found_ok ps t [i] d" using ki by blast
      then show ?thesis
        using False key(1) None r(1) Some x by (simp add: getDesignForTruthTable_def)
    qed
  qed
qed

lemma lookup_none_indexes:
  assumes "getDesignForTruthTable tables t = Inr (None, indexes)"
  shows "indexes = []"
proof (cases "tables = []")
  case False
  with assms obtain found where
    "(case found of None \<Rightarrow> Inr (None, [])
      | Some (indexes, ds) \<Rightarrow> (case ds of [] \<Rightarrow> Inr (None, []) | d # _ \<Rightarrow> Inr (Some d, indexes))) =
     (Inr (None, indexes) :: ('a option \<times> nat list) result)"
    unfolding getDesignForTruthTable_def by (auto simp only: rbind_eq_Inr_iff if_False)
  then show ?thesis
    by (cases found; cases "snd (the found)") auto
qed (use assms in \<open>simp add: getDesignForTruthTable_def\<close>)

lemma lookup_complete:
  assumes lib: "lib_primitives lib" "prims_ok (lib_prims lib)"
    and p: "p \<in> set (lib_prims lib)" "\<not> p_word p" "isInitialized (p_table p)"
  shows "\<exists>tables d. construct lib = Inr tables \<and>
    getDesignForTruthTable tables (p_table p) = Inr (Some d, []) \<and>
    found_ok (lib_prims lib) (p_table p) [] d"
proof -
  obtain tables where t: "construct lib = Inr tables" "tables_inv (lib_prims lib) tables" "indexed tables p"
    using construct_inv [OF lib] p(1) by blast
  then obtain key ds where key: "canonicalizeTruthTableForLookup (p_table p) = Inr key"
    "smap_find tt_lt key tables = Some ds"
    using p by (auto simp: indexed_def)
  have wf: "tt_wf (p_table p)" "plain (p_table p)" using lib(2) p by (auto simp: prims_ok_def)
  obtain d ds' where d: "ds = d # ds'" "found_ok (lib_prims lib) (p_table p) [] d"
    using found_implements [OF t(2) lib(2) wf key] unfolding found_ok_def by blast
  moreover have "tables \<noteq> []" using key(2) by auto
  ultimately have "getDesignForTruthTable tables (p_table p) = Inr (Some d, [])"
    using key by (simp add: getDesignForTruthTable_def)
  with t(1) d(2) show ?thesis by blast
qed

end
