(* ===== verification/NLID.thy ===== *)
theory NLID
  imports StdMap "HOL-Library.Product_Lexorder"
begin

text \<open>
  \<^verbatim>\<open>src/nl/netlist/core/NLID.h\<close>: the identifiers that name every object of a netlist and order the
  sets the netlist keeps them in.  The order of \<open>NLID\<close>s is an interpretation of the key order
  contract; the netlist theories use identifiers as the addresses of their objects.
\<close>

section \<open>Data\<close>

datatype NLIDType = T_DB | T_Library | T_Design | T_Term | T_TermBit | T_Net | T_NetBit | T_Instance | T_InstTerm

text \<open>The underlying \<open>uint8_t\<close> values: \<open>DB=1\<close> and the followers.\<close>

fun type_value :: "NLIDType \<Rightarrow> nat" where
  "type_value T_DB = 1"
| "type_value T_Library = 2"
| "type_value T_Design = 3"
| "type_value T_Term = 4"
| "type_value T_TermBit = 5"
| "type_value T_Net = 6"
| "type_value T_NetBit = 7"
| "type_value T_Instance = 8"
| "type_value T_InstTerm = 9"

record DesignReference =
  ref_db :: nat
  ref_library :: nat
  ref_design :: nat

record DBDesignReference =
  dbref_library :: nat
  dbref_design :: nat

record DesignObjectReference =
  oref_design :: DesignReference
  oref_object :: nat

record BitNetReference =
  isBusBit :: bool
  bref_db :: nat
  bref_library :: nat
  bref_design :: nat
  bref_object :: nat
  bref_bit :: int

record NLID =
  id_type :: NLIDType
  id_db :: nat
  id_library :: nat
  id_design :: nat
  id_object :: nat
  id_instance :: nat
  id_bit :: int

section \<open>Constructors\<close>

definition nlid_db :: "nat \<Rightarrow> NLID" where
  "nlid_db db = \<lparr>id_type = T_DB, id_db = db, id_library = 0, id_design = 0, id_object = 0,
     id_instance = 0, id_bit = 0\<rparr>"

definition nlid_library :: "nat \<Rightarrow> nat \<Rightarrow> NLID" where
  "nlid_library db lib = \<lparr>id_type = T_Library, id_db = db, id_library = lib, id_design = 0, id_object = 0,
     id_instance = 0, id_bit = 0\<rparr>"

definition nlid_design :: "nat \<Rightarrow> nat \<Rightarrow> nat \<Rightarrow> NLID" where
  "nlid_design db lib design = \<lparr>id_type = T_Design, id_db = db, id_library = lib, id_design = design,
     id_object = 0, id_instance = 0, id_bit = 0\<rparr>"

definition nlid_object :: "NLIDType \<Rightarrow> DesignReference \<Rightarrow> nat \<Rightarrow> nat \<Rightarrow> int \<Rightarrow> NLID" where
  "nlid_object ty d obj inst b = \<lparr>id_type = ty, id_db = ref_db d, id_library = ref_library d,
     id_design = ref_design d, id_object = obj, id_instance = inst, id_bit = b\<rparr>"

text \<open>\<open>DesignReference(const NLID&)\<close>: the design of an object.\<close>

definition id_ref :: "NLID \<Rightarrow> DesignReference" where
  "id_ref i = \<lparr>ref_db = id_db i, ref_library = id_library i, ref_design = id_design i\<rparr>"

definition getDBDesignReference :: "DesignReference \<Rightarrow> DBDesignReference" where
  "getDBDesignReference d = \<lparr>dbref_library = ref_library d, dbref_design = ref_design d\<rparr>"

definition object_of_nlid :: "NLID \<Rightarrow> DesignObjectReference" where
  "object_of_nlid i = \<lparr>oref_design = id_ref i, oref_object = id_object i\<rparr>"

definition scalar_net_ref :: "DesignReference \<Rightarrow> nat \<Rightarrow> BitNetReference" where
  "scalar_net_ref d obj = \<lparr>isBusBit = False, bref_db = ref_db d, bref_library = ref_library d,
     bref_design = ref_design d, bref_object = obj, bref_bit = 0\<rparr>"

definition bus_bit_ref :: "DesignReference \<Rightarrow> nat \<Rightarrow> int \<Rightarrow> BitNetReference" where
  "bus_bit_ref d obj b = \<lparr>isBusBit = True, bref_db = ref_db d, bref_library = ref_library d,
     bref_design = ref_design d, bref_object = obj, bref_bit = b\<rparr>"

definition bref_ref :: "BitNetReference \<Rightarrow> DesignReference" where
  "bref_ref r = \<lparr>ref_db = bref_db r, ref_library = bref_library r, ref_design = bref_design r\<rparr>"

section \<open>Comparisons\<close>

text \<open>The \<open>std::tie\<close> of \<open>NLID\<close>.\<close>

definition nlid_tie :: "NLID \<Rightarrow> nat \<times> nat \<times> nat \<times> nat \<times> nat \<times> nat \<times> int" where
  "nlid_tie i = (type_value (id_type i), id_db i, id_library i, id_design i, id_object i,
     id_instance i, id_bit i)"

definition nlid_lt :: "NLID \<Rightarrow> NLID \<Rightarrow> bool" where
  "nlid_lt l r \<longleftrightarrow> nlid_tie l < nlid_tie r"

definition nlid_le :: "NLID \<Rightarrow> NLID \<Rightarrow> bool" where
  "nlid_le l r \<longleftrightarrow> nlid_tie l \<le> nlid_tie r"

definition nlid_eq :: "NLID \<Rightarrow> NLID \<Rightarrow> bool" where
  "nlid_eq l r \<longleftrightarrow> nlid_tie l = nlid_tie r"

definition design_ref_eq :: "DesignReference \<Rightarrow> DesignReference \<Rightarrow> bool" where
  "design_ref_eq l r \<longleftrightarrow> (ref_db l, ref_library l, ref_design l) = (ref_db r, ref_library r, ref_design r)"

definition object_ref_eq :: "DesignObjectReference \<Rightarrow> DesignObjectReference \<Rightarrow> bool" where
  "object_ref_eq l r \<longleftrightarrow> design_ref_eq (oref_design l) (oref_design r) \<and> oref_object l = oref_object r"

text \<open>
  \<open>operator==\<close> of \<open>BitNetReference\<close>: the right-hand tie ends with \<open>lid.bit_\<close>, the bit of the left
  operand.
\<close>

definition bitnet_ref_eq :: "BitNetReference \<Rightarrow> BitNetReference \<Rightarrow> bool" where
  "bitnet_ref_eq l r \<longleftrightarrow>
     (isBusBit l, bref_db l, bref_library l, bref_design l, bref_object l, bref_bit l) =
     (isBusBit r, bref_db r, bref_library r, bref_design r, bref_object r, bref_bit l)"

section \<open>The order\<close>

lemma type_value_inj: "type_value a = type_value b \<longleftrightarrow> a = b"
  by (cases a; cases b) auto

lemma nlid_tie_inj: "nlid_tie l = nlid_tie r \<longleftrightarrow> l = r"
  by (cases l; cases r) (auto simp: nlid_tie_def type_value_inj)

lemma nlid_eq_iff [simp]: "nlid_eq l r \<longleftrightarrow> l = r"
  by (simp add: nlid_eq_def nlid_tie_inj)

lemma design_ref_eq_iff [simp]: "design_ref_eq l r \<longleftrightarrow> l = r"
  by (cases l; cases r) (simp add: design_ref_eq_def)

lemma object_ref_eq_iff [simp]: "object_ref_eq l r \<longleftrightarrow> l = r"
  by (cases l; cases r) (simp add: object_ref_eq_def)

interpretation nlk: map_key nlid_lt "\<lambda>_. True"
proof unfold_locales
  fix x y z
  show "\<not> nlid_lt x x" by (simp add: nlid_lt_def)
  show "nlid_lt x y \<Longrightarrow> nlid_lt y z \<Longrightarrow> nlid_lt x z" by (simp add: nlid_lt_def)
  show "nlid_lt x y \<or> x = y \<or> nlid_lt y x" by (metis nlid_lt_def nlid_tie_inj linorder_cases)
qed

interpretation idk: map_key "(<) :: nat \<Rightarrow> nat \<Rightarrow> bool" "\<lambda>_. True"
  by unfold_locales auto

text \<open>The references of two bits of one bus compare equal, whatever the bits.\<close>

lemma bitnet_ref_eq_ignores_bit:
  "bitnet_ref_eq (bus_bit_ref d obj b) (bus_bit_ref d obj c)"
  by (simp add: bitnet_ref_eq_def bus_bit_ref_def)

lemma bitnet_ref_eq_iff:
  "bitnet_ref_eq l r \<longleftrightarrow> r = l\<lparr>bref_bit := bref_bit r\<rparr>"
  by (cases l; cases r) (auto simp: bitnet_ref_eq_def)

section \<open>Projections of object identifiers\<close>

named_theorems nlid_simps "fields of the identifiers of design objects"

lemma nlid_object_sel [nlid_simps, simp]:
  "id_type (nlid_object ty d obj inst b) = ty" "id_object (nlid_object ty d obj inst b) = obj"
  "id_instance (nlid_object ty d obj inst b) = inst" "id_bit (nlid_object ty d obj inst b) = b"
  by (simp_all add: nlid_object_def)

lemma id_ref_object [nlid_simps, simp]: "id_ref (nlid_object ty d obj inst b) = d"
  by (cases d) (simp add: nlid_object_def id_ref_def)

lemma nlid_object_eq [simp]:
  "nlid_object ty d obj inst b = nlid_object ty' d' obj' inst' b' \<longleftrightarrow>
   ty = ty' \<and> d = d' \<and> obj = obj' \<and> inst = inst' \<and> b = b'"
  by (cases d; cases d') (auto simp: nlid_object_def)

lemma nlid_object_cases:
  obtains ty d obj inst b where "i = nlid_object ty d obj inst b"
  by (rule that [of "id_type i" "id_ref i" "id_object i" "id_instance i" "id_bit i"])
    (cases i, simp add: nlid_object_def id_ref_def)

end
