(* ===== verification/Netlist.thy ===== *)
theory Netlist
  imports NLID
begin

text \<open>
  \<^verbatim>\<open>src/nl/netlist/snl\<close>: designs with their terminals, nets and instances, and the connections
  between them.  The state is a store: every object is addressed by its \<open>NLID\<close>, the \<open>net_\<close> member of a
  net component and the \<open>components_\<close> set of a bit net are fields indexed by address, and a design holds
  its intrusive sets (in \<open>ID\<close> order) and its name indexes.  Reading a member through a pointer whose
  object is gone is undefined behaviour.  Bundle terminals, parameters, attributes, RTL
  information, clocks and shared paths are not part of the state; error texts leave out the names of the
  objects.  Bit numbers are mathematical integers: the code assumes that the width of a bus fits \<open>int32_t\<close>.
\<close>

section \<open>Data\<close>

type_synonym did = DesignReference

datatype Direction = Input | Output | InOut | Undefined

datatype NetType = Standard | Assign0 | Assign1 | Supply0 | Supply1 | AssignX | AssignZ

datatype DesignType = StandardDesign | UserBlackBox | AutoBlackBox | Primitive

text \<open>The bits of a bus are a vector of pointers; the list tells which are not null.\<close>

datatype term_kind = ScalarTerm | BusTerm int int "bool list"

record SNLTerm =
  t_name :: string
  t_direction :: Direction
  t_flatID :: nat
  t_kind :: term_kind

datatype net_kind = ScalarNet | BusNet int int "bool list"

record SNLNet =
  n_name :: string
  n_kind :: net_kind

record SNLInstance =
  i_model :: did
  i_name :: string
  i_instTerms :: "NLID option list"

record SNLDesign =
  d_name :: string
  d_type :: DesignType
  d_terms :: "(nat, SNLTerm) smap"
  d_termNameID :: "string \<rightharpoonup> nat"
  d_instances :: "(nat, SNLInstance) smap"
  d_instanceNameID :: "string \<rightharpoonup> nat"
  d_slaves :: "(NLID, unit) smap"
  d_nets :: "(nat, SNLNet) smap"
  d_netNameID :: "string \<rightharpoonup> nat"

record snl =
  s_designs :: "did \<rightharpoonup> SNLDesign"
  s_net :: "NLID \<rightharpoonup> NLID"
  s_components :: "NLID \<Rightarrow> (NLID, unit) smap"
  s_bitTerm :: "NLID \<Rightarrow> NLID"
  s_type :: "NLID \<Rightarrow> NetType"

definition empty_design :: "DesignType \<Rightarrow> string \<Rightarrow> SNLDesign" where
  "empty_design ty name = \<lparr>d_name = name, d_type = ty, d_terms = [], d_termNameID = Map.empty,
     d_instances = [], d_instanceNameID = Map.empty, d_slaves = [], d_nets = [], d_netNameID = Map.empty\<rparr>"

definition isPrimitive :: "SNLDesign \<Rightarrow> bool" where
  "isPrimitive D \<longleftrightarrow> d_type D = Primitive"

abbreviation dangling :: cpp_error where
  "dangling \<equiv> UndefinedBehaviour ''dangling pointer''"

abbreviation null_pointer :: cpp_error where
  "null_pointer \<equiv> UndefinedBehaviour ''null pointer''"

definition the_design :: "snl \<Rightarrow> did \<Rightarrow> SNLDesign result" where
  "the_design u d = (case s_designs u d of Some D \<Rightarrow> Inr D | None \<Rightarrow> Inl dangling)"

definition upd_design :: "did \<Rightarrow> (SNLDesign \<Rightarrow> SNLDesign) \<Rightarrow> snl \<Rightarrow> snl" where
  "upd_design d f u = u\<lparr>s_designs := (s_designs u)(d := map_option f (s_designs u d))\<rparr>"

section \<open>Bus ranges\<close>

definition getWidth :: "int \<Rightarrow> int \<Rightarrow> int" where
  "getWidth msb lsb = \<bar>lsb - msb\<bar> + 1"

definition isBetween :: "int \<Rightarrow> int \<Rightarrow> int \<Rightarrow> bool" where
  "isBetween n msb lsb \<longleftrightarrow> n \<ge> min msb lsb \<and> n \<le> max msb lsb"

text \<open>The bit \<open>createBits\<close> puts at position \<open>i\<close>.\<close>

definition bus_bit :: "int \<Rightarrow> int \<Rightarrow> nat \<Rightarrow> int" where
  "bus_bit msb lsb i = (if msb > lsb then msb - int i else msb + int i)"

definition createBits :: "int \<Rightarrow> int \<Rightarrow> bool list" where
  "createBits msb lsb = replicate (nat (getWidth msb lsb)) True"

definition bit_position :: "int \<Rightarrow> int \<Rightarrow> nat" where
  "bit_position msb b = nat \<bar>msb - b\<bar>"

text \<open>\<open>getBit\<close>, the test that it is not null.\<close>

definition has_bit :: "int \<Rightarrow> int \<Rightarrow> bool list \<Rightarrow> int \<Rightarrow> bool" where
  "has_bit msb lsb bits b \<longleftrightarrow> isBetween b msb lsb \<and> bit_position msb b < length bits \<and>
     bits ! bit_position msb b"

text \<open>\<open>getBusBits\<close>: the bit numbers of the non-null entries, in vector order.\<close>

definition present_bits :: "int \<Rightarrow> int \<Rightarrow> bool list \<Rightarrow> int list" where
  "present_bits msb lsb bits = map (bus_bit msb lsb) (filter (\<lambda>i. bits ! i) [0..<length bits])"

section \<open>Lookups\<close>

definition getTerm :: "SNLDesign \<Rightarrow> nat \<Rightarrow> SNLTerm option" where
  "getTerm D i = smap_find (<) i (d_terms D)"

definition getTerm_name :: "SNLDesign \<Rightarrow> string \<Rightarrow> (nat \<times> SNLTerm) option" where
  "getTerm_name D name = (case d_termNameID D name of
     None \<Rightarrow> None | Some i \<Rightarrow> map_option (Pair i) (getTerm D i))"

definition getNet :: "SNLDesign \<Rightarrow> nat \<Rightarrow> SNLNet option" where
  "getNet D i = smap_find (<) i (d_nets D)"

definition getNet_name :: "SNLDesign \<Rightarrow> string \<Rightarrow> (nat \<times> SNLNet) option" where
  "getNet_name D name = (case d_netNameID D name of
     None \<Rightarrow> None | Some i \<Rightarrow> map_option (Pair i) (getNet D i))"

definition getInstance :: "SNLDesign \<Rightarrow> nat \<Rightarrow> SNLInstance option" where
  "getInstance D i = smap_find (<) i (d_instances D)"

definition getInstance_name :: "SNLDesign \<Rightarrow> string \<Rightarrow> (nat \<times> SNLInstance) option" where
  "getInstance_name D name = (case d_instanceNameID D name of
     None \<Rightarrow> None | Some i \<Rightarrow> map_option (Pair i) (getInstance D i))"

text \<open>The identifiers of the objects of design \<open>d\<close> (the \<open>getNLID\<close> members).\<close>

abbreviation scalar_term_id :: "did \<Rightarrow> nat \<Rightarrow> NLID" where
  "scalar_term_id d i \<equiv> nlid_object T_Term d i 0 0"

abbreviation term_bit_id :: "did \<Rightarrow> nat \<Rightarrow> int \<Rightarrow> NLID" where
  "term_bit_id d i b \<equiv> nlid_object T_TermBit d i 0 b"

abbreviation net_id :: "did \<Rightarrow> nat \<Rightarrow> NLID" where
  "net_id d i \<equiv> nlid_object T_Net d i 0 0"

abbreviation net_bit_id :: "did \<Rightarrow> nat \<Rightarrow> int \<Rightarrow> NLID" where
  "net_bit_id d i b \<equiv> nlid_object T_NetBit d i 0 b"

abbreviation instance_id :: "did \<Rightarrow> nat \<Rightarrow> NLID" where
  "instance_id d i \<equiv> nlid_object T_Instance d 0 i 0"

text \<open>\<open>SNLInstTerm::getNLID\<close>: the identifier of the instance terminal of a bit terminal.\<close>

definition inst_term_id :: "did \<Rightarrow> nat \<Rightarrow> NLID \<Rightarrow> NLID" where
  "inst_term_id d i bt = nlid_object T_InstTerm d (id_object bt) i (id_bit bt)"

text \<open>\<open>getBits\<close> of a terminal and of a net, \<open>getBitTerms\<close> of a design.\<close>

definition term_bits :: "did \<Rightarrow> nat \<Rightarrow> SNLTerm \<Rightarrow> NLID list" where
  "term_bits d i t = (case t_kind t of ScalarTerm \<Rightarrow> [scalar_term_id d i]
     | BusTerm msb lsb bits \<Rightarrow> map (term_bit_id d i) (present_bits msb lsb bits))"

definition net_bits :: "did \<Rightarrow> nat \<Rightarrow> SNLNet \<Rightarrow> NLID list" where
  "net_bits d i n = (case n_kind n of ScalarNet \<Rightarrow> [net_id d i]
     | BusNet msb lsb bits \<Rightarrow> map (net_bit_id d i) (present_bits msb lsb bits))"

definition getBitTerms :: "did \<Rightarrow> SNLDesign \<Rightarrow> NLID list" where
  "getBitTerms d D = concat (map (\<lambda>(i, t). term_bits d i t) (d_terms D))"

definition term_width :: "SNLTerm \<Rightarrow> int" where
  "term_width t = (case t_kind t of ScalarTerm \<Rightarrow> 1 | BusTerm msb lsb bits \<Rightarrow> getWidth msb lsb)"

definition net_width :: "SNLNet \<Rightarrow> int" where
  "net_width n = (case n_kind n of ScalarNet \<Rightarrow> 1 | BusNet msb lsb bits \<Rightarrow> getWidth msb lsb)"

text \<open>\<open>SNLBitTerm::getFlatID\<close>\<close>

definition flatID :: "SNLDesign \<Rightarrow> NLID \<Rightarrow> nat result" where
  "flatID D bt = (case getTerm D (id_object bt) of
     None \<Rightarrow> Inl dangling
   | Some t \<Rightarrow> (case t_kind t of ScalarTerm \<Rightarrow> Inr (t_flatID t)
       | BusTerm msb lsb bits \<Rightarrow> Inr (t_flatID t + bit_position msb (id_bit bt))))"

section \<open>Objects that exist\<close>

definition live_net :: "snl \<Rightarrow> NLID \<Rightarrow> bool" where
  "live_net u n \<longleftrightarrow> (case s_designs u (id_ref n) of None \<Rightarrow> False
     | Some D \<Rightarrow> (case getNet D (id_object n) of None \<Rightarrow> False
         | Some net \<Rightarrow> n \<in> set (net_bits (id_ref n) (id_object n) net)))"

definition live_term :: "snl \<Rightarrow> NLID \<Rightarrow> bool" where
  "live_term u c \<longleftrightarrow> (case s_designs u (id_ref c) of None \<Rightarrow> False
     | Some D \<Rightarrow> (case getTerm D (id_object c) of None \<Rightarrow> False
         | Some t \<Rightarrow> c \<in> set (term_bits (id_ref c) (id_object c) t)))"

definition live_instTerm :: "snl \<Rightarrow> NLID \<Rightarrow> bool" where
  "live_instTerm u c \<longleftrightarrow> id_type c = T_InstTerm \<and> (case s_designs u (id_ref c) of None \<Rightarrow> False
     | Some D \<Rightarrow> (case getInstance D (id_instance c) of None \<Rightarrow> False
         | Some inst \<Rightarrow> Some c \<in> set (i_instTerms inst)))"

definition live_component :: "snl \<Rightarrow> NLID \<Rightarrow> bool" where
  "live_component u c \<longleftrightarrow> live_term u c \<or> live_instTerm u c"

section \<open>Connections\<close>

definition addComponent :: "NLID \<Rightarrow> NLID \<Rightarrow> snl \<Rightarrow> snl result" where
  "addComponent n c u = (if \<not> live_net u n then Inl dangling
     else Inr (u\<lparr>s_components := (s_components u)(n := set_insert nlid_lt c () (s_components u n))\<rparr>))"

definition removeComponent :: "NLID \<Rightarrow> NLID \<Rightarrow> snl \<Rightarrow> snl result" where
  "removeComponent n c u = (if \<not> live_net u n then Inl dangling
     else Inr (u\<lparr>s_components := (s_components u)(n := smap_erase nlid_lt c (s_components u n))\<rparr>))"

text \<open>The last part of \<open>NET_COMPONENT_SET_NET\<close>: the bit net is known.\<close>

definition connect :: "NLID \<Rightarrow> NLID option \<Rightarrow> snl \<Rightarrow> snl result" where
  "connect c bitNet u =
     (if s_net u c = bitNet then Inr u
      else rbind (case s_net u c of None \<Rightarrow> Inr u | Some n \<Rightarrow> removeComponent n c u) (\<lambda>u.
        let u = u\<lparr>s_net := (s_net u)(c := bitNet)\<rparr>
        in case bitNet of None \<Rightarrow> Inr u | Some n \<Rightarrow> addComponent n c u))"

text \<open>
  \<open>setNet\<close> of a bit component.  The argument is null, a bit net, or a bus net given by the
  identifier of the whole bus; a bus of width one stands for its only bit.
\<close>

definition resolve_bit_net :: "snl \<Rightarrow> NLID \<Rightarrow> NLID option result" where
  "resolve_bit_net u n = (if id_type n = T_NetBit then Inr (Some n)
     else rbind (the_design u (id_ref n)) (\<lambda>D. case getNet D (id_object n) of
       None \<Rightarrow> Inl dangling
     | Some net \<Rightarrow> (case n_kind net of ScalarNet \<Rightarrow> Inr (Some n)
         | BusNet msb lsb bits \<Rightarrow>
             (if getWidth msb lsb \<noteq> 1 then Inl (NLException ''cannot set component to net, bus width is not 1'')
              else Inr (if has_bit msb lsb bits msb then Some (net_bit_id (id_ref n) (id_object n) msb)
                        else None)))))"

definition setNet :: "NLID \<Rightarrow> NLID option \<Rightarrow> snl \<Rightarrow> snl result" where
  "setNet c net u = (case net of
     None \<Rightarrow> connect c None u
   | Some n \<Rightarrow>
       (if id_ref n \<noteq> id_ref c
        then Inl (NLException ''Impossible setNet call with incompatible designs'')
        else rbind (resolve_bit_net u n) (\<lambda>bitNet. connect c bitNet u)))"

text \<open>A loop of \<open>setNet\<close> calls over a list of components.\<close>

definition setNets :: "NLID list \<Rightarrow> NLID option \<Rightarrow> snl \<Rightarrow> snl result" where
  "setNets cs net u = rfold (\<lambda>c. setNet c net) cs u"

definition getComponents :: "snl \<Rightarrow> NLID \<Rightarrow> NLID list" where
  "getComponents u n = map fst (s_components u n)"

text \<open>\<open>SNLBitNet::preDestroy\<close> and \<open>connectAllComponentsTo\<close>\<close>

definition bitnet_preDestroy :: "NLID \<Rightarrow> snl \<Rightarrow> snl result" where
  "bitnet_preDestroy n u = setNets (getComponents u n) None u"

definition connectAllComponentsTo :: "NLID \<Rightarrow> NLID option \<Rightarrow> snl \<Rightarrow> snl result" where
  "connectAllComponentsTo n net u =
     rbind (if net \<noteq> Some n then setNets (getComponents u n) net u else Inr u)
       (\<lambda>u. Inr (u\<lparr>s_components := (s_components u)(n := [])\<rparr>))"

end
