(* ===== verification/NetlistOps.thy ===== *)
theory NetlistOps
  imports Netlist
begin

text \<open>
  Creation and destruction of nets, terminals and instances, renaming, resizing of buses and the
  operations built on them.  An operation takes the store and returns the new store, or
  the exception the code throws.  A null design argument is \<open>None\<close>.
\<close>

section \<open>Members of a design\<close>

text \<open>\<open>add...AndSetID\<close>: one more than the last identifier, in 32 bits.\<close>

definition next_id :: "(nat, 'v) smap \<Rightarrow> nat" where
  "next_id m = (if m = [] then 0 else u32 (fst (last m) + 1))"

definition add_name :: "string \<Rightarrow> nat \<Rightarrow> (string \<rightharpoonup> nat) \<Rightarrow> (string \<rightharpoonup> nat)" where
  "add_name name i m = (if name = '''' then m else m(name \<mapsto> i))"

definition erase_name :: "string \<Rightarrow> (string \<rightharpoonup> nat) \<Rightarrow> (string \<rightharpoonup> nat)" where
  "erase_name name m = (if name = '''' then m else m(name := None))"

definition addNet :: "nat \<Rightarrow> SNLNet \<Rightarrow> SNLDesign \<Rightarrow> SNLDesign" where
  "addNet i net D = D\<lparr>d_nets := set_insert (<) i net (d_nets D),
     d_netNameID := add_name (n_name net) i (d_netNameID D)\<rparr>"

definition removeNet :: "nat \<Rightarrow> SNLNet \<Rightarrow> SNLDesign \<Rightarrow> SNLDesign" where
  "removeNet i net D = D\<lparr>d_netNameID := erase_name (n_name net) (d_netNameID D),
     d_nets := smap_erase (<) i (d_nets D)\<rparr>"

definition addInstance :: "nat \<Rightarrow> SNLInstance \<Rightarrow> SNLDesign \<Rightarrow> SNLDesign" where
  "addInstance i inst D = D\<lparr>d_instances := set_insert (<) i inst (d_instances D),
     d_instanceNameID := add_name (i_name inst) i (d_instanceNameID D)\<rparr>"

definition removeInstance :: "nat \<Rightarrow> SNLInstance \<Rightarrow> SNLDesign \<Rightarrow> SNLDesign" where
  "removeInstance i inst D = D\<lparr>d_instanceNameID := erase_name (i_name inst) (d_instanceNameID D),
     d_instances := smap_erase (<) i (d_instances D)\<rparr>"

definition addSlaveInstance :: "NLID \<Rightarrow> SNLDesign \<Rightarrow> SNLDesign" where
  "addSlaveInstance s D = D\<lparr>d_slaves := set_insert nlid_lt s () (d_slaves D)\<rparr>"

definition removeSlaveInstance :: "NLID \<Rightarrow> SNLDesign \<Rightarrow> SNLDesign" where
  "removeSlaveInstance s D = D\<lparr>d_slaves := smap_erase nlid_lt s (d_slaves D)\<rparr>"

text \<open>The flat identifier \<open>addTerm\<close> gives: behind the terminal with the last identifier.\<close>

definition next_flatID :: "SNLDesign \<Rightarrow> nat" where
  "next_flatID D = (if d_terms D = [] then 0
     else let t = snd (last (d_terms D)) in t_flatID t + nat (term_width t))"

definition insertTerm :: "nat \<Rightarrow> SNLTerm \<Rightarrow> SNLDesign \<Rightarrow> SNLDesign" where
  "insertTerm i t D = D\<lparr>d_terms := set_insert (<) i t (d_terms D),
     d_termNameID := add_name (t_name t) i (d_termNameID D)\<rparr>"

definition eraseTerm :: "nat \<Rightarrow> SNLTerm \<Rightarrow> SNLDesign \<Rightarrow> SNLDesign" where
  "eraseTerm i t D = D\<lparr>d_termNameID := erase_name (t_name t) (d_termNameID D),
     d_terms := smap_erase (<) i (d_terms D)\<rparr>"

section \<open>Nets\<close>

definition need_design :: "string \<Rightarrow> did option \<Rightarrow> snl \<Rightarrow> (did \<times> SNLDesign) result" where
  "need_design what d u = (case d of
     None \<Rightarrow> Inl (NLException (''malformed '' @ what @ '' creator with NULL design argument''))
   | Some d \<Rightarrow> rbind (the_design u d) (\<lambda>D. Inr (d, D)))"

text \<open>\<open>preCreate\<close> of the two net classes: name, then identifier when one is given.\<close>

definition net_preCreate :: "SNLDesign \<Rightarrow> nat option \<Rightarrow> string \<Rightarrow> unit result" where
  "net_preCreate D i name =
     (if name \<noteq> '''' \<and> getNet_name D name \<noteq> None then Inl (NLException ''net name conflict'')
      else case i of None \<Rightarrow> Inr ()
        | Some i \<Rightarrow> (if getNet D i \<noteq> None then Inl (NLException ''net id conflict'') else Inr ()))"

text \<open>New bit net objects: no component, standard type.\<close>

definition new_bit_nets :: "NLID list \<Rightarrow> snl \<Rightarrow> snl" where
  "new_bit_nets ns u = u\<lparr>s_components := (\<lambda>n. if n \<in> set ns then [] else s_components u n),
     s_type := (\<lambda>n. if n \<in> set ns then Standard else s_type u n)\<rparr>"

definition net_create :: "string \<Rightarrow> did option \<Rightarrow> nat option \<Rightarrow> SNLNet \<Rightarrow> snl \<Rightarrow> (nat \<times> snl) result" where
  "net_create what d i net u = rbind (need_design what d u) (\<lambda>(d, D).
     rbind (net_preCreate D i (n_name net)) (\<lambda>_.
       let i = (case i of Some i \<Rightarrow> i | None \<Rightarrow> next_id (d_nets D))
       in Inr (i, new_bit_nets (net_bits d i net) (upd_design d (addNet i net) u))))"

definition SNLScalarNet_create :: "did option \<Rightarrow> nat option \<Rightarrow> string \<Rightarrow> snl \<Rightarrow> (nat \<times> snl) result" where
  "SNLScalarNet_create d i name u = net_create ''SNLScalarNet'' d i \<lparr>n_name = name, n_kind = ScalarNet\<rparr> u"

definition SNLBusNet_create :: "did option \<Rightarrow> nat option \<Rightarrow> int \<Rightarrow> int \<Rightarrow> string \<Rightarrow> snl \<Rightarrow> (nat \<times> snl) result" where
  "SNLBusNet_create d i msb lsb name u = net_create ''SNLBusNet'' d i
     \<lparr>n_name = name, n_kind = BusNet msb lsb (createBits msb lsb)\<rparr> u"

definition the_net :: "snl \<Rightarrow> did \<Rightarrow> nat \<Rightarrow> SNLNet result" where
  "the_net u d i = rbind (the_design u d) (\<lambda>D. case getNet D i of Some n \<Rightarrow> Inr n | None \<Rightarrow> Inl dangling)"

text \<open>\<open>destroy\<close> of a net: the bits are disconnected, then the design forgets the net.\<close>

definition net_destroy :: "did \<Rightarrow> nat \<Rightarrow> snl \<Rightarrow> snl result" where
  "net_destroy d i u = rbind (the_net u d i) (\<lambda>net.
     rbind (rfold bitnet_preDestroy (net_bits d i net) u) (\<lambda>u.
       Inr (upd_design d (removeNet i net) u)))"

definition set_net :: "nat \<Rightarrow> SNLNet \<Rightarrow> SNLDesign \<Rightarrow> SNLDesign" where
  "set_net i net D = D\<lparr>d_nets := smap_put (<) i net (d_nets D)\<rparr>"

text \<open>\<open>SNLBusNetBit::preDestroy\<close> with \<open>SNLBusNet::removeBit\<close>\<close>

definition busNetBit_destroy :: "did \<Rightarrow> nat \<Rightarrow> int \<Rightarrow> snl \<Rightarrow> snl result" where
  "busNetBit_destroy d i b u = rbind (the_net u d i) (\<lambda>net. case n_kind net of
     ScalarNet \<Rightarrow> Inl dangling
   | BusNet msb lsb bits \<Rightarrow>
       (if \<not> has_bit msb lsb bits b then Inl dangling
        else rbind (bitnet_preDestroy (net_bit_id d i b) u) (\<lambda>u.
          Inr (upd_design d
            (set_net i (net\<lparr>n_kind := BusNet msb lsb (bits[bit_position msb b := False])\<rparr>)) u))))"

text \<open>
  \<open>SNLBusNet::setMSB\<close> and \<open>setLSB\<close>.  The removed bits are the first or the last of the vector; a null
  one is dereferenced by the test for components.
\<close>

fun check_unconnected :: "snl \<Rightarrow> did \<Rightarrow> nat \<Rightarrow> (int \<times> bool) list \<Rightarrow> unit result" where
  "check_unconnected u d i [] = Inr ()"
| "check_unconnected u d i ((b, present) # bs) =
     (if \<not> present then Inl null_pointer
      else if getComponents u (net_bit_id d i b) \<noteq> [] then Inl (NLException ''bus resize error: bit is connected'')
      else check_unconnected u d i bs)"

definition numbered :: "int \<Rightarrow> int \<Rightarrow> bool list \<Rightarrow> (int \<times> bool) list" where
  "numbered msb lsb bits = map (\<lambda>i. (bus_bit msb lsb i, bits ! i)) [0..<length bits]"

definition busNet_setMSB :: "did \<Rightarrow> nat \<Rightarrow> int \<Rightarrow> snl \<Rightarrow> snl result" where
  "busNet_setMSB d i m u = rbind (the_net u d i) (\<lambda>net. case n_kind net of
     ScalarNet \<Rightarrow> Inl dangling
   | BusNet msb lsb bits \<Rightarrow>
       (if m = msb then Inr u
        else if \<not> isBetween m msb lsb then Inl (NLException ''setMSB error: cannot be resized'')
        else let count = nat \<bar>msb - m\<bar>; removed = take count (numbered msb lsb bits)
          in rbind (check_unconnected u d i removed) (\<lambda>_.
             rbind (rfold (\<lambda>(b, _). bitnet_preDestroy (net_bit_id d i b)) removed u) (\<lambda>u.
             Inr (upd_design d (set_net i (net\<lparr>n_kind := BusNet m lsb (drop count bits)\<rparr>)) u)))))"

definition busNet_setLSB :: "did \<Rightarrow> nat \<Rightarrow> int \<Rightarrow> snl \<Rightarrow> snl result" where
  "busNet_setLSB d i l u = rbind (the_net u d i) (\<lambda>net. case n_kind net of
     ScalarNet \<Rightarrow> Inl dangling
   | BusNet msb lsb bits \<Rightarrow>
       (if l = lsb then Inr u
        else if \<not> isBetween l msb lsb then Inl (NLException ''setLSB error: cannot be resized'')
        else let count = nat \<bar>lsb - l\<bar>; keep = length bits - count;
                 removed = drop keep (numbered msb lsb bits)
          in rbind (check_unconnected u d i removed) (\<lambda>_.
             rbind (rfold (\<lambda>(b, _). bitnet_preDestroy (net_bit_id d i b)) removed u) (\<lambda>u.
             Inr (upd_design d (set_net i (net\<lparr>n_kind := BusNet msb l (take keep bits)\<rparr>)) u)))))"

section \<open>Instance terminals\<close>

definition set_instance :: "nat \<Rightarrow> SNLInstance \<Rightarrow> SNLDesign \<Rightarrow> SNLDesign" where
  "set_instance i inst D = D\<lparr>d_instances := smap_put (<) i inst (d_instances D)\<rparr>"

definition the_instance :: "snl \<Rightarrow> did \<Rightarrow> nat \<Rightarrow> SNLInstance result" where
  "the_instance u d i = rbind (the_design u d) (\<lambda>D.
     case getInstance D i of Some inst \<Rightarrow> Inr inst | None \<Rightarrow> Inl dangling)"

definition createInstTerm :: "did \<Rightarrow> nat \<Rightarrow> NLID \<Rightarrow> snl \<Rightarrow> snl result" where
  "createInstTerm d i bt u = rbind (the_instance u d i) (\<lambda>inst.
     let it = inst_term_id d i bt
     in Inr ((upd_design d (set_instance i (inst\<lparr>i_instTerms := i_instTerms inst @ [Some it]\<rparr>)) u)
          \<lparr>s_net := (s_net u)(it := None), s_bitTerm := (s_bitTerm u)(it := bt)\<rparr>))"

definition getInstTermByFlatID :: "SNLInstance \<Rightarrow> nat \<Rightarrow> NLID option result" where
  "getInstTermByFlatID inst k = vec_at (i_instTerms inst) k"

definition removeInstTerm :: "did \<Rightarrow> nat \<Rightarrow> NLID \<Rightarrow> snl \<Rightarrow> snl result" where
  "removeInstTerm d i bt u = rbind (the_instance u d i) (\<lambda>inst.
     rbind (the_design u (i_model inst)) (\<lambda>M. rbind (flatID M bt) (\<lambda>k.
     rbind (getInstTermByFlatID inst k) (\<lambda>it.
     rbind (case it of None \<Rightarrow> Inr u | Some it \<Rightarrow> setNet it None u) (\<lambda>u.
       Inr (upd_design d (set_instance i (inst\<lparr>i_instTerms := (i_instTerms inst)[k := None]\<rparr>)) u))))))"

definition getInstTerm :: "snl \<Rightarrow> did \<Rightarrow> nat \<Rightarrow> NLID option \<Rightarrow> NLID option result" where
  "getInstTerm u d i bt = (case bt of
     None \<Rightarrow> Inl (NLException ''SNLInstance::getInsTerm error: bitTerm arg is null'')
   | Some bt \<Rightarrow> rbind (the_instance u d i) (\<lambda>inst.
       if id_ref bt \<noteq> i_model inst then Inl (NLException ''SNLInstance::getInsTerm incoherency'')
       else rbind (the_design u (i_model inst)) (\<lambda>M. rbind (flatID M bt) (getInstTermByFlatID inst))))"

section \<open>Terminals\<close>

definition getSlaves :: "SNLDesign \<Rightarrow> NLID list" where
  "getSlaves D = map fst (d_slaves D)"

definition createInstTerms :: "NLID \<Rightarrow> NLID list \<Rightarrow> snl \<Rightarrow> snl result" where
  "createInstTerms s bts u = rfold (createInstTerm (id_ref s) (id_instance s)) bts u"

definition removeInstTerms :: "NLID \<Rightarrow> NLID list \<Rightarrow> snl \<Rightarrow> snl result" where
  "removeInstTerms s bts u = rfold (removeInstTerm (id_ref s) (id_instance s)) bts u"

definition term_preCreate :: "SNLDesign \<Rightarrow> nat option \<Rightarrow> string \<Rightarrow> unit result" where
  "term_preCreate D i name =
     (if name \<noteq> '''' \<and> getTerm_name D name \<noteq> None then Inl (NLException ''term name conflict'')
      else case i of None \<Rightarrow> Inr ()
        | Some i \<Rightarrow> (if getTerm D i \<noteq> None then Inl (NLException ''term id conflict'') else Inr ()))"

text \<open>New bit terminal objects are not connected.\<close>

definition new_bit_terms :: "NLID list \<Rightarrow> snl \<Rightarrow> snl" where
  "new_bit_terms cs u = u\<lparr>s_net := (\<lambda>c. if c \<in> set cs then None else s_net u c)\<rparr>"

definition addTerm :: "did \<Rightarrow> nat \<Rightarrow> SNLTerm \<Rightarrow> snl \<Rightarrow> snl result" where
  "addTerm d i t u = rbind (the_design u d) (\<lambda>D.
     let t = t\<lparr>t_flatID := next_flatID D\<rparr>; bts = term_bits d i t;
         u = new_bit_terms bts (upd_design d (insertTerm i t) u)
     in rfold (\<lambda>s. createInstTerms s bts) (getSlaves D) u)"

definition term_create :: "string \<Rightarrow> did option \<Rightarrow> nat option \<Rightarrow> SNLTerm \<Rightarrow> snl \<Rightarrow> (nat \<times> snl) result" where
  "term_create what d i t u = rbind (need_design what d u) (\<lambda>(d, D).
     rbind (term_preCreate D i (t_name t)) (\<lambda>_.
       let i = (case i of Some i \<Rightarrow> i | None \<Rightarrow> next_id (d_terms D))
       in rbind (addTerm d i t u) (\<lambda>u. Inr (i, u))))"

definition SNLScalarTerm_create ::
  "did option \<Rightarrow> nat option \<Rightarrow> Direction \<Rightarrow> string \<Rightarrow> snl \<Rightarrow> (nat \<times> snl) result" where
  "SNLScalarTerm_create d i dir name u = term_create ''SNLScalarTerm'' d i
     \<lparr>t_name = name, t_direction = dir, t_flatID = 0, t_kind = ScalarTerm\<rparr> u"

definition SNLBusTerm_create ::
  "did option \<Rightarrow> nat option \<Rightarrow> Direction \<Rightarrow> int \<Rightarrow> int \<Rightarrow> string \<Rightarrow> snl \<Rightarrow> (nat \<times> snl) result" where
  "SNLBusTerm_create d i dir msb lsb name u = term_create ''SNLBusTerm'' d i
     \<lparr>t_name = name, t_direction = dir, t_flatID = 0, t_kind = BusTerm msb lsb (createBits msb lsb)\<rparr> u"

definition the_term :: "snl \<Rightarrow> did \<Rightarrow> nat \<Rightarrow> SNLTerm result" where
  "the_term u d i = rbind (the_design u d) (\<lambda>D. case getTerm D i of Some t \<Rightarrow> Inr t | None \<Rightarrow> Inl dangling)"

definition removeTerm :: "did \<Rightarrow> nat \<Rightarrow> snl \<Rightarrow> snl result" where
  "removeTerm d i u = rbind (the_design u d) (\<lambda>D. rbind (the_term u d i) (\<lambda>t.
     rbind (rfold (\<lambda>s. removeInstTerms s (term_bits d i t)) (getSlaves D) u) (\<lambda>u.
       Inr (upd_design d (eraseTerm i t) u))))"

text \<open>
  \<open>destroy\<close> of a terminal: a scalar is disconnected and then removed, a bus the other way round; the
  bits of the destroyed object are disconnected through their own pointers.
\<close>

definition term_destroy :: "did \<Rightarrow> nat \<Rightarrow> snl \<Rightarrow> snl result" where
  "term_destroy d i u = rbind (the_term u d i) (\<lambda>t. case t_kind t of
     ScalarTerm \<Rightarrow> rbind (setNets (term_bits d i t) None u) (removeTerm d i)
   | BusTerm msb lsb bits \<Rightarrow> rbind (removeTerm d i u) (setNets (term_bits d i t) None))"

definition set_term :: "nat \<Rightarrow> SNLTerm \<Rightarrow> SNLDesign \<Rightarrow> SNLDesign" where
  "set_term i t D = D\<lparr>d_terms := smap_put (<) i t (d_terms D)\<rparr>"

text \<open>\<open>SNLBusTermBit::preDestroy\<close> with \<open>SNLBusTerm::removeBit\<close>\<close>

definition busTermBit_destroy :: "did \<Rightarrow> nat \<Rightarrow> int \<Rightarrow> snl \<Rightarrow> snl result" where
  "busTermBit_destroy d i b u = rbind (the_term u d i) (\<lambda>t. case t_kind t of
     ScalarTerm \<Rightarrow> Inl dangling
   | BusTerm msb lsb bits \<Rightarrow>
       (if \<not> has_bit msb lsb bits b then Inl dangling
        else rbind (setNet (term_bit_id d i b) None u) (\<lambda>u. rbind (the_design u d) (\<lambda>D.
          rfold (\<lambda>s. removeInstTerm (id_ref s) (id_instance s) (term_bit_id d i b)) (getSlaves D)
            (upd_design d
              (set_term i (t\<lparr>t_kind := BusTerm msb lsb (bits[bit_position msb b := False])\<rparr>)) u)))))"

section \<open>Instances\<close>

definition instance_preCreate :: "SNLDesign \<Rightarrow> nat option \<Rightarrow> string \<Rightarrow> unit result" where
  "instance_preCreate D i name =
     (if isPrimitive D then Inl (NLException ''Cannot create SNLInstance in primitive design'')
      else if name \<noteq> '''' \<and> getInstance_name D name \<noteq> None then Inl (NLException ''instance name conflict'')
      else case i of None \<Rightarrow> Inr ()
        | Some i \<Rightarrow> (if getInstance D i \<noteq> None then Inl (NLException ''instance id conflict'') else Inr ()))"

text \<open>\<open>commonPostCreate\<close>: the slave registration, then one instance terminal per bit terminal.\<close>

definition instance_commonPostCreate :: "did \<Rightarrow> nat \<Rightarrow> did \<Rightarrow> snl \<Rightarrow> snl result" where
  "instance_commonPostCreate d i model u = rbind (the_design u model) (\<lambda>M.
     let u = (if isPrimitive M then u else upd_design model (addSlaveInstance (instance_id d i)) u)
     in createInstTerms (instance_id d i) (getBitTerms model M) u)"

definition SNLInstance_create ::
  "did option \<Rightarrow> did option \<Rightarrow> nat option \<Rightarrow> string \<Rightarrow> snl \<Rightarrow> (nat \<times> snl) result" where
  "SNLInstance_create d model i name u = rbind (need_design ''SNLInstance'' d u) (\<lambda>(d, D).
     case model of
       None \<Rightarrow> Inl (NLException ''SNLInstance has a NULL model argument'')
     | Some model \<Rightarrow> rbind (instance_preCreate D i name) (\<lambda>_.
         let i = (case i of Some i \<Rightarrow> i | None \<Rightarrow> next_id (d_instances D));
             inst = \<lparr>i_model = model, i_name = name, i_instTerms = []\<rparr>
         in rbind (instance_commonPostCreate d i model (upd_design d (addInstance i inst) u))
              (\<lambda>u. Inr (i, u))))"

text \<open>\<open>commonPreDestroy\<close>: the instance terminals that are left are disconnected and deleted.\<close>

definition instance_commonPreDestroy :: "SNLInstance \<Rightarrow> snl \<Rightarrow> snl result" where
  "instance_commonPreDestroy inst u = setNets (List.map_filter id (i_instTerms inst)) None u"

definition remove_slave :: "did \<Rightarrow> nat \<Rightarrow> SNLInstance \<Rightarrow> snl \<Rightarrow> snl result" where
  "remove_slave d i inst u = rbind (the_design u (i_model inst)) (\<lambda>M.
     Inr (if isPrimitive M then u
          else upd_design (i_model inst) (removeSlaveInstance (instance_id d i)) u))"

definition instance_destroy :: "did \<Rightarrow> nat \<Rightarrow> snl \<Rightarrow> snl result" where
  "instance_destroy d i u = rbind (the_instance u d i) (\<lambda>inst.
     rbind (remove_slave d i inst u) (\<lambda>u.
       instance_commonPreDestroy inst (upd_design d (removeInstance i inst) u)))"

text \<open>\<open>setTermsNets\<close> on vectors of terminals and (possibly null) bit nets.\<close>

fun setTermsNets_loop :: "did \<Rightarrow> nat \<Rightarrow> NLID list \<Rightarrow> NLID option list \<Rightarrow> snl \<Rightarrow> snl result" where
  "setTermsNets_loop d i (bt # bts) (n # ns) u = rbind (the_instance u d i) (\<lambda>inst.
     if id_ref bt \<noteq> i_model inst
     then Inl (NLException ''setTermsNets error with incompatible instance and terminal'')
     else if n \<noteq> None \<and> id_ref (the n) \<noteq> d
     then Inl (NLException ''setTermsNets error with incompatible instance and net'')
     else rbind (getInstTerm u d i (Some bt)) (\<lambda>it. case it of
         None \<Rightarrow> Inl null_pointer
       | Some it \<Rightarrow> rbind (setNet it n u) (setTermsNets_loop d i bts ns)))"
| "setTermsNets_loop d i bts ns u = Inr u"

definition setTermsNets :: "did \<Rightarrow> nat \<Rightarrow> NLID list \<Rightarrow> NLID option list \<Rightarrow> snl \<Rightarrow> snl result" where
  "setTermsNets d i bts ns u =
     (if length bts \<noteq> length ns
      then Inl (NLException ''setTermsNets only supported when terms and nets share same size'')
      else setTermsNets_loop d i bts ns u)"

section \<open>Names\<close>

text \<open>\<open>OWNER_RENAME\<close>: the index entry moves to the new name, or disappears with it.\<close>

definition rename :: "string \<Rightarrow> string \<Rightarrow> nat \<Rightarrow> (string \<rightharpoonup> nat) \<Rightarrow> (string \<rightharpoonup> nat) result" where
  "rename previous new i m =
     (if previous = '''' then Inr (if new = '''' then m else m(new \<mapsto> i))
      else case m previous of
          None \<Rightarrow> Inl (UndefinedBehaviour ''empty node handle'')
        | Some j \<Rightarrow> Inr (if new = '''' then m(previous := None)
            else let m = m(previous := None) in if m new = None then m(new \<mapsto> j) else m))"

text \<open>\<open>DESIGN_OBJECT_SET_NAME\<close> for nets, terminals and instances.\<close>

definition net_setName :: "did \<Rightarrow> nat \<Rightarrow> string \<Rightarrow> snl \<Rightarrow> snl result" where
  "net_setName d i name u = rbind (the_design u d) (\<lambda>D. rbind (the_net u d i) (\<lambda>net.
     if n_name net = name then Inr u
     else if name \<noteq> '''' \<and> getNet_name D name \<noteq> None then Inl (NLException ''cannot rename'')
     else rbind (rename (n_name net) name i (d_netNameID D)) (\<lambda>m.
       Inr (upd_design d (\<lambda>D. (set_net i (net\<lparr>n_name := name\<rparr>) D)\<lparr>d_netNameID := m\<rparr>) u))))"

definition term_setName :: "did \<Rightarrow> nat \<Rightarrow> string \<Rightarrow> snl \<Rightarrow> snl result" where
  "term_setName d i name u = rbind (the_design u d) (\<lambda>D. rbind (the_term u d i) (\<lambda>t.
     if t_name t = name then Inr u
     else if name \<noteq> '''' \<and> getTerm_name D name \<noteq> None then Inl (NLException ''cannot rename'')
     else rbind (rename (t_name t) name i (d_termNameID D)) (\<lambda>m.
       Inr (upd_design d (\<lambda>D. (set_term i (t\<lparr>t_name := name\<rparr>) D)\<lparr>d_termNameID := m\<rparr>) u))))"

definition instance_setName :: "did \<Rightarrow> nat \<Rightarrow> string \<Rightarrow> snl \<Rightarrow> snl result" where
  "instance_setName d i name u = rbind (the_design u d) (\<lambda>D. rbind (the_instance u d i) (\<lambda>inst.
     if i_name inst = name then Inr u
     else if name \<noteq> '''' \<and> getInstance_name D name \<noteq> None then Inl (NLException ''cannot rename'')
     else rbind (rename (i_name inst) name i (d_instanceNameID D)) (\<lambda>m.
       Inr (upd_design d (\<lambda>D. (set_instance i (inst\<lparr>i_name := name\<rparr>) D)\<lparr>d_instanceNameID := m\<rparr>) u))))"

section \<open>Merging assigns\<close>

text \<open>
  \<open>SNLDesign::mergeAssigns\<close>.  \<open>assign\<close> is the assign primitive of \<open>NLDB0\<close>, with its input and output
  terminals.
\<close>

definition assign_step :: "did \<Rightarrow> NLID \<Rightarrow> NLID \<Rightarrow> nat \<Rightarrow> snl \<Rightarrow> snl result" where
  "assign_step d input output i u =
     rbind (getInstTerm u d i (Some input)) (\<lambda>itIn. rbind (getInstTerm u d i (Some output)) (\<lambda>itOut.
     case (itIn, itOut) of
       (Some itIn, Some itOut) \<Rightarrow> (case s_net u itOut of
           None \<Rightarrow> Inl null_pointer
         | Some outNet \<Rightarrow> rbind (connectAllComponentsTo outNet (s_net u itIn) u) (\<lambda>u.
             if id_type outNet = T_Net then net_destroy d (id_object outNet) u else Inr u))
     | _ \<Rightarrow> Inl null_pointer))"

definition mergeAssigns :: "did \<Rightarrow> NLID \<Rightarrow> NLID \<Rightarrow> did \<Rightarrow> snl \<Rightarrow> snl result" where
  "mergeAssigns assign input output d u = rbind (the_design u d) (\<lambda>D.
     let assigns = map fst (filter (\<lambda>(i, inst). i_model inst = assign) (d_instances D))
     in rbind (rfold (assign_step d input output) assigns u) (rfold (instance_destroy d) assigns))"

section \<open>Destruction of a design\<close>

text \<open>\<open>destroyFromDesign\<close> and \<open>destroyFromModel\<close> of the members.\<close>

definition instance_destroyFromDesign :: "did \<Rightarrow> nat \<times> SNLInstance \<Rightarrow> snl \<Rightarrow> snl result" where
  "instance_destroyFromDesign d e u =
     rbind (remove_slave d (fst e) (snd e) u) (instance_commonPreDestroy (snd e))"

definition instance_destroyFromModel :: "NLID \<Rightarrow> snl \<Rightarrow> snl result" where
  "instance_destroyFromModel s u = rbind (the_instance u (id_ref s) (id_instance s)) (\<lambda>inst.
     instance_commonPreDestroy inst (upd_design (id_ref s) (removeInstance (id_instance s) inst) u))"

definition term_destroyFromDesign :: "did \<Rightarrow> nat \<times> SNLTerm \<Rightarrow> snl \<Rightarrow> snl result" where
  "term_destroyFromDesign d e u = setNets (term_bits d (fst e) (snd e)) None
     (upd_design d (\<lambda>D. D\<lparr>d_terms := smap_erase (<) (fst e) (d_terms D)\<rparr>) u)"

definition net_destroyFromDesign :: "did \<Rightarrow> nat \<times> SNLNet \<Rightarrow> snl \<Rightarrow> snl result" where
  "net_destroyFromDesign d e u = rfold bitnet_preDestroy (net_bits d (fst e) (snd e)) u"

definition design_commonPreDestroy :: "did \<Rightarrow> snl \<Rightarrow> snl result" where
  "design_commonPreDestroy d u = rbind (the_design u d) (\<lambda>D.
     rbind (rfold (instance_destroyFromDesign d) (d_instances D) u) (\<lambda>u.
     let u = upd_design d (\<lambda>D. D\<lparr>d_instances := []\<rparr>) u in
     rbind (the_design u d) (\<lambda>D.
     rbind (if isPrimitive D then Inr u
            else rbind (rfold instance_destroyFromModel (getSlaves D) u)
              (\<lambda>u. Inr (upd_design d (\<lambda>D. D\<lparr>d_slaves := []\<rparr>) u))) (\<lambda>u.
     rbind (rfold (term_destroyFromDesign d) (d_terms D) u) (\<lambda>u.
     let u = upd_design d (\<lambda>D. D\<lparr>d_terms := [], d_termNameID := Map.empty\<rparr>) u in
     rbind (rfold (net_destroyFromDesign d) (d_nets D) u) (\<lambda>u.
     Inr (upd_design d (\<lambda>D. D\<lparr>d_nets := []\<rparr>) u)))))))"

definition design_destroy :: "did \<Rightarrow> snl \<Rightarrow> snl result" where
  "design_destroy d u = rbind (design_commonPreDestroy d u) (\<lambda>u.
     Inr (u\<lparr>s_designs := (s_designs u)(d := None)\<rparr>))"

end
