(* ===== verification/NetlistConn.thy ===== *)
theory NetlistConn
  imports NetlistOps
begin

text \<open>
  The connection invariant: the \<open>net_\<close> pointers of the components and the \<open>components_\<close> sets of the bit
  nets are inverse to each other, a pointer only leads to an existing bit net of the component's
  design, and only existing components are connected.  Every operation that changes connections,
  nets or terminals is shown to succeed on such a store where the code does not throw, and to keep
  the invariant.
\<close>

section \<open>The invariant\<close>

definition linked :: "snl \<Rightarrow> bool" where
  "linked u \<longleftrightarrow> (\<forall>n. smap_inv nlid_lt (\<lambda>_. True) (s_components u n)) \<and>
     (\<forall>c n. s_net u c = Some n \<longleftrightarrow> c \<in> set (getComponents u n))"

definition nets_ok :: "snl \<Rightarrow> bool" where
  "nets_ok u \<longleftrightarrow> (\<forall>c n. s_net u c = Some n \<longrightarrow> live_net u n \<and> id_ref n = id_ref c)"

definition comps_ok :: "snl \<Rightarrow> bool" where
  "comps_ok u \<longleftrightarrow> (\<forall>c n. s_net u c = Some n \<longrightarrow> live_component u c)"

definition conn_inv :: "snl \<Rightarrow> bool" where
  "conn_inv u \<longleftrightarrow> linked u \<and> nets_ok u \<and> comps_ok u"

text \<open>The part of the store that connections do not touch.\<close>

definition same_objs :: "snl \<Rightarrow> snl \<Rightarrow> bool" where
  "same_objs u v \<longleftrightarrow> s_designs v = s_designs u \<and> s_bitTerm v = s_bitTerm u \<and> s_type v = s_type u"

lemma same_objs_refl [simp]: "same_objs u u"
  by (simp add: same_objs_def)

lemma same_objs_trans: "same_objs u v \<Longrightarrow> same_objs v w \<Longrightarrow> same_objs u w"
  by (simp add: same_objs_def)

lemma live_same:
  assumes "s_designs v = s_designs u"
  shows "live_net v n \<longleftrightarrow> live_net u n" "live_term v c \<longleftrightarrow> live_term u c"
    "live_instTerm v c \<longleftrightarrow> live_instTerm u c" "live_component v c \<longleftrightarrow> live_component u c"
  using assms by (simp_all add: live_net_def live_term_def live_instTerm_def live_component_def)

lemma conn_inv_same:
  "s_designs v = s_designs u \<Longrightarrow> s_net v = s_net u \<Longrightarrow> s_components v = s_components u \<Longrightarrow>
   conn_inv v \<longleftrightarrow> conn_inv u"
  using live_same [of v u]
  by (simp add: conn_inv_def linked_def nets_ok_def comps_ok_def getComponents_def)

section \<open>Connecting one component\<close>

lemma connect_spec:
  assumes u: "linked u" "nets_ok u"
    and bn: "\<And>n. bn = Some n \<Longrightarrow> live_net u n \<and> id_ref n = id_ref c"
  shows "\<exists>v. connect c bn u = Inr v \<and> s_net v = (s_net u)(c := bn) \<and> same_objs u v \<and>
    linked v \<and> nets_ok v"
proof (cases "s_net u c = bn")
  case True
  then show ?thesis using u by (auto simp: connect_def)
next
  case False
  let ?del = "\<lambda>n. if s_net u c = Some n then smap_erase nlid_lt c (s_components u n) else s_components u n"
  let ?add = "\<lambda>n. if bn = Some n then set_insert nlid_lt c () (?del n) else ?del n"
  define v where "v = u\<lparr>s_net := (s_net u)(c := bn), s_components := ?add\<rparr>"
  have old: "live_net u n" if "s_net u c = Some n" for n using u(2) that by (simp add: nets_ok_def)
  have "connect c bn u = Inr v"
  proof (cases "s_net u c")
    case None
    then show ?thesis
      using False bn live_same(1) [of "u\<lparr>s_net := (s_net u)(c := bn)\<rparr>" u]
      by (cases bn) (auto simp: connect_def addComponent_def v_def fun_eq_iff)
  next
    case (Some m)
    let ?u1 = "u\<lparr>s_components := (s_components u)(m := smap_erase nlid_lt c (s_components u m)),
      s_net := (s_net u)(c := bn)\<rparr>"
    show ?thesis
      using Some False old [OF Some] bn live_same(1) [of ?u1 u]
      by (cases bn) (auto simp: connect_def addComponent_def removeComponent_def v_def fun_eq_iff)
  qed
  moreover have inv: "\<forall>n. smap_inv nlid_lt (\<lambda>_. True) (s_components u n)"
    and mem: "\<And>c n. s_net u c = Some n \<longleftrightarrow> c \<in> fst ` set (s_components u n)"
    using u(1) by (auto simp: linked_def getComponents_def)
  have "linked v"
    unfolding linked_def
  proof (intro conjI allI)
    fix n
    show "smap_inv nlid_lt (\<lambda>_. True) (s_components v n)"
      using inv by (simp add: v_def nlk.erase_inv nlk.insert_inv)
  next
    fix x n
    show "s_net v x = Some n \<longleftrightarrow> x \<in> set (getComponents v n)"
      using inv mem [of x n] mem [of c n] False
      by (auto simp: v_def getComponents_def nlk.keys_insert nlk.keys_erase nlk.erase_inv simp del: fst_conv)
  qed
  moreover have "nets_ok v"
    using u(2) bn live_same(1) [of v u] by (auto simp: nets_ok_def v_def)
  ultimately show ?thesis by (auto simp: v_def same_objs_def)
qed

lemma disconnect_spec:
  assumes "linked u" "nets_ok u"
  shows "\<exists>v. setNet c None u = Inr v \<and> s_net v = (s_net u)(c := None) \<and> same_objs u v \<and>
    linked v \<and> nets_ok v"
  using connect_spec [OF assms, of None c] by (simp add: setNet_def)

lemma resolve_bit_net_live:
  assumes "live_net u n"
  shows "resolve_bit_net u n = Inr (Some n)"
proof -
  obtain D net where D: "s_designs u (id_ref n) = Some D" "getNet D (id_object n) = Some net"
    "n \<in> set (net_bits (id_ref n) (id_object n) net)"
    using assms by (auto simp: live_net_def split: option.splits)
  then have ty: "id_type n = (case n_kind net of ScalarNet \<Rightarrow> T_Net | BusNet msb lsb bits \<Rightarrow> T_NetBit)"
    by (auto simp: net_bits_def split: net_kind.splits) (metis nlid_object_sel(1))+
  then show ?thesis
    using D by (cases "n_kind net") (auto simp: resolve_bit_net_def the_design_def)
qed

lemma setNet_spec:
  assumes "linked u" "nets_ok u" "live_net u n" "id_ref n = id_ref c"
  shows "\<exists>v. setNet c (Some n) u = Inr v \<and> s_net v = (s_net u)(c \<mapsto> n) \<and> same_objs u v \<and>
    linked v \<and> nets_ok v"
  using connect_spec [OF assms(1,2), of "Some n" c] assms(3,4)
  by (simp add: setNet_def resolve_bit_net_live)

section \<open>Bus bits\<close>

lemma bus_bit_position: "isBetween b msb lsb \<Longrightarrow> bus_bit msb lsb (bit_position msb b) = b"
  by (auto simp: isBetween_def bus_bit_def bit_position_def)

lemma position_bus_bit: "bit_position msb (bus_bit msb lsb i) = i"
  by (simp add: bus_bit_def bit_position_def)

lemma bus_bit_inj: "bus_bit msb lsb i = bus_bit msb lsb j \<longleftrightarrow> i = j"
  by (metis position_bus_bit)

lemma isBetween_bus_bit: "isBetween (bus_bit msb lsb i) msb lsb \<longleftrightarrow> int i < getWidth msb lsb"
  by (auto simp: isBetween_def bus_bit_def getWidth_def)

lemma present_bits_iff:
  "b \<in> set (present_bits msb lsb bits) \<longleftrightarrow> (\<exists>i < length bits. bits ! i \<and> b = bus_bit msb lsb i)"
  by (auto simp: present_bits_def)

lemma has_bit_present: "has_bit msb lsb bits b \<Longrightarrow> b \<in> set (present_bits msb lsb bits)"
  by (auto simp: has_bit_def present_bits_iff bus_bit_position intro!: exI [of _ "bit_position msb b"])

lemma has_bit_iff:
  assumes "length bits = nat (getWidth msb lsb)"
  shows "has_bit msb lsb bits b \<longleftrightarrow> b \<in> set (present_bits msb lsb bits)"
proof
  assume "b \<in> set (present_bits msb lsb bits)"
  then obtain i where i: "i < length bits" "bits ! i" "b = bus_bit msb lsb i"
    by (auto simp: present_bits_iff)
  then have "isBetween b msb lsb" using assms by (simp add: isBetween_bus_bit)
  with i show "has_bit msb lsb bits b" by (simp add: has_bit_def position_bus_bit)
qed (rule has_bit_present)

section \<open>Calls of setNet\<close>

text \<open>A valid \<open>SNLNet*\<close>: a bit net, or a whole net of an existing design.\<close>

definition net_ptr :: "snl \<Rightarrow> NLID \<Rightarrow> bool" where
  "net_ptr u n \<longleftrightarrow> live_net u n \<or>
     (\<exists>d D i net. n = net_id d i \<and> s_designs u d = Some D \<and> getNet D i = Some net)"

lemma resolve_bit_net_spec:
  assumes "net_ptr u n" "resolve_bit_net u n = Inr (Some m)"
  shows "live_net u m \<and> id_ref m = id_ref n"
proof (cases "live_net u n")
  case True
  then show ?thesis using assms(2) resolve_bit_net_live by simp
next
  case False
  then obtain d D i net where n: "n = net_id d i" "s_designs u d = Some D" "getNet D i = Some net"
    using assms(1) by (auto simp: net_ptr_def)
  then obtain msb lsb bits where k: "n_kind net = BusNet msb lsb bits"
    using False by (cases "n_kind net") (auto simp: live_net_def net_bits_def)
  then have m: "m = net_bit_id d i msb" "has_bit msb lsb bits msb"
    using assms(2) n by (auto simp: resolve_bit_net_def the_design_def split: if_splits)
  then have "live_net u m"
    using n k has_bit_present [OF m(2)] by (simp add: live_net_def net_bits_def)
  then show ?thesis using m n by simp
qed

lemma setNet_returns:
  assumes "linked u" "nets_ok u" "\<And>n. net = Some n \<Longrightarrow> net_ptr u n" "setNet c net u = Inr v"
  shows "\<exists>bn. s_net v = (s_net u)(c := bn) \<and> same_objs u v \<and> linked v \<and> nets_ok v"
proof (cases net)
  case None
  then show ?thesis using disconnect_spec [OF assms(1,2), of c] assms(4) by auto
next
  case (Some n)
  then obtain bn where bn: "resolve_bit_net u n = Inr bn" "connect c bn u = Inr v" "id_ref n = id_ref c"
    using assms(4) by (auto simp: setNet_def rbind_eq_Inr_iff split: if_splits)
  have "live_net u m \<and> id_ref m = id_ref c" if "bn = Some m" for m
    using resolve_bit_net_spec [of u n] bn assms(3) [OF Some] that by auto
  then show ?thesis using connect_spec [OF assms(1,2), of bn c] bn(2) by auto
qed

text \<open>\<open>setNet\<close> on an existing component keeps the connection invariant.\<close>

lemma setNet_conn_inv:
  assumes "conn_inv u" "live_component u c" "\<And>n. net = Some n \<Longrightarrow> net_ptr u n" "setNet c net u = Inr v"
  shows "conn_inv v \<and> same_objs u v"
proof -
  obtain bn where v: "s_net v = (s_net u)(c := bn)" "same_objs u v" "linked v" "nets_ok v"
    using setNet_returns [OF _ _ assms(3,4)] assms(1) by (auto simp: conn_inv_def)
  have "comps_ok v"
    using assms(1,2) v(1,2) live_same(4) [of v u]
    by (auto simp: conn_inv_def comps_ok_def same_objs_def)
  with v show ?thesis by (simp add: conn_inv_def)
qed

lemma setNets_None:
  assumes "linked u" "nets_ok u"
  shows "\<exists>v. setNets cs None u = Inr v \<and> s_net v = (\<lambda>c. if c \<in> set cs then None else s_net u c) \<and>
    same_objs u v \<and> linked v \<and> nets_ok v"
  using assms
proof (induction cs arbitrary: u)
  case Nil
  then show ?case by (simp add: setNets_def)
next
  case (Cons c cs)
  obtain w where w: "setNet c None u = Inr w" "s_net w = (s_net u)(c := None)" "same_objs u w"
    "linked w" "nets_ok w"
    using disconnect_spec [OF Cons.prems] by blast
  obtain v where v: "setNets cs None w = Inr v" "s_net v = (\<lambda>c. if c \<in> set cs then None else s_net w c)"
    "same_objs w v" "linked v" "nets_ok v"
    using Cons.IH [OF w(4,5)] by blast
  have "s_net v = (\<lambda>x. if x \<in> set (c # cs) then None else s_net u x)"
    using v(2) w(2) by (auto simp: fun_eq_iff)
  with v w same_objs_trans show ?case by (auto simp: setNets_def)
qed

lemma bitnet_preDestroy_spec:
  assumes "linked u" "nets_ok u"
  shows "\<exists>v. bitnet_preDestroy n u = Inr v \<and>
    s_net v = (\<lambda>c. if s_net u c = Some n then None else s_net u c) \<and> same_objs u v \<and> linked v \<and> nets_ok v"
proof -
  have "c \<in> set (getComponents u n) \<longleftrightarrow> s_net u c = Some n" for c
    using assms(1) by (simp add: linked_def)
  then show ?thesis
    using setNets_None [OF assms, of "getComponents u n"] by (simp add: bitnet_preDestroy_def)
qed

lemma bitnets_preDestroy_spec:
  assumes "linked u" "nets_ok u"
  shows "\<exists>v. rfold bitnet_preDestroy ns u = Inr v \<and>
    s_net v = (\<lambda>c. if s_net u c \<in> Some ` set ns then None else s_net u c) \<and> same_objs u v \<and>
    linked v \<and> nets_ok v"
  using assms
proof (induction ns arbitrary: u)
  case (Cons n ns)
  obtain w where w: "bitnet_preDestroy n u = Inr w"
    "s_net w = (\<lambda>c. if s_net u c = Some n then None else s_net u c)" "same_objs u w" "linked w" "nets_ok w"
    using bitnet_preDestroy_spec [OF Cons.prems] by blast
  obtain v where v: "rfold bitnet_preDestroy ns w = Inr v"
    "s_net v = (\<lambda>c. if s_net w c \<in> Some ` set ns then None else s_net w c)"
    "same_objs w v" "linked v" "nets_ok v"
    using Cons.IH [OF w(4,5)] by blast
  have "s_net v = (\<lambda>c. if s_net u c \<in> Some ` set (n # ns) then None else s_net u c)"
    using v(2) w(2) by (auto simp: fun_eq_iff)
  with v w same_objs_trans show ?case by auto
qed simp

end
