(* ===== verification/NetlistInv.thy ===== *)
theory NetlistInv
  imports NetlistConn
begin

text \<open>
  The store invariant of a netlist: the sets of every design are ordered by identifier, and the
  connections are consistent.  Creation and destruction of nets, terminals and instances keep it.
\<close>

section \<open>Well-formed designs\<close>

definition design_wf :: "SNLDesign \<Rightarrow> bool" where
  "design_wf D \<longleftrightarrow> smap_inv (<) (\<lambda>_. True) (d_terms D) \<and> smap_inv (<) (\<lambda>_. True) (d_nets D) \<and>
     smap_inv (<) (\<lambda>_. True) (d_instances D) \<and> smap_inv nlid_lt (\<lambda>_. True) (d_slaves D)"

definition store_wf :: "snl \<Rightarrow> bool" where
  "store_wf u \<longleftrightarrow> (\<forall>d D. s_designs u d = Some D \<longrightarrow> design_wf D)"

definition netlist_inv :: "snl \<Rightarrow> bool" where
  "netlist_inv u \<longleftrightarrow> store_wf u \<and> conn_inv u"

named_theorems design_simps "what an update of a design changes"

lemma upd_design_sel [simp]:
  "s_net (upd_design d f u) = s_net u" "s_components (upd_design d f u) = s_components u"
  "s_bitTerm (upd_design d f u) = s_bitTerm u" "s_type (upd_design d f u) = s_type u"
  "s_designs (upd_design d f u) x = (if x = d then map_option f (s_designs u d) else s_designs u x)"
  by (simp_all add: upd_design_def)

lemma getComponents_upd [simp]: "getComponents (upd_design d f u) n = getComponents u n"
  by (simp add: getComponents_def)

lemma store_wf_upd:
  "store_wf u \<Longrightarrow> (\<And>D. s_designs u d = Some D \<Longrightarrow> design_wf (f D)) \<Longrightarrow> store_wf (upd_design d f u)"
  by (auto simp: store_wf_def split: if_splits)

lemma the_design_eq [simp]: "the_design u d = Inr D \<longleftrightarrow> s_designs u d = Some D"
  by (simp add: the_design_def split: option.splits)

lemma the_design_Some [simp]: "s_designs u d = Some D \<Longrightarrow> the_design u d = Inr D"
  by simp

lemma the_net_eq: "the_net u d i = Inr net \<longleftrightarrow> (\<exists>D. s_designs u d = Some D \<and> getNet D i = Some net)"
  by (auto simp: the_net_def rbind_eq_Inr_iff split: option.splits)

lemma the_term_eq: "the_term u d i = Inr t \<longleftrightarrow> (\<exists>D. s_designs u d = Some D \<and> getTerm D i = Some t)"
  by (auto simp: the_term_def rbind_eq_Inr_iff split: option.splits)

lemma the_instance_eq:
  "the_instance u d i = Inr inst \<longleftrightarrow> (\<exists>D. s_designs u d = Some D \<and> getInstance D i = Some inst)"
  by (auto simp: the_instance_def rbind_eq_Inr_iff split: option.splits)

lemma the_object_Some:
  "s_designs u d = Some D \<Longrightarrow> getNet D i = Some net \<Longrightarrow> the_net u d i = Inr net"
  "s_designs u d = Some D \<Longrightarrow> getTerm D i = Some t \<Longrightarrow> the_term u d i = Inr t"
  "s_designs u d = Some D \<Longrightarrow> getInstance D i = Some inst \<Longrightarrow> the_instance u d i = Inr inst"
  by (simp_all add: the_net_eq the_term_eq the_instance_eq)

subsection \<open>Lookups after an update\<close>

lemma getNet_addNet [design_simps]:
  "design_wf D \<Longrightarrow> getNet (addNet i net D) j = (if j = i \<and> getNet D i = None then Some net else getNet D j)"
  by (auto simp: getNet_def addNet_def design_wf_def idk.find_insert)

lemma getNet_removeNet [design_simps]:
  "design_wf D \<Longrightarrow> getNet (removeNet i net D) j = (if j = i then None else getNet D j)"
  by (auto simp: getNet_def removeNet_def design_wf_def idk.find_erase)

lemma getNet_set_net [design_simps]:
  "design_wf D \<Longrightarrow> getNet (set_net i net D) j = (if j = i then Some net else getNet D j)"
  by (auto simp: getNet_def set_net_def design_wf_def idk.find_put)

lemma getTerm_insertTerm [design_simps]:
  "design_wf D \<Longrightarrow> getTerm (insertTerm i t D) j = (if j = i \<and> getTerm D i = None then Some t else getTerm D j)"
  by (auto simp: getTerm_def insertTerm_def design_wf_def idk.find_insert)

lemma getTerm_eraseTerm [design_simps]:
  "design_wf D \<Longrightarrow> getTerm (eraseTerm i t D) j = (if j = i then None else getTerm D j)"
  by (auto simp: getTerm_def eraseTerm_def design_wf_def idk.find_erase)

lemma getTerm_set_term [design_simps]:
  "design_wf D \<Longrightarrow> getTerm (set_term i t D) j = (if j = i then Some t else getTerm D j)"
  by (auto simp: getTerm_def set_term_def design_wf_def idk.find_put)

lemma getInstance_addInstance [design_simps]:
  "design_wf D \<Longrightarrow> getInstance (addInstance i inst D) j =
     (if j = i \<and> getInstance D i = None then Some inst else getInstance D j)"
  by (auto simp: getInstance_def addInstance_def design_wf_def idk.find_insert)

lemma getInstance_removeInstance [design_simps]:
  "design_wf D \<Longrightarrow> getInstance (removeInstance i inst D) j = (if j = i then None else getInstance D j)"
  by (auto simp: getInstance_def removeInstance_def design_wf_def idk.find_erase)

lemma getInstance_set_instance [design_simps]:
  "design_wf D \<Longrightarrow> getInstance (set_instance i inst D) j = (if j = i then Some inst else getInstance D j)"
  by (auto simp: getInstance_def set_instance_def design_wf_def idk.find_put)

lemma lookups_unchanged [design_simps]:
  "getTerm (addNet i net D) = getTerm D" "getInstance (addNet i net D) = getInstance D"
  "getTerm (removeNet i net D) = getTerm D" "getInstance (removeNet i net D) = getInstance D"
  "getTerm (set_net i net D) = getTerm D" "getInstance (set_net i net D) = getInstance D"
  "getNet (insertTerm i t D) = getNet D" "getInstance (insertTerm i t D) = getInstance D"
  "getNet (eraseTerm i t D) = getNet D" "getInstance (eraseTerm i t D) = getInstance D"
  "getNet (set_term i t D) = getNet D" "getInstance (set_term i t D) = getInstance D"
  "getNet (addInstance i inst D) = getNet D" "getTerm (addInstance i inst D) = getTerm D"
  "getNet (removeInstance i inst D) = getNet D" "getTerm (removeInstance i inst D) = getTerm D"
  "getNet (set_instance i inst D) = getNet D" "getTerm (set_instance i inst D) = getTerm D"
  "getNet (addSlaveInstance s D) = getNet D" "getTerm (addSlaveInstance s D) = getTerm D"
  "getInstance (addSlaveInstance s D) = getInstance D"
  "getNet (removeSlaveInstance s D) = getNet D" "getTerm (removeSlaveInstance s D) = getTerm D"
  "getInstance (removeSlaveInstance s D) = getInstance D"
  by (simp_all add: fun_eq_iff getNet_def getTerm_def getInstance_def addNet_def removeNet_def set_net_def
      insertTerm_def eraseTerm_def set_term_def addInstance_def removeInstance_def set_instance_def
      addSlaveInstance_def removeSlaveInstance_def)

lemma design_wf_upd [simp]:
  "design_wf D \<Longrightarrow> design_wf (addNet i net D)" "design_wf D \<Longrightarrow> design_wf (removeNet i net D)"
  "design_wf D \<Longrightarrow> design_wf (set_net i net D)" "design_wf D \<Longrightarrow> design_wf (insertTerm i t D)"
  "design_wf D \<Longrightarrow> design_wf (eraseTerm i t D)" "design_wf D \<Longrightarrow> design_wf (set_term i t D)"
  "design_wf D \<Longrightarrow> design_wf (addInstance i inst D)" "design_wf D \<Longrightarrow> design_wf (removeInstance i inst D)"
  "design_wf D \<Longrightarrow> design_wf (set_instance i inst D)" "design_wf D \<Longrightarrow> design_wf (addSlaveInstance s D)"
  "design_wf D \<Longrightarrow> design_wf (removeSlaveInstance s D)"
  by (simp_all add: design_wf_def addNet_def removeNet_def set_net_def insertTerm_def eraseTerm_def
      set_term_def addInstance_def removeInstance_def set_instance_def addSlaveInstance_def
      removeSlaveInstance_def idk.insert_inv idk.erase_inv idk.put_inv nlk.insert_inv nlk.erase_inv)

section \<open>Liveness after an update\<close>

lemma live_net_upd:
  "live_net (upd_design d f u) n \<longleftrightarrow>
     (if id_ref n = d then (\<exists>D net. s_designs u d = Some D \<and> getNet (f D) (id_object n) = Some net \<and>
        n \<in> set (net_bits d (id_object n) net)) else live_net u n)"
  by (auto simp: live_net_def split: option.splits)

lemma live_term_upd:
  "live_term (upd_design d f u) c \<longleftrightarrow>
     (if id_ref c = d then (\<exists>D t. s_designs u d = Some D \<and> getTerm (f D) (id_object c) = Some t \<and>
        c \<in> set (term_bits d (id_object c) t)) else live_term u c)"
  by (auto simp: live_term_def split: option.splits)

lemma live_instTerm_upd:
  "live_instTerm (upd_design d f u) c \<longleftrightarrow>
     (if id_ref c = d then id_type c = T_InstTerm \<and> (\<exists>D inst. s_designs u d = Some D \<and>
        getInstance (f D) (id_instance c) = Some inst \<and> Some c \<in> set (i_instTerms inst))
      else live_instTerm u c)"
  by (auto simp: live_instTerm_def split: option.splits)

lemma live_net_def':
  "live_net u n \<longleftrightarrow> (\<exists>D net. s_designs u (id_ref n) = Some D \<and> getNet D (id_object n) = Some net \<and>
     n \<in> set (net_bits (id_ref n) (id_object n) net))"
  by (auto simp: live_net_def split: option.splits)

lemma live_term_def':
  "live_term u c \<longleftrightarrow> (\<exists>D t. s_designs u (id_ref c) = Some D \<and> getTerm D (id_object c) = Some t \<and>
     c \<in> set (term_bits (id_ref c) (id_object c) t))"
  by (auto simp: live_term_def split: option.splits)

lemma live_instTerm_def':
  "live_instTerm u c \<longleftrightarrow> id_type c = T_InstTerm \<and> (\<exists>D inst. s_designs u (id_ref c) = Some D \<and>
     getInstance D (id_instance c) = Some inst \<and> Some c \<in> set (i_instTerms inst))"
  by (auto simp: live_instTerm_def split: option.splits)

text \<open>
  How an invariant survives: the links did not change, and what is connected still exists.
\<close>

lemma conn_inv_update:
  assumes "linked u" "nets_ok u" "s_net v = s_net u" "s_components v = s_components u"
    and "\<And>c n. s_net u c = Some n \<Longrightarrow> live_net v n \<and> live_component v c"
  shows "conn_inv v"
  using assms unfolding conn_inv_def linked_def nets_ok_def comps_ok_def getComponents_def by auto

section \<open>Nets\<close>

lemma net_bits_object: "n \<in> set (net_bits d i net) \<Longrightarrow> id_ref n = d \<and> id_object n = i"
  by (auto simp: net_bits_def split: net_kind.splits)

lemma net_bits_type:
  "n \<in> set (net_bits d i net) \<Longrightarrow> id_type n = T_Net \<Longrightarrow> n_kind net = ScalarNet"
  by (auto simp: net_bits_def split: net_kind.splits)

lemma new_bit_nets_sel [simp]:
  "s_net (new_bit_nets ns u) = s_net u" "s_designs (new_bit_nets ns u) = s_designs u"
  by (simp_all add: new_bit_nets_def)

lemma dead_net_empty: "linked u \<Longrightarrow> nets_ok u \<Longrightarrow> \<not> live_net u n \<Longrightarrow> s_components u n = []"
proof -
  assume u: "linked u" "nets_ok u" "\<not> live_net u n"
  then have "\<And>c. c \<notin> set (getComponents u n)"
    unfolding linked_def nets_ok_def by metis
  then show ?thesis by (cases "s_components u n") (auto simp: getComponents_def)
qed

lemma net_create_inv:
  assumes inv: "netlist_inv u" and D: "s_designs u d = Some D"
    and c: "net_create what (Some d) i net u = Inr (j, v)"
    and fresh: "i = None \<Longrightarrow> getNet D (next_id (d_nets D)) = None"
  shows "netlist_inv v \<and> j = (case i of Some k \<Rightarrow> k | None \<Rightarrow> next_id (d_nets D)) \<and>
    s_designs v = (s_designs u)(d \<mapsto> addNet j net D) \<and> s_net v = s_net u \<and>
    getNet (addNet j net D) j = Some net"
proof -
  have wf: "design_wf D" "store_wf u" and ci: "linked u" "nets_ok u" "comps_ok u"
    using inv D by (auto simp: netlist_inv_def store_wf_def conn_inv_def)
  have j: "j = (case i of Some k \<Rightarrow> k | None \<Rightarrow> next_id (d_nets D))"
    and v: "v = new_bit_nets (net_bits d j net) (upd_design d (addNet j net) u)"
    and pre: "net_preCreate D i (n_name net) = Inr ()"
    using c D by (auto simp: net_create_def need_design_def rbind_eq_Inr_iff Let_def)
  have none: "getNet D j = None"
    using j pre fresh by (cases i) (auto simp: net_preCreate_def split: if_splits)
  have dead: "\<not> live_net u n" if "n \<in> set (net_bits d j net)" for n
    using net_bits_object [OF that] none D by (auto simp: live_net_def')
  have comps: "s_components v = s_components u"
    using dead_net_empty [OF ci(1,2)] dead by (auto simp: v new_bit_nets_def fun_eq_iff)
  have "conn_inv v"
  proof (rule conn_inv_update [OF ci(1,2)])
    show "s_net v = s_net u" by (simp add: v)
    show "s_components v = s_components u" by (fact comps)
    fix c n assume "s_net u c = Some n"
    then have live: "live_net u n" "live_component u c" using ci by (auto simp: nets_ok_def comps_ok_def)
    have des: "s_designs v = s_designs (upd_design d (addNet j net) u)" by (simp add: v)
    show "live_net v n \<and> live_component v c"
      unfolding live_component_def live_same [OF des]
      unfolding live_net_upd live_term_upd live_instTerm_upd
      using live D wf(1)
      by (auto simp: design_simps live_net_def' live_term_def' live_instTerm_def' live_component_def)
  qed
  moreover have "store_wf v"
    using store_wf_upd [of u d "addNet j net"] wf D by (simp add: v store_wf_def)
  moreover have "s_designs v = (s_designs u)(d \<mapsto> addNet j net D)"
    using D by (auto simp: v fun_eq_iff)
  ultimately show ?thesis
    using j none wf(1) by (simp add: netlist_inv_def v getNet_addNet)
qed

lemma net_destroy_inv:
  assumes inv: "netlist_inv u" and D: "s_designs u d = Some D" "getNet D i = Some net"
  shows "\<exists>v. net_destroy d i u = Inr v \<and> netlist_inv v \<and>
    s_designs v = (s_designs u)(d \<mapsto> removeNet i net D) \<and>
    s_net v = (\<lambda>c. if s_net u c \<in> Some ` set (net_bits d i net) then None else s_net u c)"
proof -
  have wf: "design_wf D" "store_wf u" and ci: "linked u" "nets_ok u" "comps_ok u"
    using inv D by (auto simp: netlist_inv_def store_wf_def conn_inv_def)
  obtain w where w: "rfold bitnet_preDestroy (net_bits d i net) u = Inr w"
    "s_net w = (\<lambda>c. if s_net u c \<in> Some ` set (net_bits d i net) then None else s_net u c)"
    "same_objs u w" "linked w" "nets_ok w"
    using bitnets_preDestroy_spec [OF ci(1,2)] by blast
  let ?v = "upd_design d (removeNet i net) w"
  have des: "s_designs w = s_designs u" using w(3) by (simp add: same_objs_def)
  have op: "net_destroy d i u = Inr ?v"
    using the_object_Some(1) [OF D] w(1) by (simp add: net_destroy_def)
  have "conn_inv ?v"
  proof (rule conn_inv_update [OF w(4,5)])
    fix c n assume c: "s_net w c = Some n"
    then have cu: "s_net u c = Some n" "n \<notin> set (net_bits d i net)"
      using w(2) by (auto split: if_splits)
    then have live: "live_net u n" "live_component u c" using ci by (auto simp: nets_ok_def comps_ok_def)
    show "live_net ?v n \<and> live_component ?v c"
      unfolding live_component_def live_net_upd live_term_upd live_instTerm_upd live_same [OF des]
      using live D wf(1) cu(2) des
      by (auto simp: design_simps live_net_def' live_term_def' live_instTerm_def' live_component_def)
  qed simp_all
  moreover have "store_wf ?v"
    using wf D des by (intro store_wf_upd) (auto simp: store_wf_def)
  ultimately show ?thesis
    using op D w(2) des by (auto simp: netlist_inv_def fun_eq_iff)
qed

section \<open>Steps that only add\<close>

text \<open>
  \<open>extends u v\<close>: the connections are the same and everything that existed still does.  Creation of
  terminals and instances is made of such steps.
\<close>

definition extends :: "snl \<Rightarrow> snl \<Rightarrow> bool" where
  "extends u v \<longleftrightarrow> s_net v = s_net u \<and> s_components v = s_components u \<and>
     (\<forall>n. live_net u n \<longrightarrow> live_net v n) \<and> (\<forall>c. live_component u c \<longrightarrow> live_component v c) \<and>
     (store_wf u \<longrightarrow> store_wf v) \<and>
     (\<forall>d i inst. the_instance u d i = Inr inst \<longrightarrow>
        (\<exists>inst'. the_instance v d i = Inr inst' \<and> i_model inst' = i_model inst \<and> i_name inst' = i_name inst))"

lemma extends_refl [simp]: "extends u u"
  by (simp add: extends_def)

lemma extends_trans: "extends u v \<Longrightarrow> extends v w \<Longrightarrow> extends u w"
  unfolding extends_def by metis

lemma netlist_inv_extends: "netlist_inv u \<Longrightarrow> extends u v \<Longrightarrow> netlist_inv v"
  unfolding netlist_inv_def extends_def conn_inv_def linked_def nets_ok_def comps_ok_def getComponents_def
  by auto

lemma createInstTerm_extends:
  assumes "store_wf u" "the_instance u d i = Inr inst" "s_net u (inst_term_id d i bt) = None"
  shows "\<exists>v. createInstTerm d i bt u = Inr v \<and> extends u v"
proof -
  obtain D where D: "s_designs u d = Some D" "getInstance D i = Some inst" "design_wf D"
    using assms(1,2) by (auto simp: store_wf_def the_instance_eq)
  let ?f = "set_instance i (inst\<lparr>i_instTerms := i_instTerms inst @ [Some (inst_term_id d i bt)]\<rparr>)"
  let ?u = "upd_design d ?f u"
  define v where "v = ?u\<lparr>s_net := (s_net u)(inst_term_id d i bt := None),
    s_bitTerm := (s_bitTerm u)(inst_term_id d i bt := bt)\<rparr>"
  have op: "createInstTerm d i bt u = Inr v"
    unfolding createInstTerm_def the_object_Some(3) [OF D(1,2)] by (simp add: v_def Let_def)
  have des: "s_designs v = s_designs ?u" by (simp add: v_def)
  have net: "s_net v = s_net u" "s_components v = s_components u"
    using assms(3) by (auto simp: v_def fun_eq_iff)
  have "live_net u n \<Longrightarrow> live_net v n" for n
    using D unfolding live_same(1) [OF des] live_net_upd by (auto simp: live_net_def' design_simps)
  moreover have "live_component u c \<Longrightarrow> live_component v c" for c
    using D unfolding live_component_def live_same [OF des] live_term_upd live_instTerm_upd
    by (auto simp: live_term_def' live_instTerm_def' design_simps)
  moreover have "store_wf v" if "store_wf u"
    using store_wf_upd [OF that, of d ?f] D des by (simp add: store_wf_def)
  moreover have "\<exists>y. the_instance v e j = Inr y \<and> i_model y = i_model x \<and> i_name y = i_name x"
    if "the_instance u e j = Inr x" for e j x
    using that D des by (auto simp: getInstance_set_instance the_instance_eq)
  ultimately show ?thesis using op net unfolding extends_def by blast
qed

lemma createInstTerms_extends:
  assumes "store_wf u" "the_instance u (id_ref s) (id_instance s) = Inr inst"
    and "\<And>bt. bt \<in> set bts \<Longrightarrow> s_net u (inst_term_id (id_ref s) (id_instance s) bt) = None"
  shows "\<exists>v. createInstTerms s bts u = Inr v \<and> extends u v"
proof -
  let ?P = "extends u"
  have "\<exists>v. rfold (createInstTerm (id_ref s) (id_instance s)) bts u = Inr v \<and> ?P v"
  proof (rule rfold_total)
    fix bt w assume bt: "bt \<in> set bts" and w: "extends u w"
    obtain inst' where "the_instance w (id_ref s) (id_instance s) = Inr inst'"
      using w assms(2) unfolding extends_def by blast
    moreover have "store_wf w" "s_net w (inst_term_id (id_ref s) (id_instance s) bt) = None"
      using w assms(1,3) bt by (auto simp: extends_def)
    ultimately obtain v where "createInstTerm (id_ref s) (id_instance s) bt w = Inr v" "extends w v"
      using createInstTerm_extends by blast
    then show "\<exists>v. createInstTerm (id_ref s) (id_instance s) bt w = Inr v \<and> extends u v"
      using extends_trans [OF w] by blast
  qed simp
  then show ?thesis by (simp add: createInstTerms_def)
qed

section \<open>Terminals\<close>

lemma term_bits_object:
  "c \<in> set (term_bits d i t) \<Longrightarrow> id_ref c = d \<and> id_object c = i \<and> id_type c \<noteq> T_InstTerm"
  by (auto simp: term_bits_def split: term_kind.splits)

lemma inst_term_id_sel [simp]:
  "id_type (inst_term_id d i bt) = T_InstTerm" "id_ref (inst_term_id d i bt) = d"
  "id_instance (inst_term_id d i bt) = i" "id_object (inst_term_id d i bt) = id_object bt"
  "id_bit (inst_term_id d i bt) = id_bit bt"
  by (simp_all add: inst_term_id_def)

lemma dead_component: "comps_ok u \<Longrightarrow> \<not> live_component u c \<Longrightarrow> s_net u c = None"
  unfolding comps_ok_def by (metis not_None_eq)

text \<open>The slave instances of a design exist.\<close>

definition slaves_live :: "snl \<Rightarrow> SNLDesign \<Rightarrow> bool" where
  "slaves_live u D \<longleftrightarrow>
     (\<forall>s\<in>set (getSlaves D). \<exists>inst. the_instance u (id_ref s) (id_instance s) = Inr inst)"

lemma addTerm_extends:
  assumes inv: "netlist_inv u" and D: "s_designs u d = Some D" and fresh: "getTerm D i = None"
    and slaves: "slaves_live u D"
    and its: "\<And>s bt. s \<in> set (getSlaves D) \<Longrightarrow> bt \<in> set (term_bits d i t) \<Longrightarrow>
      s_net u (inst_term_id (id_ref s) (id_instance s) bt) = None"
  shows "\<exists>v. addTerm d i t u = Inr v \<and> extends u v"
proof -
  have wf: "store_wf u" "design_wf D" and co: "comps_ok u"
    using inv D by (auto simp: netlist_inv_def store_wf_def conn_inv_def)
  define t' where "t' = t\<lparr>t_flatID := next_flatID D\<rparr>"
  have bits: "term_bits d i t' = term_bits d i t" by (simp add: t'_def term_bits_def)
  define w where "w = new_bit_terms (term_bits d i t) (upd_design d (insertTerm i t') u)"
  have des: "s_designs w = s_designs (upd_design d (insertTerm i t') u)" by (simp add: w_def new_bit_terms_def)
  have "s_net u c = None" if "c \<in> set (term_bits d i t)" for c
    using term_bits_object [OF that] D fresh
    by (intro dead_component [OF co]) (auto simp: live_component_def live_term_def' live_instTerm_def)
  then have net: "s_net w = s_net u" by (auto simp: w_def new_bit_terms_def)
  have "extends u w"
    unfolding extends_def live_component_def live_same [OF des] live_net_upd live_term_upd live_instTerm_upd
  proof (intro conjI allI impI)
    show "store_wf w"
      using store_wf_upd [OF wf(1), of d "insertTerm i t'"] D wf(2) des by (simp add: store_wf_def)
  qed (use D wf(2) fresh net des in \<open>auto simp: design_simps live_net_def' live_term_def' live_instTerm_def'
      the_instance_eq w_def new_bit_terms_def\<close>)
  have "\<exists>v. rfold (\<lambda>s. createInstTerms s (term_bits d i t)) (getSlaves D) w = Inr v \<and> extends u v"
  proof (rule rfold_total [of _ "extends u"])
    fix s x assume s: "s \<in> set (getSlaves D)" and x: "extends u x"
    obtain inst where "the_instance u (id_ref s) (id_instance s) = Inr inst"
      using slaves s by (auto simp: slaves_live_def)
    then obtain inst' where "the_instance x (id_ref s) (id_instance s) = Inr inst'"
      using x unfolding extends_def by blast
    moreover have "store_wf x" "s_net x = s_net u" using x wf by (auto simp: extends_def)
    ultimately obtain v where "createInstTerms s (term_bits d i t) x = Inr v" "extends x v"
      using createInstTerms_extends [of x s inst' "term_bits d i t"] its [OF s] by auto
    then show "\<exists>v. createInstTerms s (term_bits d i t) x = Inr v \<and> extends u v"
      using extends_trans [OF x] by blast
  qed fact
  then show ?thesis
    using D by (simp add: addTerm_def Let_def w_def bits flip: t'_def)
qed

lemma term_create_inv:
  assumes inv: "netlist_inv u" and D: "s_designs u d = Some D"
    and c: "term_preCreate D i (t_name t) = Inr ()"
    and j: "j = (case i of Some k \<Rightarrow> k | None \<Rightarrow> next_id (d_terms D))" "getTerm D j = None"
    and slaves: "slaves_live u D"
    and its: "\<And>s bt. s \<in> set (getSlaves D) \<Longrightarrow> bt \<in> set (term_bits d j t) \<Longrightarrow>
      \<not> live_instTerm u (inst_term_id (id_ref s) (id_instance s) bt)"
  shows "\<exists>v. term_create what (Some d) i t u = Inr (j, v) \<and> netlist_inv v \<and> extends u v"
proof -
  have "s_net u (inst_term_id (id_ref s) (id_instance s) bt) = None"
    if "s \<in> set (getSlaves D)" "bt \<in> set (term_bits d j t)" for s bt
  proof (rule dead_component)
    show "comps_ok u" using inv by (simp add: netlist_inv_def conn_inv_def)
    show "\<not> live_component u (inst_term_id (id_ref s) (id_instance s) bt)"
      using its [OF that] by (auto simp: live_component_def live_term_def' dest: term_bits_object)
  qed
  then obtain v where "addTerm d j t u = Inr v" "extends u v"
    using addTerm_extends [OF inv D j(2) slaves] by blast
  then show ?thesis
    using D c j(1) netlist_inv_extends [OF inv]
    by (cases i) (auto simp: term_create_def need_design_def Let_def)
qed

subsection \<open>Instances\<close>

lemma SNLInstance_create_inv:
  assumes inv: "netlist_inv u" and D: "s_designs u d = Some D" and M: "s_designs u m = Some M"
    and pre: "instance_preCreate D i name = Inr ()"
    and j: "j = (case i of Some k \<Rightarrow> k | None \<Rightarrow> next_id (d_instances D))" "getInstance D j = None"
  shows "\<exists>v. SNLInstance_create (Some d) (Some m) i name u = Inr (j, v) \<and> netlist_inv v \<and> extends u v"
proof -
  have wf: "store_wf u" "design_wf D" and co: "comps_ok u"
    using inv D by (auto simp: netlist_inv_def store_wf_def conn_inv_def)
  define inst where "inst = \<lparr>i_model = m, i_name = name, i_instTerms = []\<rparr>"
  define w where "w = upd_design d (addInstance j inst) u"
  have w1: "extends u w"
    unfolding extends_def live_component_def w_def live_net_upd live_term_upd live_instTerm_upd
  proof (intro conjI allI impI)
    show "store_wf (upd_design d (addInstance j inst) u)"
      using store_wf_upd [OF wf(1), of d "addInstance j inst"] D wf(2) by simp
  qed (use D wf(2) j(2) in \<open>auto simp: design_simps live_net_def' live_term_def' live_instTerm_def' the_instance_eq\<close>)
  obtain M' where M': "s_designs w m = Some M'" using M by (cases "m = d") (auto simp: w_def)
  have wfM: "design_wf M'" using w1 wf(1) M' by (auto simp: extends_def store_wf_def)
  define x where "x = (if isPrimitive M' then w else upd_design m (addSlaveInstance (instance_id d j)) w)"
  have "extends w (upd_design m (addSlaveInstance (instance_id d j)) w)"
    unfolding extends_def live_component_def live_net_upd live_term_upd live_instTerm_upd
  proof (intro conjI allI impI)
    assume "store_wf w"
    then show "store_wf (upd_design m (addSlaveInstance (instance_id d j)) w)"
      using wfM M' by (intro store_wf_upd) auto
  qed (use M' in \<open>auto simp: design_simps live_net_def' live_term_def' live_instTerm_def' the_instance_eq\<close>)
  then have x: "extends u x" using w1 extends_trans by (auto simp: x_def)
  have "the_instance w d j = Inr inst"
    using D wf(2) j(2) by (simp add: the_instance_eq w_def getInstance_addInstance)
  then obtain inst' where i': "the_instance x d j = Inr inst'"
    using \<open>extends w (upd_design m _ w)\<close> unfolding x_def extends_def by (metis (full_types))
  have none: "s_net x (inst_term_id d j bt) = None" for bt
  proof -
    have "\<not> live_component u (inst_term_id d j bt)"
      using D j(2) by (auto simp: live_component_def live_term_def' live_instTerm_def' dest: term_bits_object)
    then show ?thesis using dead_component [OF co] x by (simp add: extends_def)
  qed
  have "\<exists>v. createInstTerms (instance_id d j) (getBitTerms m M') x = Inr v \<and> extends x v"
    using createInstTerms_extends [of x "instance_id d j" inst' "getBitTerms m M'"] i' none x wf(1)
    by (simp add: extends_def)
  then obtain v where v: "createInstTerms (instance_id d j) (getBitTerms m M') x = Inr v" "extends u v"
    using extends_trans [OF x] by blast
  have "instance_commonPostCreate d j m w = Inr v"
    using M' v(1) by (simp add: instance_commonPostCreate_def x_def)
  then have "SNLInstance_create (Some d) (Some m) i name u = Inr (j, v)"
    using D pre j(1) by (cases i) (auto simp: SNLInstance_create_def need_design_def Let_def w_def inst_def)
  with v netlist_inv_extends [OF inv] show ?thesis by blast
qed

end
