(* ===== verification/NetlistDestroy.thy ===== *)
theory NetlistDestroy
  imports NetlistInv
begin

text \<open>
  Destruction of instances and terminals: everything that is deleted is disconnected first or last,
  so no net keeps a component that is gone and no component keeps a net that is gone.
\<close>

lemma map_filter_id: "set (List.map_filter id xs) = {x. Some x \<in> set xs}"
  by (induction xs) (auto simp: List.map_filter_def split: option.splits)

lemma nets_ok_designs:
  assumes "nets_ok u" "s_net v = s_net u" "\<And>n. live_net u n \<Longrightarrow> live_net v n"
  shows "nets_ok v"
  using assms by (simp add: nets_ok_def)

lemma linked_same: "s_net v = s_net u \<Longrightarrow> s_components v = s_components u \<Longrightarrow> linked v \<longleftrightarrow> linked u"
  by (simp add: linked_def getComponents_def)

section \<open>Instances\<close>

lemma live_upd_slave:
  "live_net (upd_design m (removeSlaveInstance s) u) n \<longleftrightarrow> live_net u n"
  "live_component (upd_design m (removeSlaveInstance s) u) c \<longleftrightarrow> live_component u c"
  unfolding live_component_def live_net_upd live_term_upd live_instTerm_upd
  by (auto simp: design_simps live_net_def' live_term_def' live_instTerm_def')

lemma instance_destroy_inv:
  assumes inv: "netlist_inv u" and I: "the_instance u d i = Inr inst"
    and M: "s_designs u (i_model inst) = Some M"
  shows "\<exists>v. instance_destroy d i u = Inr v \<and> netlist_inv v \<and>
    s_net v = (\<lambda>c. if Some c \<in> set (i_instTerms inst) then None else s_net u c) \<and>
    (\<forall>x. the_instance v d i \<noteq> Inr x)"
proof -
  obtain D where D: "s_designs u d = Some D" "getInstance D i = Some inst"
    using I by (auto simp: the_instance_eq)
  have ci: "linked u" "nets_ok u" "comps_ok u" "store_wf u"
    using inv by (auto simp: netlist_inv_def conn_inv_def)
  define w where "w = (if isPrimitive M then u
    else upd_design (i_model inst) (removeSlaveInstance (instance_id d i)) u)"
  have wl: "live_net w n \<longleftrightarrow> live_net u n" "live_component w c \<longleftrightarrow> live_component u c" for n c
    by (simp_all add: w_def live_upd_slave)
  have w: "s_net w = s_net u" "s_components w = s_components u" by (simp_all add: w_def)
  have wwf: "store_wf w"
    using ci(4) store_wf_upd [OF ci(4), of "i_model inst"] M by (auto simp: w_def store_wf_def)
  obtain W where W: "s_designs w d = Some W" "getInstance W i = Some inst"
    using D by (cases "isPrimitive M"; cases "d = i_model inst") (auto simp: w_def design_simps)
  have wfW: "design_wf W" using wwf W by (auto simp: store_wf_def)
  let ?x = "upd_design d (removeInstance i inst) w"
  have "live_net ?x n" if "live_net w n" for n
    using that W by (auto simp: live_net_upd design_simps live_net_def')
  then have xl: "linked ?x" "nets_ok ?x"
    using ci(1) linked_same [of ?x u] nets_ok_designs [OF ci(2), of ?x] w wl(1) by simp_all
  obtain v where v: "setNets (List.map_filter id (i_instTerms inst)) None ?x = Inr v"
    "s_net v = (\<lambda>c. if Some c \<in> set (i_instTerms inst) then None else s_net u c)"
    "same_objs ?x v" "linked v" "nets_ok v"
    using setNets_None [OF xl, of "List.map_filter id (i_instTerms inst)"] w(1)
    unfolding map_filter_id mem_Collect_eq upd_design_sel(1) by metis
  have des: "s_designs v = s_designs ?x" using v(3) by (simp add: same_objs_def)
  have op: "instance_destroy d i u = Inr v"
    using I M v(1) by (simp add: instance_destroy_def remove_slave_def instance_commonPreDestroy_def w_def)
  have "comps_ok v"
    unfolding comps_ok_def
  proof (intro allI impI)
    fix c n assume "s_net v c = Some n"
    then have c: "s_net u c = Some n" "Some c \<notin> set (i_instTerms inst)" using v(2) by (auto split: if_splits)
    then have "live_component w c" using ci(3) wl(2) by (auto simp: comps_ok_def)
    then show "live_component v c"
      unfolding live_component_def live_same [OF des] live_term_upd live_instTerm_upd
      using W wfW c(2) by (auto simp: design_simps live_term_def' live_instTerm_def')
  qed
  moreover have "store_wf v"
    using store_wf_upd [OF wwf, of d "removeInstance i inst"] W wfW des by (simp add: store_wf_def)
  moreover have "the_instance v d i \<noteq> Inr x" for x
    using W wfW des by (simp add: the_instance_eq getInstance_removeInstance)
  ultimately show ?thesis
    using op v unfolding netlist_inv_def conn_inv_def by blast
qed

section \<open>Instance terminals of a removed terminal\<close>

text \<open>What the removal loops over slave instances leave unchanged.\<close>

definition frame :: "snl \<Rightarrow> snl \<Rightarrow> bool" where
  "frame u v \<longleftrightarrow>
     (\<forall>d. map_option (\<lambda>D. (d_terms D, d_termNameID D, d_nets D, d_slaves D, d_type D)) (s_designs v d) =
          map_option (\<lambda>D. (d_terms D, d_termNameID D, d_nets D, d_slaves D, d_type D)) (s_designs u d)) \<and>
     (\<forall>d i inst. the_instance u d i = Inr inst \<longrightarrow> (\<exists>inst'. the_instance v d i = Inr inst' \<and>
        i_model inst' = i_model inst \<and> length (i_instTerms inst') = length (i_instTerms inst)))"

lemma frame_refl [simp]: "frame u u"
  by (simp add: frame_def)

lemma frame_trans:
  assumes "frame u v" "frame v w"
  shows "frame u w"
  unfolding frame_def
proof (intro conjI allI impI)
  fix d i inst assume "the_instance u d i = Inr inst"
  then obtain inst1 where 1: "the_instance v d i = Inr inst1" "i_model inst1 = i_model inst"
    "length (i_instTerms inst1) = length (i_instTerms inst)"
    using assms(1) unfolding frame_def by blast
  then obtain inst2 where "the_instance w d i = Inr inst2" "i_model inst2 = i_model inst1"
    "length (i_instTerms inst2) = length (i_instTerms inst1)"
    using assms(2) unfolding frame_def by blast
  with 1 show "\<exists>inst'. the_instance w d i = Inr inst' \<and> i_model inst' = i_model inst \<and>
      length (i_instTerms inst') = length (i_instTerms inst)" by simp
qed (use assms in \<open>simp add: frame_def\<close>)

lemma frame_design:
  "frame u v \<Longrightarrow> s_designs u d = Some D \<Longrightarrow>
   \<exists>E. s_designs v d = Some E \<and> d_terms E = d_terms D \<and> d_nets E = d_nets D \<and> d_slaves E = d_slaves D"
proof -
  assume f: "frame u v" and D: "s_designs u d = Some D"
  from f have "map_option (\<lambda>D. (d_terms D, d_termNameID D, d_nets D, d_slaves D, d_type D)) (s_designs v d) =
      map_option (\<lambda>D. (d_terms D, d_termNameID D, d_nets D, d_slaves D, d_type D)) (s_designs u d)"
    unfolding frame_def by blast
  with D show ?thesis by (cases "s_designs v d") auto
qed

lemma flatID_terms: "d_terms E = d_terms D \<Longrightarrow> flatID E bt = flatID D bt"
  by (simp add: flatID_def getTerm_def)

lemma removeInstTerm_inv:
  assumes inv: "netlist_inv u" and I: "the_instance u d i = Inr inst"
    and M: "s_designs u (i_model inst) = Some M" "flatID M bt = Inr k" "k < length (i_instTerms inst)"
  shows "\<exists>v. removeInstTerm d i bt u = Inr v \<and> netlist_inv v \<and> frame u v \<and>
    (\<forall>c. s_net u c = None \<longrightarrow> s_net v c = None)"
proof -
  obtain D where D: "s_designs u d = Some D" "getInstance D i = Some inst"
    using I by (auto simp: the_instance_eq)
  have ci: "linked u" "nets_ok u" "comps_ok u" "store_wf u" "design_wf D"
    using inv D by (auto simp: netlist_inv_def conn_inv_def store_wf_def)
  define it where "it = i_instTerms inst ! k"
  obtain w where w: "(case it of None \<Rightarrow> Inr u | Some it \<Rightarrow> setNet it None u) = Inr w"
    "s_net w = (\<lambda>c. if it = Some c then None else s_net u c)" "same_objs u w" "linked w" "nets_ok w"
  proof (cases it)
    case None
    then show ?thesis using that [of u] ci by simp
  next
    case (Some c)
    then show ?thesis using that disconnect_spec [OF ci(1,2), of c] by (auto simp: fun_eq_iff)
  qed
  have des: "s_designs w = s_designs u" using w(3) by (simp add: same_objs_def)
  define inst' where "inst' = inst\<lparr>i_instTerms := (i_instTerms inst)[k := None]\<rparr>"
  let ?v = "upd_design d (set_instance i inst') w"
  have op: "removeInstTerm d i bt u = Inr ?v"
    using I M w(1) by (simp add: removeInstTerm_def getInstTermByFlatID_def inst'_def flip: it_def)
  have "conn_inv ?v"
  proof (rule conn_inv_update [OF w(4,5)])
    fix c n assume "s_net w c = Some n"
    then have c: "s_net u c = Some n" "it \<noteq> Some c" using w(2) by (auto split: if_splits)
    then have live: "live_net u n" "live_component u c" using ci by (auto simp: nets_ok_def comps_ok_def)
    have keep: "Some c \<in> set (i_instTerms inst')" if mem: "Some c \<in> set (i_instTerms inst)"
    proof -
      obtain j where j: "j < length (i_instTerms inst)" "i_instTerms inst ! j = Some c"
        using mem by (auto simp: in_set_conv_nth)
      then have "j \<noteq> k" using c(2) by (auto simp: it_def)
      with j have "(i_instTerms inst)[k := None] ! j = Some c" by simp
      with j(1) show ?thesis unfolding inst'_def by (simp add: in_set_conv_nth) (metis)
    qed
    show "live_net ?v n \<and> live_component ?v c"
      unfolding live_component_def live_net_upd live_term_upd live_instTerm_upd live_same [OF des]
      using live D ci(5) des keep
      by (auto simp: design_simps live_net_def' live_term_def' live_instTerm_def' live_component_def)
  qed simp_all
  moreover have "store_wf ?v"
    using ci(4,5) D des by (intro store_wf_upd) (auto simp: store_wf_def)
  moreover have "frame u ?v"
    using D ci(5) des unfolding frame_def
    by (auto simp: the_instance_eq getInstance_set_instance inst'_def) (auto simp: set_instance_def)
  ultimately show ?thesis
    using op w(2) by (auto simp: netlist_inv_def)
qed

lemma removeInstTerms_inv:
  assumes inv: "netlist_inv u" and I: "the_instance u (id_ref s) (id_instance s) = Inr inst"
    and M: "s_designs u (i_model inst) = Some M"
    and flat: "\<And>bt. bt \<in> set bts \<Longrightarrow> \<exists>k. flatID M bt = Inr k \<and> k < length (i_instTerms inst)"
  shows "\<exists>v. removeInstTerms s bts u = Inr v \<and> netlist_inv v \<and> frame u v \<and>
    (\<forall>c. s_net u c = None \<longrightarrow> s_net v c = None)"
proof -
  let ?P = "\<lambda>v. netlist_inv v \<and> frame u v \<and> (\<forall>c. s_net u c = None \<longrightarrow> s_net v c = None)"
  have "\<exists>v. rfold (removeInstTerm (id_ref s) (id_instance s)) bts u = Inr v \<and> ?P v"
  proof (rule rfold_total)
    fix bt w assume bt: "bt \<in> set bts" and w: "?P w"
    obtain inst' where I': "the_instance w (id_ref s) (id_instance s) = Inr inst'"
      "i_model inst' = i_model inst" "length (i_instTerms inst') = length (i_instTerms inst)"
      using w I unfolding frame_def by blast
    obtain M' where M': "s_designs w (i_model inst) = Some M'" "d_terms M' = d_terms M"
      using w frame_design [of u w] M by blast
    obtain k where k: "flatID M bt = Inr k" "k < length (i_instTerms inst)" using flat [OF bt] by blast
    obtain v where v: "removeInstTerm (id_ref s) (id_instance s) bt w = Inr v" "netlist_inv v" "frame w v"
      "\<forall>c. s_net w c = None \<longrightarrow> s_net v c = None"
      using removeInstTerm_inv [of w "id_ref s" "id_instance s" inst' M' bt k] w I' M' k
        flatID_terms [OF M'(2)] by auto
    with w frame_trans show "\<exists>v. removeInstTerm (id_ref s) (id_instance s) bt w = Inr v \<and> ?P v"
      by blast
  qed (use inv in simp)
  then show ?thesis by (simp add: removeInstTerms_def)
qed

section \<open>Terminals\<close>

text \<open>The instance terminals of the bits are within the vectors of the slave instances.\<close>

definition slots_ok :: "snl \<Rightarrow> did \<Rightarrow> SNLDesign \<Rightarrow> NLID list \<Rightarrow> bool" where
  "slots_ok u d D bts \<longleftrightarrow> (\<forall>s\<in>set (getSlaves D). \<exists>inst.
     the_instance u (id_ref s) (id_instance s) = Inr inst \<and> i_model inst = d \<and>
     (\<forall>bt\<in>set bts. \<exists>k. flatID D bt = Inr k \<and> k < length (i_instTerms inst)))"

lemma remove_slots_inv:
  assumes inv: "netlist_inv u" and D: "s_designs u d = Some D" and ok: "slots_ok u d D bts"
  shows "\<exists>v. rfold (\<lambda>s. removeInstTerms s bts) (getSlaves D) u = Inr v \<and> netlist_inv v \<and> frame u v \<and>
    (\<forall>c. s_net u c = None \<longrightarrow> s_net v c = None)"
proof (rule rfold_total)
  fix s w
  assume s: "s \<in> set (getSlaves D)"
    and w: "netlist_inv w \<and> frame u w \<and> (\<forall>c. s_net u c = None \<longrightarrow> s_net w c = None)"
  obtain inst where inst: "the_instance u (id_ref s) (id_instance s) = Inr inst" "i_model inst = d"
    "\<forall>bt\<in>set bts. \<exists>k. flatID D bt = Inr k \<and> k < length (i_instTerms inst)"
    using ok s by (auto simp: slots_ok_def)
  then obtain inst' where I': "the_instance w (id_ref s) (id_instance s) = Inr inst'"
    "i_model inst' = d" "length (i_instTerms inst') = length (i_instTerms inst)"
    using w unfolding frame_def by metis
  obtain D' where D': "s_designs w d = Some D'" "d_terms D' = d_terms D"
    using w frame_design [of u w] D by blast
  obtain v where "removeInstTerms s bts w = Inr v" "netlist_inv v" "frame w v"
    "\<forall>c. s_net w c = None \<longrightarrow> s_net v c = None"
    using removeInstTerms_inv [of w s inst' D' bts] w I' D' inst(3) flatID_terms [OF D'(2)] by auto
  then show "\<exists>v. removeInstTerms s bts w = Inr v \<and> netlist_inv v \<and> frame u v \<and>
      (\<forall>c. s_net u c = None \<longrightarrow> s_net v c = None)"
    using w frame_trans by blast
qed (use inv in simp)

text \<open>Erasing a terminal whose bits are not connected, and disconnecting bits afterwards.\<close>

lemma eraseTerm_state:
  assumes inv: "netlist_inv u" and D: "s_designs u d = Some D" "getTerm D i = Some t"
  defines "w \<equiv> upd_design d (eraseTerm i t) u"
  shows "linked w \<and> nets_ok w \<and> store_wf w \<and>
    (\<forall>c n. s_net u c = Some n \<longrightarrow> c \<notin> set (term_bits d i t) \<longrightarrow> live_component w c)"
proof -
  have ci: "linked u" "nets_ok u" "comps_ok u" "store_wf u" "design_wf D"
    using inv D by (auto simp: netlist_inv_def conn_inv_def store_wf_def)
  have "linked w" using ci(1) linked_same [of w u] by (simp add: w_def)
  moreover have "nets_ok w"
    by (rule nets_ok_designs [OF ci(2)]) (use D in \<open>auto simp: w_def live_net_upd design_simps live_net_def'\<close>)
  moreover have "store_wf w"
    unfolding w_def using ci(4,5) D by (intro store_wf_upd) auto
  moreover have "live_component w c" if "s_net u c = Some n" "c \<notin> set (term_bits d i t)" for c n
  proof -
    have "live_component u c" using ci(3) that by (auto simp: comps_ok_def)
    then show ?thesis
      unfolding live_component_def w_def live_term_upd live_instTerm_upd
      using D ci(5) that(2) by (auto simp: design_simps live_term_def' live_instTerm_def')
  qed
  ultimately show ?thesis by blast
qed

lemma removeTerm_state:
  assumes inv: "netlist_inv u" and D: "s_designs u d = Some D" "getTerm D i = Some t"
    and ok: "slots_ok u d D (term_bits d i t)"
  shows "\<exists>w. removeTerm d i u = Inr w \<and> linked w \<and> nets_ok w \<and> store_wf w \<and>
    (\<forall>c. s_net u c = None \<longrightarrow> s_net w c = None) \<and>
    (\<forall>c n. s_net w c = Some n \<longrightarrow> c \<notin> set (term_bits d i t) \<longrightarrow> live_component w c) \<and>
    (\<forall>E. s_designs w d = Some E \<longrightarrow> getTerm E i = None)"
proof -
  obtain v where v: "rfold (\<lambda>s. removeInstTerms s (term_bits d i t)) (getSlaves D) u = Inr v"
    "netlist_inv v" "frame u v" "\<forall>c. s_net u c = None \<longrightarrow> s_net v c = None"
    using remove_slots_inv [OF inv D(1) ok] by blast
  obtain E where E: "s_designs v d = Some E" "d_terms E = d_terms D"
    using frame_design [OF v(3) D(1)] by blast
  have Ei: "getTerm E i = Some t" "design_wf E"
    using E D(2) v(2) by (auto simp: getTerm_def netlist_inv_def store_wf_def)
  have "removeTerm d i u = Inr (upd_design d (eraseTerm i t) v)"
    using D(1) the_object_Some(2) [OF D] v(1) by (simp add: removeTerm_def)
  moreover have "getTerm F i = None" if "s_designs (upd_design d (eraseTerm i t) v) d = Some F" for F
    using that E(1) Ei(2) by (auto simp: getTerm_eraseTerm)
  ultimately show ?thesis
    using eraseTerm_state [OF v(2) E(1) Ei(1)] v(4) by auto
qed

lemma term_destroy_inv:
  assumes inv: "netlist_inv u" and D: "s_designs u d = Some D" "getTerm D i = Some t"
    and ok: "slots_ok u d D (term_bits d i t)"
  shows "\<exists>v. term_destroy d i u = Inr v \<and> netlist_inv v \<and>
    (\<forall>E. s_designs v d = Some E \<longrightarrow> getTerm E i = None) \<and> (\<forall>c. s_net u c = None \<longrightarrow> s_net v c = None)"
proof (cases "t_kind t")
  case ScalarTerm
  obtain w where w: "setNets (term_bits d i t) None u = Inr w"
    "s_net w = (\<lambda>c. if c \<in> set (term_bits d i t) then None else s_net u c)" "same_objs u w" "linked w" "nets_ok w"
    using setNets_None [of u "term_bits d i t"] inv by (auto simp: netlist_inv_def conn_inv_def)
  have des: "s_designs w = s_designs u" using w(3) by (simp add: same_objs_def)
  have winv: "netlist_inv w"
    using inv w live_same(4) [OF des]
    by (auto simp: netlist_inv_def conn_inv_def comps_ok_def store_wf_def des)
  have "slots_ok w d D (term_bits d i t)"
    using ok by (simp add: slots_ok_def the_instance_eq des)
  then obtain v where v: "removeTerm d i w = Inr v" "linked v" "nets_ok v" "store_wf v"
    "\<forall>c. s_net w c = None \<longrightarrow> s_net v c = None"
    "\<forall>c n. s_net v c = Some n \<longrightarrow> c \<notin> set (term_bits d i t) \<longrightarrow> live_component v c"
    "\<forall>E. s_designs v d = Some E \<longrightarrow> getTerm E i = None"
    using removeTerm_state [OF winv, of d D i t] D des by auto
  have none: "s_net v c = None" if "c \<in> set (term_bits d i t)" for c using v(5) w(2) that by simp
  then have "comps_ok v"
    using v(6) unfolding comps_ok_def by (metis option.distinct(1))
  moreover have "term_destroy d i u = Inr v"
    using ScalarTerm the_object_Some(2) [OF D] w(1) v(1) by (simp add: term_destroy_def)
  moreover have "\<forall>c. s_net u c = None \<longrightarrow> s_net v c = None" using v(5) w(2) by simp
  ultimately show ?thesis using v(2-4,7) by (auto simp: netlist_inv_def conn_inv_def)
next
  case (BusTerm msb lsb bits)
  obtain w where w: "removeTerm d i u = Inr w" "linked w" "nets_ok w" "store_wf w"
    "\<forall>c. s_net u c = None \<longrightarrow> s_net w c = None"
    "\<forall>c n. s_net w c = Some n \<longrightarrow> c \<notin> set (term_bits d i t) \<longrightarrow> live_component w c"
    "\<forall>E. s_designs w d = Some E \<longrightarrow> getTerm E i = None"
    using removeTerm_state [OF inv D ok] by blast
  obtain v where v: "setNets (term_bits d i t) None w = Inr v"
    "s_net v = (\<lambda>c. if c \<in> set (term_bits d i t) then None else s_net w c)" "same_objs w v" "linked v" "nets_ok v"
    using setNets_None [OF w(2,3)] by blast
  have des: "s_designs v = s_designs w" using v(3) by (simp add: same_objs_def)
  have "comps_ok v"
    using w(6) v(2) live_same(4) [OF des] by (auto simp: comps_ok_def split: if_splits)
  moreover have "term_destroy d i u = Inr v"
    using BusTerm the_object_Some(2) [OF D] w(1) v(1) by (simp add: term_destroy_def)
  moreover have "store_wf v" using w(4) by (simp add: store_wf_def des)
  ultimately show ?thesis using v w(5,7) des by (auto simp: netlist_inv_def conn_inv_def)
qed

end
