(* ===== verification/NetlistNames.thy ===== *)
theory NetlistNames
  imports NetlistDestroy
begin

text \<open>
  The name indexes of a design (\<open>netNameIDMap_\<close>, \<open>termNameIDMap_\<close>, \<open>instanceNameIDMap_\<close>).  The three kinds of
  members share one contract, the locale \<open>member_index\<close>; its lemmas show that insertion, removal and
  renaming keep an index exact: a name leads to the one member that has it.
\<close>

section \<open>The contract\<close>

definition index_ok ::
  "(SNLDesign \<Rightarrow> nat \<Rightarrow> 'o option) \<Rightarrow> (SNLDesign \<Rightarrow> string \<Rightarrow> nat option) \<Rightarrow> ('o \<Rightarrow> string) \<Rightarrow> SNLDesign \<Rightarrow> bool" where
  "index_ok get names name_of D \<longleftrightarrow>
     (\<forall>s i. names D s = Some i \<longleftrightarrow> s \<noteq> '''' \<and> (\<exists>x. get D i = Some x \<and> name_of x = s))"

locale member_index =
  fixes get :: "SNLDesign \<Rightarrow> nat \<Rightarrow> 'o option"
    and names :: "SNLDesign \<Rightarrow> string \<Rightarrow> nat option"
    and name_of :: "'o \<Rightarrow> string"
    and insert_member remove_member replace_member :: "nat \<Rightarrow> 'o \<Rightarrow> SNLDesign \<Rightarrow> SNLDesign"
  assumes get_insert: "design_wf D \<Longrightarrow>
      get (insert_member i x D) j = (if j = i \<and> get D i = None then Some x else get D j)"
    and names_insert: "names (insert_member i x D) = add_name (name_of x) i (names D)"
    and get_remove: "design_wf D \<Longrightarrow> get (remove_member i x D) j = (if j = i then None else get D j)"
    and names_remove: "names (remove_member i x D) = erase_name (name_of x) (names D)"
    and get_replace: "design_wf D \<Longrightarrow> get (replace_member i x D) j = (if j = i then Some x else get D j)"
    and names_replace: "names (replace_member i x D) = names D"
begin

abbreviation ok :: "SNLDesign \<Rightarrow> bool" where
  "ok \<equiv> index_ok get names name_of"

lemma ok_iff: "ok D \<Longrightarrow> names D s = Some i \<longleftrightarrow> s \<noteq> '''' \<and> (\<exists>x. get D i = Some x \<and> name_of x = s)"
  unfolding index_ok_def by blast

lemma unused_name:
  assumes "ok D" "names D s = None" "s \<noteq> ''''" "get D i = Some x"
  shows "name_of x \<noteq> s"
  using assms ok_iff [OF assms(1), of s i] by auto

lemma unique_name:
  assumes "ok D" "get D i = Some x" "get D j = Some y" "name_of x = name_of y" "name_of x \<noteq> ''''"
  shows "i = j"
proof -
  have "names D (name_of x) = Some i" "names D (name_of x) = Some j"
    using assms ok_iff [OF assms(1), of "name_of x"] by auto
  then show ?thesis by simp
qed

lemma lookup_iff:
  assumes "ok D" "s \<noteq> ''''"
  shows "(case names D s of None \<Rightarrow> None | Some i \<Rightarrow> map_option (Pair i) (get D i)) = Some (j, x) \<longleftrightarrow>
    get D j = Some x \<and> name_of x = s"
proof (cases "names D s")
  case None
  then show ?thesis using unused_name [OF assms(1) None assms(2)] by auto
next
  case (Some i)
  then obtain y where "get D i = Some y" "name_of y = s" using ok_iff [OF assms(1)] by blast
  then show ?thesis
    using Some assms(2) unique_name [OF assms(1), of i y j x] by (cases "j = i") auto
qed

lemma lookup_none: "ok D \<Longrightarrow>
  (case names D s of None \<Rightarrow> None | Some i \<Rightarrow> map_option (Pair i) (get D i)) = None \<Longrightarrow> names D s = None"
  using ok_iff [of D s "the (names D s)"] by (cases "names D s") auto

lemma insert_ok:
  assumes "design_wf D" "ok D" "get D i = None" "name_of x = '''' \<or> names D (name_of x) = None"
  shows "ok (insert_member i x D)"
  unfolding index_ok_def
proof (intro allI)
  fix s j
  show "names (insert_member i x D) s = Some j \<longleftrightarrow>
      s \<noteq> '''' \<and> (\<exists>y. get (insert_member i x D) j = Some y \<and> name_of y = s)"
    using assms ok_iff [OF assms(2), of s j]
    by (cases "j = i") (auto simp: names_insert get_insert add_name_def)
qed

lemma remove_ok:
  assumes "design_wf D" "ok D" "get D i = Some x"
  shows "ok (remove_member i x D)"
  unfolding index_ok_def
proof (intro allI)
  fix s j
  show "names (remove_member i x D) s = Some j \<longleftrightarrow>
      s \<noteq> '''' \<and> (\<exists>y. get (remove_member i x D) j = Some y \<and> name_of y = s)"
    using assms ok_iff [OF assms(2), of s j] unique_name [OF assms(2,3), of j]
    by (cases "j = i") (auto simp: names_remove get_remove erase_name_def)
qed

lemma replace_ok:
  assumes "design_wf D" "ok D" "get D i = Some x" "name_of y = name_of x"
  shows "ok (replace_member i y D)"
  using assms(2) unfolding index_ok_def names_replace get_replace [OF assms(1)]
  using assms(3,4) by auto

lemma rename_ok:
  assumes wf: "design_wf D" and ok: "ok D" and x: "get D i = Some x" "name_of y \<noteq> name_of x"
    and free: "name_of y = '''' \<or> names D (name_of y) = None"
  shows "\<exists>m. rename (name_of x) (name_of y) i (names D) = Inr m \<and>
    (\<forall>s j. m s = Some j \<longleftrightarrow> s \<noteq> '''' \<and> (\<exists>z. get (replace_member i y D) j = Some z \<and> name_of z = s))"
proof -
  have old: "names D (name_of x) = Some i" if "name_of x \<noteq> ''''"
    using ok_iff [OF ok, of "name_of x" i] x(1) that by auto
  define m where "m = (let m = (if name_of x = '''' then names D else (names D)(name_of x := None))
    in if name_of y = '''' then m else m(name_of y \<mapsto> i))"
  have "rename (name_of x) (name_of y) i (names D) = Inr m"
    using old free x(2) by (auto simp: rename_def m_def Let_def)
  moreover have "m s = Some j \<longleftrightarrow> s \<noteq> '''' \<and> (\<exists>z. get (replace_member i y D) j = Some z \<and> name_of z = s)" for s j
    using ok_iff [OF ok, of s j] unique_name [OF ok x(1), of j] x free
    by (cases "j = i") (auto simp: m_def Let_def get_replace [OF wf])
  ultimately show ?thesis by blast
qed

end

section \<open>The three indexes\<close>

interpretation neti: member_index getNet d_netNameID n_name addNet removeNet set_net
  by unfold_locales (simp_all add: design_simps, simp_all add: addNet_def removeNet_def set_net_def)

interpretation termi: member_index getTerm d_termNameID t_name insertTerm eraseTerm set_term
  by unfold_locales (simp_all add: design_simps, simp_all add: insertTerm_def eraseTerm_def set_term_def)

interpretation insti: member_index getInstance d_instanceNameID i_name addInstance removeInstance set_instance
  by unfold_locales (simp_all add: design_simps, simp_all add: addInstance_def removeInstance_def set_instance_def)

definition design_names :: "SNLDesign \<Rightarrow> bool" where
  "design_names D \<longleftrightarrow> design_wf D \<and> index_ok getNet d_netNameID n_name D \<and>
     index_ok getTerm d_termNameID t_name D \<and> index_ok getInstance d_instanceNameID i_name D"

definition names_inv :: "snl \<Rightarrow> bool" where
  "names_inv u \<longleftrightarrow> (\<forall>d D. s_designs u d = Some D \<longrightarrow> design_names D)"

text \<open>An index depends on its own members only.\<close>

lemma index_frame:
  "getNet E = getNet D \<Longrightarrow> d_netNameID E = d_netNameID D \<Longrightarrow>
     index_ok getNet d_netNameID n_name E \<longleftrightarrow> index_ok getNet d_netNameID n_name D"
  "getTerm E = getTerm D \<Longrightarrow> d_termNameID E = d_termNameID D \<Longrightarrow>
     index_ok getTerm d_termNameID t_name E \<longleftrightarrow> index_ok getTerm d_termNameID t_name D"
  "getInstance E = getInstance D \<Longrightarrow> d_instanceNameID E = d_instanceNameID D \<Longrightarrow>
     index_ok getInstance d_instanceNameID i_name E \<longleftrightarrow> index_ok getInstance d_instanceNameID i_name D"
  by (simp_all add: index_ok_def)

lemma names_unchanged [simp]:
  "d_termNameID (addNet i net D) = d_termNameID D" "d_instanceNameID (addNet i net D) = d_instanceNameID D"
  "d_termNameID (removeNet i net D) = d_termNameID D" "d_instanceNameID (removeNet i net D) = d_instanceNameID D"
  "d_termNameID (set_net i net D) = d_termNameID D" "d_instanceNameID (set_net i net D) = d_instanceNameID D"
  "d_netNameID (insertTerm i t D) = d_netNameID D" "d_instanceNameID (insertTerm i t D) = d_instanceNameID D"
  "d_netNameID (eraseTerm i t D) = d_netNameID D" "d_instanceNameID (eraseTerm i t D) = d_instanceNameID D"
  "d_netNameID (set_term i t D) = d_netNameID D" "d_instanceNameID (set_term i t D) = d_instanceNameID D"
  "d_netNameID (addInstance i inst D) = d_netNameID D" "d_termNameID (addInstance i inst D) = d_termNameID D"
  "d_netNameID (removeInstance i inst D) = d_netNameID D" "d_termNameID (removeInstance i inst D) = d_termNameID D"
  "d_netNameID (set_instance i inst D) = d_netNameID D" "d_termNameID (set_instance i inst D) = d_termNameID D"
  "d_netNameID (addSlaveInstance s D) = d_netNameID D" "d_termNameID (addSlaveInstance s D) = d_termNameID D"
  "d_instanceNameID (addSlaveInstance s D) = d_instanceNameID D"
  "d_netNameID (removeSlaveInstance s D) = d_netNameID D" "d_termNameID (removeSlaveInstance s D) = d_termNameID D"
  "d_instanceNameID (removeSlaveInstance s D) = d_instanceNameID D"
  by (simp_all add: addNet_def removeNet_def set_net_def insertTerm_def eraseTerm_def set_term_def
      addInstance_def removeInstance_def set_instance_def addSlaveInstance_def removeSlaveInstance_def)

lemma design_names_net:
  assumes "design_names D" "design_wf E" "index_ok getNet d_netNameID n_name E"
    "getTerm E = getTerm D" "d_termNameID E = d_termNameID D"
    "getInstance E = getInstance D" "d_instanceNameID E = d_instanceNameID D"
  shows "design_names E"
  using assms by (simp add: design_names_def index_frame(2) [OF assms(4,5)] index_frame(3) [OF assms(6,7)])

lemma design_names_term:
  assumes "design_names D" "design_wf E" "index_ok getTerm d_termNameID t_name E"
    "getNet E = getNet D" "d_netNameID E = d_netNameID D"
    "getInstance E = getInstance D" "d_instanceNameID E = d_instanceNameID D"
  shows "design_names E"
  using assms by (simp add: design_names_def index_frame(1) [OF assms(4,5)] index_frame(3) [OF assms(6,7)])

lemma design_names_instance:
  assumes "design_names D" "design_wf E" "index_ok getInstance d_instanceNameID i_name E"
    "getNet E = getNet D" "d_netNameID E = d_netNameID D"
    "getTerm E = getTerm D" "d_termNameID E = d_termNameID D"
  shows "design_names E"
  using assms by (simp add: design_names_def index_frame(1) [OF assms(4,5)] index_frame(2) [OF assms(6,7)])

lemma design_names_sel:
  "design_names D \<Longrightarrow> design_wf D" "design_names D \<Longrightarrow> index_ok getNet d_netNameID n_name D"
  "design_names D \<Longrightarrow> index_ok getTerm d_termNameID t_name D"
  "design_names D \<Longrightarrow> index_ok getInstance d_instanceNameID i_name D"
  by (simp_all add: design_names_def)

lemma design_names_nets:
  assumes D: "design_names D"
  shows "getNet D i = None \<Longrightarrow> n_name net = '''' \<or> d_netNameID D (n_name net) = None \<Longrightarrow>
      design_names (addNet i net D)"
    and "getNet D i = Some net \<Longrightarrow> design_names (removeNet i net D)"
    and "getNet D i = Some net \<Longrightarrow> n_name net' = n_name net \<Longrightarrow> design_names (set_net i net' D)"
  using neti.insert_ok [of D i net] neti.remove_ok [of D i net] neti.replace_ok [of D i net net']
    design_names_sel [OF D]
  by (auto intro!: design_names_net [OF D] simp: lookups_unchanged)

lemma design_names_terms:
  assumes D: "design_names D"
  shows "getTerm D i = None \<Longrightarrow> t_name t = '''' \<or> d_termNameID D (t_name t) = None \<Longrightarrow>
      design_names (insertTerm i t D)"
    and "getTerm D i = Some t \<Longrightarrow> design_names (eraseTerm i t D)"
    and "getTerm D i = Some t \<Longrightarrow> t_name t' = t_name t \<Longrightarrow> design_names (set_term i t' D)"
  using termi.insert_ok [of D i t] termi.remove_ok [of D i t] termi.replace_ok [of D i t t']
    design_names_sel [OF D]
  by (auto intro!: design_names_term [OF D] simp: lookups_unchanged)

lemma design_names_instances:
  assumes D: "design_names D"
  shows "getInstance D i = None \<Longrightarrow> i_name x = '''' \<or> d_instanceNameID D (i_name x) = None \<Longrightarrow>
      design_names (addInstance i x D)"
    and "getInstance D i = Some x \<Longrightarrow> design_names (removeInstance i x D)"
    and "getInstance D i = Some x \<Longrightarrow> i_name x' = i_name x \<Longrightarrow> design_names (set_instance i x' D)"
  using insti.insert_ok [of D i x] insti.remove_ok [of D i x] insti.replace_ok [of D i x x']
    design_names_sel [OF D]
  by (auto intro!: design_names_instance [OF D] simp: lookups_unchanged)

lemma design_names_slaves:
  assumes D: "design_names D"
  shows "design_names (addSlaveInstance s D)" and "design_names (removeSlaveInstance s D)"
  using D by (simp_all add: design_names_def index_ok_def lookups_unchanged)

section \<open>The operations keep the indexes\<close>

lemma names_inv_upd:
  "names_inv u \<Longrightarrow> (\<And>D. s_designs u d = Some D \<Longrightarrow> design_names (f D)) \<Longrightarrow> names_inv (upd_design d f u)"
  by (auto simp: names_inv_def split: if_splits)

lemma names_inv_same: "s_designs v = s_designs u \<Longrightarrow> names_inv v \<longleftrightarrow> names_inv u"
  by (simp add: names_inv_def)

lemma names_invD: "names_inv u \<Longrightarrow> s_designs u d = Some D \<Longrightarrow> design_names D"
  by (simp add: names_inv_def)

text \<open>The name check of the creators leaves only unused names.\<close>

lemma net_preCreate_free:
  assumes "design_names D" "net_preCreate D i name = Inr ()"
  shows "name = '''' \<or> d_netNameID D name = None"
  using assms neti.lookup_none [OF design_names_sel(2) [OF assms(1)], of name]
  by (auto simp: net_preCreate_def getNet_name_def split: if_splits)

lemma term_preCreate_free:
  assumes "design_names D" "term_preCreate D i name = Inr ()"
  shows "name = '''' \<or> d_termNameID D name = None"
  using assms termi.lookup_none [OF design_names_sel(3) [OF assms(1)], of name]
  by (auto simp: term_preCreate_def getTerm_name_def split: if_splits)

lemma instance_preCreate_free:
  assumes "design_names D" "instance_preCreate D i name = Inr ()"
  shows "name = '''' \<or> d_instanceNameID D name = None"
  using assms insti.lookup_none [OF design_names_sel(4) [OF assms(1)], of name]
  by (auto simp: instance_preCreate_def getInstance_name_def split: if_splits)

lemma net_create_names:
  assumes inv: "netlist_inv u" "names_inv u" and D: "s_designs u d = Some D"
    and c: "net_create what (Some d) i net u = Inr (j, v)"
    and fresh: "i = None \<Longrightarrow> getNet D (next_id (d_nets D)) = None"
  shows "names_inv v"
proof -
  have v: "s_designs v = (s_designs u)(d \<mapsto> addNet j net D)" "getNet D j = None"
    and pre: "net_preCreate D i (n_name net) = Inr ()"
    using net_create_inv [OF inv(1) D c fresh] c D fresh
    by (auto simp: net_create_def need_design_def rbind_eq_Inr_iff Let_def net_preCreate_def
        split: if_splits option.splits)
  have "design_names (addNet j net D)"
    using design_names_nets(1) [OF names_invD [OF inv(2) D] v(2)]
      net_preCreate_free [OF names_invD [OF inv(2) D] pre] by blast
  then show ?thesis using inv(2) by (auto simp: names_inv_def v(1) split: if_splits)
qed

lemma net_destroy_names:
  assumes "netlist_inv u" "names_inv u" "s_designs u d = Some D" "getNet D i = Some net"
    and "net_destroy d i u = Inr v"
  shows "names_inv v"
  using net_destroy_inv [OF assms(1,3,4)] assms(2,5) design_names_nets(2) [OF names_invD [OF assms(2,3)] assms(4)]
  by (auto simp: names_inv_def split: if_splits)

lemma createInstTerm_names:
  assumes "names_inv u" "createInstTerm d i bt u = Inr v"
  shows "names_inv v"
proof -
  obtain inst D where D: "s_designs u d = Some D" "getInstance D i = Some inst"
    and v: "s_designs v = s_designs (upd_design d
      (set_instance i (inst\<lparr>i_instTerms := i_instTerms inst @ [Some (inst_term_id d i bt)]\<rparr>)) u)"
    using assms(2) by (auto simp: createInstTerm_def rbind_eq_Inr_iff the_instance_eq Let_def)
  show ?thesis
    unfolding names_inv_same [OF v]
    by (rule names_inv_upd [OF assms(1)])
      (use D names_invD [OF assms(1)] in \<open>auto intro: design_names_instances(3)\<close>)
qed

lemma createInstTerms_names:
  "names_inv u \<Longrightarrow> createInstTerms s bts u = Inr v \<Longrightarrow> names_inv v"
  unfolding createInstTerms_def
  by (rule rfold_inv [where f = "createInstTerm (id_ref s) (id_instance s)" and P = names_inv])
    (auto intro: createInstTerm_names)

lemma term_create_names:
  assumes u: "names_inv u" and D: "s_designs u d = Some D"
    and c: "term_create what (Some d) i t u = Inr (j, v)"
    and fresh: "i = None \<Longrightarrow> getTerm D (next_id (d_terms D)) = None"
  shows "names_inv v"
proof -
  have D': "design_names D" using names_invD [OF u D] .
  let ?t = "t\<lparr>t_flatID := next_flatID D\<rparr>"
  let ?w = "new_bit_terms (term_bits d j ?t) (upd_design d (insertTerm j ?t) u)"
  have pre: "term_preCreate D i (t_name t) = Inr ()" and none: "getTerm D j = None"
    and loop: "rfold (\<lambda>s. createInstTerms s (term_bits d j ?t)) (getSlaves D) ?w = Inr v"
    using c D fresh
    by (auto simp: term_create_def need_design_def rbind_eq_Inr_iff Let_def addTerm_def term_preCreate_def
        split: if_splits option.splits)
  have "names_inv (upd_design d (insertTerm j ?t) u)"
  proof (rule names_inv_upd [OF u])
    fix E assume "s_designs u d = Some E"
    then show "design_names (insertTerm j ?t E)"
      using D D' none term_preCreate_free [OF D' pre] design_names_terms(1) [OF D', of j ?t] by auto
  qed
  then have "names_inv ?w" by (simp add: names_inv_def new_bit_terms_def)
  from rfold_inv [of "getSlaves D" names_inv, OF _ this loop] createInstTerms_names
  show ?thesis by blast
qed

lemma SNLInstance_create_names:
  assumes u: "names_inv u" and D: "s_designs u d = Some D"
    and c: "SNLInstance_create (Some d) (Some m) i name u = Inr (j, v)"
    and fresh: "i = None \<Longrightarrow> getInstance D (next_id (d_instances D)) = None"
  shows "names_inv v"
proof -
  have D': "design_names D" using names_invD [OF u D] .
  define inst where "inst = \<lparr>i_model = m, i_name = name, i_instTerms = []\<rparr>"
  let ?w = "upd_design d (addInstance j inst) u"
  have pre: "instance_preCreate D i name = Inr ()" and none: "getInstance D j = None"
    and post: "instance_commonPostCreate d j m ?w = Inr v"
    using c D fresh
    by (auto simp: SNLInstance_create_def need_design_def rbind_eq_Inr_iff Let_def instance_preCreate_def
        inst_def split: if_splits option.splits)
  have w: "names_inv ?w"
  proof (rule names_inv_upd [OF u])
    fix E assume "s_designs u d = Some E"
    then show "design_names (addInstance j inst E)"
      using D none instance_preCreate_free [OF D' pre] design_names_instances(1) [OF D', of j inst]
      by (auto simp: inst_def)
  qed
  obtain M where M: "s_designs ?w m = Some M" and its:
    "createInstTerms (instance_id d j) (getBitTerms m M)
      (if isPrimitive M then ?w else upd_design m (addSlaveInstance (instance_id d j)) ?w) = Inr v"
    using post by (auto simp: instance_commonPostCreate_def rbind_eq_Inr_iff Let_def)
  have "names_inv (upd_design m (addSlaveInstance (instance_id d j)) ?w)"
    by (rule names_inv_upd [OF w]) (use names_invD [OF w] in \<open>auto intro: design_names_slaves(1)\<close>)
  with w have "names_inv (if isPrimitive M then ?w else upd_design m (addSlaveInstance (instance_id d j)) ?w)"
    by simp
  then show ?thesis using its by (rule createInstTerms_names)
qed

subsection \<open>Renaming\<close>

lemma net_setName_names:
  assumes u: "names_inv u" and D: "s_designs u d = Some D" "getNet D i = Some net"
    and free: "name = '''' \<or> getNet_name D name = None"
  shows "\<exists>v. net_setName d i name u = Inr v \<and> names_inv v"
proof (cases "n_name net = name")
  case True
  then show ?thesis using u D the_object_Some(1) [OF D] by (simp add: net_setName_def)
next
  case False
  have D': "design_names D" using names_invD [OF u D(1)] .
  let ?net = "net\<lparr>n_name := name\<rparr>"
  have "name = '''' \<or> d_netNameID D name = None"
    using free neti.lookup_none [OF design_names_sel(2) [OF D'], of name] by (auto simp: getNet_name_def)
  then obtain m where m: "rename (n_name net) name i (d_netNameID D) = Inr m"
    "\<And>s j. m s = Some j \<longleftrightarrow> s \<noteq> '''' \<and> (\<exists>z. getNet (set_net i ?net D) j = Some z \<and> n_name z = s)"
    using neti.rename_ok [OF design_names_sel(1) [OF D'] design_names_sel(2) [OF D'] D(2), of ?net] False by auto
  let ?f = "\<lambda>D. (set_net i ?net D)\<lparr>d_netNameID := m\<rparr>"
  have g: "getNet (?f D) = getNet (set_net i ?net D)" by (simp add: getNet_def fun_eq_iff)
  have "index_ok getNet d_netNameID n_name (?f D)"
    unfolding index_ok_def g using m(2) by simp
  then have "design_names (?f D)"
    by (rule design_names_net [OF D', rotated])
      (use design_wf_upd(3) [OF design_names_sel(1) [OF D'], of i ?net]
        in \<open>simp_all add: design_wf_def getTerm_def getInstance_def set_net_def fun_eq_iff\<close>)
  then have "names_inv (upd_design d ?f u)"
    using D(1) by (intro names_inv_upd [OF u]) simp
  moreover have "net_setName d i name u = Inr (upd_design d ?f u)"
    using D(1) the_object_Some(1) [OF D] False free m(1) by (auto simp: net_setName_def)
  ultimately show ?thesis by blast
qed

lemma term_setName_names:
  assumes u: "names_inv u" and D: "s_designs u d = Some D" "getTerm D i = Some t"
    and free: "name = '''' \<or> getTerm_name D name = None"
  shows "\<exists>v. term_setName d i name u = Inr v \<and> names_inv v"
proof (cases "t_name t = name")
  case True
  then show ?thesis using u D the_object_Some(2) [OF D] by (simp add: term_setName_def)
next
  case False
  have D': "design_names D" using names_invD [OF u D(1)] .
  let ?t = "t\<lparr>t_name := name\<rparr>"
  have "name = '''' \<or> d_termNameID D name = None"
    using free termi.lookup_none [OF design_names_sel(3) [OF D'], of name] by (auto simp: getTerm_name_def)
  then obtain m where m: "rename (t_name t) name i (d_termNameID D) = Inr m"
    "\<And>s j. m s = Some j \<longleftrightarrow> s \<noteq> '''' \<and> (\<exists>z. getTerm (set_term i ?t D) j = Some z \<and> t_name z = s)"
    using termi.rename_ok [OF design_names_sel(1) [OF D'] design_names_sel(3) [OF D'] D(2), of ?t] False by auto
  let ?f = "\<lambda>D. (set_term i ?t D)\<lparr>d_termNameID := m\<rparr>"
  have g: "getTerm (?f D) = getTerm (set_term i ?t D)" by (simp add: getTerm_def fun_eq_iff)
  have "index_ok getTerm d_termNameID t_name (?f D)"
    unfolding index_ok_def g using m(2) by simp
  then have "design_names (?f D)"
    by (rule design_names_term [OF D', rotated])
      (use design_wf_upd(6) [OF design_names_sel(1) [OF D'], of i ?t]
        in \<open>simp_all add: design_wf_def getNet_def getInstance_def set_term_def fun_eq_iff\<close>)
  then have "names_inv (upd_design d ?f u)"
    using D(1) by (intro names_inv_upd [OF u]) simp
  moreover have "term_setName d i name u = Inr (upd_design d ?f u)"
    using D(1) the_object_Some(2) [OF D] False free m(1) by (auto simp: term_setName_def)
  ultimately show ?thesis by blast
qed

lemma instance_setName_names:
  assumes u: "names_inv u" and D: "s_designs u d = Some D" "getInstance D i = Some x"
    and free: "name = '''' \<or> getInstance_name D name = None"
  shows "\<exists>v. instance_setName d i name u = Inr v \<and> names_inv v"
proof (cases "i_name x = name")
  case True
  then show ?thesis using u D the_object_Some(3) [OF D] by (simp add: instance_setName_def)
next
  case False
  have D': "design_names D" using names_invD [OF u D(1)] .
  let ?x = "x\<lparr>i_name := name\<rparr>"
  have "name = '''' \<or> d_instanceNameID D name = None"
    using free insti.lookup_none [OF design_names_sel(4) [OF D'], of name] by (auto simp: getInstance_name_def)
  then obtain m where m: "rename (i_name x) name i (d_instanceNameID D) = Inr m"
    "\<And>s j. m s = Some j \<longleftrightarrow> s \<noteq> '''' \<and> (\<exists>z. getInstance (set_instance i ?x D) j = Some z \<and> i_name z = s)"
    using insti.rename_ok [OF design_names_sel(1) [OF D'] design_names_sel(4) [OF D'] D(2), of ?x] False by auto
  let ?f = "\<lambda>D. (set_instance i ?x D)\<lparr>d_instanceNameID := m\<rparr>"
  have g: "getInstance (?f D) = getInstance (set_instance i ?x D)" by (simp add: getInstance_def fun_eq_iff)
  have "index_ok getInstance d_instanceNameID i_name (?f D)"
    unfolding index_ok_def g using m(2) by simp
  then have "design_names (?f D)"
    by (rule design_names_instance [OF D', rotated])
      (use design_wf_upd(9) [OF design_names_sel(1) [OF D'], of i ?x]
        in \<open>simp_all add: design_wf_def getTerm_def getNet_def set_instance_def fun_eq_iff\<close>)
  then have "names_inv (upd_design d ?f u)"
    using D(1) by (intro names_inv_upd [OF u]) simp
  moreover have "instance_setName d i name u = Inr (upd_design d ?f u)"
    using D(1) the_object_Some(3) [OF D] False free m(1) by (auto simp: instance_setName_def)
  ultimately show ?thesis by blast
qed

text \<open>After a rename the new name leads to the net.\<close>

lemma net_setName_found:
  assumes u: "names_inv u" and D: "s_designs u d = Some D" "getNet D i = Some net"
    and free: "name \<noteq> ''''" "getNet_name D name = None"
  shows "\<exists>v E net'. net_setName d i name u = Inr v \<and> s_designs v d = Some E \<and>
    getNet_name E name = Some (i, net') \<and> n_name net' = name"
proof -
  have D': "design_names D" using names_invD [OF u D(1)] .
  obtain v where v: "net_setName d i name u = Inr v" "names_inv v"
    using net_setName_names [OF u D] free by blast
  have ne: "n_name net \<noteq> name"
    using free D(2) neti.lookup_iff [OF design_names_sel(2) [OF D'] free(1), of i net]
    by (auto simp: getNet_name_def)
  obtain m where "v = upd_design d (\<lambda>D. (set_net i (net\<lparr>n_name := name\<rparr>) D)\<lparr>d_netNameID := m\<rparr>) u"
    using v(1) D(1) the_object_Some(1) [OF D] ne free
    by (auto simp: net_setName_def rbind_eq_Inr_iff)
  then obtain E where E: "s_designs v d = Some E" "getNet E i = Some (net\<lparr>n_name := name\<rparr>)"
    using D getNet_set_net [OF design_names_sel(1) [OF D'], of i "net\<lparr>n_name := name\<rparr>" i]
    by (auto simp: getNet_def)
  then have "getNet_name E name = Some (i, net\<lparr>n_name := name\<rparr>)"
    using neti.lookup_iff [OF design_names_sel(2) [OF names_invD [OF v(2) E(1)]] free(1)]
    by (simp add: getNet_name_def)
  with v(1) E(1) show ?thesis by fastforce
qed

end
