(* ===== verification/NetlistMerge.thy ===== *)
theory NetlistMerge
  imports NetlistNames
begin

text \<open>
  \<open>connectAllComponentsTo\<close> and the merge of the assign instances of a design.
\<close>

section \<open>Moving the components of a net\<close>

lemma setNets_Some:
  assumes "linked u" "nets_ok u" "live_net u m" "\<And>c. c \<in> set cs \<Longrightarrow> id_ref c = id_ref m"
  shows "\<exists>v. setNets cs (Some m) u = Inr v \<and> s_net v = (\<lambda>c. if c \<in> set cs then Some m else s_net u c) \<and>
    same_objs u v \<and> linked v \<and> nets_ok v"
  using assms
proof (induction cs arbitrary: u)
  case Nil
  then show ?case by (simp add: setNets_def)
next
  case (Cons c cs)
  obtain w where w: "setNet c (Some m) u = Inr w" "s_net w = (s_net u)(c \<mapsto> m)" "same_objs u w"
    "linked w" "nets_ok w"
    using setNet_spec [OF Cons.prems(1-3), of c] Cons.prems(4) [of c] by auto
  have live: "live_net w m" using live_same(1) [of w u] w(3) Cons.prems(3) by (simp add: same_objs_def)
  obtain v where v: "setNets cs (Some m) w = Inr v" "s_net v = (\<lambda>c. if c \<in> set cs then Some m else s_net w c)"
    "same_objs w v" "linked v" "nets_ok v"
    using Cons.IH [OF w(4,5) live] Cons.prems(4) by auto
  have "s_net v = (\<lambda>x. if x \<in> set (c # cs) then Some m else s_net u x)"
    using v(2) w(2) by (auto simp: fun_eq_iff)
  with v w same_objs_trans show ?case by (auto simp: setNets_def)
qed

text \<open>The net that is left is the target of the components, and nothing is connected to \<open>n\<close> any more.\<close>

lemma connectAllComponentsTo_spec:
  assumes ci: "conn_inv u" and n: "net \<noteq> Some n"
    and m: "\<And>m. net = Some m \<Longrightarrow> live_net u m \<and> id_ref m = id_ref n"
  shows "\<exists>v. connectAllComponentsTo n net u = Inr v \<and> conn_inv v \<and> same_objs u v \<and>
    s_net v = (\<lambda>c. if s_net u c = Some n then net else s_net u c)"
proof -
  have u: "linked u" "nets_ok u" "comps_ok u" using ci by (auto simp: conn_inv_def)
  have mem: "c \<in> set (getComponents u n) \<longleftrightarrow> s_net u c = Some n" for c using u(1) by (simp add: linked_def)
  obtain v where v: "setNets (getComponents u n) net u = Inr v"
    "s_net v = (\<lambda>c. if s_net u c = Some n then net else s_net u c)" "same_objs u v" "linked v" "nets_ok v"
  proof (cases net)
    case None
    then show ?thesis using that setNets_None [OF u(1,2), of "getComponents u n"] by (simp add: mem) blast
  next
    case (Some k)
    have "id_ref c = id_ref k" if "c \<in> set (getComponents u n)" for c
      using u(2) m [OF Some] that by (auto simp: mem nets_ok_def)
    then show ?thesis
      using that setNets_Some [OF u(1,2), of k "getComponents u n"] m [OF Some] Some by (simp add: mem) blast
  qed
  have "s_components v n = []"
  proof -
    have "c \<notin> set (getComponents v n)" for c
      using v(2,4) n by (auto simp: linked_def split: if_splits)
    then show ?thesis by (cases "s_components v n") (auto simp: getComponents_def)
  qed
  then have clear: "v\<lparr>s_components := (s_components v)(n := [])\<rparr> = v"
    by (metis (no_types, lifting) fun_upd_idem snl.surjective snl.update_convs(3))
  have "comps_ok v"
    using u(3) v(2,3) live_same(4) [of v u] by (auto simp: comps_ok_def same_objs_def split: if_splits)
  with v clear n show ?thesis
    by (auto simp: connectAllComponentsTo_def conn_inv_def)
qed

section \<open>One assign\<close>

text \<open>
  An assign instance whose output is on another net than its input: the components of the output
  net move to the input net, a scalar output net disappears.
\<close>

lemma assign_step_spec:
  assumes inv: "netlist_inv u"
    and I: "getInstTerm u d i (Some input) = Inr (Some itIn)" "getInstTerm u d i (Some output) = Inr (Some itOut)"
    and nets: "s_net u itOut = Some out" "s_net u itIn \<noteq> Some out" "id_ref itIn = d" "id_ref itOut = d"
  shows "\<exists>v. assign_step d input output i u = Inr v \<and> netlist_inv v \<and>
    s_net v = (\<lambda>c. if s_net u c = Some out then s_net u itIn else s_net u c) \<and>
    (live_net v out \<longleftrightarrow> id_type out \<noteq> T_Net)"
proof -
  have ci: "conn_inv u" "nets_ok u" using inv by (auto simp: netlist_inv_def conn_inv_def)
  have lo: "live_net u out" "id_ref out = d" using ci(2) nets by (auto simp: nets_ok_def)
  have "live_net u m \<and> id_ref m = id_ref out" if "s_net u itIn = Some m" for m
    using ci(2) that lo(2) nets(3) by (auto simp: nets_ok_def)
  then obtain w where w: "connectAllComponentsTo out (s_net u itIn) u = Inr w" "conn_inv w" "same_objs u w"
    "s_net w = (\<lambda>c. if s_net u c = Some out then s_net u itIn else s_net u c)"
    using connectAllComponentsTo_spec [OF ci(1) nets(2)] by blast
  have des: "s_designs w = s_designs u" using w(3) by (simp add: same_objs_def)
  have winv: "netlist_inv w" using inv w(2) by (simp add: netlist_inv_def store_wf_def des)
  have step: "assign_step d input output i u =
      (if id_type out = T_Net then net_destroy d (id_object out) w else Inr w)"
    using I nets(1) w(1) by (simp add: assign_step_def)
  show ?thesis
  proof (cases "id_type out = T_Net")
    case False
    moreover have "live_net w out" using live_same(1) [OF des] lo(1) by simp
    ultimately show ?thesis using step winv w(4) by simp
  next
    case True
    obtain D net where D: "s_designs w d = Some D" "getNet D (id_object out) = Some net"
      "out \<in> set (net_bits d (id_object out) net)"
      using lo by (auto simp: live_net_def' des)
    then have bits: "net_bits d (id_object out) net = [out]"
      using net_bits_type [OF D(3) True] by (auto simp: net_bits_def)
    obtain v where v: "net_destroy d (id_object out) w = Inr v" "netlist_inv v"
      "s_designs v = (s_designs w)(d \<mapsto> removeNet (id_object out) net D)"
      "s_net v = (\<lambda>c. if s_net w c \<in> Some ` set [out] then None else s_net w c)"
      using net_destroy_inv [OF winv D(1,2)] bits by auto
    have "s_net v = s_net w" using v(4) w(4) nets(2) by (auto simp: fun_eq_iff)
    moreover have "design_wf D" using winv D(1) by (auto simp: netlist_inv_def store_wf_def)
    then have "\<not> live_net v out"
      using v(3) lo(2) by (auto simp: live_net_def' getNet_removeNet)
    ultimately show ?thesis using step True v(1,2) w(4) by auto
  qed
qed

end
