(* ===== verification/NetlistAlign.thy ===== *)
theory NetlistAlign
  imports NetlistMerge
begin

text \<open>
  \<open>SNLInstance::getInstTerm\<close> finds the instance terminal of a bit terminal at the position of its flat
  identifier.  It is right as long as the flat identifiers of the model number its bit terminals
  without gaps, which holds for models built by creating terminals one after the other.
\<close>

section \<open>Flat numbering\<close>

definition full_term :: "SNLTerm \<Rightarrow> bool" where
  "full_term t \<longleftrightarrow> (case t_kind t of ScalarTerm \<Rightarrow> True | BusTerm msb lsb bits \<Rightarrow> bits = createBits msb lsb)"

fun flat_from :: "nat \<Rightarrow> (nat, SNLTerm) smap \<Rightarrow> bool" where
  "flat_from k [] \<longleftrightarrow> True"
| "flat_from k ((i, t) # ts) \<longleftrightarrow> t_flatID t = k \<and> full_term t \<and> flat_from (k + nat (term_width t)) ts"

definition dense :: "SNLDesign \<Rightarrow> bool" where
  "dense D \<longleftrightarrow> flat_from 0 (d_terms D)"

definition terms_width :: "(nat, SNLTerm) smap \<Rightarrow> nat" where
  "terms_width ts = sum_list (map (\<lambda>(i, t). nat (term_width t)) ts)"

lemma term_bits_full:
  "full_term t \<Longrightarrow> term_bits d i t = (case t_kind t of ScalarTerm \<Rightarrow> [scalar_term_id d i]
     | BusTerm msb lsb _ \<Rightarrow> map (\<lambda>k. term_bit_id d i (bus_bit msb lsb k)) [0..<nat (getWidth msb lsb)])"
  by (auto simp: full_term_def term_bits_def present_bits_def createBits_def split: term_kind.splits
      intro!: filter_cong)

lemma flat_of_term:
  assumes "getTerm D i = Some t" "full_term t"
  shows "map (flatID D) (term_bits d i t) = map Inr [t_flatID t..<t_flatID t + nat (term_width t)]"
proof (cases "t_kind t")
  case ScalarTerm
  then show ?thesis using assms by (simp add: term_bits_full flatID_def term_width_def upt_rec)
next
  case (BusTerm msb lsb bits)
  have "map (flatID D) (term_bits d i t) =
      map (\<lambda>k. Inr (t_flatID t + k)) [0..<nat (getWidth msb lsb)]"
    using assms BusTerm by (simp add: term_bits_full flatID_def position_bus_bit)
  also have "\<dots> = map Inr (map (\<lambda>k. t_flatID t + k) [0..<nat (getWidth msb lsb)])" by simp
  also have "map (\<lambda>k. t_flatID t + k) [0..<nat (getWidth msb lsb)] =
      [t_flatID t..<t_flatID t + nat (term_width t)]"
    using BusTerm by (simp add: term_width_def map_add_upt add.commute)
  finally show ?thesis .
qed

lemma flat_from_numbers:
  assumes "\<And>i t. (i, t) \<in> set ts \<Longrightarrow> getTerm D i = Some t" "flat_from k ts"
  shows "map (flatID D) (concat (map (\<lambda>(i, t). term_bits d i t) ts)) = map Inr [k..<k + terms_width ts]"
  using assms
proof (induction ts arbitrary: k)
  case Nil
  then show ?case by (simp add: terms_width_def)
next
  case (Cons x ts)
  obtain i t where x: "x = (i, t)" by (cases x)
  let ?w = "nat (term_width t)"
  have t: "getTerm D i = Some t" "t_flatID t = k" "full_term t" "flat_from (k + ?w) ts"
    using Cons.prems by (auto simp: x)
  have IH: "map (flatID D) (concat (map (\<lambda>(i, t). term_bits d i t) ts)) =
      map Inr [k + ?w..<k + ?w + terms_width ts]"
    using Cons.IH [OF _ t(4)] Cons.prems(1) by auto
  have "[k..<k + ?w] @ [k + ?w..<k + ?w + terms_width ts] = [k..<k + terms_width (x # ts)]"
    using upt_add_eq_append [of k "k + ?w" "terms_width ts"]
    by (simp add: terms_width_def x add.assoc)
  then have "map Inr [k..<k + ?w] @ map Inr [k + ?w..<k + ?w + terms_width ts] =
      (map Inr [k..<k + terms_width (x # ts)] :: nat result list)"
    by (metis map_append)
  then show ?case
    using IH flat_of_term [OF t(1,3), of d] t(2) by (simp add: x)
qed

lemma dense_numbers:
  assumes "design_wf D" "dense D"
  shows "map (flatID D) (getBitTerms d D) = map Inr [0..<length (getBitTerms d D)]"
proof -
  have "getTerm D i = Some t" if "(i, t) \<in> set (d_terms D)" for i t
    using assms(1) that by (simp add: getTerm_def design_wf_def idk.find_Some_iff)
  from flat_from_numbers [OF this, of "d_terms D" 0 d] assms(2)
  have eq: "map (flatID D) (getBitTerms d D) = map Inr [0..<terms_width (d_terms D)]"
    by (simp add: dense_def getBitTerms_def)
  have "length (getBitTerms d D) = terms_width (d_terms D)" using arg_cong [OF eq, of length] by simp
  with eq show ?thesis by simp
qed

subsection \<open>Creating terminals in order keeps the numbering\<close>

lemma flat_from_append: "flat_from k (xs @ ys) \<longleftrightarrow> flat_from k xs \<and> flat_from (k + terms_width xs) ys"
  by (induction k xs rule: flat_from.induct) (auto simp: terms_width_def add.assoc)

lemma put_last:
  "(\<And>j. j \<in> fst ` set m \<Longrightarrow> j < i) \<Longrightarrow> smap_put (<) i v m = m @ [(i :: nat, v)]"
  by (induction m) (auto simp: image_iff)

lemma next_flatID_dense:
  assumes "dense D"
  shows "next_flatID D = terms_width (d_terms D)"
proof (cases "d_terms D" rule: rev_cases)
  case Nil
  then show ?thesis by (simp add: next_flatID_def terms_width_def)
next
  case (snoc ts x)
  then have "t_flatID (snd x) = terms_width ts"
    using assms by (cases x) (simp add: dense_def flat_from_append)
  then show ?thesis using snoc by (simp add: next_flatID_def terms_width_def Let_def split: prod.split)
qed

lemma insertTerm_dense:
  assumes "design_wf D" "dense D" "\<And>j. j \<in> fst ` set (d_terms D) \<Longrightarrow> j < i" "full_term t"
  shows "dense (insertTerm i (t\<lparr>t_flatID := next_flatID D\<rparr>) D)"
proof -
  have "smap_find (<) i (d_terms D) = None"
    using assms(1,3) by (auto simp: design_wf_def idk.find_None_iff)
  then show ?thesis
    using assms(2,4) put_last [of "d_terms D" i] assms(3)
    by (simp add: dense_def insertTerm_def set_insert_def flat_from_append next_flatID_dense full_term_def)
qed

section \<open>Instance terminals of a new instance\<close>

lemma createInstTerm_result:
  assumes "store_wf u" "createInstTerm d i bt u = Inr v" "the_instance u d i = Inr inst"
  shows "store_wf v" "the_instance v d i =
      Inr (inst\<lparr>i_instTerms := i_instTerms inst @ [Some (inst_term_id d i bt)]\<rparr>)"
    "map_option d_terms (s_designs v e) = map_option d_terms (s_designs u e)"
proof -
  obtain D where D: "s_designs u d = Some D" "getInstance D i = Some inst" "design_wf D"
    using assms(1,3) by (auto simp: the_instance_eq store_wf_def)
  let ?f = "set_instance i (inst\<lparr>i_instTerms := i_instTerms inst @ [Some (inst_term_id d i bt)]\<rparr>)"
  have v: "s_designs v = s_designs (upd_design d ?f u)"
    using assms(2,3) by (auto simp: createInstTerm_def Let_def)
  show "store_wf v"
    using store_wf_upd [OF assms(1), of d ?f] D v by (simp add: store_wf_def)
  show "the_instance v d i = Inr (inst\<lparr>i_instTerms := i_instTerms inst @ [Some (inst_term_id d i bt)]\<rparr>)"
    using D v by (simp add: the_instance_eq getInstance_set_instance)
  show "map_option d_terms (s_designs v e) = map_option d_terms (s_designs u e)"
    using D v by (simp add: set_instance_def)
qed

lemma createInstTerms_result:
  assumes "store_wf u" "createInstTerms s bts u = Inr v" "the_instance u (id_ref s) (id_instance s) = Inr inst"
  shows "the_instance v (id_ref s) (id_instance s) = Inr (inst\<lparr>i_instTerms := i_instTerms inst @
      map (\<lambda>bt. Some (inst_term_id (id_ref s) (id_instance s) bt)) bts\<rparr>) \<and>
    (\<forall>e. map_option d_terms (s_designs v e) = map_option d_terms (s_designs u e))"
  using assms
proof (induction bts arbitrary: u inst)
  case Nil
  then show ?case by (simp add: createInstTerms_def)
next
  case (Cons bt bts)
  obtain w where w: "createInstTerm (id_ref s) (id_instance s) bt u = Inr w" "createInstTerms s bts w = Inr v"
    using Cons.prems(2) by (auto simp: createInstTerms_def rbind_eq_Inr_iff)
  note r = createInstTerm_result [OF Cons.prems(1) w(1) Cons.prems(3)]
  show ?case using Cons.IH [OF r(1) w(2) r(2)] r(3) by simp
qed

text \<open>On a densely numbered model every bit terminal is found in the new instance.\<close>

lemma new_instance_getInstTerm:
  assumes inv: "netlist_inv u" and D: "s_designs u d = Some D" and M: "s_designs u m = Some M" "dense M"
    and c: "SNLInstance_create (Some d) (Some m) i name u = Inr (j, v)"
    and fresh: "i = None \<Longrightarrow> getInstance D (next_id (d_instances D)) = None"
    and bt: "bt \<in> set (getBitTerms m M)" "id_ref bt = m"
  shows "getInstTerm v d j (Some bt) = Inr (Some (inst_term_id d j bt))"
proof -
  have wf: "store_wf u" "design_wf D" "design_wf M"
    using inv D M by (auto simp: netlist_inv_def store_wf_def)
  define inst where "inst = \<lparr>i_model = m, i_name = name, i_instTerms = []\<rparr>"
  define w where "w = upd_design d (addInstance j inst) u"
  have none: "getInstance D j = None" and post: "instance_commonPostCreate d j m w = Inr v"
    using c D fresh
    by (auto simp: SNLInstance_create_def need_design_def rbind_eq_Inr_iff Let_def instance_preCreate_def
        inst_def w_def split: if_splits option.splits)
  have terms: "map_option d_terms (s_designs w e) = map_option d_terms (s_designs u e)" for e
    using D by (simp add: w_def addInstance_def)
  obtain N where N: "s_designs w m = Some N" "d_terms N = d_terms M" using terms [of m] M(1) by auto
  define x where "x = (if isPrimitive N then w else upd_design m (addSlaveInstance (instance_id d j)) w)"
  have its: "createInstTerms (instance_id d j) (getBitTerms m M) x = Inr v"
    using post N by (simp add: instance_commonPostCreate_def x_def getBitTerms_def)
  have wwf: "store_wf w"
    unfolding w_def using wf D by (intro store_wf_upd) auto
  then have xwf: "store_wf x"
    using store_wf_upd [of w m "addSlaveInstance (instance_id d j)"] N by (auto simp: x_def store_wf_def)
  obtain W where W: "s_designs w d = Some W" "getInstance W j = Some inst"
    using D wf(2) none by (simp add: w_def getInstance_addInstance)
  have xi: "the_instance x d j = Inr inst"
    using W by (cases "d = m") (auto simp: x_def the_instance_eq lookups_unchanged)
  have xt: "map_option d_terms (s_designs x m) = Some (d_terms M)"
    using N by (simp add: x_def addSlaveInstance_def)
  have vi: "the_instance v d j = Inr (inst\<lparr>i_instTerms := map (\<lambda>bt. Some (inst_term_id d j bt)) (getBitTerms m M)\<rparr>)"
    and vt: "map_option d_terms (s_designs v m) = Some (d_terms M)"
    using createInstTerms_result [of x "instance_id d j", OF xwf its] xi xt by (auto simp: inst_def)
  obtain V where V: "s_designs v m = Some V" "d_terms V = d_terms M" using vt by auto
  obtain k where k: "k < length (getBitTerms m M)" "getBitTerms m M ! k = bt"
    using bt(1) by (auto simp: in_set_conv_nth)
  have "flatID V bt = Inr k"
    using arg_cong [OF dense_numbers [OF wf(3) M(2), of m], of "\<lambda>xs. xs ! k"] k flatID_terms [OF V(2)] by simp
  then show ?thesis
    using vi V k bt(2) by (simp add: getInstTerm_def getInstTermByFlatID_def inst_def)
qed


section \<open>Instance terminals of a new terminal\<close>

text \<open>The creation of the instance terminals of one slave leaves every other instance alone.\<close>

lemma createInstTerm_frame:
  assumes wf: "store_wf u" and c: "createInstTerm d i bt u = Inr v"
  shows "store_wf v \<and> (\<forall>e. map_option d_terms (s_designs v e) = map_option d_terms (s_designs u e)) \<and>
    (\<forall>e k. (e, k) \<noteq> (d, i) \<longrightarrow> the_instance v e k = the_instance u e k)"
proof -
  obtain inst where I: "the_instance u d i = Inr inst" using c by (auto simp: createInstTerm_def rbind_eq_Inr_iff)
  obtain D where D: "s_designs u d = Some D" "design_wf D" using I wf by (auto simp: the_instance_eq store_wf_def)
  have v: "s_designs v = s_designs (upd_design d
      (set_instance i (inst\<lparr>i_instTerms := i_instTerms inst @ [Some (inst_term_id d i bt)]\<rparr>)) u)"
    using c I by (auto simp: createInstTerm_def Let_def)
  have "the_instance v e k = the_instance u e k" if "(e, k) \<noteq> (d, i)" for e k
    using that D v by (cases "e = d") (auto simp: the_instance_def the_design_def getInstance_set_instance)
  then show ?thesis using createInstTerm_result(1,3) [OF wf c I] by blast
qed

lemma createInstTerms_frame:
  "store_wf u \<Longrightarrow> createInstTerms s bts u = Inr v \<Longrightarrow>
   store_wf v \<and> (\<forall>e. map_option d_terms (s_designs v e) = map_option d_terms (s_designs u e)) \<and>
   (\<forall>e k. (e, k) \<noteq> (id_ref s, id_instance s) \<longrightarrow> the_instance v e k = the_instance u e k)"
proof (induction bts arbitrary: u)
  case Nil
  then show ?case by (simp add: createInstTerms_def)
next
  case (Cons bt bts)
  obtain w where w: "createInstTerm (id_ref s) (id_instance s) bt u = Inr w" "createInstTerms s bts w = Inr v"
    using Cons.prems(2) by (auto simp: createInstTerms_def rbind_eq_Inr_iff)
  note r = createInstTerm_frame [OF Cons.prems(1) w(1)]
  then show ?case using Cons.IH [OF _ w(2)] by simp
qed

text \<open>A slave is registered under the identifier of its instance, and only once.\<close>

definition slave_ids :: "NLID list \<Rightarrow> bool" where
  "slave_ids ss \<longleftrightarrow> distinct ss \<and> (\<forall>s\<in>set ss. s = instance_id (id_ref s) (id_instance s))"

definition with_instTerms :: "did \<Rightarrow> nat \<Rightarrow> NLID list \<Rightarrow> SNLInstance \<Rightarrow> SNLInstance" where
  "with_instTerms d i bts inst = inst\<lparr>i_instTerms := i_instTerms inst @ map (\<lambda>bt. Some (inst_term_id d i bt)) bts\<rparr>"

lemma slaves_createInstTerms:
  assumes "store_wf u" "rfold (\<lambda>s. createInstTerms s bts) ss u = Inr v" "slave_ids ss"
  shows "(\<forall>e. map_option d_terms (s_designs v e) = map_option d_terms (s_designs u e)) \<and>
    (\<forall>e k inst. the_instance u e k = Inr inst \<longrightarrow>
      the_instance v e k = Inr (if instance_id e k \<in> set ss then with_instTerms e k bts inst else inst))"
  using assms
proof (induction ss arbitrary: u)
  case (Cons s ss)
  obtain w where w: "createInstTerms s bts u = Inr w" "rfold (\<lambda>s. createInstTerms s bts) ss w = Inr v"
    using Cons.prems(2) by (auto simp: rbind_eq_Inr_iff)
  note f = createInstTerms_frame [OF Cons.prems(1) w(1)]
  have ids: "slave_ids ss" "s \<notin> set ss" "s = instance_id (id_ref s) (id_instance s)"
    using Cons.prems(3) by (auto simp: slave_ids_def)
  have IH: "\<forall>e. map_option d_terms (s_designs v e) = map_option d_terms (s_designs w e)"
    "\<And>e k inst. the_instance w e k = Inr inst \<Longrightarrow>
      the_instance v e k = Inr (if instance_id e k \<in> set ss then with_instTerms e k bts inst else inst)"
    using Cons.IH [OF _ w(2) ids(1)] f by auto
  have "the_instance v e k = Inr (if instance_id e k \<in> set (s # ss) then with_instTerms e k bts inst else inst)"
    if I: "the_instance u e k = Inr inst" for e k inst
  proof (cases "instance_id e k = s")
    case True
    have ek: "id_ref s = e" "id_instance s = k" by (simp_all flip: True)
    have "the_instance w e k = Inr (with_instTerms e k bts inst)"
      using createInstTerms_result [OF Cons.prems(1) w(1)] I unfolding ek with_instTerms_def by simp
    then show ?thesis using IH(2) ids(2) True by simp
  next
    case False
    then have "(e, k) \<noteq> (id_ref s, id_instance s)" using ids(3) by auto
    then show ?thesis using f IH(2) [of e k inst] I False by simp
  qed
  then show ?case using IH(1) f by auto
qed simp

lemma addTerm_result:
  assumes wf: "store_wf u" and D: "s_designs u d = Some D" "getTerm D i = None" and a: "addTerm d i t u = Inr v"
    and ids: "slave_ids (getSlaves D)"
  shows "\<exists>E. s_designs v d = Some E \<and> getTerm E i = Some (t\<lparr>t_flatID := next_flatID D\<rparr>) \<and> (\<forall>k. k \<noteq> i \<longrightarrow> getTerm E k = getTerm D k)"
    "the_instance u e k = Inr inst \<Longrightarrow> the_instance v e k =
      Inr (if instance_id e k \<in> set (getSlaves D) then with_instTerms e k (term_bits d i t) inst else inst)"
proof -
  have wfD: "design_wf D" using wf D(1) by (auto simp: store_wf_def)
  let ?t = "t\<lparr>t_flatID := next_flatID D\<rparr>"
  let ?w = "new_bit_terms (term_bits d i t) (upd_design d (insertTerm i ?t) u)"
  have bits: "term_bits d i ?t = term_bits d i t" by (simp add: term_bits_def)
  have loop: "rfold (\<lambda>s. createInstTerms s (term_bits d i t)) (getSlaves D) ?w = Inr v"
    using a D(1) by (simp add: addTerm_def Let_def bits)
  have des: "s_designs ?w = s_designs (upd_design d (insertTerm i ?t) u)" by (simp add: new_bit_terms_def)
  have "store_wf ?w" using store_wf_upd [OF wf, of d "insertTerm i ?t"] D(1) wfD des by (simp add: store_wf_def)
  note r = slaves_createInstTerms [OF this loop ids]
  have "map_option d_terms (s_designs v d) = Some (d_terms (insertTerm i ?t D))" using r D(1) des by simp
  then obtain E where E: "s_designs v d = Some E" "d_terms E = d_terms (insertTerm i ?t D)" by auto
  then have "getTerm E = getTerm (insertTerm i ?t D)" by (simp add: getTerm_def fun_eq_iff)
  then show "\<exists>E. s_designs v d = Some E \<and> getTerm E i = Some ?t \<and> (\<forall>k. k \<noteq> i \<longrightarrow> getTerm E k = getTerm D k)"
    using E(1) D(2) wfD by (auto simp: getTerm_insertTerm)
  assume "the_instance u e k = Inr inst"
  then have "the_instance ?w e k = Inr inst"
    using D(1) des by (auto simp: the_instance_eq design_simps)
  then show "the_instance v e k = Inr (if instance_id e k \<in> set (getSlaves D) then with_instTerms e k (term_bits d i t) inst else inst)"
    using r by blast
qed

lemma wf_slaves_distinct:
  assumes "design_wf D"
  shows "distinct (getSlaves D)"
proof -
  have "sorted_wrt nlid_lt (getSlaves D)" using assms by (simp add: design_wf_def smap_inv_def getSlaves_def)
  moreover have "sorted_wrt nlid_lt xs \<Longrightarrow> distinct xs" for xs by (induction xs) (use nlk.irrefl in auto)
  ultimately show ?thesis by blast
qed

end
