(* ===== verification/NetlistBus.thy ===== *)
theory NetlistBus
  imports NetlistAlign
begin

text \<open>
  Operations on whole buses (\<open>SNLBusTerm::setNet\<close>, \<open>setMSB\<close>, \<open>setLSB\<close>), the bus overloads of
  \<open>SNLInstance::setTermNet\<close>, and \<open>SNLInstance::setModel\<close>.
\<close>

section \<open>Connecting buses\<close>

text \<open>\<open>getBit\<close> of a bus net as a nullable pointer.\<close>

definition busNet_getBit :: "did \<Rightarrow> nat \<Rightarrow> int \<Rightarrow> int \<Rightarrow> bool list \<Rightarrow> int \<Rightarrow> NLID option" where
  "busNet_getBit d i msb lsb bits b = (if has_bit msb lsb bits b then Some (net_bit_id d i b) else None)"

definition busTerm_getBit :: "did \<Rightarrow> nat \<Rightarrow> int \<Rightarrow> int \<Rightarrow> bool list \<Rightarrow> int \<Rightarrow> NLID option" where
  "busTerm_getBit d i msb lsb bits b = (if has_bit msb lsb bits b then Some (term_bit_id d i b) else None)"

text \<open>
  The \<open>while\<close> loop of \<open>SNLBusTerm::setNet\<close>: both buses are walked from their \<open>MSB\<close>, one step at a time; the
  widths are equal, so both iterators stop after as many steps.
\<close>

definition bus_setNet_step ::
  "did \<Rightarrow> nat \<Rightarrow> int \<Rightarrow> int \<Rightarrow> bool list \<Rightarrow> nat \<Rightarrow> int \<Rightarrow> int \<Rightarrow> bool list \<Rightarrow> nat \<Rightarrow> snl \<Rightarrow> snl result" where
  "bus_setNet_step d i msb lsb bits n nmsb nlsb nbits k u =
     (case busTerm_getBit d i msb lsb bits (bus_bit msb lsb k) of
        None \<Rightarrow> Inr u
      | Some c \<Rightarrow> setNet c (busNet_getBit d n nmsb nlsb nbits (bus_bit nmsb nlsb k)) u)"

definition busTerm_setNet :: "did \<Rightarrow> nat \<Rightarrow> NLID option \<Rightarrow> snl \<Rightarrow> snl result" where
  "busTerm_setNet d i net u = rbind (the_term u d i) (\<lambda>t. case t_kind t of
     ScalarTerm \<Rightarrow> Inl dangling
   | BusTerm msb lsb bits \<Rightarrow> (case net of
       None \<Rightarrow> setNets (term_bits d i t) None u
     | Some n \<Rightarrow>
         (if id_ref n \<noteq> d then Inl (NLException ''setNet error: incompatible term and net'')
          else if id_type n = T_NetBit then
            (if getWidth msb lsb \<noteq> 1 then Inl (NLException ''setNet only supported when term and net have same width'')
             else case busTerm_getBit d i msb lsb bits msb of None \<Rightarrow> Inl null_pointer | Some c \<Rightarrow> setNet c net u)
          else rbind (the_net u d (id_object n)) (\<lambda>net'.
            if getWidth msb lsb \<noteq> net_width net'
            then Inl (NLException ''setNet only supported when term and net have same width'')
            else case n_kind net' of
              ScalarNet \<Rightarrow> (case busTerm_getBit d i msb lsb bits msb of
                  None \<Rightarrow> Inl null_pointer | Some c \<Rightarrow> setNet c net u)
            | BusNet nmsb nlsb nbits \<Rightarrow>
                rfold (bus_setNet_step d i msb lsb bits (id_object n) nmsb nlsb nbits)
                  [0..<nat (getWidth msb lsb)] u))))"

text \<open>\<open>SNLInstance::setTermNet(term, net)\<close> and the overload with ranges, for bus and scalar arguments.\<close>

definition instance_setTermNet :: "did \<Rightarrow> nat \<Rightarrow> nat \<Rightarrow> nat \<Rightarrow> snl \<Rightarrow> snl result" where
  "instance_setTermNet d i t n u = rbind (the_instance u d i) (\<lambda>inst.
     rbind (the_term u (i_model inst) t) (\<lambda>term. rbind (the_net u d n) (\<lambda>net.
       if term_width term \<noteq> net_width net
       then Inl (NLException ''setTermNet only supported when term and net share same width'')
       else setTermsNets d i (term_bits (i_model inst) t term) (map Some (net_bits d n net)) u)))"

text \<open>The bit numbers from \<open>from\<close> to \<open>to\<close>, in either direction.\<close>

definition range_bits :: "int \<Rightarrow> int \<Rightarrow> int list" where
  "range_bits from to = map (bus_bit from to) [0..<nat (getWidth from to)]"

definition instance_setTermNet_range ::
  "did \<Rightarrow> nat \<Rightarrow> nat \<Rightarrow> int \<Rightarrow> int \<Rightarrow> nat \<Rightarrow> int \<Rightarrow> int \<Rightarrow> snl \<Rightarrow> snl result" where
  "instance_setTermNet_range d i t tmsb tlsb n nmsb nlsb u = rbind (the_instance u d i) (\<lambda>inst.
     rbind (the_term u (i_model inst) t) (\<lambda>term. rbind (the_net u d n) (\<lambda>net.
       let terms = (case t_kind term of ScalarTerm \<Rightarrow> [Some (scalar_term_id (i_model inst) t)]
             | BusTerm msb lsb bits \<Rightarrow> map (busTerm_getBit (i_model inst) t msb lsb bits) (range_bits tmsb tlsb));
           nets = (case n_kind net of ScalarNet \<Rightarrow> [Some (net_id d n)]
             | BusNet msb lsb bits \<Rightarrow> map (busNet_getBit d n msb lsb bits) (range_bits nmsb nlsb))
       in if None \<in> set terms then Inl null_pointer
          else setTermsNets d i (map the terms) nets u)))"

section \<open>Resizing bus terminals\<close>

text \<open>The two checks of \<open>setMSB\<close> and \<open>setLSB\<close> on the bits to remove.\<close>

definition isConstant :: "NetType \<Rightarrow> bool" where
  "isConstant ty \<longleftrightarrow> ty \<in> {Assign0, Supply0, Assign1, Supply1, AssignX, AssignZ}"

fun check_removable :: "snl \<Rightarrow> did \<Rightarrow> nat \<Rightarrow> (int \<times> bool) list \<Rightarrow> unit result" where
  "check_removable u d i [] = Inr ()"
| "check_removable u d i ((b, present) # bs) =
     (if \<not> present then Inl null_pointer
      else case s_net u (term_bit_id d i b) of
          None \<Rightarrow> check_removable u d i bs
        | Some n \<Rightarrow>
            (if \<not> isConstant (s_type u n) then Inl (NLException ''bus resize error: connected to a non-constant net'')
             else if \<exists>c\<in>set (getComponents u n). id_type c = T_InstTerm
             then Inl (NLException ''bus resize error: net is connected to instances'')
             else check_removable u d i bs))"

fun check_slots :: "snl \<Rightarrow> (NLID \<times> NLID) list \<Rightarrow> unit result" where
  "check_slots u [] = Inr ()"
| "check_slots u ((s, bt) # ps) = rbind (getInstTerm u (id_ref s) (id_instance s) (Some bt)) (\<lambda>it.
     if it \<noteq> None \<and> s_net u (the it) \<noteq> None then Inl (NLException ''bus resize error: instance terminal is connected'')
     else check_slots u ps)"

text \<open>The shift of the remaining instance terminals that \<open>setMSB\<close> does in every slave instance.\<close>

fun shift_slots :: "nat \<Rightarrow> nat \<Rightarrow> nat list \<Rightarrow> NLID option list \<Rightarrow> NLID option list result" where
  "shift_slots base count [] its = Inr its"
| "shift_slots base count (k # ks) its =
     rbind (vec_at its (base + k)) (\<lambda>it.
       shift_slots base count ks (its[base + k - count := it, base + k := None]))"

definition shift_slave :: "nat \<Rightarrow> nat \<Rightarrow> nat \<Rightarrow> NLID \<Rightarrow> snl \<Rightarrow> snl result" where
  "shift_slave base count width s u = rbind (the_instance u (id_ref s) (id_instance s)) (\<lambda>inst.
     rbind (shift_slots base count [count..<width] (i_instTerms inst)) (\<lambda>its.
       Inr (upd_design (id_ref s) (set_instance (id_instance s) (inst\<lparr>i_instTerms := its\<rparr>)) u)))"

definition busTerm_setMSB :: "did \<Rightarrow> nat \<Rightarrow> int \<Rightarrow> snl \<Rightarrow> snl result" where
  "busTerm_setMSB d i m u = rbind (the_design u d) (\<lambda>D. rbind (the_term u d i) (\<lambda>t. case t_kind t of
     ScalarTerm \<Rightarrow> Inl dangling
   | BusTerm msb lsb bits \<Rightarrow>
       (if m = msb then Inr u
        else if \<not> isBetween m msb lsb then Inl (NLException ''setMSB error: cannot be resized'')
        else let count = nat \<bar>msb - m\<bar>; removed = take count (numbered msb lsb bits);
                 bts = map (\<lambda>(b, _). term_bit_id d i b) removed
          in rbind (check_removable u d i removed) (\<lambda>_.
             rbind (check_slots u (concat (map (\<lambda>s. map (Pair s) bts) (getSlaves D)))) (\<lambda>_.
             rbind (rfold (\<lambda>s u. rbind (removeInstTerms s bts u)
                      (shift_slave (t_flatID t) count (length bits) s)) (getSlaves D) u) (\<lambda>u.
             rbind (setNets bts None u) (\<lambda>u.
             Inr (upd_design d (set_term i (t\<lparr>t_kind := BusTerm m lsb (drop count bits)\<rparr>)) u))))))))"

definition busTerm_setLSB :: "did \<Rightarrow> nat \<Rightarrow> int \<Rightarrow> snl \<Rightarrow> snl result" where
  "busTerm_setLSB d i l u = rbind (the_design u d) (\<lambda>D. rbind (the_term u d i) (\<lambda>t. case t_kind t of
     ScalarTerm \<Rightarrow> Inl dangling
   | BusTerm msb lsb bits \<Rightarrow>
       (if l = lsb then Inr u
        else if \<not> isBetween l msb lsb then Inl (NLException ''setLSB error: cannot be resized'')
        else let count = nat \<bar>lsb - l\<bar>; keep = length bits - count;
                 removed = drop keep (numbered msb lsb bits);
                 bts = map (\<lambda>(b, _). term_bit_id d i b) removed
          in rbind (check_removable u d i removed) (\<lambda>_.
             rbind (check_slots u (concat (map (\<lambda>s. map (Pair s) bts) (getSlaves D)))) (\<lambda>_.
             rbind (rfold (\<lambda>s. removeInstTerms s bts) (getSlaves D) u) (\<lambda>u.
             rbind (setNets bts None u) (\<lambda>u.
             Inr (upd_design d (set_term i (t\<lparr>t_kind := BusTerm msb l (take keep bits)\<rparr>)) u))))))))"

section \<open>Changing the model of an instance\<close>

text \<open>One pair of terminals of the two interfaces: the bit terminals that correspond.\<close>

definition match_term ::
  "did \<Rightarrow> did \<Rightarrow> (nat \<times> SNLTerm) \<times> (nat \<times> SNLTerm) \<Rightarrow> (NLID \<times> NLID) list result" where
  "match_term m m' p = (case p of ((i, t), (j, t')) \<Rightarrow>
     if (t_name t = '''') \<noteq> (t_name t' = '''') then Inl (NLException ''setModel error: anonymous contradiction'')
     else if t_name t \<noteq> '''' \<and> t_name t \<noteq> t_name t' then Inl (NLException ''setModel error: different term names'')
     else if i \<noteq> j then Inl (NLException ''setModel error: different term IDs'')
     else if t_direction t \<noteq> t_direction t' then Inl (NLException ''setModel error: different term directions'')
     else case (t_kind t, t_kind t') of
         (BusTerm msb lsb bits, BusTerm msb' lsb' bits') \<Rightarrow>
           (if msb \<noteq> msb' \<or> lsb \<noteq> lsb' then Inl (NLException ''setModel error: different bus term bits'')
            else Inr (map (\<lambda>b. (term_bit_id m i b, term_bit_id m' j b)) (present_bits msb lsb bits)))
       | (ScalarTerm, ScalarTerm) \<Rightarrow> Inr [(scalar_term_id m i, scalar_term_id m' j)]
       | _ \<Rightarrow> Inl (NLException ''setModel error: different term types''))"

fun retarget :: "(NLID \<times> NLID) list \<Rightarrow> NLID list \<Rightarrow> snl \<Rightarrow> snl result" where
  "retarget bitTermMap [] u = Inr u"
| "retarget bitTermMap (it # its) u = (case map_of bitTermMap (s_bitTerm u it) of
     None \<Rightarrow> Inl (NLException ''setModel error: term not found in new model'')
   | Some bt \<Rightarrow> retarget bitTermMap its (u\<lparr>s_bitTerm := (s_bitTerm u)(it := bt)\<rparr>))"

text \<open>\<open>setModel\<close>; parameters are not part of the model.\<close>

definition instance_setModel :: "did \<Rightarrow> nat \<Rightarrow> did \<Rightarrow> snl \<Rightarrow> snl result" where
  "instance_setModel d i m' u = rbind (the_instance u d i) (\<lambda>inst.
     if i_model inst = m' then Inr u
     else rbind (the_design u (i_model inst)) (\<lambda>M. rbind (the_design u m') (\<lambda>M'.
       if length (d_terms M) \<noteq> length (d_terms M')
       then Inl (NLException ''setModel error: different number of terms'')
       else rbind (rmap (match_term (i_model inst) m') (zip (d_terms M) (d_terms M'))) (\<lambda>pairs.
         rbind (retarget (concat pairs) (List.map_filter id (i_instTerms inst)) u) (\<lambda>u.
         let u = (if isPrimitive M then u
                  else upd_design (i_model inst) (removeSlaveInstance (instance_id d i)) u);
             u = (if isPrimitive M' then u else upd_design m' (addSlaveInstance (instance_id d i)) u)
         in Inr (upd_design d (set_instance i (inst\<lparr>i_model := m'\<rparr>)) u))))))"

section \<open>What the bus connection does\<close>

lemma full_has_bit: "k < nat (getWidth msb lsb) \<Longrightarrow> has_bit msb lsb (createBits msb lsb) (bus_bit msb lsb k)"
  by (auto simp: has_bit_def isBetween_bus_bit position_bus_bit createBits_def)

lemma live_full_net_bit:
  assumes "s_designs u d = Some D" "getNet D n = Some net" "n_kind net = BusNet msb lsb (createBits msb lsb)"
    and "k < nat (getWidth msb lsb)"
  shows "live_net u (net_bit_id d n (bus_bit msb lsb k))"
  using assms has_bit_present [OF full_has_bit [OF assms(4)]] by (auto simp: live_net_def' net_bits_def)

lemma live_full_term_bit:
  assumes "s_designs u d = Some D" "getTerm D i = Some t" "t_kind t = BusTerm msb lsb (createBits msb lsb)"
    and "k < nat (getWidth msb lsb)"
  shows "live_component u (term_bit_id d i (bus_bit msb lsb k))"
  using assms has_bit_present [OF full_has_bit [OF assms(4)]]
  by (auto simp: live_component_def live_term_def' term_bits_def)

lemma bus_setNet_loop:
  assumes u: "linked u" "nets_ok u" and D: "s_designs u d = Some D" "getNet D n = Some net"
    "n_kind net = BusNet nmsb nlsb (createBits nmsb nlsb)"
    and w: "w \<le> nat (getWidth msb lsb)" "w \<le> nat (getWidth nmsb nlsb)"
  shows "\<exists>v. rfold (bus_setNet_step d i msb lsb (createBits msb lsb) n nmsb nlsb (createBits nmsb nlsb)) [0..<w] u = Inr v \<and>
    same_objs u v \<and> linked v \<and> nets_ok v \<and>
    (\<forall>k < w. s_net v (term_bit_id d i (bus_bit msb lsb k)) = Some (net_bit_id d n (bus_bit nmsb nlsb k))) \<and>
    (\<forall>c. (\<forall>k < w. c \<noteq> term_bit_id d i (bus_bit msb lsb k)) \<longrightarrow> s_net v c = s_net u c)"
  using w
proof (induction w)
  case 0
  then show ?case using u by simp
next
  case (Suc w)
  let ?step = "bus_setNet_step d i msb lsb (createBits msb lsb) n nmsb nlsb (createBits nmsb nlsb)"
  let ?c = "\<lambda>k. term_bit_id d i (bus_bit msb lsb k)" and ?n = "\<lambda>k. net_bit_id d n (bus_bit nmsb nlsb k)"
  obtain x where x: "rfold ?step [0..<w] u = Inr x" "same_objs u x" "linked x" "nets_ok x"
    "\<forall>k < w. s_net x (?c k) = Some (?n k)" "\<forall>c. (\<forall>k < w. c \<noteq> ?c k) \<longrightarrow> s_net x c = s_net u c"
    using Suc by auto
  have live: "live_net x (?n w)"
    using live_full_net_bit [of x d D n net nmsb nlsb w] x(2) D Suc.prems(2) by (simp add: same_objs_def)
  obtain v where v: "setNet (?c w) (Some (?n w)) x = Inr v" "s_net v = (s_net x)(?c w \<mapsto> ?n w)"
    "same_objs x v" "linked v" "nets_ok v"
    using setNet_spec [OF x(3,4) live, of "?c w"] by auto
  have "?step w x = Inr v"
    using full_has_bit [of w msb lsb] full_has_bit [of w nmsb nlsb] Suc.prems v(1)
    by (simp add: bus_setNet_step_def busTerm_getBit_def busNet_getBit_def)
  then have "rfold ?step [0..<Suc w] u = Inr v" using x(1) by (simp add: rfold_append)
  moreover have "s_net v (?c k) = Some (?n k)" if "k < Suc w" for k
    using that x(5) v(2) by (cases "k = w") (auto simp: bus_bit_inj)
  moreover have "s_net v c = s_net u c" if "\<forall>k < Suc w. c \<noteq> ?c k" for c
    using that x(6) v(2) by auto
  ultimately show ?case using v(3-5) same_objs_trans [OF x(2)] by blast
qed

lemma busTerm_setNet_spec:
  assumes inv: "netlist_inv u" and D: "s_designs u d = Some D"
    and t: "getTerm D i = Some t" "t_kind t = BusTerm msb lsb (createBits msb lsb)"
    and n: "getNet D n = Some net" "n_kind net = BusNet nmsb nlsb (createBits nmsb nlsb)"
    and w: "getWidth msb lsb = getWidth nmsb nlsb"
  shows "\<exists>v. busTerm_setNet d i (Some (net_id d n)) u = Inr v \<and> netlist_inv v \<and>
    (\<forall>k < nat (getWidth msb lsb).
       s_net v (term_bit_id d i (bus_bit msb lsb k)) = Some (net_bit_id d n (bus_bit nmsb nlsb k))) \<and>
    (\<forall>c. c \<notin> set (term_bits d i t) \<longrightarrow> s_net v c = s_net u c)"
proof -
  let ?w = "nat (getWidth msb lsb)" and ?c = "\<lambda>k. term_bit_id d i (bus_bit msb lsb k)"
  have ci: "linked u" "nets_ok u" "comps_ok u" using inv by (auto simp: netlist_inv_def conn_inv_def)
  obtain v where v: "rfold (bus_setNet_step d i msb lsb (createBits msb lsb) n nmsb nlsb (createBits nmsb nlsb)) [0..<?w] u = Inr v"
    "same_objs u v" "linked v" "nets_ok v"
    "\<forall>k < ?w. s_net v (?c k) = Some (net_bit_id d n (bus_bit nmsb nlsb k))"
    "\<forall>c. (\<forall>k < ?w. c \<noteq> ?c k) \<longrightarrow> s_net v c = s_net u c"
    using bus_setNet_loop [OF ci(1,2) D n, of ?w msb lsb i] w by auto
  have op: "busTerm_setNet d i (Some (net_id d n)) u = Inr v"
    using v(1) w n(2) t(2) the_object_Some(1) [OF D n(1)] the_object_Some(2) [OF D t(1)]
    by (simp add: busTerm_setNet_def net_width_def)
  have bits: "term_bits d i t = map ?c [0..<?w]"
    using t(2) term_bits_full [of t d i] by (simp add: full_term_def)
  have des: "s_designs v = s_designs u" using v(2) by (simp add: same_objs_def)
  have "comps_ok v"
    unfolding comps_ok_def live_same(4) [OF des]
  proof (intro allI impI)
    fix c m assume c: "s_net v c = Some m"
    show "live_component u c"
    proof (cases "\<exists>k < ?w. c = ?c k")
      case True
      then show ?thesis using live_full_term_bit [OF D t] by auto
    next
      case False
      then show ?thesis using c v(6) ci(3) by (auto simp: comps_ok_def)
    qed
  qed
  moreover have "store_wf v" using inv by (simp add: netlist_inv_def store_wf_def des)
  moreover have "s_net v c = s_net u c" if "c \<notin> set (term_bits d i t)" for c
  proof -
    have "\<forall>k < ?w. c \<noteq> ?c k" using that by (auto simp: bits)
    with v(6) show ?thesis by blast
  qed
  ultimately show ?thesis
    using op v(3-5) unfolding netlist_inv_def conn_inv_def by blast
qed

end
