(* ===== verification/NetlistExamples.thy ===== *)
theory NetlistExamples
  imports NetlistBus
begin

text \<open>
  Concrete stores: the inputs on which the general theorems are evaluated, and short sequences of calls
  after which the code reaches undefined behaviour or a wrong answer.
\<close>

section \<open>A store with three empty designs\<close>

definition top :: did where "top = \<lparr>ref_db = 1, ref_library = 0, ref_design = 0\<rparr>"
definition cell :: did where "cell = \<lparr>ref_db = 1, ref_library = 0, ref_design = 1\<rparr>"
definition assign_prim :: did where "assign_prim = \<lparr>ref_db = 0, ref_library = 1, ref_design = 0\<rparr>"

definition empty_store :: snl where
  "empty_store = \<lparr>s_designs = [top \<mapsto> empty_design StandardDesign ''top'',
       cell \<mapsto> empty_design StandardDesign ''cell'', assign_prim \<mapsto> empty_design Primitive ''assign''],
     s_net = Map.empty, s_components = (\<lambda>_. []), s_bitTerm = id, s_type = (\<lambda>_. Standard)\<rparr>"

lemma empty_store_inv: "netlist_inv empty_store"
  by (auto simp: netlist_inv_def conn_inv_def linked_def nets_ok_def comps_ok_def store_wf_def empty_store_def
      getComponents_def design_wf_def empty_design_def smap_inv_def split: if_splits)

lemma empty_store_names: "names_inv empty_store"
  by (auto simp: names_inv_def design_names_def index_ok_def empty_store_def design_wf_def empty_design_def
      smap_inv_def getNet_def getTerm_def getInstance_def split: if_splits)

section \<open>A store with members\<close>

text \<open>
  The design \<open>top\<close> has a scalar and a bus terminal, a scalar and a bus net and an instance of \<open>cell\<close>, which
  has one terminal; nothing is connected.
\<close>

definition sample_top :: SNLDesign where
  "sample_top = (empty_design StandardDesign ''top'')\<lparr>
     d_terms := [(0, \<lparr>t_name = ''a'', t_direction = Input, t_flatID = 0, t_kind = ScalarTerm\<rparr>),
       (1, \<lparr>t_name = ''b'', t_direction = Output, t_flatID = 1, t_kind = BusTerm 1 0 (createBits 1 0)\<rparr>)],
     d_termNameID := [''a'' \<mapsto> 0, ''b'' \<mapsto> 1],
     d_nets := [(0, \<lparr>n_name = ''n'', n_kind = ScalarNet\<rparr>), (1, \<lparr>n_name = ''m'', n_kind = BusNet 0 1 (createBits 0 1)\<rparr>)],
     d_netNameID := [''n'' \<mapsto> 0, ''m'' \<mapsto> 1],
     d_instances := [(0, \<lparr>i_model = cell, i_name = ''i'', i_instTerms = [Some (inst_term_id top 0 (scalar_term_id cell 0))]\<rparr>)],
     d_instanceNameID := [''i'' \<mapsto> 0]\<rparr>"

definition sample_cell :: SNLDesign where
  "sample_cell = (empty_design StandardDesign ''cell'')\<lparr>
     d_terms := [(0, \<lparr>t_name = ''x'', t_direction = Input, t_flatID = 0, t_kind = ScalarTerm\<rparr>)],
     d_termNameID := [''x'' \<mapsto> 0], d_slaves := [(instance_id top 0, ())]\<rparr>"

definition sample_store :: snl where
  "sample_store = empty_store\<lparr>s_designs := [top \<mapsto> sample_top, cell \<mapsto> sample_cell]\<rparr>"

lemma top_cell [simp]: "top \<noteq> cell" "cell \<noteq> top"
  by (simp_all add: top_def cell_def)

lemma sample_designs [simp]:
  "s_designs sample_store top = Some sample_top" "s_designs sample_store cell = Some sample_cell"
  by (simp_all add: sample_store_def)

lemma sample_lookups [simp]:
  "getTerm sample_top i = (if i = 0 then Some \<lparr>t_name = ''a'', t_direction = Input, t_flatID = 0, t_kind = ScalarTerm\<rparr>
     else if i = 1 then Some \<lparr>t_name = ''b'', t_direction = Output, t_flatID = 1, t_kind = BusTerm 1 0 (createBits 1 0)\<rparr>
     else None)"
  "getNet sample_top i = (if i = 0 then Some \<lparr>n_name = ''n'', n_kind = ScalarNet\<rparr>
     else if i = 1 then Some \<lparr>n_name = ''m'', n_kind = BusNet 0 1 (createBits 0 1)\<rparr> else None)"
  "getInstance sample_top i = (if i = 0 then Some \<lparr>i_model = cell, i_name = ''i'',
     i_instTerms = [Some (inst_term_id top 0 (scalar_term_id cell 0))]\<rparr> else None)"
  "getTerm sample_cell i = (if i = 0 then Some \<lparr>t_name = ''x'', t_direction = Input, t_flatID = 0, t_kind = ScalarTerm\<rparr>
     else None)"
  "getNet sample_cell i = None" "getInstance sample_cell i = None"
  by (auto simp: sample_top_def sample_cell_def empty_design_def getTerm_def getNet_def getInstance_def)

lemma sample_design_wf [simp]: "design_wf sample_top" "design_wf sample_cell"
  by (simp_all add: design_wf_def sample_top_def sample_cell_def empty_design_def smap_inv_def)

lemma sample_store_inv: "netlist_inv sample_store"
  by (auto simp: netlist_inv_def conn_inv_def linked_def nets_ok_def comps_ok_def store_wf_def sample_store_def
      empty_store_def getComponents_def smap_inv_def split: if_splits)

lemma sample_store_names: "names_inv sample_store"
proof -
  have t: "d_termNameID sample_top = [''a'' \<mapsto> 0, ''b'' \<mapsto> 1]" "d_netNameID sample_top = [''n'' \<mapsto> 0, ''m'' \<mapsto> 1]"
    "d_instanceNameID sample_top = [''i'' \<mapsto> 0]" "d_termNameID sample_cell = [''x'' \<mapsto> 0]"
    "d_netNameID sample_cell = Map.empty" "d_instanceNameID sample_cell = Map.empty"
    by (simp_all add: sample_top_def sample_cell_def empty_design_def)
  have "design_names sample_top" "design_names sample_cell"
    by (auto simp: design_names_def index_ok_def t)
  then show ?thesis by (auto simp: names_inv_def sample_store_def split: if_splits)
qed

lemma sample_slaves [simp]: "getSlaves sample_top = []" "getSlaves sample_cell = [instance_id top 0]"
  by (simp_all add: getSlaves_def sample_top_def sample_cell_def empty_design_def)

section \<open>Flat identifiers with gaps\<close>

text \<open>
  A terminal is destroyed, then the model is instantiated: the flat identifier of the other terminal
  is beyond the vector of the new instance.
\<close>

definition gap_run :: "NLID option result" where
  "gap_run = rbind (SNLScalarTerm_create (Some cell) None Input ''a'' empty_store) (\<lambda>(a, u).
     rbind (SNLScalarTerm_create (Some cell) None Output ''b'' u) (\<lambda>(b, u).
     rbind (term_destroy cell a u) (\<lambda>u.
     rbind (SNLInstance_create (Some top) (Some cell) None ''i'' u) (\<lambda>(i, u).
       getInstTerm u top i (Some (scalar_term_id cell b))))))"

lemma gap_run_undefined: "gap_run = Inl (UndefinedBehaviour ''vector index'')"
  by code_simp

text \<open>
  Terminals created with decreasing explicit identifiers: \<open>getInstTerm\<close> answers with the instance
  terminal of another terminal.
\<close>

definition disorder_run :: "NLID option result" where
  "disorder_run = rbind (SNLScalarTerm_create (Some cell) (Some 5) Input ''a'' empty_store) (\<lambda>(a, u).
     rbind (SNLScalarTerm_create (Some cell) (Some 2) Output ''b'' u) (\<lambda>(b, u).
     rbind (SNLInstance_create (Some top) (Some cell) None ''i'' u) (\<lambda>(i, u).
       getInstTerm u top i (Some (scalar_term_id cell b)))))"

lemma disorder_run_wrong: "disorder_run = Inr (Some (inst_term_id top 0 (scalar_term_id cell 5)))"
  by code_simp

section \<open>An assign of a net to itself\<close>

text \<open>
  \<open>connectAllComponentsTo\<close> clears the set of a net that is merged with itself, the net is destroyed with
  its components still pointing to it, and the destruction of the assign follows the pointer.
\<close>

definition self_assign_run :: "snl result" where
  "self_assign_run = rbind (SNLScalarTerm_create (Some assign_prim) None Input '''' empty_store) (\<lambda>(a, u).
     rbind (SNLScalarTerm_create (Some assign_prim) None Output '''' u) (\<lambda>(b, u).
     rbind (SNLScalarNet_create (Some top) None ''n'' u) (\<lambda>(n, u).
     rbind (SNLInstance_create (Some top) (Some assign_prim) None '''' u) (\<lambda>(i, u).
     rbind (setTermsNets top i [scalar_term_id assign_prim a, scalar_term_id assign_prim b]
        [Some (net_id top n), Some (net_id top n)] u) (\<lambda>u.
       mergeAssigns assign_prim (scalar_term_id assign_prim a) (scalar_term_id assign_prim b) top u)))))"

lemma self_assign_run_undefined: "failure self_assign_run = Some dangling"
  by code_simp

section \<open>Resizing a bus with a missing bit\<close>

definition missing_bit_run :: "snl result" where
  "missing_bit_run = rbind (SNLBusNet_create (Some top) None 3 0 ''b'' empty_store) (\<lambda>(n, u).
     rbind (busNetBit_destroy top n 3 u) (busNet_setMSB top n 2))"

lemma missing_bit_run_undefined: "failure missing_bit_run = Some null_pointer"
  by code_simp

end
