(* ===== verification/NetlistClient.thy ===== *)
theory NetlistClient
  imports NetlistBus
begin

text \<open>
  What a client of the netlist can build: the stores reached from one without designs by calls of the modelled
  operations, in any order and with any arguments, as long as each call returns and no automatic
  identifier has wrapped around onto one that is in use.  Every name index of such a store is exact.
\<close>

section \<open>Operations that keep the designs\<close>

lemma rbind_returns:
  assumes "rbind r f = Inr y"
  obtains x where "r = Inr x" "f x = Inr y"
  using assms by (auto simp: rbind_eq_Inr_iff)

lemma setNet_designs: "setNet c net u = Inr v \<Longrightarrow> s_designs v = s_designs u"
  by (auto simp: setNet_def connect_def addComponent_def removeComponent_def rbind_eq_Inr_iff Let_def
      split: option.splits if_splits)

lemma rfold_designs:
  assumes "rfold f xs u = Inr v" "\<And>x s t. f x s = Inr t \<Longrightarrow> s_designs t = s_designs s"
  shows "s_designs v = s_designs u"
  by (rule rfold_inv [where P = "\<lambda>w. s_designs w = s_designs u", OF _ _ assms(1)]) (auto dest: assms(2))

lemma setNets_designs: "setNets cs net u = Inr v \<Longrightarrow> s_designs v = s_designs u"
  unfolding setNets_def by (erule rfold_designs) (rule setNet_designs)

lemma bitnet_preDestroy_designs: "bitnet_preDestroy n u = Inr v \<Longrightarrow> s_designs v = s_designs u"
  by (auto simp: bitnet_preDestroy_def dest: setNets_designs)

lemma bitnets_preDestroy_designs: "rfold bitnet_preDestroy ns u = Inr v \<Longrightarrow> s_designs v = s_designs u"
  by (erule rfold_designs) (rule bitnet_preDestroy_designs)

lemma numbered_preDestroy_designs:
  "rfold (\<lambda>(b, _). bitnet_preDestroy (net_bit_id d i b)) bs u = Inr v \<Longrightarrow> s_designs v = s_designs u"
  by (erule rfold_designs) (auto dest: bitnet_preDestroy_designs)

lemma connectAll_designs: "connectAllComponentsTo n net u = Inr v \<Longrightarrow> s_designs v = s_designs u"
  by (auto simp: connectAllComponentsTo_def rbind_eq_Inr_iff dest: setNets_designs split: if_splits)

lemma setTermsNets_designs: "setTermsNets d i bts ns u = Inr v \<Longrightarrow> s_designs v = s_designs u"
proof -
  have "setTermsNets_loop d i bts ns u = Inr v \<Longrightarrow> s_designs v = s_designs u" for bts ns
  proof (induction d i bts ns u rule: setTermsNets_loop.induct)
    case (1 d i bt bts n ns u)
    obtain it w where w: "setNet it n u = Inr w" "setTermsNets_loop d i bts ns w = Inr v" "s_designs v = s_designs w"
      using 1 by (auto elim!: rbind_returns split: if_split_asm option.split_asm)
    then show ?case using setNet_designs by metis
  qed auto
  then show "setTermsNets d i bts ns u = Inr v \<Longrightarrow> ?thesis" by (auto simp: setTermsNets_def split: if_splits)
qed

lemma busTerm_setNet_designs: "busTerm_setNet d i net u = Inr v \<Longrightarrow> s_designs v = s_designs u"
  by (auto simp: busTerm_setNet_def bus_setNet_step_def elim!: rbind_returns dest!: setNet_designs setNets_designs
      split: term_kind.split_asm net_kind.split_asm option.split_asm if_split_asm elim!: rfold_designs)

lemma retarget_designs: "retarget m its u = Inr v \<Longrightarrow> s_designs v = s_designs u"
  by (induction m its u rule: retarget.induct) (auto split: option.splits)

section \<open>Nets\<close>

text \<open>An update of one design by a function that keeps its indexes.\<close>

lemma names_inv_design:
  assumes "names_inv u" "s_designs w = s_designs u" "s_designs u d = Some D" "design_names (f D)"
  shows "names_inv (upd_design d f w)"
  using assms by (intro names_inv_upd) (auto simp: names_inv_def)

lemma net_create_kept:
  assumes u: "names_inv u" and c: "net_create what (Some d) i net u = Inr (j, v)"
    and fresh: "\<And>D. s_designs u d = Some D \<Longrightarrow> i = None \<Longrightarrow> getNet D (next_id (d_nets D)) = None"
  shows "names_inv v"
proof -
  obtain D where D: "s_designs u d = Some D" "net_preCreate D i (n_name net) = Inr ()"
    "j = (case i of Some i \<Rightarrow> i | None \<Rightarrow> next_id (d_nets D))"
    and v: "v = new_bit_nets (net_bits d j net) (upd_design d (addNet j net) u)"
    using c by (auto simp: net_create_def need_design_def rbind_eq_Inr_iff Let_def)
  note ok = names_invD [OF u D(1)]
  have "getNet D j = None"
    using D fresh by (cases i) (auto simp: net_preCreate_def split: if_splits)
  then have "design_names (addNet j net D)"
    using design_names_nets(1) [OF ok] net_preCreate_free [OF ok D(2)] by blast
  then have "names_inv (upd_design d (addNet j net) u)" using names_inv_design [OF u refl D(1)] by blast
  then show ?thesis by (simp add: v names_inv_def)
qed

lemma net_destroy_kept:
  assumes u: "names_inv u" and c: "net_destroy d i u = Inr v"
  shows "names_inv v"
proof -
  obtain D net w where D: "s_designs u d = Some D" "getNet D i = Some net"
    and w: "rfold bitnet_preDestroy (net_bits d i net) u = Inr w" "v = upd_design d (removeNet i net) w"
    using c by (auto simp: net_destroy_def rbind_eq_Inr_iff the_net_eq)
  show ?thesis
    unfolding w(2)
    by (rule names_inv_design [OF u bitnets_preDestroy_designs [OF w(1)] D(1)])
      (rule design_names_nets(2) [OF names_invD [OF u D(1)] D(2)])
qed

text \<open>A bus net that loses bits keeps its name.\<close>

lemma net_bits_kept:
  assumes u: "names_inv u" and w: "s_designs w = s_designs u" and net: "the_net u d i = Inr net"
  shows "names_inv (upd_design d (set_net i (net\<lparr>n_kind := k\<rparr>)) w)"
proof -
  obtain D where D: "s_designs u d = Some D" "getNet D i = Some net" using net by (auto simp: the_net_eq)
  show ?thesis
    by (rule names_inv_design [OF u w D(1)]) (rule design_names_nets(3) [OF names_invD [OF u D(1)] D(2)], simp)
qed

lemma busNet_kept:
  assumes u: "names_inv u"
  shows "busNetBit_destroy d i b u = Inr v \<Longrightarrow> names_inv v" "busNet_setMSB d i m u = Inr v \<Longrightarrow> names_inv v"
    "busNet_setLSB d i m u = Inr v \<Longrightarrow> names_inv v"
  using net_bits_kept [OF u] u
  by (auto simp: busNetBit_destroy_def busNet_setMSB_def busNet_setLSB_def Let_def elim!: rbind_returns
      dest!: bitnet_preDestroy_designs numbered_preDestroy_designs split: net_kind.split_asm if_split_asm)


section \<open>Terminals\<close>

text \<open>Removal and shift of instance terminals keep the names, and the terminals of every design.\<close>

definition same_terms :: "snl \<Rightarrow> snl \<Rightarrow> bool" where
  "same_terms u v \<longleftrightarrow> (\<forall>d. map_option d_terms (s_designs v d) = map_option d_terms (s_designs u d))"

lemma same_terms_term:
  assumes "same_terms u w" "the_term u d i = Inr t"
  shows "\<exists>E. s_designs w d = Some E \<and> getTerm E i = Some t"
proof -
  obtain D where D: "s_designs u d = Some D" "getTerm D i = Some t" using assms(2) by (auto simp: the_term_eq)
  have "map_option d_terms (s_designs w d) = map_option d_terms (s_designs u d)" using assms(1) by (simp add: same_terms_def)
  then show ?thesis using D by (auto simp: getTerm_def)
qed

lemma instance_slots_kept:
  assumes u: "names_inv u" and I: "the_instance u d i = Inr inst" and w: "s_designs w = s_designs u"
  shows "names_inv (upd_design d (set_instance i (inst\<lparr>i_instTerms := its\<rparr>)) w)"
    "same_terms u (upd_design d (set_instance i (inst\<lparr>i_instTerms := its\<rparr>)) w)"
proof -
  obtain D where D: "s_designs u d = Some D" "getInstance D i = Some inst" using I by (auto simp: the_instance_eq)
  show "names_inv (upd_design d (set_instance i (inst\<lparr>i_instTerms := its\<rparr>)) w)"
    by (rule names_inv_design [OF u w D(1)]) (rule design_names_instances(3) [OF names_invD [OF u D(1)] D(2)], simp)
  show "same_terms u (upd_design d (set_instance i (inst\<lparr>i_instTerms := its\<rparr>)) w)"
    using D(1) w by (simp add: same_terms_def set_instance_def)
qed

lemma removeInstTerm_kept:
  assumes u: "names_inv u" and c: "removeInstTerm d i bt u = Inr v"
  shows "names_inv v \<and> same_terms u v"
proof -
  obtain inst k w where I: "the_instance u d i = Inr inst" and w: "s_designs w = s_designs u"
    and v: "v = upd_design d (set_instance i (inst\<lparr>i_instTerms := (i_instTerms inst)[k := None]\<rparr>)) w"
    using c by (auto simp: removeInstTerm_def elim!: rbind_returns dest!: setNet_designs split: option.split_asm)
  show ?thesis using instance_slots_kept [OF u I w] v by simp
qed

lemma shift_slave_kept:
  assumes u: "names_inv u" and c: "shift_slave base count width s u = Inr v"
  shows "names_inv v \<and> same_terms u v"
  using c instance_slots_kept [OF u, of "id_ref s" "id_instance s" _ u]
  by (auto simp: shift_slave_def elim!: rbind_returns)

lemma rfold_kept:
  assumes "\<And>x s t. names_inv s \<Longrightarrow> f x s = Inr t \<Longrightarrow> names_inv t \<and> same_terms s t"
    and "names_inv u" "rfold f xs u = Inr v"
  shows "names_inv v \<and> same_terms u v"
  by (rule rfold_inv [where P = "\<lambda>w. names_inv w \<and> same_terms u w", OF _ _ assms(3)])
    (use assms(1,2) in \<open>fastforce simp: same_terms_def\<close>)+

lemma removeInstTerms_kept: "names_inv u \<Longrightarrow> removeInstTerms s bts u = Inr v \<Longrightarrow> names_inv v \<and> same_terms u v"
  unfolding removeInstTerms_def by (rule rfold_kept [OF removeInstTerm_kept])

lemma remove_and_shift_kept:
  assumes u: "names_inv u" and c: "rbind (removeInstTerms s bts u) (shift_slave base count width s) = Inr v"
  shows "names_inv v \<and> same_terms u v"
proof -
  obtain w where w: "removeInstTerms s bts u = Inr w" "shift_slave base count width s w = Inr v" using c by (rule rbind_returns)
  note k = removeInstTerms_kept [OF u w(1)]
  show ?thesis using shift_slave_kept [OF conjunct1 [OF k] w(2)] k by (simp add: same_terms_def)
qed

lemma removal_loops_kept:
  assumes "names_inv u"
  shows "rfold (\<lambda>s. removeInstTerms s bts) ss u = Inr v \<Longrightarrow> names_inv v \<and> same_terms u v"
    "rfold (\<lambda>s. removeInstTerm (id_ref s) (id_instance s) bt) ss u = Inr v \<Longrightarrow> names_inv v \<and> same_terms u v"
    "rfold (\<lambda>s u. rbind (removeInstTerms s bts u) (shift_slave base count width s)) ss u = Inr v \<Longrightarrow> names_inv v \<and> same_terms u v"
proof -
  note loop = rfold_kept [OF _ assms]
  show "rfold (\<lambda>s. removeInstTerms s bts) ss u = Inr v \<Longrightarrow> names_inv v \<and> same_terms u v"
    by (erule loop [rotated]) (rule removeInstTerms_kept)
  show "rfold (\<lambda>s. removeInstTerm (id_ref s) (id_instance s) bt) ss u = Inr v \<Longrightarrow> names_inv v \<and> same_terms u v"
    by (erule loop [rotated]) (rule removeInstTerm_kept)
  show "rfold (\<lambda>s u. rbind (removeInstTerms s bts u) (shift_slave base count width s)) ss u = Inr v \<Longrightarrow> names_inv v \<and> same_terms u v"
    by (erule loop [rotated]) (rule remove_and_shift_kept)
qed

lemma removeTerm_kept:
  assumes u: "names_inv u" and c: "removeTerm d i u = Inr v"
  shows "names_inv v"
proof -
  obtain D t w where t: "the_term u d i = Inr t"
    and w: "rfold (\<lambda>s. removeInstTerms s (term_bits d i t)) (getSlaves D) u = Inr w" "v = upd_design d (eraseTerm i t) w"
    using c by (auto simp: removeTerm_def elim!: rbind_returns)
  note k = removal_loops_kept(1) [OF u w(1)]
  obtain E where E: "s_designs w d = Some E" "getTerm E i = Some t" using same_terms_term [OF conjunct2 [OF k] t] by blast
  show ?thesis
    unfolding w(2) by (rule names_inv_design [OF conjunct1 [OF k] refl E(1)])
      (rule design_names_terms(2) [OF names_invD [OF conjunct1 [OF k] E(1)] E(2)])
qed

lemma term_destroy_kept:
  assumes u: "names_inv u" and c: "term_destroy d i u = Inr v"
  shows "names_inv v"
proof -
  have nets: "setNets cs net x = Inr w \<Longrightarrow> names_inv x \<Longrightarrow> names_inv w" for cs net x w
    using setNets_designs names_inv_same by blast
  obtain t where t: "the_term u d i = Inr t" using c by (auto simp: term_destroy_def elim!: rbind_returns)
  show ?thesis
  proof (cases "t_kind t")
    case ScalarTerm
    then obtain w where "setNets (term_bits d i t) None u = Inr w" "removeTerm d i w = Inr v"
      using c t by (auto simp: term_destroy_def elim!: rbind_returns)
    then show ?thesis using nets u removeTerm_kept by blast
  next
    case (BusTerm msb lsb bits)
    then obtain w where "removeTerm d i u = Inr w" "setNets (term_bits d i t) None w = Inr v"
      using c t by (auto simp: term_destroy_def elim!: rbind_returns)
    then show ?thesis using nets u removeTerm_kept by blast
  qed
qed

text \<open>A bus terminal that loses bits keeps its name.\<close>

lemma term_bits_kept:
  assumes u: "names_inv w" "same_terms u w" and t: "the_term u d i = Inr t" and x: "s_designs x = s_designs w"
  shows "names_inv (upd_design d (set_term i (t\<lparr>t_kind := k\<rparr>)) x)"
proof -
  obtain E where E: "s_designs w d = Some E" "getTerm E i = Some t" using same_terms_term [OF u(2) t] by blast
  show ?thesis
    by (rule names_inv_design [OF u(1) x E(1)]) (rule design_names_terms(3) [OF names_invD [OF u(1) E(1)] E(2)], simp)
qed

lemma busTermBit_destroy_kept:
  assumes u: "names_inv u" and c: "busTermBit_destroy d i b u = Inr v"
  shows "names_inv v"
proof -
  obtain t w k D where t: "the_term u d i = Inr t" and w: "s_designs w = s_designs u"
    and v: "rfold (\<lambda>s. removeInstTerm (id_ref s) (id_instance s) (term_bit_id d i b)) (getSlaves D)
      (upd_design d (set_term i (t\<lparr>t_kind := k\<rparr>)) w) = Inr v"
    using c by (auto simp: busTermBit_destroy_def elim!: rbind_returns dest!: setNet_designs split: term_kind.split_asm if_split_asm)
  have "same_terms u u" by (simp add: same_terms_def)
  from removal_loops_kept(2) [OF term_bits_kept [OF u this t w] v] show ?thesis ..
qed

lemma busTerm_resize_kept:
  assumes u: "names_inv u"
  shows "busTerm_setMSB d i m u = Inr v \<Longrightarrow> names_inv v" "busTerm_setLSB d i m u = Inr v \<Longrightarrow> names_inv v"
  using u
  by (auto simp: busTerm_setMSB_def busTerm_setLSB_def Let_def elim!: rbind_returns
      dest!: setNets_designs removal_loops_kept(1,3) [OF u] intro: term_bits_kept split: term_kind.split_asm if_split_asm)

section \<open>Instances\<close>

lemma remove_slave_kept:
  assumes u: "names_inv u" and c: "remove_slave d i inst u = Inr v"
  shows "names_inv v \<and> (\<forall>e k. the_instance v e k = the_instance u e k)"
proof -
  obtain M where M: "s_designs u (i_model inst) = Some M"
    "v = (if isPrimitive M then u else upd_design (i_model inst) (removeSlaveInstance (instance_id d i)) u)"
    using c by (auto simp: remove_slave_def elim!: rbind_returns)
  have "names_inv (upd_design (i_model inst) (removeSlaveInstance (instance_id d i)) u)"
    by (rule names_inv_design [OF u refl M(1)]) (rule design_names_slaves(2) [OF names_invD [OF u M(1)]])
  then show ?thesis
    using M u by (auto simp: the_instance_def the_design_def lookups_unchanged)
qed

lemma instance_destroy_kept:
  assumes u: "names_inv u" and c: "instance_destroy d i u = Inr v"
  shows "names_inv v"
proof -
  obtain inst w where I: "the_instance u d i = Inr inst" and w: "remove_slave d i inst u = Inr w"
    and v: "instance_commonPreDestroy inst (upd_design d (removeInstance i inst) w) = Inr v"
    using c by (auto simp: instance_destroy_def elim!: rbind_returns)
  note k = remove_slave_kept [OF u w]
  obtain D where D: "s_designs w d = Some D" "getInstance D i = Some inst" using k I by (metis the_instance_eq)
  have "names_inv (upd_design d (removeInstance i inst) w)"
    by (rule names_inv_design [OF conjunct1 [OF k] refl D(1)])
      (rule design_names_instances(2) [OF names_invD [OF conjunct1 [OF k] D(1)] D(2)])
  then show ?thesis
    using names_inv_same [OF setNets_designs [OF v [unfolded instance_commonPreDestroy_def]]] by simp
qed

lemma instance_setModel_kept:
  assumes u: "names_inv u" and c: "instance_setModel d i m' u = Inr v"
  shows "names_inv v"
proof (cases "v = u")
  case False
  then obtain inst M M' w where I: "the_instance u d i = Inr inst" and w: "s_designs w = s_designs u"
    and v: "v = upd_design d (set_instance i (inst\<lparr>i_model := m'\<rparr>))
      (let x = (if isPrimitive M then w else upd_design (i_model inst) (removeSlaveInstance (instance_id d i)) w)
       in if isPrimitive M' then x else upd_design m' (addSlaveInstance (instance_id d i)) x)"
    using c by (auto simp: instance_setModel_def Let_def elim!: rbind_returns dest!: retarget_designs split: if_split_asm)
  define x where "x = (if isPrimitive M then w else upd_design (i_model inst) (removeSlaveInstance (instance_id d i)) w)"
  define y where "y = (if isPrimitive M' then x else upd_design m' (addSlaveInstance (instance_id d i)) x)"
  have wn: "names_inv w" using names_inv_same [OF w] u by simp
  have xn: "names_inv x" using wn by (auto simp: x_def intro!: names_inv_upd design_names_slaves dest: names_invD)
  have yn: "names_inv y" using xn by (auto simp: y_def intro!: names_inv_upd design_names_slaves dest: names_invD)
  have "the_instance w d i = Inr inst" using I w by (simp add: the_instance_eq)
  then have "the_instance x d i = Inr inst" by (auto simp: x_def the_instance_eq lookups_unchanged)
  then have "the_instance y d i = Inr inst" by (auto simp: y_def the_instance_eq lookups_unchanged)
  then obtain D where D: "s_designs y d = Some D" "getInstance D i = Some inst" by (auto simp: the_instance_eq)
  have "v = upd_design d (set_instance i (inst\<lparr>i_model := m'\<rparr>)) y" using v by (simp add: Let_def x_def y_def)
  then show ?thesis
    using names_inv_design [OF yn refl D(1)] design_names_instances(3) [OF names_invD [OF yn D(1)] D(2)] by simp
qed (use u in simp)


section \<open>Merging assigns\<close>

lemma assign_step_kept:
  assumes u: "names_inv u" and c: "assign_step d input output i u = Inr v"
  shows "names_inv v"
proof -
  obtain out net w where w: "connectAllComponentsTo out net u = Inr w"
    "(if id_type out = T_Net then net_destroy d (id_object out) w else Inr w) = Inr v"
    using c unfolding assign_step_def by (elim rbind_returns) (auto elim!: rbind_returns split: option.split_asm)
  have "names_inv w" using names_inv_same [OF connectAll_designs [OF w(1)]] u by simp
  then show ?thesis using w(2) net_destroy_kept by (cases "id_type out = T_Net") auto
qed

lemma mergeAssigns_kept:
  assumes u: "names_inv u" and c: "mergeAssigns assign input output d u = Inr v"
  shows "names_inv v"
proof -
  obtain ks w where w: "rfold (assign_step d input output) ks u = Inr w" "rfold (instance_destroy d) ks w = Inr v"
    using c by (auto simp: mergeAssigns_def Let_def elim!: rbind_returns)
  have "names_inv w" by (rule rfold_inv [where P = names_inv, OF _ u w(1)]) (rule assign_step_kept)
  then show ?thesis by (rule rfold_inv [where P = names_inv, OF _ _ w(2), rotated]) (rule instance_destroy_kept)
qed

section \<open>Destruction of a design\<close>

text \<open>While a design is destroyed its own indexes are stale; those of the other designs stay exact.\<close>

definition names_but :: "did \<Rightarrow> snl \<Rightarrow> bool" where
  "names_but d u \<longleftrightarrow> (\<forall>e D. e \<noteq> d \<longrightarrow> s_designs u e = Some D \<longrightarrow> design_names D)"

lemma names_but_same: "s_designs v = s_designs u \<Longrightarrow> names_but d u \<Longrightarrow> names_but d v"
  by (simp add: names_but_def)

lemma names_but_upd:
  "names_but d u \<Longrightarrow> (\<And>D. e \<noteq> d \<Longrightarrow> s_designs u e = Some D \<Longrightarrow> design_names D \<Longrightarrow> design_names (f D)) \<Longrightarrow> names_but d (upd_design e f u)"
  by (auto simp: names_but_def split: if_splits)

lemma destroyFromDesign_but:
  assumes "names_but d u"
  shows "instance_destroyFromDesign d e u = Inr v \<Longrightarrow> names_but d v" "term_destroyFromDesign d x u = Inr v \<Longrightarrow> names_but d v"
    "net_destroyFromDesign d y u = Inr v \<Longrightarrow> names_but d v"
proof -
  show "names_but d v" if c: "instance_destroyFromDesign d e u = Inr v"
  proof -
    obtain w where w: "remove_slave d (fst e) (snd e) u = Inr w" "instance_commonPreDestroy (snd e) w = Inr v"
      using c by (auto simp: instance_destroyFromDesign_def elim!: rbind_returns)
    have "names_but d w"
      using w(1) assms by (auto simp: remove_slave_def elim!: rbind_returns intro!: names_but_upd design_names_slaves)
    then show ?thesis using names_but_same setNets_designs w(2) unfolding instance_commonPreDestroy_def by blast
  qed
  show "names_but d v" if c: "term_destroyFromDesign d x u = Inr v"
    using setNets_designs [OF c [unfolded term_destroyFromDesign_def]] assms
    by (rule names_but_same [OF _ names_but_upd]) simp
  show "names_but d v" if c: "net_destroyFromDesign d y u = Inr v"
    using bitnets_preDestroy_designs [OF c [unfolded net_destroyFromDesign_def]] assms by (rule names_but_same)
qed

lemma destroyFromModel_but:
  assumes u: "names_but d u" and c: "instance_destroyFromModel s u = Inr v"
  shows "names_but d v"
proof -
  obtain inst where I: "the_instance u (id_ref s) (id_instance s) = Inr inst"
    and v: "instance_commonPreDestroy inst (upd_design (id_ref s) (removeInstance (id_instance s) inst) u) = Inr v"
    using c by (auto simp: instance_destroyFromModel_def elim!: rbind_returns)
  have "names_but d (upd_design (id_ref s) (removeInstance (id_instance s) inst) u)"
    by (rule names_but_upd [OF u]) (use I in \<open>auto simp: the_instance_eq intro: design_names_instances(2)\<close>)
  then show ?thesis using names_but_same setNets_designs v unfolding instance_commonPreDestroy_def by blast
qed

lemma but_loop:
  assumes "rfold f xs s = Inr t" "names_but d s" "\<And>x s t. names_but d s \<Longrightarrow> f x s = Inr t \<Longrightarrow> names_but d t"
  shows "names_but d t"
  by (rule rfold_inv [where P = "names_but d", OF _ assms(2,1)]) (rule assms(3))

lemma but_upd: "names_but d s \<Longrightarrow> names_but d (upd_design d f s)"
  by (rule names_but_upd) simp_all

lemma design_commonPreDestroy_but:
  assumes u: "names_but d u" and c: "design_commonPreDestroy d u = Inr v"
  shows "names_but d v"
  using c unfolding design_commonPreDestroy_def Let_def
proof (elim rbind_returns, goal_cases)
  case (1 D w E x y z)
  have w: "names_but d w" by (rule but_loop [OF 1(2) u destroyFromDesign_but(1)])
  have x: "names_but d x"
  proof (cases "isPrimitive E")
    case True
    then show ?thesis using 1(4) but_upd [OF w] by auto
  next
    case False
    then obtain y where y: "rfold instance_destroyFromModel (getSlaves E) (upd_design d (\<lambda>D. D\<lparr>d_instances := []\<rparr>) w) = Inr y"
      "Inr (upd_design d (\<lambda>D. D\<lparr>d_slaves := []\<rparr>) y) = Inr x"
      using 1(4) by (auto elim: rbind_returns)
    have "names_but d y" by (rule but_loop [OF y(1) but_upd [OF w] destroyFromModel_but])
    then show ?thesis using y(2) but_upd by auto
  qed
  have y: "names_but d y" by (rule but_loop [OF 1(5) x destroyFromDesign_but(2)])
  have "names_but d z" by (rule but_loop [OF 1(6) but_upd [OF y] destroyFromDesign_but(3)])
  then show ?case using 1(7) but_upd by auto
qed

lemma design_destroy_kept:
  assumes u: "names_inv u" and c: "design_destroy d u = Inr v"
  shows "names_inv v"
proof -
  obtain w where w: "design_commonPreDestroy d u = Inr w" "v = w\<lparr>s_designs := (s_designs w)(d := None)\<rparr>"
    using c by (auto simp: design_destroy_def elim!: rbind_returns)
  have "names_but d u" using u by (auto simp: names_but_def names_inv_def)
  from design_commonPreDestroy_but [OF this w(1)] show ?thesis
    by (auto simp: w(2) names_but_def names_inv_def split: if_splits)
qed


section \<open>Renaming\<close>

lemma setName_kept:
  assumes u: "names_inv u"
  shows "net_setName d i name u = Inr v \<Longrightarrow> names_inv v" "term_setName d i name u = Inr v \<Longrightarrow> names_inv v"
    "instance_setName d i name u = Inr v \<Longrightarrow> names_inv v"
proof -
  show "names_inv v" if c: "net_setName d i name u = Inr v"
  proof -
    obtain D net where D: "s_designs u d = Some D" "getNet D i = Some net"
      and free: "v = u \<or> name = '''' \<or> getNet_name D name = None"
      using c by (auto simp: net_setName_def the_net_eq simp del: not_None_eq elim!: rbind_returns split: if_split_asm)
    then show ?thesis using net_setName_names [OF u D, of name] c u by auto
  qed
  show "names_inv v" if c: "term_setName d i name u = Inr v"
  proof -
    obtain D t where D: "s_designs u d = Some D" "getTerm D i = Some t"
      and free: "v = u \<or> name = '''' \<or> getTerm_name D name = None"
      using c by (auto simp: term_setName_def the_term_eq simp del: not_None_eq elim!: rbind_returns split: if_split_asm)
    then show ?thesis using term_setName_names [OF u D, of name] c u by auto
  qed
  show "names_inv v" if c: "instance_setName d i name u = Inr v"
  proof -
    obtain D inst where D: "s_designs u d = Some D" "getInstance D i = Some inst"
      and free: "v = u \<or> name = '''' \<or> getInstance_name D name = None"
      using c by (auto simp: instance_setName_def the_instance_eq simp del: not_None_eq elim!: rbind_returns split: if_split_asm)
    then show ?thesis using instance_setName_names [OF u D, of name] c u by auto
  qed
qed

section \<open>Clients\<close>

text \<open>
  An automatic identifier is one more than the last, in 32 bits; after that many creations it may be in use, and
  the code does not look.
\<close>

definition id_left :: "nat option \<Rightarrow> (nat, 'v) smap \<Rightarrow> bool" where
  "id_left i m \<longleftrightarrow> i \<noteq> None \<or> smap_find (<) (next_id m) m = None"

text \<open>One call that returns.  A library gives a new design an identifier that is not in use.\<close>

inductive netlist_call :: "snl \<Rightarrow> snl \<Rightarrow> bool" where
  new_design: "s_designs u d = None \<Longrightarrow> netlist_call u (u\<lparr>s_designs := (s_designs u)(d \<mapsto> empty_design ty name)\<rparr>)"
| design_destroy: "design_destroy d u = Inr v \<Longrightarrow> netlist_call u v"
| net_create: "net_create what (Some d) i net u = Inr (j, v) \<Longrightarrow> s_designs u d = Some D \<Longrightarrow> id_left i (d_nets D) \<Longrightarrow> netlist_call u v"
| net_destroy: "net_destroy d i u = Inr v \<Longrightarrow> netlist_call u v"
| net_setName: "net_setName d i name u = Inr v \<Longrightarrow> netlist_call u v"
| busNetBit_destroy: "busNetBit_destroy d i b u = Inr v \<Longrightarrow> netlist_call u v"
| busNet_setMSB: "busNet_setMSB d i m u = Inr v \<Longrightarrow> netlist_call u v"
| busNet_setLSB: "busNet_setLSB d i m u = Inr v \<Longrightarrow> netlist_call u v"
| term_create: "term_create what (Some d) i t u = Inr (j, v) \<Longrightarrow> s_designs u d = Some D \<Longrightarrow> id_left i (d_terms D) \<Longrightarrow> netlist_call u v"
| term_destroy: "term_destroy d i u = Inr v \<Longrightarrow> netlist_call u v"
| term_setName: "term_setName d i name u = Inr v \<Longrightarrow> netlist_call u v"
| busTermBit_destroy: "busTermBit_destroy d i b u = Inr v \<Longrightarrow> netlist_call u v"
| busTerm_setMSB: "busTerm_setMSB d i m u = Inr v \<Longrightarrow> netlist_call u v"
| busTerm_setLSB: "busTerm_setLSB d i m u = Inr v \<Longrightarrow> netlist_call u v"
| SNLInstance_create: "SNLInstance_create (Some d) (Some model) i name u = Inr (j, v) \<Longrightarrow> s_designs u d = Some D \<Longrightarrow>
    id_left i (d_instances D) \<Longrightarrow> netlist_call u v"
| instance_destroy: "instance_destroy d i u = Inr v \<Longrightarrow> netlist_call u v"
| instance_setName: "instance_setName d i name u = Inr v \<Longrightarrow> netlist_call u v"
| instance_setModel: "instance_setModel d i model u = Inr v \<Longrightarrow> netlist_call u v"
| setNet: "setNet c net u = Inr v \<Longrightarrow> netlist_call u v"
| busTerm_setNet: "busTerm_setNet d i net u = Inr v \<Longrightarrow> netlist_call u v"
| setTermsNets: "setTermsNets d i bts ns u = Inr v \<Longrightarrow> netlist_call u v"
| mergeAssigns: "mergeAssigns assign input output d u = Inr v \<Longrightarrow> netlist_call u v"

inductive reachable :: "snl \<Rightarrow> bool" where
  no_design: "s_designs u = Map.empty \<Longrightarrow> reachable u"
| call: "reachable u \<Longrightarrow> netlist_call u v \<Longrightarrow> reachable v"

lemma empty_design_names: "design_names (empty_design ty name)"
  by (simp add: design_names_def index_ok_def design_wf_def empty_design_def smap_inv_def getNet_def getTerm_def getInstance_def)

lemma call_kept: "netlist_call u v \<Longrightarrow> names_inv u \<Longrightarrow> names_inv v"
proof (induction rule: netlist_call.induct)
  case (new_design u d ty name)
  then show ?case by (auto simp: names_inv_def empty_design_names split: if_splits)
next
  case (net_create what d i net u j v D)
  then show ?case by (intro net_create_kept [OF net_create.prems net_create.hyps(1)]) (simp add: id_left_def getNet_def)
next
  case (term_create what d i t u j v D)
  show ?case
    by (rule term_create_names [OF term_create.prems term_create.hyps(2,1)]) (use term_create.hyps(3) in \<open>simp add: id_left_def getTerm_def\<close>)
next
  case (SNLInstance_create d model i name u j v D)
  show ?case
    by (rule SNLInstance_create_names [OF SNLInstance_create.prems SNLInstance_create.hyps(2,1)])
      (use SNLInstance_create.hyps(3) in \<open>simp add: id_left_def getInstance_def\<close>)
qed (blast intro: design_destroy_kept net_destroy_kept setName_kept busNet_kept term_destroy_kept busTermBit_destroy_kept
    busTerm_resize_kept instance_destroy_kept instance_setModel_kept mergeAssigns_kept
    names_inv_same [OF setNet_designs, THEN iffD2] names_inv_same [OF busTerm_setNet_designs, THEN iffD2]
    names_inv_same [OF setTermsNets_designs, THEN iffD2])+

lemma reachable_names: "reachable u \<Longrightarrow> names_inv u"
proof (induction rule: reachable.induct)
  case (no_design u)
  then show ?case by (simp add: names_inv_def)
next
  case (call u v)
  then show ?case using call_kept by blast
qed

end
