(* ===== verification/NetlistTheorems.thy ===== *)
theory NetlistTheorems
  imports NetlistExamples NetlistClient
begin

text \<open>
  The properties of the netlist operations, each with its instance on a concrete store: connections stay
  symmetric, every creation and destruction keeps the two invariants, names find their object, an
  instance terminal is found by its flat number, an assign merges its two nets.
\<close>

section \<open>Connections\<close>

text \<open>
  C11.  \<open>setNet\<close> on a component and a bit net of one design always returns: afterwards the
  component points to that net and the net lists it, no other component has changed net, and
  the two directions of every connection still agree with every object alive.
\<close>

theorem setNet_connects:
  assumes "netlist_inv u" "live_component u c" "live_net u n" "id_ref n = id_ref c"
  shows "\<exists>v. setNet c (Some n) u = Inr v \<and> netlist_inv v \<and> s_net v = (s_net u)(c \<mapsto> n) \<and>
    c \<in> set (getComponents v n) \<and> s_designs v = s_designs u"
proof -
  have ci: "linked u" "nets_ok u" "conn_inv u" "store_wf u"
    using assms(1) by (auto simp: netlist_inv_def conn_inv_def)
  obtain v where v: "setNet c (Some n) u = Inr v" "s_net v = (s_net u)(c \<mapsto> n)" "same_objs u v" "linked v"
    using setNet_spec [OF ci(1,2) assms(3,4)] by blast
  have "conn_inv v"
    using setNet_conn_inv [OF ci(3) assms(2) _ v(1)] assms(3) by (auto simp: net_ptr_def)
  moreover have "c \<in> set (getComponents v n)"
    using v(2,4) unfolding linked_def by (metis fun_upd_same)
  ultimately show ?thesis
    using v ci(4) by (auto simp: netlist_inv_def store_wf_def same_objs_def)
qed

theorem setNet_connects_witness:
  "\<exists>v. setNet (scalar_term_id top 0) (Some (net_id top 0)) sample_store = Inr v \<and> netlist_inv v \<and>
    s_net v = (s_net sample_store)(scalar_term_id top 0 \<mapsto> net_id top 0) \<and>
    scalar_term_id top 0 \<in> set (getComponents v (net_id top 0)) \<and> s_designs v = s_designs sample_store"
  by (rule setNet_connects)
    (simp_all add: sample_store_inv live_component_def live_term_def' live_net_def' term_bits_def net_bits_def)

text \<open>
  C12.  A call of \<open>setNet\<close> with a net of another design throws and one with a bus of more than
  one bit throws; no such call connects anything.
\<close>

theorem setNet_refuses:
  assumes "id_ref n \<noteq> id_ref c \<or>
    (\<exists>D net msb lsb bits. id_type n = T_Net \<and> s_designs u (id_ref n) = Some D \<and> getNet D (id_object n) = Some net \<and>
      n_kind net = BusNet msb lsb bits \<and> getWidth msb lsb \<noteq> 1)"
  shows "\<exists>e. setNet c (Some n) u = Inl (NLException e)"
  using assms by (auto simp: setNet_def resolve_bit_net_def)

theorem setNet_refuses_witness:
  "\<exists>e. setNet (scalar_term_id top 0) (Some (net_id top 1)) sample_store = Inl (NLException e)"
  by (rule setNet_refuses) (simp add: getWidth_def)

section \<open>Nets\<close>




text \<open>
  C14.  \<open>destroy\<close> of a scalar or bus net always returns; exactly the components that were on its bits are
  disconnected, no component points to a destroyed net, and the invariants hold.
\<close>

theorem net_destroy_disconnects:
  assumes "netlist_inv u" "names_inv u" "s_designs u d = Some D" "getNet D i = Some net"
  shows "\<exists>v. net_destroy d i u = Inr v \<and> netlist_inv v \<and> names_inv v \<and>
    s_net v = (\<lambda>c. if s_net u c \<in> Some ` set (net_bits d i net) then None else s_net u c) \<and>
    s_designs v = (s_designs u)(d \<mapsto> removeNet i net D)"
proof -
  obtain v where v: "net_destroy d i u = Inr v" "netlist_inv v"
    "s_designs v = (s_designs u)(d \<mapsto> removeNet i net D)"
    "s_net v = (\<lambda>c. if s_net u c \<in> Some ` set (net_bits d i net) then None else s_net u c)"
    using net_destroy_inv [OF assms(1,3,4)] by auto
  with net_destroy_names [OF assms v(1)] show ?thesis by simp
qed

theorem net_destroy_disconnects_witness:
  "\<exists>v. net_destroy top 1 sample_store = Inr v \<and> netlist_inv v \<and> names_inv v"
  using net_destroy_disconnects [OF sample_store_inv sample_store_names sample_designs(1), of 1] by auto

section \<open>Terminals\<close>

text \<open>
  C15.  The creation of a terminal whose name and identifier are free returns, whatever the number of instances of the
  design: the terminal is found under its identifier, with the flat number behind the last terminal, and no other
  terminal changes; every registered slave instance gets the instance terminals of the new bits, in order,
  behind those it had, and no other instance changes; nothing is connected or lost, and the invariants hold.
\<close>

theorem term_create_keeps_invariants:
  assumes "netlist_inv u" "names_inv u" "s_designs u d = Some D" "term_preCreate D i (t_name t) = Inr ()"
    and "j = (case i of Some k \<Rightarrow> k | None \<Rightarrow> next_id (d_terms D))" "getTerm D j = None" "slaves_live u D"
    and "\<forall>s\<in>set (getSlaves D). \<forall>bt\<in>set (term_bits d j t).
      \<not> live_instTerm u (inst_term_id (id_ref s) (id_instance s) bt)"
    and "\<forall>s\<in>set (getSlaves D). s = instance_id (id_ref s) (id_instance s)"
  shows "\<exists>v E. term_create what (Some d) i t u = Inr (j, v) \<and> netlist_inv v \<and> names_inv v \<and> extends u v \<and> s_net v = s_net u \<and>
    s_designs v d = Some E \<and> getTerm E j = Some (t\<lparr>t_flatID := next_flatID D\<rparr>) \<and> (\<forall>k. k \<noteq> j \<longrightarrow> getTerm E k = getTerm D k) \<and>
    (\<forall>e k inst. the_instance u e k = Inr inst \<longrightarrow> the_instance v e k = Inr
       (if instance_id e k \<in> set (getSlaves D)
        then inst\<lparr>i_instTerms := i_instTerms inst @ map (\<lambda>bt. Some (inst_term_id e k bt)) (term_bits d j t)\<rparr> else inst))"
proof -
  have wf: "store_wf u" "design_wf D" using assms(1,3) by (auto simp: netlist_inv_def store_wf_def)
  obtain v where v: "term_create what (Some d) i t u = Inr (j, v)" "netlist_inv v" "extends u v"
    using term_create_inv [OF assms(1,3-7)] assms(8) by blast
  have names: "names_inv v"
    using assms(5,6) by (intro term_create_names [OF assms(2,3) v(1)]) simp
  have "addTerm d j t u = Inr v"
    using v(1) assms(3,5) by (auto simp: term_create_def need_design_def rbind_eq_Inr_iff Let_def)
  note r = addTerm_result [OF wf(1) assms(3,6) this]
  have ids: "slave_ids (getSlaves D)" using wf_slaves_distinct [OF wf(2)] assms(9) by (simp add: slave_ids_def)
  have "s_net v = s_net u" using v(3) by (simp add: extends_def)
  then show ?thesis using v names r(1) [OF ids] r(2) [OF ids, unfolded with_instTerms_def] by blast
qed

theorem term_create_keeps_invariants_witness:
  "\<exists>v inst. term_create ''SNLScalarTerm'' (Some cell) None
      \<lparr>t_name = ''y'', t_direction = Output, t_flatID = 0, t_kind = ScalarTerm\<rparr> sample_store = Inr (1, v) \<and>
    netlist_inv v \<and> names_inv v \<and> the_instance v top 0 = Inr inst \<and> i_instTerms inst =
      [Some (inst_term_id top 0 (scalar_term_id cell 0)), Some (inst_term_id top 0 (scalar_term_id cell 1))]"
proof -
  let ?t = "\<lparr>t_name = ''y'', t_direction = Output, t_flatID = 0, t_kind = ScalarTerm\<rparr>"
  have n: "d_terms sample_cell = [(0, \<lparr>t_name = ''x'', t_direction = Input, t_flatID = 0, t_kind = ScalarTerm\<rparr>)]"
    "d_termNameID sample_cell = [''x'' \<mapsto> 0]"
    by (simp_all add: sample_cell_def empty_design_def)
  have j: "1 = (case None of None \<Rightarrow> next_id (d_terms sample_cell) | Some k \<Rightarrow> k)"
    by (simp add: n next_id_def u32_def)
  have pre: "term_preCreate sample_cell None (t_name ?t) = Inr ()"
    by (simp add: term_preCreate_def getTerm_name_def n)
  have h: "getTerm sample_cell 1 = None" "slaves_live sample_store sample_cell"
    "\<forall>s\<in>set (getSlaves sample_cell). \<forall>bt\<in>set (term_bits cell 1 ?t).
      \<not> live_instTerm sample_store (inst_term_id (id_ref s) (id_instance s) bt)"
    "\<forall>s\<in>set (getSlaves sample_cell). s = instance_id (id_ref s) (id_instance s)"
    by (simp_all add: slaves_live_def the_instance_def term_bits_def live_instTerm_def' inst_term_id_def)
  have I: "the_instance sample_store top 0 = Inr \<lparr>i_model = cell, i_name = ''i'',
     i_instTerms = [Some (inst_term_id top 0 (scalar_term_id cell 0))]\<rparr>"
    by (simp add: the_instance_def)
  show ?thesis
    using term_create_keeps_invariants [OF sample_store_inv sample_store_names sample_designs(2) pre j h, of "''SNLScalarTerm''"] I
    by (fastforce simp: term_bits_def)
qed



section \<open>Instances\<close>

text \<open>
  C17.  The creation of an instance in a non-primitive design with a free name and identifier
  returns and keeps the invariants; when the flat numbers of the model are dense, \<open>getInstTerm\<close> on
  the new instance finds, for every bit terminal of the model, the instance terminal of that bit.
\<close>

theorem instance_create_finds_terminals:
  assumes "netlist_inv u" "names_inv u" "s_designs u d = Some D" "s_designs u m = Some M" "dense M"
    and "instance_preCreate D i name = Inr ()"
    and "j = (case i of Some k \<Rightarrow> k | None \<Rightarrow> next_id (d_instances D))" "getInstance D j = None"
  shows "\<exists>v. SNLInstance_create (Some d) (Some m) i name u = Inr (j, v) \<and> netlist_inv v \<and> names_inv v \<and>
    (\<forall>bt\<in>set (getBitTerms m M). getInstTerm v d j (Some bt) = Inr (Some (inst_term_id d j bt)))"
proof -
  obtain v where v: "SNLInstance_create (Some d) (Some m) i name u = Inr (j, v)" "netlist_inv v"
    using SNLInstance_create_inv [OF assms(1,3,4,6-8)] by blast
  have fresh: "i = None \<Longrightarrow> getInstance D (next_id (d_instances D)) = None"
    using assms(7,8) by simp
  have "id_ref bt = m" if "bt \<in> set (getBitTerms m M)" for bt
    using that term_bits_object by (fastforce simp: getBitTerms_def)
  then show ?thesis
    using v SNLInstance_create_names [OF assms(2,3) v(1) fresh]
      new_instance_getInstTerm [OF assms(1,3,4,5) v(1) fresh] by blast
qed

theorem instance_create_finds_terminals_witness:
  "\<exists>v. SNLInstance_create (Some top) (Some cell) None ''k'' sample_store = Inr (1, v) \<and>
    getInstTerm v top 1 (Some (scalar_term_id cell 0)) = Inr (Some (inst_term_id top 1 (scalar_term_id cell 0)))"
proof -
  have c: "dense sample_cell" "getBitTerms cell sample_cell = [scalar_term_id cell 0]"
    by (simp_all add: dense_def getBitTerms_def term_bits_def full_term_def sample_cell_def empty_design_def)
  have "instance_preCreate sample_top None ''k'' = Inr ()"
    "1 = (case None of None \<Rightarrow> next_id (d_instances sample_top) | Some k \<Rightarrow> k)"
    by (simp_all add: instance_preCreate_def isPrimitive_def getInstance_name_def next_id_def sample_top_def
        empty_design_def u32_def)
  from instance_create_finds_terminals
    [OF sample_store_inv sample_store_names sample_designs c(1) this]
  show ?thesis by (auto simp: c)
qed

text \<open>
  C18.  \<open>destroy\<close> of an instance always returns, disconnects exactly its instance terminals and keeps the
  invariant: no net lists an instance terminal that was deleted.
\<close>

theorem instance_destroy_disconnects:
  assumes "netlist_inv u" "the_instance u d i = Inr inst" "s_designs u (i_model inst) = Some M"
  shows "\<exists>v. instance_destroy d i u = Inr v \<and> netlist_inv v \<and>
    s_net v = (\<lambda>c. if Some c \<in> set (i_instTerms inst) then None else s_net u c) \<and>
    (\<forall>x. the_instance v d i \<noteq> Inr x)"
  by (rule instance_destroy_inv [OF assms])

theorem instance_destroy_disconnects_witness:
  "\<exists>v. instance_destroy top 0 sample_store = Inr v \<and> netlist_inv v \<and> (\<forall>x. the_instance v top 0 \<noteq> Inr x)"
proof -
  have "the_instance sample_store top 0 = Inr \<lparr>i_model = cell, i_name = ''i'',
     i_instTerms = [Some (inst_term_id top 0 (scalar_term_id cell 0))]\<rparr>"
    by (simp add: the_instance_def)
  from instance_destroy_disconnects [OF sample_store_inv this] show ?thesis by auto
qed

section \<open>Names\<close>

text \<open>
  C19.  In every store that a client builds from one without designs, by calls that return (creation, destruction,
  renaming, resizing and reconnection of nets, terminals and instances, merging of assigns, destruction of designs) in
  any order and with any arguments, the lookups by name of nets, terminals and instances find an object exactly
  when it is a member of the design with that name: the indexes and the sets never disagree and no two
  members share a name.  An automatic identifier must not have wrapped around onto one in use.
\<close>

theorem name_lookups_exact:
  assumes "reachable u" "s_designs u d = Some D" "s \<noteq> ''''"
  shows "(getNet_name D s = Some (i, net) \<longleftrightarrow> getNet D i = Some net \<and> n_name net = s) \<and>
    (getTerm_name D s = Some (i, t) \<longleftrightarrow> getTerm D i = Some t \<and> t_name t = s) \<and>
    (getInstance_name D s = Some (i, inst) \<longleftrightarrow> getInstance D i = Some inst \<and> i_name inst = s)"
proof -
  note ok = design_names_sel [OF names_invD [OF reachable_names [OF assms(1)] assms(2)]]
  show ?thesis
    unfolding getNet_name_def getTerm_name_def getInstance_name_def
    using neti.lookup_iff [OF ok(2) assms(3)] termi.lookup_iff [OF ok(3) assms(3)]
      insti.lookup_iff [OF ok(4) assms(3)] by blast
qed

text \<open>A net is created in a new design and renamed.\<close>

definition fresh_store :: snl where
  "fresh_store = empty_store\<lparr>s_designs := [top \<mapsto> empty_design StandardDesign ''top'']\<rparr>"

definition renamed_net :: "snl result" where
  "renamed_net = rbind (net_create ''SNLScalarNet'' (Some top) None \<lparr>n_name = ''n'', n_kind = ScalarNet\<rparr> fresh_store)
     (\<lambda>(i, u). net_setName top i ''m'' u)"

lemma renamed_net_reachable: "renamed_net = Inr v \<Longrightarrow> reachable v"
proof -
  assume "renamed_net = Inr v"
  then obtain i u where u: "net_create ''SNLScalarNet'' (Some top) None \<lparr>n_name = ''n'', n_kind = ScalarNet\<rparr> fresh_store = Inr (i, u)"
    "net_setName top i ''m'' u = Inr v"
    by (auto simp: renamed_net_def rbind_eq_Inr_iff)
  have d: "s_designs fresh_store top = Some (empty_design StandardDesign ''top'')" by (simp add: fresh_store_def)
  have "reachable (empty_store\<lparr>s_designs := Map.empty\<rparr>)" by (rule reachable.no_design) simp
  from reachable.call [OF this netlist_call.new_design [of _ top StandardDesign "''top''"]]
  have "reachable fresh_store" by (simp add: fresh_store_def)
  from reachable.call [OF this netlist_call.net_create [OF u(1) d]]
  have "reachable u" by (simp add: id_left_def empty_design_def next_id_def)
  from reachable.call [OF this netlist_call.net_setName [OF u(2)]] show "reachable v" .
qed

theorem name_lookups_exact_witness:
  "\<exists>v D. renamed_net = Inr v \<and> s_designs v top = Some D \<and> getNet_name D ''m'' = Some (0, \<lparr>n_name = ''m'', n_kind = ScalarNet\<rparr>) \<and>
    (\<forall>net. getNet_name D ''n'' \<noteq> Some (0, net))"
proof -
  have "(case renamed_net of Inl e \<Rightarrow> False | Inr v \<Rightarrow> (case s_designs v top of None \<Rightarrow> False
      | Some D \<Rightarrow> getNet D 0 = Some \<lparr>n_name = ''m'', n_kind = ScalarNet\<rparr>))"
    by code_simp
  then obtain v D where v: "renamed_net = Inr v" "s_designs v top = Some D" "getNet D 0 = Some \<lparr>n_name = ''m'', n_kind = ScalarNet\<rparr>"
    by (auto split: sum.split_asm option.split_asm)
  note exact = name_lookups_exact [OF renamed_net_reachable [OF v(1)] v(2)]
  have "getNet_name D ''m'' = Some (0, \<lparr>n_name = ''m'', n_kind = ScalarNet\<rparr>)" using exact [of "''m''" 0] v(3) by simp
  moreover have "getNet_name D ''n'' \<noteq> Some (0, net)" for net using exact [of "''n''" 0] v(3) by auto
  ultimately show ?thesis using v(1,2) by blast
qed

text \<open>
  C20.  Renaming a net to a free name returns, keeps the name indexes exact, and the net is found under its new
  name.
\<close>

theorem net_rename_found:
  assumes "names_inv u" "s_designs u d = Some D" "getNet D i = Some net"
    and "name \<noteq> ''''" "getNet_name D name = None"
  shows "\<exists>v E net'. net_setName d i name u = Inr v \<and> names_inv v \<and> s_designs v d = Some E \<and>
    getNet_name E name = Some (i, net') \<and> n_name net' = name"
  using net_setName_found [OF assms] net_setName_names [OF assms(1-3), of name] assms(5) by fastforce

theorem net_rename_found_witness:
  "\<exists>v E net'. net_setName top 0 ''q'' sample_store = Inr v \<and> names_inv v \<and> s_designs v top = Some E \<and>
    getNet_name E ''q'' = Some (0, net') \<and> n_name net' = ''q''"
proof -
  have "getNet_name sample_top ''q'' = None"
    by (simp add: getNet_name_def sample_top_def empty_design_def)
  then show ?thesis
    by (intro net_rename_found [OF sample_store_names sample_designs(1)]) simp_all
qed

section \<open>Buses and assigns\<close>

text \<open>
  C21.  \<open>SNLBusTerm::setNet\<close> with a bus net of the same width connects the bits position by position,
  most significant bit to most significant bit whatever the directions of the two ranges, and touches no other
  component.
\<close>

theorem bus_setNet_by_position:
  assumes "netlist_inv u" "s_designs u d = Some D"
    and "getTerm D i = Some t" "t_kind t = BusTerm msb lsb (createBits msb lsb)"
    and "getNet D n = Some net" "n_kind net = BusNet nmsb nlsb (createBits nmsb nlsb)"
    and "getWidth msb lsb = getWidth nmsb nlsb"
  shows "\<exists>v. busTerm_setNet d i (Some (net_id d n)) u = Inr v \<and> netlist_inv v \<and>
    (\<forall>k < nat (getWidth msb lsb).
       s_net v (term_bit_id d i (bus_bit msb lsb k)) = Some (net_bit_id d n (bus_bit nmsb nlsb k))) \<and>
    (\<forall>c. c \<notin> set (term_bits d i t) \<longrightarrow> s_net v c = s_net u c)"
  by (rule busTerm_setNet_spec [OF assms])

theorem bus_setNet_by_position_witness:
  "\<exists>v. busTerm_setNet top 1 (Some (net_id top 1)) sample_store = Inr v \<and> netlist_inv v \<and>
    s_net v (term_bit_id top 1 1) = Some (net_bit_id top 1 0)"
proof -
  obtain v where v: "busTerm_setNet top 1 (Some (net_id top 1)) sample_store = Inr v" "netlist_inv v"
    "\<forall>k < nat (getWidth 1 0). s_net v (term_bit_id top 1 (bus_bit 1 0 k)) = Some (net_bit_id top 1 (bus_bit 0 1 k))"
    using bus_setNet_by_position [OF sample_store_inv sample_designs(1), of 1 _ 1 0 1 _ 0 1]
    by (fastforce simp: getWidth_def)
  have "s_net v (term_bit_id top 1 (bus_bit 1 0 0)) = Some (net_bit_id top 1 (bus_bit 0 1 0))"
    using v(3) by (simp add: getWidth_def)
  then show ?thesis using v by (simp add: bus_bit_def)
qed

text \<open>
  C22.  One step of \<open>mergeAssigns\<close> on an assign whose output is on another net than its input moves every component
  of the output net to the input net (or disconnects it, when the input is on no net) and changes no other
  component.  A scalar output net is destroyed, and nothing is connected to it any more; an output net
  that is a bit of a bus is not destroyed and stays in its bus.
\<close>

theorem assign_merges_nets:
  assumes "netlist_inv u"
    and "getInstTerm u d i (Some input) = Inr (Some itIn)" "getInstTerm u d i (Some output) = Inr (Some itOut)"
    and "s_net u itOut = Some out" "s_net u itIn \<noteq> Some out" "id_ref itIn = d" "id_ref itOut = d"
  shows "\<exists>v. assign_step d input output i u = Inr v \<and> netlist_inv v \<and>
    s_net v = (\<lambda>c. if s_net u c = Some out then s_net u itIn else s_net u c) \<and>
    (live_net v out \<longleftrightarrow> id_type out \<noteq> T_Net)"
  by (rule assign_step_spec [OF assms])

definition assign_in :: NLID where "assign_in = inst_term_id top 0 (scalar_term_id assign_prim 0)"
definition assign_out :: NLID where "assign_out = inst_term_id top 0 (scalar_term_id assign_prim 1)"

definition assign_top :: SNLDesign where
  "assign_top = (empty_design StandardDesign ''top'')\<lparr>
     d_nets := [(0, \<lparr>n_name = ''n'', n_kind = ScalarNet\<rparr>), (1, \<lparr>n_name = ''m'', n_kind = ScalarNet\<rparr>)],
     d_instances := [(0, \<lparr>i_model = assign_prim, i_name = '''', i_instTerms = [Some assign_in, Some assign_out]\<rparr>)]\<rparr>"

definition assign_model :: SNLDesign where
  "assign_model = (empty_design Primitive ''assign'')\<lparr>
     d_terms := [(0, \<lparr>t_name = '''', t_direction = Input, t_flatID = 0, t_kind = ScalarTerm\<rparr>),
       (1, \<lparr>t_name = '''', t_direction = Output, t_flatID = 1, t_kind = ScalarTerm\<rparr>)]\<rparr>"

definition assign_store :: snl where
  "assign_store = \<lparr>s_designs = [top \<mapsto> assign_top, assign_prim \<mapsto> assign_model],
     s_net = [assign_in \<mapsto> net_id top 0, assign_out \<mapsto> net_id top 1],
     s_components = (\<lambda>n. if n = net_id top 0 then [(assign_in, ())] else if n = net_id top 1 then [(assign_out, ())] else []),
     s_bitTerm = id, s_type = (\<lambda>_. Standard)\<rparr>"

lemma assign_ids [simp]:
  "assign_in \<noteq> assign_out" "assign_out \<noteq> assign_in" "top \<noteq> assign_prim" "assign_prim \<noteq> top"
  "id_ref assign_in = top" "id_ref assign_out = top"
  by (simp_all add: assign_in_def assign_out_def inst_term_id_def top_def assign_prim_def)

lemma assign_store_sel [simp]:
  "s_designs assign_store = [top \<mapsto> assign_top, assign_prim \<mapsto> assign_model]"
  "s_net assign_store = [assign_in \<mapsto> net_id top 0, assign_out \<mapsto> net_id top 1]"
  "getComponents assign_store n = (if n = net_id top 0 then [assign_in] else if n = net_id top 1 then [assign_out] else [])"
  "getNet assign_top k = (if k = 0 then Some \<lparr>n_name = ''n'', n_kind = ScalarNet\<rparr>
     else if k = 1 then Some \<lparr>n_name = ''m'', n_kind = ScalarNet\<rparr> else None)"
  "getInstance assign_top k = (if k = 0 then Some \<lparr>i_model = assign_prim, i_name = '''',
     i_instTerms = [Some assign_in, Some assign_out]\<rparr> else None)"
  by (auto simp: assign_store_def getComponents_def assign_top_def empty_design_def getNet_def getInstance_def)

lemma assign_store_inv: "netlist_inv assign_store"
proof -
  have "store_wf assign_store"
    by (auto simp: store_wf_def design_wf_def assign_top_def assign_model_def empty_design_def smap_inv_def
        split: if_splits)
  moreover have "linked assign_store"
    by (auto simp: linked_def assign_store_def getComponents_def smap_inv_def split: if_splits)
  moreover have "nets_ok assign_store"
    by (auto simp: nets_ok_def live_net_def' net_bits_def split: if_splits)
  moreover have "comps_ok assign_store"
    by (auto simp: comps_ok_def live_component_def live_instTerm_def' assign_in_def assign_out_def split: if_splits)
  ultimately show ?thesis by (simp add: netlist_inv_def conn_inv_def)
qed

theorem assign_merges_nets_witness:
  "\<exists>v. assign_step top (scalar_term_id assign_prim 0) (scalar_term_id assign_prim 1) 0 assign_store = Inr v \<and>
    netlist_inv v \<and> s_net v assign_out = Some (net_id top 0) \<and> \<not> live_net v (net_id top 1)"
proof -
  have g: "getInstTerm assign_store top 0 (Some (scalar_term_id assign_prim 0)) = Inr (Some assign_in)"
    "getInstTerm assign_store top 0 (Some (scalar_term_id assign_prim 1)) = Inr (Some assign_out)"
    by (simp_all add: getInstTerm_def getInstTermByFlatID_def the_instance_def the_design_def flatID_def
        getTerm_def assign_model_def empty_design_def vec_at_def)
  from assign_merges_nets [OF assign_store_inv this, of "net_id top 1"]
  show ?thesis by auto
qed

end
