(* ===== verification/BoolTree.thy ===== *)
theory BoolTree
  imports NetlistOps TruthTableProps
begin

text \<open>
  \<^verbatim>\<open>src/nl/formats/liberty/SNLBooleanTree.cpp\<close>: the functions of Liberty cells.  A function text is parsed by a
  shift-reduce loop over a stack of tokens into a tree, from which the truth table of the cell and the
  expressions of sequential models are built.  An input node is determined by what it stands for (the
  \<open>getOrCreate\<close> members keep one node each), so the tree holds the key and the values of the nodes are a
  function of the keys.  Ownership and deletion of nodes are not modelled.
\<close>

unbundle bit_operations_syntax

section \<open>Data\<close>

abbreviation LibertyException :: "string \<Rightarrow> cpp_error" where
  "LibertyException msg \<equiv> Raise ''SNLLibertyConstructorException'' msg"

datatype input_node = INPUT NLID | STATE nat bool | CONSTANT0 | CONSTANT1

datatype function_type = F_AND | F_OR | F_XOR | F_NOT | F_BUFFER

datatype tree_node = InputNode input_node | FunctionNode function_type "tree_node list"

record SNLBooleanTree =
  b_inputs :: "NLID list"
  b_stateInputs :: "(nat \<times> bool) list"
  b_constant0 :: bool
  b_constant1 :: bool
  b_value :: "input_node \<Rightarrow> bool"
  b_root :: "tree_node option"

definition empty_tree :: SNLBooleanTree where
  "empty_tree = \<lparr>b_inputs = [], b_stateInputs = [], b_constant0 = False, b_constant1 = False,
     b_value = (\<lambda>_. False), b_root = None\<rparr>"

text \<open>Tokens: the character of an operator, or one of the numbers 0 to 3 with a node.\<close>

datatype operator = LPar | RPar | Quote | Bang | Caret | Star | Plus | Bar | Amp | Dot

datatype level = L0 | L1 | L2 | L3

datatype token = Op operator | Nt level tree_node

type_synonym stack = "token list"

abbreviation not_node :: "tree_node \<Rightarrow> tree_node" where
  "not_node n \<equiv> FunctionNode F_NOT [n]"

section \<open>Reduction\<close>

text \<open>
  One call of \<open>reduce\<close>; the head of the list is the top of the stack and \<open>None\<close> is the answer \<open>false\<close>.  The
  rules are grouped by the token on the top: each rule of the code fixes it.
\<close>

fun reduce :: "stack \<Rightarrow> token \<Rightarrow> stack option" where
  "reduce (Nt L0 n # st) next = (case st of
     Op Bang # st' \<Rightarrow> Some (Nt L0 (not_node n) # st')
   | _ \<Rightarrow> (if next = Op Quote then None else Some (Nt L1 n # st)))"
| "reduce (Op Quote # st) next = (case st of
     Nt L0 n # st' \<Rightarrow> Some (Nt L0 (not_node n) # st')
   | _ \<Rightarrow> None)"
| "reduce (Nt L1 n # st) next = (case st of
     Op Caret # Nt L1 m # st' \<Rightarrow> Some (Nt L1 (FunctionNode F_XOR [m, n]) # st')
   | _ \<Rightarrow> (if next = Op Caret then None else Some (Nt L2 n # st)))"
| "reduce (Nt L2 n # st) next = (case st of
     Nt L2 m # st' \<Rightarrow> Some (Nt L2 (FunctionNode F_AND [m, n]) # st')
   | Op Star # Nt L2 m # st' \<Rightarrow> Some (Nt L2 (FunctionNode F_AND [m, n]) # st')
   | Op Amp # Nt L2 m # st' \<Rightarrow> Some (Nt L2 (FunctionNode F_AND [m, n]) # st')
   | _ \<Rightarrow> (if next \<in> {Op Star, Op Amp, Op LPar, Op Bang} \<or> (\<exists>m. next = Nt L0 m) then None
       else Some (Nt L3 n # st)))"
| "reduce (Nt L3 n # st) next = (case st of
     Op Plus # Nt L3 m # st' \<Rightarrow> Some (Nt L3 (FunctionNode F_OR [m, n]) # st')
   | Op Bar # Nt L3 m # st' \<Rightarrow> Some (Nt L3 (FunctionNode F_OR [m, n]) # st')
   | _ \<Rightarrow> None)"
| "reduce (Op RPar # st) next = (case st of
     Nt L3 n # Op LPar # st' \<Rightarrow> Some (Nt L0 n # st')
   | _ \<Rightarrow> None)"
| "reduce st next = None"

text \<open>Every reduction shortens the stack or raises the level of its top, so \<open>while (reduce(...)) {}\<close> ends.\<close>

fun top_weight :: "stack \<Rightarrow> nat" where
  "top_weight (Nt L0 n # st) = 3"
| "top_weight (Nt L1 n # st) = 2"
| "top_weight (Nt L2 n # st) = 1"
| "top_weight st = 0"

lemma reduce_measure:
  assumes "reduce st next = Some st'"
  shows "4 * length st' + top_weight st' < 4 * length st + top_weight st"
  using assms
proof (cases st)
  case (Cons t ts)
  note splits = list.split_asm token.split_asm operator.split_asm level.split_asm if_split_asm
  show ?thesis
  proof (cases t)
    case (Nt l n)
    with assms Cons show ?thesis by (cases l) (simp split: splits; force)+
  next
    case (Op x)
    with assms Cons show ?thesis by (cases x) (auto split: splits)
  qed
qed simp

function reduces :: "stack \<Rightarrow> token \<Rightarrow> stack" where
  "reduces st next = (case reduce st next of None \<Rightarrow> st | Some st' \<Rightarrow> reduces st' next)"
  by pat_completeness auto
termination
  by (relation "measure (\<lambda>(st, _). 4 * length st + top_weight st)") (auto dest: reduce_measure)

declare reduces.simps [simp del]

section \<open>Inputs\<close>

definition getOrCreateInputNode :: "NLID \<Rightarrow> SNLBooleanTree \<Rightarrow> SNLBooleanTree" where
  "getOrCreateInputNode t b = (if t \<in> set (b_inputs b) then b
     else b\<lparr>b_inputs := b_inputs b @ [t], b_value := (b_value b)(INPUT t := False)\<rparr>)"

definition getOrCreateConstantInputNode :: "bool \<Rightarrow> SNLBooleanTree \<Rightarrow> SNLBooleanTree" where
  "getOrCreateConstantInputNode c b = (if c then b\<lparr>b_constant1 := True\<rparr> else b\<lparr>b_constant0 := True\<rparr>)"

definition getOrCreateStateInputNode :: "nat \<Rightarrow> bool \<Rightarrow> SNLBooleanTree \<Rightarrow> SNLBooleanTree" where
  "getOrCreateStateInputNode s neg b = (if (s, neg) \<in> set (b_stateInputs b) then b
     else b\<lparr>b_stateInputs := b_stateInputs b @ [(s, neg)], b_value := (b_value b)(STATE s neg := False)\<rparr>)"

definition isIdentifierChar :: "char \<Rightarrow> bool" where
  "isIdentifierChar c \<longleftrightarrow> (let k = of_char c :: nat in
     (97 \<le> k \<and> k \<le> 122) \<or> (65 \<le> k \<and> k \<le> 90) \<or> (48 \<le> k \<and> k \<le> 57)) \<or>
     c \<in> {CHR ''.'', CHR ''_'', CHR ''['', CHR '']''}"

text \<open>The white space of the C locale.\<close>

definition isspace :: "char \<Rightarrow> bool" where
  "isspace c \<longleftrightarrow> (let k = of_char c :: nat in k = 32 \<or> (9 \<le> k \<and> k \<le> 13))"

definition getScalarTerm :: "did \<Rightarrow> SNLDesign \<Rightarrow> string \<Rightarrow> NLID option" where
  "getScalarTerm d D name = (case getTerm_name D name of
     None \<Rightarrow> None
   | Some (i, t) \<Rightarrow> (if t_kind t = ScalarTerm then Some (scalar_term_id d i) else None))"

type_synonym StateIdentifiers = "string \<rightharpoonup> nat \<times> bool"
type_synonym TermAliases = "string \<rightharpoonup> NLID"

definition parseInput ::
  "did \<Rightarrow> SNLDesign \<Rightarrow> StateIdentifiers \<Rightarrow> TermAliases \<Rightarrow> string \<Rightarrow> SNLBooleanTree \<Rightarrow>
   (input_node \<times> string \<times> SNLBooleanTree) result" where
  "parseInput d D states aliases s b =
     (let name = takeWhile isIdentifierChar s; rest = dropWhile isIdentifierChar s in
      if name = '''' then Inl (LibertyException ''Expected an identifier'')
      else if name = ''0'' then Inr (CONSTANT0, rest, getOrCreateConstantInputNode False b)
      else if name = ''1'' then Inr (CONSTANT1, rest, getOrCreateConstantInputNode True b)
      else case states name of
          Some (k, neg) \<Rightarrow> Inr (STATE k neg, rest, getOrCreateStateInputNode k neg b)
        | None \<Rightarrow> (case aliases name of
            Some t \<Rightarrow> Inr (INPUT t, rest, getOrCreateInputNode t b)
          | None \<Rightarrow> (case getScalarTerm d D name of
              None \<Rightarrow> Inl (LibertyException ''Scalar term was not found in the cell interface'')
            | Some t \<Rightarrow> Inr (INPUT t, rest, getOrCreateInputNode t b))))"

section \<open>Parsing\<close>

fun op_of :: "char \<Rightarrow> operator option" where
  "op_of c = (if c = CHR ''('' then Some LPar else if c = CHR '')'' then Some RPar
     else if c = CHR 0x27 then Some Quote else if c = CHR ''!'' then Some Bang
     else if c = CHR ''^'' then Some Caret else if c = CHR ''*'' then Some Star
     else if c = CHR ''+'' then Some Plus else if c = CHR ''|'' then Some Bar
     else if c = CHR ''&'' then Some Amp else None)"

definition shift :: "token \<Rightarrow> stack \<Rightarrow> stack" where
  "shift next st = next # reduces st next"

lemma parseInput_shorter:
  "parseInput d D states aliases s b = Inr (n, rest, b') \<Longrightarrow> length rest < length s"
proof -
  assume r: "parseInput d D states aliases s b = Inr (n, rest, b')"
  then have ne: "takeWhile isIdentifierChar s \<noteq> []" and "rest = dropWhile isIdentifierChar s"
    by (auto simp: parseInput_def Let_def split: if_splits option.splits)
  moreover have "length s = length (takeWhile isIdentifierChar s) + length (dropWhile isIdentifierChar s)"
    by (metis length_append takeWhile_dropWhile_id)
  ultimately show ?thesis by simp
qed

function parse_loop ::
  "did \<Rightarrow> SNLDesign \<Rightarrow> StateIdentifiers \<Rightarrow> TermAliases \<Rightarrow> string \<Rightarrow> stack \<Rightarrow> SNLBooleanTree \<Rightarrow>
   (stack \<times> SNLBooleanTree) result" where
  "parse_loop d D states aliases [] st b = Inr (st, b)"
| "parse_loop d D states aliases (c # cs) st b =
     (if isspace c \<or> c = CHR 0x22 then parse_loop d D states aliases cs st b
      else case op_of c of
          Some x \<Rightarrow> parse_loop d D states aliases cs (shift (Op x) st) b
        | None \<Rightarrow> rbind (parseInput d D states aliases (c # cs) b) (\<lambda>(n, rest, b).
            parse_loop d D states aliases rest (shift (Nt L0 (InputNode n)) st) b))"
  by pat_completeness auto
termination
  by (relation "measure (\<lambda>(d, D, states, aliases, s, st, b). length s)") (auto dest: parseInput_shorter)

definition root_of :: "tree_node \<Rightarrow> tree_node" where
  "root_of n = (case n of InputNode i \<Rightarrow> FunctionNode F_BUFFER [n] | FunctionNode f ns \<Rightarrow> n)"

definition parse ::
  "did \<Rightarrow> SNLDesign \<Rightarrow> string \<Rightarrow> StateIdentifiers \<Rightarrow> TermAliases \<Rightarrow> SNLBooleanTree \<Rightarrow> SNLBooleanTree result" where
  "parse d D function states aliases b =
     rbind (parse_loop d D states aliases function [] b) (\<lambda>(st, b).
       case reduces st (Op Dot) of
         [Nt L3 n] \<Rightarrow> Inr (b\<lparr>b_root := Some (root_of n)\<rparr>)
       | _ \<Rightarrow> Inl (LibertyException ''Malformed Boolean expression''))"

section \<open>Values\<close>

text \<open>\<open>getValue\<close> of a node under the values of the input nodes.\<close>

definition input_value :: "(input_node \<Rightarrow> bool) \<Rightarrow> input_node \<Rightarrow> bool" where
  "input_value v i = (case i of INPUT t \<Rightarrow> v i | STATE s neg \<Rightarrow> v i | CONSTANT0 \<Rightarrow> False | CONSTANT1 \<Rightarrow> True)"

fun getValue :: "(input_node \<Rightarrow> bool) \<Rightarrow> tree_node \<Rightarrow> bool result"
  and all_of :: "(input_node \<Rightarrow> bool) \<Rightarrow> tree_node list \<Rightarrow> bool result"
  and any_of :: "(input_node \<Rightarrow> bool) \<Rightarrow> tree_node list \<Rightarrow> bool result"
  and count_if :: "(input_node \<Rightarrow> bool) \<Rightarrow> tree_node list \<Rightarrow> nat result" where
  "getValue v (InputNode i) = Inr (input_value v i)"
| "getValue v (FunctionNode F_AND ns) = all_of v ns"
| "getValue v (FunctionNode F_OR ns) = any_of v ns"
| "getValue v (FunctionNode F_XOR ns) = rbind (count_if v ns) (\<lambda>k. Inr (odd k))"
| "getValue v (FunctionNode F_NOT ns) = (case ns of
     [n] \<Rightarrow> rbind (getValue v n) (\<lambda>x. Inr (\<not> x))
   | _ \<Rightarrow> Inl (LibertyException ''NOT node must have exactly one input''))"
| "getValue v (FunctionNode F_BUFFER ns) = (case ns of
     [n] \<Rightarrow> getValue v n
   | _ \<Rightarrow> Inl (LibertyException ''BUFFER node must have exactly one input''))"
| "all_of v [] = Inr True"
| "all_of v (n # ns) = rbind (getValue v n) (\<lambda>x. if x then all_of v ns else Inr False)"
| "any_of v [] = Inr False"
| "any_of v (n # ns) = rbind (getValue v n) (\<lambda>x. if x then Inr True else any_of v ns)"
| "count_if v [] = Inr 0"
| "count_if v (n # ns) = rbind (getValue v n) (\<lambda>x. rbind (count_if v ns) (\<lambda>k. Inr (of_bool x + k)))"

section \<open>Truth tables\<close>

text \<open>\<open>SNLDesign::setOrderIDs\<close>: the order number of a bit terminal.\<close>

definition getOrderID :: "did \<Rightarrow> SNLDesign \<Rightarrow> NLID \<Rightarrow> nat" where
  "getOrderID d D bt = length (takeWhile (\<lambda>x. x \<noteq> bt) (getBitTerms d D))"

text \<open>The inner loop of a row: the first input is the most significant bit of the row number.\<close>

definition set_row :: "NLID list \<Rightarrow> nat \<Rightarrow> (input_node \<Rightarrow> bool) \<Rightarrow> (input_node \<Rightarrow> bool)" where
  "set_row inputs i v =
     fold (\<lambda>j v. v(INPUT (inputs ! j) := bit i (length inputs - j - 1))) [0..<length inputs] v"

definition table_row :: "tree_node \<Rightarrow> NLID list \<Rightarrow> nat \<Rightarrow> (input_node \<Rightarrow> bool) \<times> bool list \<Rightarrow>
    ((input_node \<Rightarrow> bool) \<times> bool list) result" where
  "table_row root inputs i s = (let v = set_row inputs i (fst s) in
     rbind (getValue v root) (\<lambda>x. Inr (v, snd s @ [x])))"

text \<open>The mask of a table of at most 6 inputs, one row after the other.\<close>

fun row_mask :: "nat \<Rightarrow> bool list \<Rightarrow> u64 \<Rightarrow> u64" where
  "row_mask i [] m = m"
| "row_mask i (x # xs) m = row_mask (Suc i) xs (m OR push_bit i (if x then 1 else 0))"

definition getTruthTable ::
  "did \<Rightarrow> SNLDesign \<Rightarrow> NLID list \<Rightarrow> SNLBooleanTree \<Rightarrow> (SNLTruthTable \<times> SNLBooleanTree) result" where
  "getTruthTable d D terms b = (case b_root b of
     None \<Rightarrow> Inl (LibertyException ''Boolean tree not parsed'')
   | Some root \<Rightarrow>
       let inputs = filter (\<lambda>t. t \<in> set (b_inputs b)) terms;
           deps = map (getOrderID d D) inputs;
           n = length inputs;
           v = fold (\<lambda>t v. v(INPUT t := False)) inputs (b_value b)
       in if \<not> set (b_inputs b) \<subseteq> set terms
          then Inl (LibertyException ''Term referenced by Boolean expression is not a truth table input'')
          else if n \<ge> 31 then Inl (UndefinedBehaviour ''conversion of pow to int'')
          else rbind (rfold (table_row root inputs) [0..<2 ^ n] (v, [])) (\<lambda>(v, rows).
            rbind (if n > 6 then tt_of_bits n rows (encodeBits deps)
                   else tt_of_mask n (row_mask 0 rows 0) (encodeBits deps)) (\<lambda>tt.
              Inr (tt, b\<lparr>b_value := v\<rparr>))))"

text \<open>
  \<open>SNLLibertyConstructor\<close> on a combinational cell: the function of the only output is parsed and
  tabulated over the inputs of the cell, the last terminal first.
\<close>

definition liberty_truth_table :: "did \<Rightarrow> SNLDesign \<Rightarrow> string \<Rightarrow> SNLTruthTable result" where
  "liberty_truth_table d D function =
     rbind (parse d D function Map.empty Map.empty empty_tree) (\<lambda>b.
       let terms = filter (\<lambda>t. case getTerm D (id_object t) of Some x \<Rightarrow> t_direction x = Input | None \<Rightarrow> False)
             (getBitTerms d D)
       in rbind (getTruthTable d D (rev terms) b) (\<lambda>(tt, b). Inr tt))"

section \<open>Expressions of sequential models\<close>

datatype expression_operator = E_Constant | E_Term | E_State | E_Not | E_And | E_Or | E_Xor

record expression_node =
  e_operation :: expression_operator
  e_constant :: bool
  e_term :: "NLID option"
  e_state :: nat
  e_operands :: "nat list"

record BooleanExpression =
  e_nodes :: "expression_node list"
  e_root :: nat

definition invalid_node :: nat where "invalid_node = 2 ^ 64 - 1"

definition add_node :: "expression_node \<Rightarrow> BooleanExpression \<Rightarrow> nat \<times> BooleanExpression" where
  "add_node n e = (length (e_nodes e), e\<lparr>e_nodes := e_nodes e @ [n]\<rparr>)"

abbreviation plain_node :: "expression_operator \<Rightarrow> expression_node" where
  "plain_node x \<equiv> \<lparr>e_operation = x, e_constant = False, e_term = None, e_state = 0, e_operands = []\<rparr>"

definition addConstant :: "bool \<Rightarrow> BooleanExpression \<Rightarrow> nat \<times> BooleanExpression" where
  "addConstant c = add_node ((plain_node E_Constant)\<lparr>e_constant := c\<rparr>)"

definition addTermNode :: "NLID \<Rightarrow> BooleanExpression \<Rightarrow> nat \<times> BooleanExpression" where
  "addTermNode t = add_node ((plain_node E_Term)\<lparr>e_term := Some t\<rparr>)"

definition addState :: "nat \<Rightarrow> BooleanExpression \<Rightarrow> nat \<times> BooleanExpression" where
  "addState s = add_node ((plain_node E_State)\<lparr>e_state := s\<rparr>)"

definition addOperation :: "expression_operator \<Rightarrow> nat list \<Rightarrow> BooleanExpression \<Rightarrow> nat \<times> BooleanExpression" where
  "addOperation x ops = add_node ((plain_node x)\<lparr>e_operands := ops\<rparr>)"

definition expression_isValid :: "BooleanExpression \<Rightarrow> bool" where
  "expression_isValid e \<longleftrightarrow> e_root e < length (e_nodes e)"

definition append_input :: "input_node \<Rightarrow> BooleanExpression \<Rightarrow> nat \<times> BooleanExpression" where
  "append_input i e = (case i of
     INPUT t \<Rightarrow> addTermNode t e
   | STATE s neg \<Rightarrow> (let (k, e) = addState s e in if neg then addOperation E_Not [k] e else (k, e))
   | CONSTANT0 \<Rightarrow> addConstant False e
   | CONSTANT1 \<Rightarrow> addConstant True e)"

fun appendBooleanExpressionNode :: "tree_node \<Rightarrow> BooleanExpression \<Rightarrow> (nat \<times> BooleanExpression) result"
  and append_operands :: "tree_node list \<Rightarrow> BooleanExpression \<Rightarrow> (nat list \<times> BooleanExpression) result" where
  "appendBooleanExpressionNode (InputNode i) e = Inr (append_input i e)"
| "appendBooleanExpressionNode (FunctionNode f ns) e = rbind (append_operands ns e) (\<lambda>(ops, e). case f of
     F_BUFFER \<Rightarrow> (case ops of [k] \<Rightarrow> Inr (k, e)
       | _ \<Rightarrow> Inl (LibertyException ''BUFFER node must have exactly one input''))
   | F_NOT \<Rightarrow> Inr (addOperation E_Not ops e)
   | F_AND \<Rightarrow> Inr (addOperation E_And ops e)
   | F_OR \<Rightarrow> Inr (addOperation E_Or ops e)
   | F_XOR \<Rightarrow> Inr (addOperation E_Xor ops e))"
| "append_operands [] e = Inr ([], e)"
| "append_operands (n # ns) e = rbind (appendBooleanExpressionNode n e) (\<lambda>(k, e).
     rbind (append_operands ns e) (\<lambda>(ks, e). Inr (k # ks, e)))"

definition getBooleanExpression :: "SNLBooleanTree \<Rightarrow> BooleanExpression result" where
  "getBooleanExpression b = (case b_root b of
     None \<Rightarrow> Inl (LibertyException ''Boolean tree not parsed'')
   | Some root \<Rightarrow> rbind (appendBooleanExpressionNode root \<lparr>e_nodes = [], e_root = invalid_node\<rparr>)
       (\<lambda>(k, e). Inr (e\<lparr>e_root := k\<rparr>)))"

end
