(* ===== verification/BoolTreeGrammar.thy ===== *)
theory BoolTreeGrammar
  imports BoolTree
begin

text \<open>
  The language of the shift-reduce loop.  The grammar of Liberty functions is an inductive relation between a
  level, a list of tokens and a tree: negation (prefix and postfix) binds strongest, then \<open>^\<close>, then
  conjunction (\<open>*\<close>, \<open>&\<close> or nothing), then disjunction (\<open>+\<close>, \<open>|\<close>), all to the left.  The loop accepts
  exactly the sentences of the grammar and builds the tree of the derivation.
\<close>

section \<open>The grammar\<close>

inductive derives :: "level \<Rightarrow> token list \<Rightarrow> tree_node \<Rightarrow> bool" where
  atom: "derives L0 [Nt L0 (InputNode i)] (InputNode i)"
| paren: "derives L3 w n \<Longrightarrow> derives L0 (Op LPar # w @ [Op RPar]) n"
| bang: "derives L0 w n \<Longrightarrow> derives L0 (Op Bang # w) (not_node n)"
| quote: "derives L0 w n \<Longrightarrow> derives L0 (w @ [Op Quote]) (not_node n)"
| xor_one: "derives L0 w n \<Longrightarrow> derives L1 w n"
| xor_more: "derives L1 w m \<Longrightarrow> derives L0 w' n \<Longrightarrow>
    derives L1 (w @ Op Caret # w') (FunctionNode F_XOR [m, n])"
| and_one: "derives L1 w n \<Longrightarrow> derives L2 w n"
| and_next: "derives L2 w m \<Longrightarrow> derives L1 w' n \<Longrightarrow> derives L2 (w @ w') (FunctionNode F_AND [m, n])"
| and_more: "derives L2 w m \<Longrightarrow> x \<in> {Star, Amp} \<Longrightarrow> derives L1 w' n \<Longrightarrow>
    derives L2 (w @ Op x # w') (FunctionNode F_AND [m, n])"
| or_one: "derives L2 w n \<Longrightarrow> derives L3 w n"
| or_more: "derives L3 w m \<Longrightarrow> x \<in> {Plus, Bar} \<Longrightarrow> derives L2 w' n \<Longrightarrow>
    derives L3 (w @ Op x # w') (FunctionNode F_OR [m, n])"

section \<open>The tokens of a text\<close>

function tokenize ::
  "did \<Rightarrow> SNLDesign \<Rightarrow> StateIdentifiers \<Rightarrow> TermAliases \<Rightarrow> string \<Rightarrow> SNLBooleanTree \<Rightarrow>
   (token list \<times> SNLBooleanTree) result" where
  "tokenize d D states aliases [] b = Inr ([], b)"
| "tokenize d D states aliases (c # cs) b =
     (if isspace c \<or> c = CHR 0x22 then tokenize d D states aliases cs b
      else case op_of c of
          Some x \<Rightarrow> rbind (tokenize d D states aliases cs b) (\<lambda>(ts, b). Inr (Op x # ts, b))
        | None \<Rightarrow> rbind (parseInput d D states aliases (c # cs) b) (\<lambda>(n, rest, b).
            rbind (tokenize d D states aliases rest b) (\<lambda>(ts, b). Inr (Nt L0 (InputNode n) # ts, b))))"
  by pat_completeness auto
termination
  by (relation "measure (\<lambda>(d, D, states, aliases, s, b). length s)") (auto dest: parseInput_shorter)

lemma parse_loop_tokens:
  "parse_loop d D states aliases s st b =
     rbind (tokenize d D states aliases s b) (\<lambda>(ts, b). Inr (fold shift ts st, b))"
proof (induction d D states aliases s st b rule: parse_loop.induct)
  case (2 d D states aliases c cs st b)
  consider (blank) "isspace c \<or> c = CHR 0x22"
    | (op) x where "\<not> (isspace c \<or> c = CHR 0x22)" "op_of c = Some x"
    | (input) "\<not> (isspace c \<or> c = CHR 0x22)" "op_of c = None"
    by (cases "op_of c") auto
  then show ?case
  proof cases
    case blank
    then show ?thesis using "2.IH"(1) by (simp del: op_of.simps)
  next
    case op
    then show ?thesis using "2.IH"(3) [OF op]
      by (cases "tokenize d D states aliases cs b") (auto simp del: op_of.simps)
  next
    case input
    show ?thesis
    proof (cases "parseInput d D states aliases (c # cs) b")
      case (Inr r)
      obtain n rest b' where "r = (n, rest, b')" by (cases r)
      then show ?thesis using input Inr "2.IH"(2) [OF input, of r]
        by (cases "tokenize d D states aliases rest b'") (auto simp del: op_of.simps)
    qed (use input in \<open>simp del: op_of.simps\<close>)
  qed
qed simp

definition accepts :: "token list \<Rightarrow> tree_node option" where
  "accepts ts = (case reduces (fold shift ts []) (Op Dot) of [Nt L3 n] \<Rightarrow> Some n | _ \<Rightarrow> None)"

lemma parse_accepts:
  "parse d D function states aliases b =
     rbind (tokenize d D states aliases function b) (\<lambda>(ts, b). case accepts ts of
       Some n \<Rightarrow> Inr (b\<lparr>b_root := Some (root_of n)\<rparr>)
     | None \<Rightarrow> Inl (LibertyException ''Malformed Boolean expression''))"
  unfolding parse_def parse_loop_tokens accepts_def
  by (cases "tokenize d D states aliases function b")
    (auto split: list.splits token.splits level.splits)

section \<open>Completeness\<close>

lemma reduces_None: "reduce st next = None \<Longrightarrow> reduces st next = st"
  by (subst reduces.simps) simp

lemma reduces_Some: "reduce st next = Some st' \<Longrightarrow> reduces st next = reduces st' next"
  by (subst reduces.simps) simp

definition starts :: "token \<Rightarrow> bool" where
  "starts t \<longleftrightarrow> t = Op LPar \<or> t = Op Bang \<or> (\<exists>n. t = Nt L0 n)"

definition ready :: "stack \<Rightarrow> bool" where
  "ready st \<longleftrightarrow> (\<forall>t. starts t \<longrightarrow> reduce st t = None)"

definition top_not :: "token set \<Rightarrow> stack \<Rightarrow> bool" where
  "top_not ts st \<longleftrightarrow> st = [] \<or> hd st \<notin> ts"

text \<open>The stacks on which a phrase of a level may be built, and the tokens that may follow it.\<close>

fun ctx :: "level \<Rightarrow> stack \<Rightarrow> bool" where
  "ctx L0 st \<longleftrightarrow> ready st"
| "ctx L1 st \<longleftrightarrow> ready st \<and> top_not {Op Bang, Op Caret} st"
| "ctx L2 st \<longleftrightarrow> ready st \<and> top_not ({Op Bang, Op Caret, Op Star, Op Amp} \<union> range (Nt L2)) st"
| "ctx L3 st \<longleftrightarrow> ready st \<and>
     top_not ({Op Bang, Op Caret, Op Star, Op Amp, Op Plus, Op Bar} \<union> range (Nt L2)) st"

fun follow :: "level \<Rightarrow> token \<Rightarrow> bool" where
  "follow L0 t \<longleftrightarrow> True"
| "follow L1 t \<longleftrightarrow> t \<noteq> Op Quote"
| "follow L2 t \<longleftrightarrow> t \<notin> {Op Quote, Op Caret}"
| "follow L3 t \<longleftrightarrow> t \<notin> {Op Quote, Op Caret, Op Star, Op Amp} \<and> \<not> starts t"

lemma ready_op: "x \<notin> {Quote, RPar} \<Longrightarrow> ready (Op x # st)"
  by (cases x) (auto simp: ready_def)

lemma derives_starts: "derives l w n \<Longrightarrow> \<exists>t w'. w = t # w' \<and> starts t"
  by (induction rule: derives.induct) (auto simp: starts_def)

lemma raise_level:
  "top_not {Op Bang} st \<Longrightarrow> t \<noteq> Op Quote \<Longrightarrow> reduces (Nt L0 n # st) t = reduces (Nt L1 n # st) t"
  "top_not {Op Caret} st \<Longrightarrow> t \<noteq> Op Caret \<Longrightarrow> reduces (Nt L1 n # st) t = reduces (Nt L2 n # st) t"
  "top_not ({Op Star, Op Amp} \<union> range (Nt L2)) st \<Longrightarrow> t \<notin> {Op Star, Op Amp} \<Longrightarrow> \<not> starts t \<Longrightarrow>
     reduces (Nt L2 n # st) t = reduces (Nt L3 n # st) t"
  by (rule reduces_Some;
      cases st; auto simp: top_not_def starts_def split: list.splits token.splits operator.splits level.splits)+

lemma stay:
  "top_not {Op Bang} st \<Longrightarrow> reduce (Nt L0 n # st) (Op Quote) = None"
  "top_not {Op Caret} st \<Longrightarrow> reduce (Nt L1 n # st) (Op Caret) = None"
  "top_not ({Op Star, Op Amp} \<union> range (Nt L2)) st \<Longrightarrow> t \<in> {Op Star, Op Amp} \<or> starts t \<Longrightarrow>
     reduce (Nt L2 n # st) t = None"
  "top_not {Op Plus, Op Bar} st \<Longrightarrow> reduce (Nt L3 n # st) t = None"
  by (cases st; auto simp: top_not_def starts_def split: list.splits token.splits operator.splits level.splits)+

lemmas stay_level = stay [THEN reduces_None]

lemma top_not_mono: "top_not A st \<Longrightarrow> B \<subseteq> A \<Longrightarrow> top_not B st"
  by (auto simp: top_not_def)

lemma ctx_top:
  "ctx L1 st \<Longrightarrow> top_not {Op Bang} st" "ctx L1 st \<Longrightarrow> top_not {Op Caret} st"
  "ctx L2 st \<Longrightarrow> ctx L1 st" "ctx L2 st \<Longrightarrow> top_not ({Op Star, Op Amp} \<union> range (Nt L2)) st"
  "ctx L3 st \<Longrightarrow> ctx L2 st" "ctx L3 st \<Longrightarrow> top_not {Op Plus, Op Bar} st"
  by (auto elim: top_not_mono)

lemma ctx_ready: "ctx l st \<Longrightarrow> ready st"
  by (cases l) auto

lemma fold_shift_Cons: "fold shift (t # w) st = fold shift w (t # reduces st t)"
  by (simp add: shift_def)

lemma fold_shift_snoc: "fold shift (w @ [t]) st = t # reduces (fold shift w st) t"
  by (simp add: shift_def)

lemma fold_shift_mid: "fold shift (w @ t # w') st = fold shift w' (t # reduces (fold shift w st) t)"
  by (simp add: shift_def)

lemma ready_reduces: "ready st \<Longrightarrow> starts t \<Longrightarrow> reduces st t = st"
  by (simp add: ready_def reduces_None)

lemma not_power: "(not_node ^^ k) (not_node n) = not_node ((not_node ^^ k) n)"
  by (induction k) auto

text \<open>Prefix negations below the top are taken before anything else.\<close>

lemma bangs:
  "reduces (Nt L0 n # replicate k (Op Bang) @ st) t = reduces (Nt L0 ((not_node ^^ k) n) # st) t"
proof (induction k arbitrary: n)
  case (Suc k)
  have "reduces (Nt L0 n # replicate (Suc k) (Op Bang) @ st) t =
      reduces (Nt L0 (not_node n) # replicate k (Op Bang) @ st) t"
    by (rule reduces_Some) simp
  then show ?case by (simp add: Suc not_power)
qed simp

lemma leading_bangs: "\<exists>k st'. st = replicate k (Op Bang) @ st' \<and> top_not {Op Bang} st'"
proof (induction st)
  case (Cons t st)
  then obtain k st' where st: "st = replicate k (Op Bang) @ st'" "top_not {Op Bang} st'" by blast
  show ?case
  proof (cases "t = Op Bang")
    case True
    then have "t # st = replicate (Suc k) (Op Bang) @ st'" using st(1) by simp
    with st(2) show ?thesis by blast
  next
    case False
    then have "t # st = replicate 0 (Op Bang) @ (t # st) \<and> top_not {Op Bang} (t # st)" by (simp add: top_not_def)
    then show ?thesis by blast
  qed
qed (simp add: top_not_def)

lemma postfix_negation:
  "reduces (Op Quote # reduces (Nt L0 n # st) (Op Quote)) t = reduces (Nt L0 (not_node n) # st) t"
proof -
  obtain k st' where st: "st = replicate k (Op Bang) @ st'" "top_not {Op Bang} st'"
    using leading_bangs by blast
  let ?x = "(not_node ^^ k) n"
  have "reduces (Nt L0 n # st) (Op Quote) = Nt L0 ?x # st'"
    unfolding st(1) bangs by (rule stay_level(1) [OF st(2)])
  moreover have "reduces (Op Quote # Nt L0 ?x # st') t = reduces (Nt L0 (not_node ?x) # st') t"
    by (rule reduces_Some) simp
  moreover have "reduces (Nt L0 (not_node n) # st) t = reduces (Nt L0 (not_node ?x) # st') t"
    unfolding st(1) bangs not_power ..
  ultimately show ?thesis by simp
qed

lemma fold_shift_start: "w = t # w' \<Longrightarrow> reduces st t = st' \<Longrightarrow> reduces st' t = st' \<Longrightarrow>
  fold shift w st = fold shift w st'"
  by (simp add: shift_def)

text \<open>A phrase of one level, then the operator and a phrase of the level below, on a stack of that level.\<close>

lemma binary_steps:
  "t \<noteq> Op Quote \<Longrightarrow> reduces (Nt L0 n # Op Caret # Nt L1 m # st) t = reduces (Nt L1 (FunctionNode F_XOR [m, n]) # st) t"
  "t \<noteq> Op Caret \<Longrightarrow> reduces (Nt L1 n # Nt L2 m # st) t = reduces (Nt L2 (FunctionNode F_AND [m, n]) # st) t"
  "t \<noteq> Op Caret \<Longrightarrow> x = Star \<or> x = Amp \<Longrightarrow>
     reduces (Nt L1 n # Op x # Nt L2 m # st) t = reduces (Nt L2 (FunctionNode F_AND [m, n]) # st) t"
  "t \<notin> {Op Star, Op Amp} \<Longrightarrow> \<not> starts t \<Longrightarrow> x = Plus \<or> x = Bar \<Longrightarrow>
     reduces (Nt L2 n # Op x # Nt L3 m # st) t = reduces (Nt L3 (FunctionNode F_OR [m, n]) # st) t"
proof -
  show "t \<noteq> Op Quote \<Longrightarrow> reduces (Nt L0 n # Op Caret # Nt L1 m # st) t = reduces (Nt L1 (FunctionNode F_XOR [m, n]) # st) t"
    by (subst raise_level(1)) (simp_all add: top_not_def reduces_Some)
  show "t \<noteq> Op Caret \<Longrightarrow> reduces (Nt L1 n # Nt L2 m # st) t = reduces (Nt L2 (FunctionNode F_AND [m, n]) # st) t"
    by (subst raise_level(2)) (simp_all add: top_not_def reduces_Some)
  show "t \<noteq> Op Caret \<Longrightarrow> x = Star \<or> x = Amp \<Longrightarrow>
     reduces (Nt L1 n # Op x # Nt L2 m # st) t = reduces (Nt L2 (FunctionNode F_AND [m, n]) # st) t"
    by (subst raise_level(2)) (auto simp: top_not_def reduces_Some)
  show "t \<notin> {Op Star, Op Amp} \<Longrightarrow> \<not> starts t \<Longrightarrow> x = Plus \<or> x = Bar \<Longrightarrow>
     reduces (Nt L2 n # Op x # Nt L3 m # st) t = reduces (Nt L3 (FunctionNode F_OR [m, n]) # st) t"
    by (subst raise_level(3)) (auto simp: top_not_def reduces_Some)
qed

lemma ctx_operators:
  "ctx L0 (Op Caret # st)" "ctx L3 (Op LPar # st)" "ctx L0 (Op Bang # st)"
  "x = Star \<or> x = Amp \<Longrightarrow> ctx L1 (Op x # st)" "x = Plus \<or> x = Bar \<Longrightarrow> ctx L2 (Op x # st)"
  by (auto simp: ready_op top_not_def)

lemma ctx_and: "ctx L2 st \<Longrightarrow> ctx L1 (Nt L2 m # st)"
  using stay(3) [OF ctx_top(4)] by (simp add: ready_def top_not_def del: reduce.simps)

text \<open>
  After a phrase has been shifted, the reductions under an admissible next token are those of the stack with the
  phrase as one token.
\<close>

lemma derives_reduces:
  "derives l w n \<Longrightarrow> ctx l st \<Longrightarrow> follow l t \<Longrightarrow> reduces (fold shift w st) t = reduces (Nt l n # st) t"
proof (induction arbitrary: st t rule: derives.induct)
  case (atom i)
  then show ?case by (simp add: shift_def ready_reduces starts_def)
next
  case (paren w n)
  have "reduces (fold shift w (Op LPar # st)) (Op RPar) = Nt L3 n # Op LPar # st"
    by (subst paren.IH [OF ctx_operators(2)]) (simp_all add: starts_def stay_level(4) top_not_def)
  moreover have "reduces (Op RPar # Nt L3 n # Op LPar # st) t = reduces (Nt L0 n # st) t"
    by (rule reduces_Some) simp
  moreover have "reduces st (Op LPar) = st"
    using paren.prems by (simp add: ready_reduces starts_def)
  ultimately show ?case by (simp only: fold_shift_Cons fold_shift_snoc)
next
  case (bang w n)
  have "reduces (Nt L0 n # Op Bang # st) t = reduces (Nt L0 (not_node n) # st) t"
    by (rule reduces_Some) simp
  moreover have "reduces st (Op Bang) = st"
    using bang.prems by (simp add: ready_reduces starts_def)
  ultimately show ?case using bang.IH [OF ctx_operators(3), of t] by (simp only: fold_shift_Cons follow.simps)
next
  case (quote w n)
  have "reduces (fold shift w st) (Op Quote) = reduces (Nt L0 n # st) (Op Quote)"
    by (rule quote.IH [OF quote.prems(1)]) simp
  then show ?case by (simp only: fold_shift_snoc postfix_negation)
next
  case (xor_one w n)
  have "reduces (fold shift w st) t = reduces (Nt L0 n # st) t"
    by (rule xor_one.IH) (use xor_one.prems in simp_all)
  then show ?case using raise_level(1) [OF ctx_top(1) [OF xor_one.prems(1)]] xor_one.prems(2) by simp
next
  case (xor_more w m w' n)
  have "reduces (fold shift w st) (Op Caret) = Nt L1 m # st"
    using xor_more.IH(1) [OF xor_more.prems(1), of "Op Caret"] stay_level(2) [OF ctx_top(2) [OF xor_more.prems(1)]]
    by simp
  then show ?case
    using xor_more.IH(2) [OF ctx_operators(1), of t] binary_steps(1) xor_more.prems(2)
    by (simp only: fold_shift_mid follow.simps)
next
  case (and_one w n)
  have "reduces (fold shift w st) t = reduces (Nt L1 n # st) t"
    by (rule and_one.IH [OF ctx_top(3)]) (use and_one.prems in simp_all)
  then show ?case
    using raise_level(2) [OF ctx_top(2) [OF ctx_top(3) [OF and_one.prems(1)]]] and_one.prems(2) by simp
next
  case (and_next w m w' n)
  obtain s w'' where w': "w' = s # w''" "starts s" using derives_starts [OF and_next.hyps(2)] by blast
  have keep: "reduces (Nt L2 m # st) s = Nt L2 m # st"
    using w'(2) by (intro stay_level(3) [OF ctx_top(4) [OF and_next.prems(1)]]) simp
  have "follow L2 s" using w'(2) by (auto simp: starts_def)
  then have "reduces (fold shift w st) s = Nt L2 m # st"
    using and_next.IH(1) [OF and_next.prems(1)] keep by simp
  then have "fold shift (w @ w') st = fold shift w' (Nt L2 m # st)"
    using fold_shift_start [OF w'(1) _ keep, of "fold shift w st"] by simp
  moreover have "reduces (fold shift w' (Nt L2 m # st)) t = reduces (Nt L1 n # Nt L2 m # st) t"
    by (rule and_next.IH(2) [OF ctx_and [OF and_next.prems(1)]]) (use and_next.prems(2) in simp)
  ultimately show ?case using binary_steps(2) and_next.prems(2) by simp
next
  case (and_more w m x w' n)
  have x: "x = Star \<or> x = Amp" using and_more.hyps(2) by simp
  then have "reduces (fold shift w st) (Op x) = Nt L2 m # st"
    using and_more.IH(1) [OF and_more.prems(1), of "Op x"] stay_level(3) [OF ctx_top(4) [OF and_more.prems(1)]] by auto
  moreover have "reduces (fold shift w' (Op x # Nt L2 m # st)) t = reduces (Nt L1 n # Op x # Nt L2 m # st) t"
    by (rule and_more.IH(2) [OF ctx_operators(4) [OF x]]) (use and_more.prems(2) in simp)
  ultimately show ?case using binary_steps(3) [OF _ x] and_more.prems(2) by (simp add: fold_shift_mid del: fold_append)
next
  case (or_one w n)
  have "reduces (fold shift w st) t = reduces (Nt L2 n # st) t"
    by (rule or_one.IH [OF ctx_top(5)]) (use or_one.prems in simp_all)
  then show ?case
    using raise_level(3) [OF ctx_top(4) [OF ctx_top(5) [OF or_one.prems(1)]]] or_one.prems(2) by simp
next
  case (or_more w m x w' n)
  have x: "x = Plus \<or> x = Bar" using or_more.hyps(2) by simp
  then have "reduces (fold shift w st) (Op x) = Nt L3 m # st"
    using or_more.IH(1) [OF or_more.prems(1), of "Op x"] stay_level(4) [OF ctx_top(6) [OF or_more.prems(1)]]
    by (auto simp: starts_def)
  moreover have "reduces (fold shift w' (Op x # Nt L3 m # st)) t = reduces (Nt L2 n # Op x # Nt L3 m # st) t"
    by (rule or_more.IH(2) [OF ctx_operators(5) [OF x]]) (use or_more.prems(2) in simp)
  ultimately show ?case using binary_steps(4) [OF _ _ x] or_more.prems(2) by (simp add: fold_shift_mid del: fold_append)
qed

lemma derives_accepts: "derives L3 w n \<Longrightarrow> accepts w = Some n"
  using derives_reduces [of L3 w n "[]" "Op Dot"] stay_level(4) [of "[]" n "Op Dot"]
  by (simp add: accepts_def ready_def top_not_def starts_def)

section \<open>Soundness\<close>

text \<open>A stack spells a list of tokens that its entries are phrases of.\<close>

fun spells :: "stack \<Rightarrow> token list \<Rightarrow> bool" where
  "spells [] ts \<longleftrightarrow> ts = []"
| "spells (Op x # st) ts \<longleftrightarrow> (\<exists>us. ts = us @ [Op x] \<and> spells st us)"
| "spells (Nt l n # st) ts \<longleftrightarrow> (\<exists>us w m. ts = us @ w \<and> derives l w m \<and> spells st us)"

lemma derives_xor: "derives l w' n \<Longrightarrow> l = L1 \<Longrightarrow> derives L1 w m \<Longrightarrow> \<exists>k. derives L1 (w @ Op Caret # w') k"
proof (induction rule: derives.induct)
  case (xor_more w1 m1 w2 n2)
  then obtain k where "derives L1 (w @ Op Caret # w1) k" by auto
  from derives.xor_more [OF this xor_more.hyps(2)] show ?case by auto
qed (auto intro: derives.intros)

lemma derives_and: "derives l w' n \<Longrightarrow> l = L2 \<Longrightarrow> derives L2 w m \<Longrightarrow> v \<in> {[], [Op Star], [Op Amp]} \<Longrightarrow>
  \<exists>k. derives L2 (w @ v @ w') k"
proof (induction rule: derives.induct)
  case (and_one w1 n1)
  then show ?case using derives.and_next derives.and_more by fastforce
next
  case (and_next w1 m1 w2 n2)
  then obtain k where "derives L2 (w @ v @ w1) k" by auto
  from derives.and_next [OF this and_next.hyps(2)] show ?case by auto
next
  case (and_more w1 m1 x w2 n2)
  then obtain k where "derives L2 (w @ v @ w1) k" by auto
  from derives.and_more [OF this and_more.hyps(2,3)] show ?case by auto
qed auto

lemma derives_or: "derives l w' n \<Longrightarrow> l = L3 \<Longrightarrow> derives L3 w m \<Longrightarrow> x \<in> {Plus, Bar} \<Longrightarrow>
  \<exists>k. derives L3 (w @ Op x # w') k"
proof (induction rule: derives.induct)
  case (or_one w1 n1)
  then show ?case using derives.or_more by blast
next
  case (or_more w1 m1 y w2 n2)
  then obtain k where "derives L3 (w @ Op x # w1) k" by auto
  from derives.or_more [OF this or_more.hyps(2,3)] show ?case by auto
qed auto

lemma spells_phrase: "spells st us \<Longrightarrow> derives l w m \<Longrightarrow> spells (Nt l n # st) (us @ w)"
  by auto

lemma spells_raise:
  assumes "spells (Nt l n # st) ts" "\<And>w m. derives l w m \<Longrightarrow> \<exists>m'. derives l' w m'"
  shows "spells (Nt l' n' # st) ts"
proof -
  obtain us w m where "ts = us @ w" "derives l w m" "spells st us" using assms(1) by auto
  with assms(2) [of w m] spells_phrase show ?thesis by blast
qed

lemma spells_binary:
  assumes "spells (Nt l n # map Op xs @ Nt l m # st) ts"
    and "\<And>w m w' n. derives l w m \<Longrightarrow> derives l w' n \<Longrightarrow> \<exists>k. derives l (w @ map Op (rev xs) @ w') k"
  shows "spells (Nt l k # st) ts"
proof -
  have split: "spells (map Op xs @ st) us \<Longrightarrow> \<exists>vs. us = vs @ map Op (rev xs) \<and> spells st vs" for st us
    by (induction xs arbitrary: us) auto
  obtain us w1 m1 where 1: "ts = us @ w1" "derives l w1 m1" "spells (map Op xs @ Nt l m # st) us"
    using assms(1) by auto
  obtain vs where 2: "us = vs @ map Op (rev xs)" "spells (Nt l m # st) vs" using split [OF 1(3)] by blast
  obtain us' w2 m2 where 3: "vs = us' @ w2" "derives l w2 m2" "spells st us'" using 2(2) by auto
  obtain k' where "derives l (w2 @ map Op (rev xs) @ w1) k'" using assms(2) [OF 3(2) 1(2)] by blast
  from spells_phrase [OF 3(3) this] 1(1) 2(1) 3(1) show ?thesis by simp
qed

lemma spells_levels:
  "spells (Nt L0 n # st) ts \<Longrightarrow> spells (Nt L1 n' # st) ts"
  "spells (Nt L1 n # st) ts \<Longrightarrow> spells (Nt L2 n' # st) ts"
  "spells (Nt L2 n # st) ts \<Longrightarrow> spells (Nt L3 n' # st) ts"
  by (erule spells_raise; blast intro: derives.intros)+

lemma spells_operators:
  "spells (Nt L1 n # Op Caret # Nt L1 m # st) ts \<Longrightarrow> spells (Nt L1 k # st) ts"
  "spells (Nt L2 n # Nt L2 m # st) ts \<Longrightarrow> spells (Nt L2 k # st) ts"
  "x \<in> {Star, Amp} \<Longrightarrow> spells (Nt L2 n # Op x # Nt L2 m # st) ts \<Longrightarrow> spells (Nt L2 k # st) ts"
  "x \<in> {Plus, Bar} \<Longrightarrow> spells (Nt L3 n # Op x # Nt L3 m # st) ts \<Longrightarrow> spells (Nt L3 k # st) ts"
proof -
  show "spells (Nt L1 k # st) ts" if "spells (Nt L1 n # Op Caret # Nt L1 m # st) ts"
    by (rule spells_binary [of L1 n "[Caret]"]) (use that derives_xor [OF _ refl] in \<open>simp_all del: spells.simps\<close>)
  show "spells (Nt L2 k # st) ts" if "spells (Nt L2 n # Nt L2 m # st) ts"
    by (rule spells_binary [of L2 n "[]"])
      (use that derives_and [OF _ refl, where v = "[]"] in \<open>simp_all del: spells.simps\<close>)
  show "spells (Nt L2 k # st) ts" if "x \<in> {Star, Amp}" "spells (Nt L2 n # Op x # Nt L2 m # st) ts"
  proof (rule spells_binary [of L2 n "[x]"])
    show "\<exists>k. derives L2 (w @ map Op (rev [x]) @ w') k" if "derives L2 w m" "derives L2 w' n" for w m w' n
      using derives_and [OF that(2) refl that(1), of "[Op x]"] \<open>x \<in> {Star, Amp}\<close> by auto
  qed (use that in \<open>simp del: spells.simps\<close>)
  show "spells (Nt L3 k # st) ts" if "x \<in> {Plus, Bar}" "spells (Nt L3 n # Op x # Nt L3 m # st) ts"
    by (rule spells_binary [of L3 n "[x]"])
      (use that derives_or [OF _ refl _ that(1)] in \<open>simp_all del: spells.simps\<close>)
qed

lemma spells_negations:
  "spells (Nt L0 n # Op Bang # st) ts \<Longrightarrow> spells (Nt L0 k # st) ts"
  "spells (Op Quote # Nt L0 n # st) ts \<Longrightarrow> spells (Nt L0 k # st) ts"
  "spells (Op RPar # Nt L3 n # Op LPar # st) ts \<Longrightarrow> spells (Nt L0 k # st) ts"
proof -
  show "spells (Nt L0 k # st) ts" if s: "spells (Nt L0 n # Op Bang # st) ts"
  proof -
    obtain us w m where "ts = us @ Op Bang # w" "derives L0 w m" "spells st us" using s by auto
    with spells_phrase [OF this(3) derives.bang [OF this(2)]] show ?thesis by simp
  qed
  show "spells (Nt L0 k # st) ts" if s: "spells (Op Quote # Nt L0 n # st) ts"
  proof -
    obtain us w m where "ts = us @ w @ [Op Quote]" "derives L0 w m" "spells st us" using s by auto
    with spells_phrase [OF this(3) derives.quote [OF this(2)]] show ?thesis by simp
  qed
  show "spells (Nt L0 k # st) ts" if s: "spells (Op RPar # Nt L3 n # Op LPar # st) ts"
  proof -
    obtain us w m where "ts = us @ Op LPar # w @ [Op RPar]" "derives L3 w m" "spells st us" using s by auto
    with spells_phrase [OF this(3) derives.paren [OF this(2)]] show ?thesis by simp
  qed
qed

lemma reduce_spells:
  assumes "reduce st t = Some st'" "spells st ts"
  shows "spells st' ts"
proof (cases st)
  case (Cons a as)
  note splits = list.split_asm token.split_asm operator.split_asm level.split_asm if_split_asm
  have x: "Star \<in> {Star, Amp}" "Amp \<in> {Star, Amp}" "Plus \<in> {Plus, Bar}" "Bar \<in> {Plus, Bar}" by simp_all
  note intros = spells_levels spells_operators(1,2) spells_operators(3) [OF x(1)] spells_operators(3) [OF x(2)]
    spells_operators(4) [OF x(3)] spells_operators(4) [OF x(4)] spells_negations
  show ?thesis
  proof (cases a)
    case (Op x)
    with assms Cons show ?thesis
      by (cases x) (auto simp del: spells.simps split: splits dest: intros)
  next
    case (Nt l n)
    with assms Cons show ?thesis
      by (cases l) (auto simp del: spells.simps split: splits dest: intros)
  qed
qed (use assms in simp)

lemma reduces_spells: "spells st ts \<Longrightarrow> spells (reduces st t) ts"
proof (induction st t rule: reduces.induct)
  case (1 st t)
  then show ?case
    by (cases "reduce st t") (simp_all add: reduces_None reduces_Some reduce_spells)
qed

definition input_token :: "token \<Rightarrow> bool" where
  "input_token t \<longleftrightarrow> (\<exists>x. t = Op x) \<or> (\<exists>i. t = Nt L0 (InputNode i))"

lemma fold_shift_spells:
  "\<forall>t\<in>set w. input_token t \<Longrightarrow> spells st ts \<Longrightarrow> spells (fold shift w st) (ts @ w)"
proof (induction w arbitrary: st ts)
  case (Cons t w)
  have "spells (shift t st) (ts @ [t])"
    using Cons.prems reduces_spells [of st ts t] derives.atom unfolding shift_def input_token_def
    by auto blast
  then show ?case using Cons.IH [of "shift t st" "ts @ [t]"] Cons.prems by simp
qed simp

lemma accepts_iff:
  assumes "\<forall>t\<in>set w. input_token t"
  shows "accepts w = Some n \<longleftrightarrow> derives L3 w n"
proof
  assume a: "accepts w = Some n"
  then have "reduces (fold shift w []) (Op Dot) = [Nt L3 n]"
    by (auto simp: accepts_def split: list.splits token.splits level.splits)
  moreover have "spells (reduces (fold shift w []) (Op Dot)) w"
    using reduces_spells [OF fold_shift_spells [OF assms, of "[]" "[]"]] by simp
  ultimately obtain m where "derives L3 w m" by auto
  with a derives_accepts [OF this] show "derives L3 w n" by simp
qed (rule derives_accepts)

lemma tokenize_input:
  "tokenize d D states aliases s b = Inr (ts, b') \<Longrightarrow> \<forall>t\<in>set ts. input_token t"
proof (induction d D states aliases s b arbitrary: ts b' rule: tokenize.induct)
  case (2 d D states aliases c cs b)
  then show ?case
    by (auto simp: rbind_eq_Inr_iff input_token_def simp del: op_of.simps split: if_splits option.splits) blast+
qed simp

end
