(* ===== verification/BoolTreeTable.thy ===== *)
theory BoolTreeTable
  imports BoolTreeGrammar TruthTableCofactor
begin

text \<open>
  The meaning of a parsed tree: \<open>getValue\<close> never fails on the trees the parser builds and is the Boolean function
  of the tree, the truth table lists that function row by row, and the expression of a sequential model
  computes it and passes the validation of \<open>SNLDesignModeling::setSequentialModel\<close>.
\<close>

section \<open>Well-formed trees\<close>

fun node_ok :: "tree_node \<Rightarrow> bool" where
  "node_ok (InputNode i) \<longleftrightarrow> True"
| "node_ok (FunctionNode f ns) \<longleftrightarrow>
     length ns = (if f \<in> {F_NOT, F_BUFFER} then 1 else 2) \<and> (\<forall>n\<in>set ns. node_ok n)"

fun node_value :: "(input_node \<Rightarrow> bool) \<Rightarrow> tree_node \<Rightarrow> bool" where
  "node_value v (InputNode i) = input_value v i"
| "node_value v (FunctionNode f ns) = (let xs = map (node_value v) ns in case f of
     F_AND \<Rightarrow> list_all id xs
   | F_OR \<Rightarrow> list_ex id xs
   | F_XOR \<Rightarrow> odd (length (filter id xs))
   | F_NOT \<Rightarrow> \<not> hd xs
   | F_BUFFER \<Rightarrow> hd xs)"

fun node_inputs :: "tree_node \<Rightarrow> input_node set" where
  "node_inputs (InputNode i) = {i}"
| "node_inputs (FunctionNode f ns) = (\<Union>n\<in>set ns. node_inputs n)"

lemma derives_node_ok: "derives l w n \<Longrightarrow> node_ok n"
  by (induction rule: derives.induct) auto

lemma root_of_ok: "node_ok n \<Longrightarrow> node_ok (root_of n)"
  by (cases n) (simp_all add: root_of_def)

lemma root_of_value [simp]: "node_value v (root_of n) = node_value v n"
  by (cases n) (simp_all add: root_of_def)

lemma length_one_conv: "length xs = Suc 0 \<longleftrightarrow> (\<exists>x. xs = [x])"
  by (cases xs) auto

lemma getValue_node_value:
  "node_ok n \<Longrightarrow> getValue v n = Inr (node_value v n)"
  "(\<forall>n\<in>set ns. node_ok n) \<Longrightarrow> all_of v ns = Inr (list_all id (map (node_value v) ns))"
  "(\<forall>n\<in>set ns. node_ok n) \<Longrightarrow> any_of v ns = Inr (list_ex id (map (node_value v) ns))"
  "(\<forall>n\<in>set ns. node_ok n) \<Longrightarrow> count_if v ns = Inr (length (filter id (map (node_value v) ns)))"
  by (induction v n and v ns and v ns and v ns rule: getValue_all_of_any_of_count_if.induct)
    (auto simp: length_one_conv)

lemma node_value_cong:
  "(\<And>i. i \<in> node_inputs n \<Longrightarrow> v i = v' i) \<Longrightarrow> node_value v n = node_value v' n"
proof (induction n)
  case (InputNode i)
  then show ?case by (cases i) (simp_all add: input_value_def)
next
  case (FunctionNode f ns)
  then have "map (node_value v) ns = map (node_value v') ns" by auto
  then show ?case by (simp only: node_value.simps)
qed

section \<open>Rows\<close>

lemma set_row_outside:
  assumes "x \<notin> INPUT ` set inputs"
  shows "set_row inputs i v x = v x"
proof -
  let ?f = "\<lambda>j v. v(INPUT (inputs ! j) := bit i (length inputs - j - 1))"
  have "k \<le> length inputs \<Longrightarrow> fold ?f [0..<k] v x = v x" for k
  proof (induction k)
    case (Suc k)
    then have "x \<noteq> INPUT (inputs ! k)" using assms by auto
    with Suc show ?case by simp
  qed simp
  then show ?thesis by (simp add: set_row_def)
qed

lemma set_row_inside:
  assumes "distinct inputs" "j < length inputs"
  shows "set_row inputs i v (INPUT (inputs ! j)) \<longleftrightarrow> bit i (length inputs - j - 1)"
proof -
  let ?f = "\<lambda>j v. v(INPUT (inputs ! j) := bit i (length inputs - j - 1))"
  have "k \<le> length inputs \<Longrightarrow> j < k \<Longrightarrow>
      fold ?f [0..<k] v (INPUT (inputs ! j)) = bit i (length inputs - j - 1)" for k
  proof (induction k)
    case (Suc k)
    have "?f k (fold ?f [0..<k] v) (INPUT (inputs ! j)) =
        (if j = k then bit i (length inputs - j - 1) else fold ?f [0..<k] v (INPUT (inputs ! j)))"
      using Suc.prems assms(1) by (auto simp: nth_eq_iff_index_eq)
    moreover have "fold ?f [0..<Suc k] v = ?f k (fold ?f [0..<k] v)" by simp
    moreover have "j \<noteq> k \<Longrightarrow> fold ?f [0..<k] v (INPUT (inputs ! j)) = bit i (length inputs - j - 1)"
      by (rule Suc.IH) (use Suc.prems in simp_all)
    ultimately show ?case by (cases "j = k") (simp_all only: simp_thms if_True if_False)
  qed simp
  from this [OF order_refl assms(2)] show ?thesis unfolding set_row_def .
qed

lemma set_row_absorb:
  assumes "distinct inputs" "\<And>x. x \<notin> INPUT ` set inputs \<Longrightarrow> v x = w x"
  shows "set_row inputs i v = set_row inputs i w"
proof
  fix x
  show "set_row inputs i v x = set_row inputs i w x"
  proof (cases "x \<in> INPUT ` set inputs")
    case True
    then obtain j where "j < length inputs" "x = INPUT (inputs ! j)" by (auto simp: in_set_conv_nth)
    with assms(1) show ?thesis by (simp add: set_row_inside)
  qed (simp add: set_row_outside assms(2))
qed

lemma table_rows:
  assumes "node_ok root" "distinct inputs" "\<And>x. x \<notin> INPUT ` set inputs \<Longrightarrow> w x = v x"
  shows "\<exists>w'. rfold (table_row root inputs) is (w, acc) =
    Inr (w', acc @ map (\<lambda>i. node_value (set_row inputs i v) root) is) \<and>
    (\<forall>x. x \<notin> INPUT ` set inputs \<longrightarrow> w' x = v x)"
  using assms(3)
proof (induction "is" arbitrary: w acc)
  case (Cons i "is")
  have "set_row inputs i w = set_row inputs i v"
    using Cons.prems by (intro set_row_absorb [OF assms(2)])
  then have "table_row root inputs i (w, acc) =
      Inr (set_row inputs i v, acc @ [node_value (set_row inputs i v) root])"
    using assms(1) by (simp add: table_row_def getValue_node_value(1) Let_def)
  moreover obtain w' where "rfold (table_row root inputs) is (set_row inputs i v, acc @ [node_value (set_row inputs i v) root]) =
      Inr (w', (acc @ [node_value (set_row inputs i v) root]) @ map (\<lambda>i. node_value (set_row inputs i v) root) is)"
    "\<forall>x. x \<notin> INPUT ` set inputs \<longrightarrow> w' x = v x"
    using Cons.IH [of "set_row inputs i v" "acc @ [node_value (set_row inputs i v) root]"] set_row_outside by metis
  ultimately show ?case by simp
qed simp

lemma bit_row_mask:
  "i + length xs \<le> 64 \<Longrightarrow>
   bit (row_mask i xs m) k \<longleftrightarrow> bit m k \<or> (i \<le> k \<and> k < i + length xs \<and> xs ! (k - i))"
proof (induction i xs m rule: row_mask.induct)
  case (2 i x xs m)
  have "bit (push_bit i (if x then 1 else 0 :: u64)) k \<longleftrightarrow> k = i \<and> x"
    using "2.prems" by (auto simp: bit_push_bit_iff bit_1_iff)
  then show ?case
    using 2 by (auto simp: bit_or_iff nth_Cons' Suc_le_eq)
qed auto

text \<open>The table of a list of rows.\<close>

lemma table_of_rows:
  assumes n: "n < 31" and rows: "length rows = 2 ^ n" and deps: "length deps \<le> n"
  obtains tt where "(if n > 6 then tt_of_bits n rows (encodeBits deps)
      else tt_of_mask n (row_mask 0 rows 0) (encodeBits deps)) = Inr tt"
    "tt_wf tt" "tt_size tt = n" "tt_generic tt = G_NONE" "dep_set (tt_deps tt) = set deps"
    "\<And>a. tt_eval tt a = rows ! row_of n a"
proof -
  have c: "countBitsForVector (encodeBits deps) \<le> n"
    using deps card_length [of deps] by (simp add: countBitsForVector_card)
  show thesis
  proof (cases "n > 6")
    case True
    then have "(if n > 6 then tt_of_bits n rows (encodeBits deps)
        else tt_of_mask n (row_mask 0 rows 0) (encodeBits deps)) =
      Inr (tt_default\<lparr>tt_size := n, tt_bits := \<lparr>nbits = 2 ^ n, bdata = Vec rows\<rparr>, tt_deps := encodeBits deps\<rparr>)"
      using n c by (simp add: tt_of_bits_Inr)
    then show thesis
      by (rule that) (use True n c rows in \<open>simp_all add: tt_wf_bits tt_eval_def bv_get_def, simp_all add: tt_default_def\<close>)
  next
    case False
    then have "(if n > 6 then tt_of_bits n rows (encodeBits deps)
        else tt_of_mask n (row_mask 0 rows 0) (encodeBits deps)) =
      Inr (tt_default\<lparr>tt_size := n, tt_bits := \<lparr>nbits = 2 ^ n, bdata = Mask (row_mask 0 rows 0)\<rparr>, tt_deps := encodeBits deps\<rparr>)"
      using c by (simp add: tt_of_mask_Inr)
    note tt = this
    have "bit (row_mask 0 rows 0) (row_of n a) \<longleftrightarrow> rows ! row_of n a" for a
      using False power_increasing [of n 6 "2::nat"] rows by (subst bit_row_mask) simp_all
    then show thesis
      by (intro that [OF tt]) (use False c in \<open>simp_all add: tt_wf_mask tt_eval_def bv_get_def, simp_all add: tt_default_def\<close>)
  qed
qed

section \<open>The truth table of a tree\<close>

text \<open>The values of the input nodes under an assignment of the table: the first term has the highest index.\<close>

definition assign_inputs :: "NLID list \<Rightarrow> (nat \<Rightarrow> bool) \<Rightarrow> (input_node \<Rightarrow> bool) \<Rightarrow> (input_node \<Rightarrow> bool)" where
  "assign_inputs inputs a v = (\<lambda>x. case x of
     INPUT t \<Rightarrow> (if t \<in> set inputs then a (length inputs - 1 - length (takeWhile (\<lambda>u. u \<noteq> t) inputs)) else v x)
   | _ \<Rightarrow> v x)"

lemma takeWhile_index: "distinct xs \<Longrightarrow> j < length xs \<Longrightarrow> length (takeWhile (\<lambda>u. u \<noteq> xs ! j) xs) = j"
proof (induction xs arbitrary: j)
  case (Cons x xs)
  then show ?case by (cases j) auto
qed simp

lemma set_row_assign:
  assumes "distinct inputs"
  shows "set_row inputs (row_of (length inputs) a) v = assign_inputs inputs a v"
proof
  fix x
  show "set_row inputs (row_of (length inputs) a) v x = assign_inputs inputs a v x"
  proof (cases "x \<in> INPUT ` set inputs")
    case True
    then obtain j where "j < length inputs" "x = INPUT (inputs ! j)" by (auto simp: in_set_conv_nth)
    with assms show ?thesis
      by (simp add: set_row_inside bit_row_of assign_inputs_def takeWhile_index) auto
  next
    case False
    then show ?thesis by (auto simp: set_row_outside assign_inputs_def split: input_node.splits)
  qed
qed

lemma fold_false_outside: "x \<notin> INPUT ` set ts \<Longrightarrow> fold (\<lambda>t v. v(INPUT t := False)) ts v x = v x"
  by (induction ts arbitrary: v) auto

lemma getTruthTable_spec:
  assumes root: "b_root b = Some root" "node_ok root"
    and terms: "distinct terms" "set (b_inputs b) \<subseteq> set terms" "length (b_inputs b) < 31" "distinct (b_inputs b)"
  defines "inputs \<equiv> filter (\<lambda>t. t \<in> set (b_inputs b)) terms"
  obtains tt b' where "getTruthTable d D terms b = Inr (tt, b')" "tt_wf tt" "tt_size tt = length inputs"
    "tt_generic tt = G_NONE" "dep_set (tt_deps tt) = getOrderID d D ` set inputs"
    "\<And>a. tt_eval tt a = node_value (assign_inputs inputs a (b_value b)) root"
proof -
  have di: "distinct inputs" using terms(1) by (simp add: inputs_def)
  have "set inputs = set (b_inputs b)" using terms(2) by (auto simp: inputs_def)
  then have len: "length inputs < 31"
    using terms(3,4) di by (metis distinct_card)
  define v where "v = fold (\<lambda>t v. v(INPUT t := False)) inputs (b_value b)"
  define rows where "rows = map (\<lambda>i. node_value (set_row inputs i (b_value b)) root) [0..<2 ^ length inputs]"
  obtain w where w: "rfold (table_row root inputs) [0..<2 ^ length inputs] (v, []) = Inr (w, rows)"
    using table_rows [OF root(2) di, of v "b_value b" "[0..<2 ^ length inputs]" "[]"] fold_false_outside
    unfolding v_def rows_def by fastforce
  have lr: "length rows = 2 ^ length inputs" by (simp add: rows_def)
  obtain tt where tt: "(if length inputs > 6 then tt_of_bits (length inputs) rows (encodeBits (map (getOrderID d D) inputs))
      else tt_of_mask (length inputs) (row_mask 0 rows 0) (encodeBits (map (getOrderID d D) inputs))) = Inr tt"
    "tt_wf tt" "tt_size tt = length inputs" "tt_generic tt = G_NONE"
    "dep_set (tt_deps tt) = set (map (getOrderID d D) inputs)"
    "\<And>a. tt_eval tt a = rows ! row_of (length inputs) a"
    by (rule table_of_rows [OF len lr, of "map (getOrderID d D) inputs"]) auto
  have "getTruthTable d D terms b = Inr (tt, b\<lparr>b_value := w\<rparr>)"
    using root(1) terms(2) len w tt(1)
    unfolding getTruthTable_def inputs_def [symmetric] Let_def v_def [symmetric] by simp
  moreover have "rows ! row_of (length inputs) a = node_value (assign_inputs inputs a (b_value b)) root" for a
    unfolding rows_def by (simp add: set_row_assign [OF di])
  ultimately show thesis using that tt by simp
qed

end
