(* ===== verification/BoolTreeExpr.thy ===== *)
theory BoolTreeExpr
  imports BoolTreeTable NetlistInv
begin

text \<open>
  The expression that \<open>getBooleanExpression\<close> builds for a sequential model, against the validation of
  \<^verbatim>\<open>SNLDesignModeling.cpp\<close>: operands point to earlier nodes, so the nodes can be evaluated in order.  The last
  section puts the parser, the tabulation and the order of the terminals together.
\<close>

section \<open>Validation\<close>

definition expected_operands :: "expression_operator \<Rightarrow> nat" where
  "expected_operands x = (case x of E_Constant \<Rightarrow> 0 | E_Term \<Rightarrow> 0 | E_State \<Rightarrow> 0 | E_Not \<Rightarrow> 1 | _ \<Rightarrow> 2)"

definition validate_node :: "did \<Rightarrow> nat \<Rightarrow> nat \<times> expression_node \<Rightarrow> unit \<Rightarrow> unit result" where
  "validate_node d states p _ = (case p of (i, n) \<Rightarrow>
     if length (e_operands n) \<noteq> expected_operands (e_operation n)
     then Inl (NLException ''operator has a wrong number of operands'')
     else if e_operation n = E_Term \<and> e_term n = None then Inl (NLException ''Term node has a null term'')
     else if e_operation n = E_Term \<and> id_ref (the (e_term n)) \<noteq> d
     then Inl (NLException ''term belongs to another design'')
     else if e_operation n = E_State \<and> e_state n \<ge> states then Inl (NLException ''state index is outside states array'')
     else if \<exists>k\<in>set (e_operands n). k \<ge> i then Inl (NLException ''operands must refer to an earlier node'')
     else Inr ())"

definition validateExpression :: "did \<Rightarrow> nat \<Rightarrow> BooleanExpression \<Rightarrow> unit result" where
  "validateExpression d states e = (if \<not> expression_isValid e then Inl (NLException ''root node index is outside node array'')
     else rfold (validate_node d states) (enumerate 0 (e_nodes e)) ())"

definition node_valid :: "did \<Rightarrow> nat \<Rightarrow> nat \<Rightarrow> expression_node \<Rightarrow> bool" where
  "node_valid d states i n \<longleftrightarrow> validate_node d states (i, n) () = Inr ()"

definition nodes_valid :: "did \<Rightarrow> nat \<Rightarrow> expression_node list \<Rightarrow> bool" where
  "nodes_valid d states ns \<longleftrightarrow> (\<forall>i < length ns. node_valid d states i (ns ! i))"

lemma validateExpression_iff:
  "validateExpression d states e = Inr () \<longleftrightarrow> expression_isValid e \<and> nodes_valid d states (e_nodes e)"
proof -
  have "rfold (validate_node d states) ps () = Inr () \<longleftrightarrow> (\<forall>p\<in>set ps. validate_node d states p () = Inr ())" for ps
    by (induction ps) (auto simp: rbind_eq_Inr_iff)
  moreover have "(\<forall>p\<in>set (enumerate 0 ns). P p) \<longleftrightarrow> (\<forall>i < length ns. P (i, ns ! i))" for P and ns :: "expression_node list"
    by (auto simp: in_set_enumerate_eq)
  ultimately show ?thesis by (simp add: validateExpression_def nodes_valid_def node_valid_def)
qed

lemma nodes_valid_snoc:
  "nodes_valid d states (ns @ [n]) \<longleftrightarrow> nodes_valid d states ns \<and> node_valid d states (length ns) n"
  by (auto simp: nodes_valid_def nth_append less_Suc_eq)

section \<open>Evaluation\<close>

definition expr_node_value :: "(NLID \<Rightarrow> bool) \<Rightarrow> (nat \<Rightarrow> bool) \<Rightarrow> bool list \<Rightarrow> expression_node \<Rightarrow> bool" where
  "expr_node_value \<rho> \<sigma> vs n = (let xs = map ((!) vs) (e_operands n) in case e_operation n of
     E_Constant \<Rightarrow> e_constant n
   | E_Term \<Rightarrow> \<rho> (the (e_term n))
   | E_State \<Rightarrow> \<sigma> (e_state n)
   | E_Not \<Rightarrow> \<not> hd xs
   | E_And \<Rightarrow> list_all id xs
   | E_Or \<Rightarrow> list_ex id xs
   | E_Xor \<Rightarrow> odd (length (filter id xs)))"

definition expr_values :: "(NLID \<Rightarrow> bool) \<Rightarrow> (nat \<Rightarrow> bool) \<Rightarrow> expression_node list \<Rightarrow> bool list" where
  "expr_values \<rho> \<sigma> ns = foldl (\<lambda>vs n. vs @ [expr_node_value \<rho> \<sigma> vs n]) [] ns"

lemma expr_values_snoc:
  "expr_values \<rho> \<sigma> (ns @ [n]) = expr_values \<rho> \<sigma> ns @ [expr_node_value \<rho> \<sigma> (expr_values \<rho> \<sigma> ns) n]"
  by (simp add: expr_values_def)

lemma length_expr_values [simp]: "length (expr_values \<rho> \<sigma> ns) = length ns"
  by (induction ns rule: rev_induct) (simp_all add: expr_values_snoc, simp add: expr_values_def)

lemma expr_values_prefix: "i < length ns \<Longrightarrow> expr_values \<rho> \<sigma> (ns @ ms) ! i = expr_values \<rho> \<sigma> ns ! i"
  by (induction ms rule: rev_induct) (simp_all add: expr_values_snoc nth_append flip: append_assoc)

text \<open>The values of the input nodes that an assignment of terminals and states gives.\<close>

definition sequential_env :: "(NLID \<Rightarrow> bool) \<Rightarrow> (nat \<Rightarrow> bool) \<Rightarrow> input_node \<Rightarrow> bool" where
  "sequential_env \<rho> \<sigma> x = (case x of INPUT t \<Rightarrow> \<rho> t | STATE s neg \<Rightarrow> \<sigma> s \<noteq> neg | _ \<Rightarrow> False)"

definition input_valid :: "did \<Rightarrow> nat \<Rightarrow> input_node \<Rightarrow> bool" where
  "input_valid d states x \<longleftrightarrow> (case x of INPUT t \<Rightarrow> id_ref t = d | STATE s neg \<Rightarrow> s < states | _ \<Rightarrow> True)"

text \<open>Node \<open>k\<close> was appended to an expression and has the value \<open>x\<close>.\<close>

definition appended ::
  "(NLID \<Rightarrow> bool) \<Rightarrow> (nat \<Rightarrow> bool) \<Rightarrow> did \<Rightarrow> nat \<Rightarrow> BooleanExpression \<Rightarrow> BooleanExpression \<Rightarrow> nat \<Rightarrow> bool \<Rightarrow> bool" where
  "appended \<rho> \<sigma> d states e e' k x \<longleftrightarrow> (\<exists>ms. e_nodes e' = e_nodes e @ ms) \<and>
     nodes_valid d states (e_nodes e') \<and> k < length (e_nodes e') \<and> expr_values \<rho> \<sigma> (e_nodes e') ! k = x"

lemma appended_add:
  assumes "nodes_valid d states (e_nodes e)" "node_valid d states (length (e_nodes e)) n"
  shows "appended \<rho> \<sigma> d states e (snd (add_node n e)) (fst (add_node n e))
    (expr_node_value \<rho> \<sigma> (expr_values \<rho> \<sigma> (e_nodes e)) n)"
  using assms by (simp add: appended_def add_node_def nodes_valid_snoc expr_values_snoc nth_append)

lemma appended_more:
  assumes "appended \<rho> \<sigma> d states e e' k x" "e_nodes e'' = e_nodes e' @ ms" "nodes_valid d states (e_nodes e'')"
  shows "appended \<rho> \<sigma> d states e e'' k x"
  using assms by (auto simp: appended_def expr_values_prefix)

lemma appended_input:
  assumes v: "nodes_valid d states (e_nodes e)" and i: "input_valid d states i"
  shows "appended \<rho> \<sigma> d states e (snd (append_input i e)) (fst (append_input i e))
    (input_value (sequential_env \<rho> \<sigma>) i)"
proof (cases i)
  case (INPUT t)
  then show ?thesis
    using appended_add [OF v, of "(plain_node E_Term)\<lparr>e_term := Some t\<rparr>"] i
    by (simp add: append_input_def addTermNode_def input_value_def sequential_env_def expr_node_value_def input_valid_def
        node_valid_def validate_node_def expected_operands_def)
next
  case (STATE s neg)
  let ?n = "(plain_node E_State)\<lparr>e_state := s\<rparr>"
  have 1: "appended \<rho> \<sigma> d states e (snd (add_node ?n e)) (fst (add_node ?n e)) (\<sigma> s)"
    using appended_add [OF v, of ?n \<rho> \<sigma>] i STATE
    by (simp add: expr_node_value_def input_valid_def node_valid_def validate_node_def expected_operands_def)
  show ?thesis
  proof (cases neg)
    case False
    with 1 STATE show ?thesis
      by (simp add: append_input_def addState_def input_value_def sequential_env_def case_prod_beta Let_def)
  next
    case True
    let ?k = "fst (add_node ?n e)" and ?e = "snd (add_node ?n e)"
    let ?m = "(plain_node E_Not)\<lparr>e_operands := [?k]\<rparr>"
    have k: "?k < length (e_nodes ?e)" "nodes_valid d states (e_nodes ?e)" "expr_values \<rho> \<sigma> (e_nodes ?e) ! ?k = \<sigma> s"
      using 1 by (simp_all add: appended_def)
    have "appended \<rho> \<sigma> d states ?e (snd (add_node ?m ?e)) (fst (add_node ?m ?e)) (\<not> \<sigma> s)"
      using appended_add [OF k(2), of ?m \<rho> \<sigma>] k(1,3)
      by (simp add: expr_node_value_def node_valid_def validate_node_def expected_operands_def)
    moreover have "\<exists>ms. e_nodes ?e = e_nodes e @ ms" using 1 by (simp add: appended_def)
    ultimately show ?thesis using STATE True
      by (auto simp: append_input_def addState_def addOperation_def input_value_def sequential_env_def
          case_prod_beta Let_def appended_def)
  qed
next
  case CONSTANT0
  then show ?thesis
    using appended_add [OF v, of "(plain_node E_Constant)\<lparr>e_constant := False\<rparr>"]
    by (simp add: append_input_def addConstant_def input_value_def expr_node_value_def node_valid_def
        validate_node_def expected_operands_def)
next
  case CONSTANT1
  then show ?thesis
    using appended_add [OF v, of "(plain_node E_Constant)\<lparr>e_constant := True\<rparr>"]
    by (simp add: append_input_def addConstant_def input_value_def expr_node_value_def node_valid_def
        validate_node_def expected_operands_def)
qed

text \<open>The operands of a function node.\<close>

definition appended_all ::
  "(NLID \<Rightarrow> bool) \<Rightarrow> (nat \<Rightarrow> bool) \<Rightarrow> did \<Rightarrow> nat \<Rightarrow> BooleanExpression \<Rightarrow> BooleanExpression \<Rightarrow> nat list \<Rightarrow> bool list \<Rightarrow> bool" where
  "appended_all \<rho> \<sigma> d states e e' ks xs \<longleftrightarrow> (\<exists>ms. e_nodes e' = e_nodes e @ ms) \<and>
     nodes_valid d states (e_nodes e') \<and> (\<forall>k\<in>set ks. k < length (e_nodes e')) \<and>
     map ((!) (expr_values \<rho> \<sigma> (e_nodes e'))) ks = xs"

lemma appended_operation:
  assumes a: "appended_all \<rho> \<sigma> d states e e' ks xs" and x: "x \<in> {E_Not, E_And, E_Or, E_Xor}"
    and len: "length ks = expected_operands x"
  shows "appended \<rho> \<sigma> d states e (snd (addOperation x ks e')) (fst (addOperation x ks e'))
    (case x of E_Not \<Rightarrow> \<not> hd xs | E_And \<Rightarrow> list_all id xs | E_Or \<Rightarrow> list_ex id xs | _ \<Rightarrow> odd (length (filter id xs)))"
proof -
  let ?n = "(plain_node x)\<lparr>e_operands := ks\<rparr>"
  have "\<not> (\<exists>k\<in>set ks. k \<ge> length (e_nodes e'))" using a by (auto simp: appended_all_def)
  then have "node_valid d states (length (e_nodes e')) ?n"
    using len x by (auto simp: node_valid_def validate_node_def)
  from appended_add [OF _ this, of \<rho> \<sigma>] a x show ?thesis
    by (auto simp: appended_all_def appended_def addOperation_def expr_node_value_def)
qed

lemma append_nodes:
  "node_ok n \<Longrightarrow> (\<forall>i\<in>node_inputs n. input_valid d states i) \<Longrightarrow> nodes_valid d states (e_nodes e) \<Longrightarrow>
     \<exists>k e'. appendBooleanExpressionNode n e = Inr (k, e') \<and>
       appended \<rho> \<sigma> d states e e' k (node_value (sequential_env \<rho> \<sigma>) n)"
  "(\<forall>n\<in>set ns. node_ok n \<and> (\<forall>i\<in>node_inputs n. input_valid d states i)) \<Longrightarrow> nodes_valid d states (e_nodes e) \<Longrightarrow>
     \<exists>ks e'. append_operands ns e = Inr (ks, e') \<and> length ks = length ns \<and>
       appended_all \<rho> \<sigma> d states e e' ks (map (node_value (sequential_env \<rho> \<sigma>)) ns)"
proof (induction n e and ns e rule: appendBooleanExpressionNode_append_operands.induct)
  case (1 i e)
  then show ?case
    using appended_input [OF 1(3), of i \<rho> \<sigma>] by (cases "append_input i e") simp
next
  case (2 f ns e)
  then obtain ks e' where o: "append_operands ns e = Inr (ks, e')" "length ks = length ns"
    "appended_all \<rho> \<sigma> d states e e' ks (map (node_value (sequential_env \<rho> \<sigma>)) ns)"
    by auto
  show ?case
  proof (cases "f = F_BUFFER")
    case True
    then obtain k where k: "ks = [k]" using o(2) 2(2) by (cases ks) auto
    then show ?thesis using o True by (auto simp: appended_all_def appended_def Let_def)
  next
    case False
    define x where "x = (case f of F_NOT \<Rightarrow> E_Not | F_AND \<Rightarrow> E_And | F_OR \<Rightarrow> E_Or | _ \<Rightarrow> E_Xor)"
    have "x \<in> {E_Not, E_And, E_Or, E_Xor}" "length ks = expected_operands x"
      using o(2) 2(2) False by (cases f; simp add: x_def expected_operands_def)+
    from appended_operation [OF o(3) this] show ?thesis
      using o(1) False by (cases f) (auto simp: x_def Let_def prod_eq_iff intro!: exI)
  qed
next
  case (3 e)
  then show ?case by (simp add: appended_all_def)
next
  case (4 n ns e)
  then obtain k e1 where 1: "appendBooleanExpressionNode n e = Inr (k, e1)"
    "appended \<rho> \<sigma> d states e e1 k (node_value (sequential_env \<rho> \<sigma>) n)" by auto
  have v: "nodes_valid d states (e_nodes e1)" using 1(2) by (simp add: appended_def)
  obtain ks e2 where 2: "append_operands ns e1 = Inr (ks, e2)" "length ks = length ns"
    "appended_all \<rho> \<sigma> d states e1 e2 ks (map (node_value (sequential_env \<rho> \<sigma>)) ns)"
    using "4.IH"(2) [OF 1(1) refl _ v] "4.prems"(1) by auto
  then obtain ms where "e_nodes e2 = e_nodes e1 @ ms" "nodes_valid d states (e_nodes e2)"
    by (auto simp: appended_all_def)
  from appended_more [OF 1(2) this] 1(1) 2 show ?case
    by (auto simp: appended_all_def appended_def)
qed

lemma getBooleanExpression_spec:
  assumes "b_root b = Some root" "node_ok root" "\<forall>i\<in>node_inputs root. input_valid d states i"
  obtains e where "getBooleanExpression b = Inr e" "validateExpression d states e = Inr ()"
    "expr_values \<rho> \<sigma> (e_nodes e) ! e_root e = node_value (sequential_env \<rho> \<sigma>) root"
proof -
  have "nodes_valid d states (e_nodes \<lparr>e_nodes = [], e_root = invalid_node\<rparr>)" by (simp add: nodes_valid_def)
  from append_nodes(1) [OF assms(2,3) this, of \<rho> \<sigma>] obtain k e where
    "appendBooleanExpressionNode root \<lparr>e_nodes = [], e_root = invalid_node\<rparr> = Inr (k, e)"
    "appended \<rho> \<sigma> d states \<lparr>e_nodes = [], e_root = invalid_node\<rparr> e k (node_value (sequential_env \<rho> \<sigma>) root)"
    by blast
  then show thesis using assms(1)
    by (intro that [of "e\<lparr>e_root := k\<rparr>"])
      (simp_all add: getBooleanExpression_def validateExpression_iff expression_isValid_def appended_def)
qed

section \<open>From the text to the table\<close>

text \<open>The parser records every input it puts in the tree, once, with the value \<open>False\<close>.\<close>

definition tree_inv :: "SNLBooleanTree \<Rightarrow> bool" where
  "tree_inv b \<longleftrightarrow> distinct (b_inputs b) \<and> b_value b = (\<lambda>_. False)"

definition known_inputs :: "SNLBooleanTree \<Rightarrow> input_node set" where
  "known_inputs b = INPUT ` set (b_inputs b) \<union> {x. \<forall>t. x \<noteq> INPUT t}"

lemma parseInput_inv:
  assumes "parseInput d D states aliases s b = Inr (n, rest, b')"
  shows "known_inputs b \<subseteq> known_inputs b'" "n \<in> known_inputs b'" "tree_inv b \<Longrightarrow> tree_inv b'"
proof -
  have c: "known_inputs b \<subseteq> known_inputs (getOrCreateInputNode t b) \<and> INPUT t \<in> known_inputs (getOrCreateInputNode t b) \<and>
      (tree_inv b \<longrightarrow> tree_inv (getOrCreateInputNode t b))"
    "known_inputs (getOrCreateConstantInputNode x b) = known_inputs b" "tree_inv (getOrCreateConstantInputNode x b) = tree_inv b"
    "known_inputs (getOrCreateStateInputNode k neg b) = known_inputs b"
    "tree_inv b \<longrightarrow> tree_inv (getOrCreateStateInputNode k neg b)" for t x k neg
    by (auto simp: known_inputs_def tree_inv_def getOrCreateInputNode_def getOrCreateConstantInputNode_def
        getOrCreateStateInputNode_def)
  have other: "CONSTANT0 \<in> known_inputs b'" "CONSTANT1 \<in> known_inputs b'" "STATE k neg \<in> known_inputs b'" for k neg
    by (simp_all add: known_inputs_def)
  show "known_inputs b \<subseteq> known_inputs b'" "n \<in> known_inputs b'" "tree_inv b \<Longrightarrow> tree_inv b'"
    using assms c other by (auto simp: parseInput_def Let_def split: if_splits option.splits prod.splits)
qed

lemma tokenize_inv:
  "tokenize d D states aliases s b = Inr (ts, b') \<Longrightarrow>
   known_inputs b \<subseteq> known_inputs b' \<and> (\<forall>i. Nt L0 (InputNode i) \<in> set ts \<longrightarrow> i \<in> known_inputs b') \<and>
   (tree_inv b \<longrightarrow> tree_inv b')"
proof (induction d D states aliases s b arbitrary: ts b' rule: tokenize.induct)
  case (2 d D states aliases c cs b)
  consider (blank) "isspace c \<or> c = CHR 0x22" "tokenize d D states aliases cs b = Inr (ts, b')"
    | (op) x us where "\<not> (isspace c \<or> c = CHR 0x22)" "op_of c = Some x" "ts = Op x # us" "tokenize d D states aliases cs b = Inr (us, b')"
    | (input) n rest b1 us where "\<not> (isspace c \<or> c = CHR 0x22)" "op_of c = None"
        "parseInput d D states aliases (c # cs) b = Inr (n, rest, b1)" "ts = Nt L0 (InputNode n) # us"
        "tokenize d D states aliases rest b1 = Inr (us, b')"
    using "2.prems" by (auto simp: rbind_eq_Inr_iff simp del: op_of.simps split: if_splits option.splits)
  then show ?case
  proof cases
    case blank
    then show ?thesis using "2.IH"(1) by blast
  next
    case op
    then show ?thesis using "2.IH"(3) [OF op(1,2,4)] by auto
  next
    case input
    note p = parseInput_inv [OF input(3)]
    have "known_inputs b1 \<subseteq> known_inputs b' \<and> (\<forall>i. Nt L0 (InputNode i) \<in> set us \<longrightarrow> i \<in> known_inputs b') \<and>
        (tree_inv b1 \<longrightarrow> tree_inv b')"
      using "2.IH"(2) [OF input(1-3) refl refl input(5)] .
    with p input(4) show ?thesis by auto
  qed
qed simp

lemma derives_inputs: "derives l w n \<Longrightarrow> i \<in> node_inputs n \<Longrightarrow> Nt L0 (InputNode i) \<in> set w"
  by (induction rule: derives.induct) auto

lemma root_of_inputs [simp]: "node_inputs (root_of n) = node_inputs n"
  by (cases n) (simp_all add: root_of_def)

text \<open>The bit terminals of a design are distinct.\<close>

lemma distinct_term_bits: "distinct (term_bits d i t)"
  by (auto simp: term_bits_def present_bits_def distinct_map bus_bit_inj inj_on_def split: term_kind.splits)

lemma distinct_getBitTerms:
  assumes "design_wf D"
  shows "distinct (getBitTerms d D)"
proof -
  have "distinct (map fst ts) \<Longrightarrow> distinct (concat (map (\<lambda>(i, t). term_bits d i t) ts))" for ts
  proof (induction ts)
    case (Cons p ts)
    obtain i t where p: "p = (i, t)" by (cases p)
    have "x \<notin> set (term_bits d j u)" if "(j, u) \<in> set ts" "x \<in> set (term_bits d i t)" for x j u
    proof
      assume "x \<in> set (term_bits d j u)"
      then have "i = j" using term_bits_object that(2) by metis
      then show False using Cons.prems p that(1) by force
    qed
    then show ?case using Cons p by (auto simp: distinct_term_bits)
  qed simp
  moreover have "distinct (map fst (d_terms D))"
    using assms by (simp add: design_wf_def smap_inv_def strict_sorted_iff)
  ultimately show ?thesis by (simp add: getBitTerms_def)
qed

text \<open>The inputs of the cell in the order of its terminals, and the assignment the table numbers them by.\<close>

definition cell_inputs :: "did \<Rightarrow> SNLDesign \<Rightarrow> NLID list" where
  "cell_inputs d D =
     filter (\<lambda>t. case getTerm D (id_object t) of Some x \<Rightarrow> t_direction x = Input | None \<Rightarrow> False) (getBitTerms d D)"

definition numbered_env :: "NLID list \<Rightarrow> (nat \<Rightarrow> bool) \<Rightarrow> input_node \<Rightarrow> bool" where
  "numbered_env used a x = (case x of
     INPUT t \<Rightarrow> t \<in> set used \<and> a (length (takeWhile (\<lambda>u. u \<noteq> t) used)) | _ \<Rightarrow> False)"

lemma assign_rev:
  assumes "distinct used"
  shows "assign_inputs (rev used) a (\<lambda>_. False) = numbered_env used a"
proof
  fix x
  show "assign_inputs (rev used) a (\<lambda>_. False) x = numbered_env used a x"
  proof (cases "\<exists>t\<in>set used. x = INPUT t")
    case True
    then obtain k where k: "k < length used" "x = INPUT (used ! k)" by (auto simp: in_set_conv_nth)
    then have "used ! k = rev used ! (length used - 1 - k)" by (simp add: rev_nth)
    then have "length (takeWhile (\<lambda>u. u \<noteq> used ! k) (rev used)) = length used - 1 - k"
      using takeWhile_index [of "rev used" "length used - 1 - k"] assms k(1) by simp
    then show ?thesis
      using k assms by (simp add: assign_inputs_def numbered_env_def takeWhile_index)
  next
    case False
    then show ?thesis by (auto simp: assign_inputs_def numbered_env_def split: input_node.splits)
  qed
qed

lemma liberty_truth_table_spec:
  assumes wf: "design_wf D"
    and tok: "tokenize d D Map.empty Map.empty f empty_tree = Inr (ts, b)" and der: "derives L3 ts n"
    and ins: "set (b_inputs b) \<subseteq> set (cell_inputs d D)" "length (b_inputs b) < 31"
  defines "used \<equiv> filter (\<lambda>t. t \<in> set (b_inputs b)) (cell_inputs d D)"
  shows "\<exists>tt. liberty_truth_table d D f = Inr tt \<and> tt_wf tt \<and> tt_generic tt = G_NONE \<and> tt_size tt = length used \<and>
    dep_set (tt_deps tt) = getOrderID d D ` set used \<and> (\<forall>a. tt_eval tt a = node_value (numbered_env used a) n)"
proof -
  let ?b = "b\<lparr>b_root := Some (root_of n)\<rparr>"
  have p: "parse d D f Map.empty Map.empty empty_tree = Inr ?b"
    unfolding parse_accepts tok using derives_accepts [OF der] by simp
  have inv: "tree_inv b" using tokenize_inv [OF tok] by (simp add: tree_inv_def empty_tree_def)
  have dc: "distinct (cell_inputs d D)" using distinct_getBitTerms [OF wf] by (simp add: cell_inputs_def)
  obtain tt b' where t: "getTruthTable d D (rev (cell_inputs d D)) ?b = Inr (tt, b')" "tt_wf tt"
    "tt_size tt = length (filter (\<lambda>t. t \<in> set (b_inputs ?b)) (rev (cell_inputs d D)))" "tt_generic tt = G_NONE"
    "dep_set (tt_deps tt) = getOrderID d D ` set (filter (\<lambda>t. t \<in> set (b_inputs ?b)) (rev (cell_inputs d D)))"
    "\<And>a. tt_eval tt a = node_value (assign_inputs (filter (\<lambda>t. t \<in> set (b_inputs ?b)) (rev (cell_inputs d D))) a (b_value ?b)) (root_of n)"
    by (rule getTruthTable_spec [of ?b "root_of n" "rev (cell_inputs d D)" d D])
      (use dc inv ins derives_node_ok [OF der] in \<open>auto simp: root_of_ok tree_inv_def\<close>)
  have "liberty_truth_table d D f = Inr tt"
    unfolding liberty_truth_table_def p using t(1) by (simp add: cell_inputs_def [symmetric])
  moreover have "tt_eval tt a = node_value (numbered_env used a) n" for a
    using t(6) [of a] inv dc assign_rev [of used a] by (simp add: rev_filter [symmetric] used_def [symmetric] tree_inv_def) (simp add: used_def)
  ultimately show ?thesis
    using t(2-5) by (auto simp: rev_filter [symmetric] used_def)
qed

end
