(* ===== verification/LibertyTheorems.thy ===== *)
theory LibertyTheorems
  imports BoolTreeExpr NetlistExamples
begin

text \<open>
  The properties of the Liberty function parser, with a cell of two inputs as concrete input.
\<close>

section \<open>A cell\<close>

definition and_cell :: SNLDesign where
  "and_cell = (empty_design Primitive ''AND2'')\<lparr>
     d_terms := [(0, \<lparr>t_name = ''A'', t_direction = Input, t_flatID = 0, t_kind = ScalarTerm\<rparr>),
       (1, \<lparr>t_name = ''B'', t_direction = Input, t_flatID = 1, t_kind = ScalarTerm\<rparr>),
       (2, \<lparr>t_name = ''Y'', t_direction = Output, t_flatID = 2, t_kind = ScalarTerm\<rparr>)],
     d_termNameID := [''A'' \<mapsto> 0, ''B'' \<mapsto> 1, ''Y'' \<mapsto> 2]\<rparr>"

lemma and_cell_terms [simp]:
  "d_terms and_cell = [(0, \<lparr>t_name = ''A'', t_direction = Input, t_flatID = 0, t_kind = ScalarTerm\<rparr>),
     (1, \<lparr>t_name = ''B'', t_direction = Input, t_flatID = 1, t_kind = ScalarTerm\<rparr>),
     (2, \<lparr>t_name = ''Y'', t_direction = Output, t_flatID = 2, t_kind = ScalarTerm\<rparr>)]"
  "d_termNameID and_cell = [''A'' \<mapsto> 0, ''B'' \<mapsto> 1, ''Y'' \<mapsto> 2]"
  by (simp_all add: and_cell_def)

lemma and_cell_wf: "design_wf and_cell"
  by (simp add: design_wf_def smap_inv_def and_cell_def empty_design_def)

abbreviation cell_A :: NLID where "cell_A \<equiv> scalar_term_id cell 0"
abbreviation cell_B :: NLID where "cell_B \<equiv> scalar_term_id cell 1"

lemma and_cell_inputs: "cell_inputs cell and_cell = [cell_A, cell_B]"
  by (simp add: cell_inputs_def getBitTerms_def term_bits_def getTerm_def)

definition and_tokens :: "token list" where
  "and_tokens = [Nt L0 (InputNode (INPUT cell_A)), Op Star, Op Bang, Nt L0 (InputNode (INPUT cell_B))]"

definition and_tree :: tree_node where
  "and_tree = FunctionNode F_AND [InputNode (INPUT cell_A), not_node (InputNode (INPUT cell_B))]"

lemma and_derives: "derives L3 and_tokens and_tree"
proof -
  have "derives L2 [Nt L0 (InputNode (INPUT cell_A))] (InputNode (INPUT cell_A))"
    by (intro derives.and_one derives.xor_one derives.atom)
  moreover have "derives L1 [Op Bang, Nt L0 (InputNode (INPUT cell_B))] (not_node (InputNode (INPUT cell_B)))"
    by (intro derives.xor_one derives.bang derives.atom)
  ultimately have "derives L2 ([Nt L0 (InputNode (INPUT cell_A))] @ Op Star # [Op Bang, Nt L0 (InputNode (INPUT cell_B))]) and_tree"
    unfolding and_tree_def by (intro derives.and_more) simp_all
  then show ?thesis by (auto simp: and_tokens_def intro: derives.or_one)
qed

definition and_parsed :: SNLBooleanTree where
  "and_parsed = empty_tree\<lparr>b_inputs := [cell_A, cell_B]\<rparr>"

lemma and_tokenize: "tokenize cell and_cell Map.empty Map.empty ''A * !B'' empty_tree = Inr (and_tokens, and_parsed)"
  by (simp add: and_tokens_def and_parsed_def isspace_def isIdentifierChar_def parseInput_def getScalarTerm_def
      getTerm_name_def getTerm_def getOrCreateInputNode_def empty_tree_def Let_def)
    (simp add: fun_eq_iff)

section \<open>Properties\<close>

text \<open>
  C23.  \<open>SNLBooleanTree::parse\<close> accepts exactly the texts whose tokens are a sentence of the Liberty grammar
  (negation before \<open>^\<close> before conjunction, explicit or by juxtaposition, before disjunction; left associative), and the
  root it sets is the tree of the derivation, under a buffer when it is a single input.
\<close>

theorem parse_is_the_grammar:
  "parse d D f states aliases b = Inr b1 \<longleftrightarrow>
     (\<exists>ts b' n. tokenize d D states aliases f b = Inr (ts, b') \<and> derives L3 ts n \<and>
        b1 = b'\<lparr>b_root := Some (root_of n)\<rparr>)"
proof (cases "tokenize d D states aliases f b")
  case (Inr r)
  obtain ts b' where r: "r = (ts, b')" by (cases r)
  have "derives L3 ts n \<longleftrightarrow> accepts ts = Some n" for n
    using accepts_iff [OF tokenize_input] Inr r by blast
  then show ?thesis
    unfolding parse_accepts using Inr r by (cases "accepts ts") auto
qed (simp add: parse_accepts)

text \<open>
  C24.  The loop \<open>while (reduce(...)) {}\<close> ends after at most \<open>4 * size + 3\<close> reductions, on every stack and every next
  token.
\<close>

theorem reduce_loop_ends:
  "\<exists>k \<le> 4 * length st + 3. \<exists>st'. st' = ((\<lambda>s. case reduce s t of None \<Rightarrow> s | Some s' \<Rightarrow> s') ^^ k) st \<and>
     reduce st' t = None \<and> reduces st t = st'"
proof -
  let ?f = "\<lambda>s. case reduce s t of None \<Rightarrow> s | Some s' \<Rightarrow> s'"
  have "\<exists>k \<le> 4 * length st + top_weight st. reduce ((?f ^^ k) st) t = None \<and> reduces st t = (?f ^^ k) st"
  proof (induction st t rule: reduces.induct)
    case (1 st t)
    let ?f = "\<lambda>s. case reduce s t of None \<Rightarrow> s | Some s' \<Rightarrow> s'"
    show ?case
    proof (cases "reduce st t")
      case None
      then show ?thesis by (intro exI [of _ 0]) (simp add: reduces_None)
    next
      case (Some st')
      then obtain k where k: "k \<le> 4 * length st' + top_weight st'" "reduce ((?f ^^ k) st') t = None" "reduces st' t = (?f ^^ k) st'"
        using 1 by blast
      have "(?f ^^ Suc k) st = (?f ^^ k) st'"
        unfolding funpow_Suc_right using Some by (simp del: reduce.simps)
      with k show ?thesis using reduces_Some [OF Some] reduce_measure [OF Some]
        by (intro exI [of _ "Suc k"]) (simp del: reduce.simps funpow.simps)
    qed
  qed
  moreover have "top_weight st \<le> 3" by (induction st rule: top_weight.induct) auto
  ultimately show ?thesis by (metis (no_types, lifting) add_le_cancel_left order_trans)
qed

text \<open>
  C25.  The truth table the Liberty constructor gives a combinational cell: a function text that is a sentence of the
  grammar over at most 30 inputs of the cell yields a well-formed table whose inputs are the inputs used, in
  the order of the terminals, whose dependencies are their order numbers, and whose value on every
  assignment is that of the function.
\<close>

theorem liberty_table_denotes_function:
  assumes "design_wf D" "tokenize d D Map.empty Map.empty f empty_tree = Inr (ts, b)" "derives L3 ts n"
    and "set (b_inputs b) \<subseteq> set (cell_inputs d D)" "length (b_inputs b) < 31"
    and "used = filter (\<lambda>t. t \<in> set (b_inputs b)) (cell_inputs d D)"
  shows "\<exists>tt. liberty_truth_table d D f = Inr tt \<and> tt_wf tt \<and> tt_generic tt = G_NONE \<and> tt_size tt = length used \<and>
    dep_set (tt_deps tt) = getOrderID d D ` set used \<and> (\<forall>a. tt_eval tt a = node_value (numbered_env used a) n)"
  unfolding assms(6) by (rule liberty_truth_table_spec [OF assms(1-5)])

theorem liberty_table_denotes_function_witness:
  "\<exists>tt. liberty_truth_table cell and_cell ''A * !B'' = Inr tt \<and> tt_wf tt \<and> tt_size tt = 2 \<and>
    (\<forall>a. tt_eval tt a = (a 0 \<and> \<not> a 1))"
proof -
  have "cell_A \<noteq> cell_B" by simp
  then have "node_value (numbered_env [cell_A, cell_B] a) and_tree \<longleftrightarrow> a 0 \<and> \<not> a 1" for a
    by (simp add: and_tree_def numbered_env_def input_value_def)
  then show ?thesis
    using liberty_table_denotes_function [OF and_cell_wf and_tokenize and_derives, of "[cell_A, cell_B]"]
    by (auto simp: and_cell_inputs and_parsed_def)
qed

text \<open>
  C26.  The Boolean expression of a parsed function for a sequential model is always built, passes the validation
  of \<open>SNLDesignModeling\<close> (arities, terms of the cell, state indexes, operands before their node), and its root
  evaluates to the function, inverted states included.
\<close>

theorem boolean_expression_denotes_function:
  assumes "parse d D f states aliases b = Inr b'" "b_root b' = Some root"
    and "\<forall>i\<in>node_inputs root. input_valid d k i"
  shows "\<exists>e. getBooleanExpression b' = Inr e \<and> validateExpression d k e = Inr () \<and>
    (\<forall>\<rho> \<sigma>. expr_values \<rho> \<sigma> (e_nodes e) ! e_root e = node_value (sequential_env \<rho> \<sigma>) root)"
proof -
  obtain ts b1 n where p: "tokenize d D states aliases f b = Inr (ts, b1)" "accepts ts = Some n"
    "b' = b1\<lparr>b_root := Some (root_of n)\<rparr>"
    using assms(1) unfolding parse_accepts
    by (auto simp: rbind_eq_Inr_iff split: option.splits)
  have "derives L3 ts n" using accepts_iff [OF tokenize_input [OF p(1)]] p(2) by blast
  then have ok: "node_ok root" using p(3) assms(2) derives_node_ok root_of_ok by auto
  obtain e where e: "getBooleanExpression b' = Inr e" "validateExpression d k e = Inr ()"
    by (rule getBooleanExpression_spec [OF assms(2) ok assms(3)])
  have "expr_values \<rho> \<sigma> (e_nodes e) ! e_root e = node_value (sequential_env \<rho> \<sigma>) root" for \<rho> \<sigma>
    by (rule getBooleanExpression_spec [OF assms(2) ok assms(3), of \<rho> \<sigma>]) (use e(1) in auto)
  with e show ?thesis by blast
qed

theorem boolean_expression_denotes_function_witness:
  "\<exists>e. getBooleanExpression (and_parsed\<lparr>b_root := Some and_tree\<rparr>) = Inr e \<and> validateExpression cell 0 e = Inr () \<and>
    (\<forall>\<rho> \<sigma>. expr_values \<rho> \<sigma> (e_nodes e) ! e_root e = (\<rho> cell_A \<and> \<not> \<rho> cell_B))"
proof -
  have "parse cell and_cell ''A * !B'' Map.empty Map.empty empty_tree = Inr (and_parsed\<lparr>b_root := Some and_tree\<rparr>)"
    unfolding parse_accepts and_tokenize using derives_accepts [OF and_derives]
    by (simp add: and_tree_def root_of_def)
  from boolean_expression_denotes_function [OF this, of and_tree 0]
  show ?thesis by (auto simp: and_tree_def input_valid_def sequential_env_def input_value_def)
qed

end
