(* ===== verification/TimingGraph.thy ===== *)
theory TimingGraph
  imports NLID
begin

text \<open>
  \<^verbatim>\<open>src/tgraph\<close>: the timing graph.  Nodes, edges and capture edges live in vectors with free lists of
  reusable slots; a node lists the identifiers of its edges in both directions.  A free list is kept with its
  back first.  The proxies, pointers to objects of the netlist that the graph only owns, are left out.  Sizes and counts are
  natural numbers: \<open>size_t\<close> does not overflow before memory is exhausted.
\<close>

section \<open>Data\<close>

datatype CellKind = Combinational | FlipFlop | Latch | CellUnknown

datatype PinRole = RoleUnknown | DataInput | DataOutput | Clock | Gate | Enable | SyncReset | SyncSet | AsyncReset | AsyncSet

record TNode =
  tn_alive :: bool
  tn_cellKind :: CellKind
  tn_pinRole :: PinRole
  tn_in :: "nat list"
  tn_out :: "nat list"
  tn_captureIn :: "nat list"
  tn_captureOut :: "nat list"

type_synonym ClockMask = "bool list"

record TEdge =
  te_source :: nat
  te_target :: nat
  te_alive :: bool
  te_from :: ClockMask
  te_to :: ClockMask
  te_disabled :: bool

record TCaptureEdge =
  tc_source :: nat
  tc_target :: nat
  tc_alive :: bool

record TClock =
  ck_name :: string
  ck_target :: NLID
  ck_node :: nat

record TGraph =
  g_nodes :: "TNode list"
  g_edges :: "TEdge list"
  g_captures :: "TCaptureEdge list"
  g_freeNodes :: "nat list"
  g_freeEdges :: "nat list"
  g_freeCaptures :: "nat list"
  g_clocks :: "TClock list"
  g_liveNodes :: nat
  g_liveEdges :: nat
  g_liveCaptures :: nat

definition empty_graph :: TGraph where
  "empty_graph = \<lparr>g_nodes = [], g_edges = [], g_captures = [], g_freeNodes = [], g_freeEdges = [],
     g_freeCaptures = [], g_clocks = [], g_liveNodes = 0, g_liveEdges = 0, g_liveCaptures = 0\<rparr>"

section \<open>Nodes and edges\<close>

text \<open>\<open>TNode::create\<close> and \<open>TNode::reset\<close> give the same node.\<close>

definition new_node :: TNode where
  "new_node = \<lparr>tn_alive = True, tn_cellKind = CellUnknown, tn_pinRole = RoleUnknown, tn_in = [], tn_out = [],
     tn_captureIn = [], tn_captureOut = []\<rparr>"

definition node_deactivate :: "TNode \<Rightarrow> TNode" where
  "node_deactivate n = \<lparr>tn_alive = False, tn_cellKind = CellUnknown, tn_pinRole = RoleUnknown, tn_in = [], tn_out = [],
     tn_captureIn = [], tn_captureOut = []\<rparr>"

definition isFlopDataOutput :: "TNode \<Rightarrow> bool" where
  "isFlopDataOutput n \<longleftrightarrow> tn_cellKind n = FlipFlop \<and> tn_pinRole n = DataOutput"

definition isLatch :: "TNode \<Rightarrow> bool" where
  "isLatch n \<longleftrightarrow> tn_cellKind n = Latch"

definition setCellKind :: "CellKind \<Rightarrow> TNode \<Rightarrow> TNode" where "setCellKind k n = n\<lparr>tn_cellKind := k\<rparr>"
definition setPinRole :: "PinRole \<Rightarrow> TNode \<Rightarrow> TNode" where "setPinRole r n = n\<lparr>tn_pinRole := r\<rparr>"

text \<open>The first occurrence is overwritten by the back, which is popped.\<close>

definition eraseEdgeId :: "nat \<Rightarrow> nat list \<Rightarrow> nat list" where
  "eraseEdgeId e es = (if e \<in> set es then butlast (es[length (takeWhile (\<lambda>x. x \<noteq> e) es) := last es]) else es)"

definition addInEdge :: "nat \<Rightarrow> TNode \<Rightarrow> TNode" where "addInEdge e n = n\<lparr>tn_in := tn_in n @ [e]\<rparr>"
definition addOutEdge :: "nat \<Rightarrow> TNode \<Rightarrow> TNode" where "addOutEdge e n = n\<lparr>tn_out := tn_out n @ [e]\<rparr>"
definition removeInEdge :: "nat \<Rightarrow> TNode \<Rightarrow> TNode" where "removeInEdge e n = n\<lparr>tn_in := eraseEdgeId e (tn_in n)\<rparr>"
definition removeOutEdge :: "nat \<Rightarrow> TNode \<Rightarrow> TNode" where "removeOutEdge e n = n\<lparr>tn_out := eraseEdgeId e (tn_out n)\<rparr>"

definition addCaptureInEdge :: "nat \<Rightarrow> TNode \<Rightarrow> TNode" where
  "addCaptureInEdge e n = n\<lparr>tn_captureIn := tn_captureIn n @ [e]\<rparr>"
definition addCaptureOutEdge :: "nat \<Rightarrow> TNode \<Rightarrow> TNode" where
  "addCaptureOutEdge e n = n\<lparr>tn_captureOut := tn_captureOut n @ [e]\<rparr>"
definition removeCaptureInEdge :: "nat \<Rightarrow> TNode \<Rightarrow> TNode" where
  "removeCaptureInEdge e n = n\<lparr>tn_captureIn := eraseEdgeId e (tn_captureIn n)\<rparr>"
definition removeCaptureOutEdge :: "nat \<Rightarrow> TNode \<Rightarrow> TNode" where
  "removeCaptureOutEdge e n = n\<lparr>tn_captureOut := eraseEdgeId e (tn_captureOut n)\<rparr>"

definition edge_reset :: "nat \<Rightarrow> nat \<Rightarrow> TEdge" where
  "edge_reset s t = \<lparr>te_source = s, te_target = t, te_alive = True, te_from = [], te_to = [], te_disabled = False\<rparr>"

definition edge_deactivate :: "TEdge \<Rightarrow> TEdge" where
  "edge_deactivate e = e\<lparr>te_alive := False, te_from := [], te_to := [], te_disabled := False\<rparr>"

definition resize :: "nat \<Rightarrow> ClockMask \<Rightarrow> ClockMask" where
  "resize k m = take k m @ replicate (k - length m) False"

definition resizeClockMasks :: "nat \<Rightarrow> TEdge \<Rightarrow> TEdge" where
  "resizeClockMasks k e = e\<lparr>te_from := resize k (te_from e), te_to := resize k (te_to e)\<rparr>"

definition capture_reset :: "nat \<Rightarrow> nat \<Rightarrow> TCaptureEdge" where
  "capture_reset s t = \<lparr>tc_source = s, tc_target = t, tc_alive = True\<rparr>"

definition capture_deactivate :: "TCaptureEdge \<Rightarrow> TCaptureEdge" where
  "capture_deactivate e = e\<lparr>tc_alive := False\<rparr>"

section \<open>The graph\<close>

definition isNodeValid :: "TGraph \<Rightarrow> nat \<Rightarrow> bool" where
  "isNodeValid g n \<longleftrightarrow> n < length (g_nodes g) \<and> tn_alive (g_nodes g ! n)"

definition isEdgeValid :: "TGraph \<Rightarrow> nat \<Rightarrow> bool" where
  "isEdgeValid g e \<longleftrightarrow> e < length (g_edges g) \<and> te_alive (g_edges g ! e)"

definition isCaptureEdgeValid :: "TGraph \<Rightarrow> nat \<Rightarrow> bool" where
  "isCaptureEdgeValid g e \<longleftrightarrow> e < length (g_captures g) \<and> tc_alive (g_captures g ! e)"

definition node_at :: "TGraph \<Rightarrow> nat \<Rightarrow> TNode option" where
  "node_at g n = (if isNodeValid g n then Some (g_nodes g ! n) else None)"

definition edge_at :: "TGraph \<Rightarrow> nat \<Rightarrow> TEdge option" where
  "edge_at g e = (if isEdgeValid g e then Some (g_edges g ! e) else None)"

definition getCaptureEdge :: "TGraph \<Rightarrow> nat \<Rightarrow> TCaptureEdge option" where
  "getCaptureEdge g e = (if isCaptureEdgeValid g e then Some (g_captures g ! e) else None)"

text \<open>A slot for a new element: the back of the free list, or one more at the end of the vector.\<close>

definition alloc :: "'a list \<Rightarrow> nat list \<Rightarrow> 'a \<Rightarrow> (nat \<times> 'a list \<times> nat list) result" where
  "alloc slots free x = (case free of
     i # fs \<Rightarrow> (if i < length slots then Inr (i, slots[i := x], fs) else Inl (UndefinedBehaviour ''vector index''))
   | [] \<Rightarrow> Inr (length slots, slots @ [x], []))"

definition upd_node :: "nat \<Rightarrow> (TNode \<Rightarrow> TNode) \<Rightarrow> TGraph \<Rightarrow> TGraph result" where
  "upd_node n f g = (if n < length (g_nodes g) then Inr (g\<lparr>g_nodes := (g_nodes g)[n := f (g_nodes g ! n)]\<rparr>)
     else Inl (UndefinedBehaviour ''vector index''))"

definition createNode :: "TGraph \<Rightarrow> (nat \<times> TGraph) result" where
  "createNode g = rbind (alloc (g_nodes g) (g_freeNodes g) new_node) (\<lambda>(i, ns, free).
     Inr (i, g\<lparr>g_nodes := ns, g_freeNodes := free, g_liveNodes := g_liveNodes g + 1\<rparr>))"

definition createEdge :: "nat \<Rightarrow> nat \<Rightarrow> TGraph \<Rightarrow> (nat option \<times> TGraph) result" where
  "createEdge s t g = (if \<not> isNodeValid g s \<or> \<not> isNodeValid g t then Inr (None, g)
     else rbind (alloc (g_edges g) (g_freeEdges g) (resizeClockMasks (length (g_clocks g)) (edge_reset s t))) (\<lambda>(i, es, free).
       let g = g\<lparr>g_edges := es, g_freeEdges := free\<rparr> in
       rbind (upd_node s (addOutEdge i) g) (\<lambda>g. rbind (upd_node t (addInEdge i) g) (\<lambda>g.
         Inr (Some i, g\<lparr>g_liveEdges := g_liveEdges g + 1\<rparr>)))))"

definition createCaptureEdge :: "nat \<Rightarrow> nat \<Rightarrow> TGraph \<Rightarrow> (nat option \<times> TGraph) result" where
  "createCaptureEdge s t g = (if \<not> isNodeValid g s \<or> \<not> isNodeValid g t then Inr (None, g)
     else rbind (alloc (g_captures g) (g_freeCaptures g) (capture_reset s t)) (\<lambda>(i, es, free).
       let g = g\<lparr>g_captures := es, g_freeCaptures := free\<rparr> in
       rbind (upd_node s (addCaptureOutEdge i) g) (\<lambda>g. rbind (upd_node t (addCaptureInEdge i) g) (\<lambda>g.
         Inr (Some i, g\<lparr>g_liveCaptures := g_liveCaptures g + 1\<rparr>)))))"

definition removeCaptureEdge :: "nat \<Rightarrow> TGraph \<Rightarrow> (bool \<times> TGraph) result" where
  "removeCaptureEdge e g = (if \<not> isCaptureEdgeValid g e then Inr (False, g)
     else let c = g_captures g ! e in
       rbind (upd_node (tc_source c) (removeCaptureOutEdge e) g) (\<lambda>g.
       rbind (upd_node (tc_target c) (removeCaptureInEdge e) g) (\<lambda>g.
         Inr (True, g\<lparr>g_captures := (g_captures g)[e := capture_deactivate c],
           g_freeCaptures := e # g_freeCaptures g, g_liveCaptures := g_liveCaptures g - 1\<rparr>))))"

definition removeEdge :: "nat \<Rightarrow> TGraph \<Rightarrow> (bool \<times> TGraph) result" where
  "removeEdge e g = (if \<not> isEdgeValid g e then Inr (False, g)
     else let c = g_edges g ! e in
       rbind (if isNodeValid g (te_source c) then upd_node (te_source c) (removeOutEdge e) g else Inr g) (\<lambda>g.
       rbind (if isNodeValid g (te_target c) then upd_node (te_target c) (removeInEdge e) g else Inr g) (\<lambda>g.
         Inr (True, g\<lparr>g_edges := (g_edges g)[e := edge_deactivate c],
           g_freeEdges := e # g_freeEdges g, g_liveEdges := g_liveEdges g - 1\<rparr>))))"

definition removeNode :: "nat \<Rightarrow> TGraph \<Rightarrow> (bool \<times> TGraph) result" where
  "removeNode n g = (case node_at g n of
     None \<Rightarrow> Inr (False, g)
   | Some x \<Rightarrow>
       rbind (rfold (\<lambda>e g. rbind (removeCaptureEdge e g) (\<lambda>(_, g). Inr g)) (tn_captureOut x @ tn_captureIn x) g) (\<lambda>g.
       rbind (rfold (\<lambda>e g. rbind (removeEdge e g) (\<lambda>(_, g). Inr g)) (tn_out x @ tn_in x) g) (\<lambda>g.
       rbind (upd_node n node_deactivate g) (\<lambda>g.
         Inr (True, g\<lparr>g_freeNodes := n # g_freeNodes g, g_liveNodes := g_liveNodes g - 1\<rparr>)))))"

definition createClock :: "string \<Rightarrow> NLID \<Rightarrow> nat \<Rightarrow> TGraph \<Rightarrow> (nat \<times> TGraph) result" where
  "createClock name target n g =
     (if \<not> isNodeValid g n then Inl (Raise ''std::invalid_argument'' ''TGraph::createClock: node is not a valid node'')
      else let clocks = g_clocks g @ [\<lparr>ck_name = name, ck_target = target, ck_node = n\<rparr>] in
        Inr (length (g_clocks g), g\<lparr>g_clocks := clocks,
          g_edges := map (\<lambda>e. if te_alive e then resizeClockMasks (length clocks) e else e) (g_edges g)\<rparr>))"

section \<open>Pools\<close>

text \<open>A vector of slots with its free list and live count: dead slots are exactly the free ones.\<close>

definition pool_inv :: "('a \<Rightarrow> bool) \<Rightarrow> 'a list \<Rightarrow> nat list \<Rightarrow> nat \<Rightarrow> bool" where
  "pool_inv alive slots free n \<longleftrightarrow> distinct free \<and>
     (\<forall>i. i \<in> set free \<longleftrightarrow> i < length slots \<and> \<not> alive (slots ! i)) \<and> n = length (filter alive slots)"

lemma filter_update:
  "i < length xs \<Longrightarrow> length (filter P (xs[i := y])) + of_bool (P (xs ! i)) = length (filter P xs) + of_bool (P y)"
proof (induction xs arbitrary: i)
  case (Cons x xs)
  then show ?case by (cases i) auto
qed simp

lemma pool_inv_cong:
  assumes "pool_inv alive slots free n" "map alive slots' = map alive slots"
  shows "pool_inv alive slots' free n"
proof -
  have len: "length slots' = length slots" using assms(2) by (metis length_map)
  have "alive (slots' ! i) = alive (slots ! i)" if "i < length slots" for i
    using arg_cong [OF assms(2), of "\<lambda>xs. xs ! i"] that len by simp
  moreover have "length (filter alive slots') = length (filter alive slots)"
    using arg_cong [OF assms(2), of "\<lambda>xs. length (filter id xs)"] by (simp add: filter_map)
  ultimately show ?thesis using assms(1) len unfolding pool_inv_def by auto
qed

locale pool =
  fixes alive :: "'a \<Rightarrow> bool" and deactivate :: "'a \<Rightarrow> 'a"
  assumes deactivate_dead: "\<not> alive (deactivate x)"
begin

lemma alloc_inv:
  assumes inv: "pool_inv alive slots free n" and x: "alive x"
  obtains i slots' free' where "alloc slots free x = Inr (i, slots', free')" "pool_inv alive slots' free' (n + 1)"
    "i < length slots \<Longrightarrow> \<not> alive (slots ! i)" "i < length slots'" "slots' ! i = x"
    "\<And>j. j \<noteq> i \<Longrightarrow> j < length slots' \<longleftrightarrow> j < length slots" "\<And>j. j \<noteq> i \<Longrightarrow> j < length slots \<Longrightarrow> slots' ! j = slots ! j"
proof (cases free)
  case Nil
  then have "j \<in> set [] \<longleftrightarrow> j < length (slots @ [x]) \<and> \<not> alive ((slots @ [x]) ! j)" for j
    using inv x by (cases "j = length slots") (auto simp: pool_inv_def nth_append)
  then have "pool_inv alive (slots @ [x]) [] (n + 1)"
    using inv x by (simp add: pool_inv_def)
  then show thesis
    using Nil by (intro that [of "length slots" "slots @ [x]" "[]"]) (auto simp: alloc_def nth_append)
next
  case (Cons i fs)
  then have i: "i < length slots" "\<not> alive (slots ! i)" "i \<notin> set fs" using inv by (auto simp: pool_inv_def)
  have "length (filter alive (slots[i := x])) = n + 1"
    using inv i(2) x filter_update [OF i(1), of alive x] by (simp add: pool_inv_def)
  moreover have "j \<in> set fs \<longleftrightarrow> j < length (slots[i := x]) \<and> \<not> alive (slots[i := x] ! j)" for j
    using inv i x Cons by (cases "j = i") (auto simp: pool_inv_def)
  ultimately have "pool_inv alive (slots[i := x]) fs (n + 1)"
    using inv Cons by (simp add: pool_inv_def)
  then show thesis
    using Cons i by (intro that [of i "slots[i := x]" fs]) (auto simp: alloc_def)
qed

lemma release_inv:
  assumes "pool_inv alive slots free n" "i < length slots" "alive (slots ! i)"
  shows "pool_inv alive (slots[i := deactivate (slots ! i)]) (i # free) (n - 1)"
  using assms filter_update [OF assms(2), of alive "deactivate (slots ! i)"] deactivate_dead [of "slots ! i"]
  by (auto simp: pool_inv_def nth_list_update)

lemma update_inv:
  assumes "pool_inv alive slots free n" "i < length slots" "alive y \<longleftrightarrow> alive (slots ! i)"
  shows "pool_inv alive (slots[i := y]) free n"
  using assms filter_update [OF assms(2), of alive y] by (auto simp: pool_inv_def nth_list_update)

lemma map_inv:
  assumes "pool_inv alive slots free n" "\<And>x. alive (f x) \<longleftrightarrow> alive x"
  shows "pool_inv alive (map f slots) free n"
  using assms by (auto simp: pool_inv_def filter_map comp_def)

end

interpretation nodes: pool tn_alive node_deactivate
  by unfold_locales (simp add: node_deactivate_def)

interpretation edges: pool te_alive edge_deactivate
  by unfold_locales (simp add: edge_deactivate_def)

interpretation captures: pool tc_alive capture_deactivate
  by unfold_locales (simp add: capture_deactivate_def)

section \<open>Adjacency\<close>

text \<open>Live edges end in valid nodes, and a valid node lists its live edges, each once, in both directions.\<close>

definition links ::
  "(nat \<Rightarrow> bool) \<Rightarrow> (nat \<Rightarrow> bool) \<Rightarrow> (nat \<Rightarrow> nat) \<Rightarrow> (nat \<Rightarrow> nat) \<Rightarrow> (nat \<Rightarrow> nat list) \<Rightarrow> (nat \<Rightarrow> nat list) \<Rightarrow> bool" where
  "links valid live src tgt outs ins \<longleftrightarrow>
     (\<forall>e. live e \<longrightarrow> valid (src e) \<and> valid (tgt e)) \<and>
     (\<forall>n. valid n \<longrightarrow> distinct (outs n) \<and> (\<forall>e. e \<in> set (outs n) \<longleftrightarrow> live e \<and> src e = n) \<and>
       distinct (ins n) \<and> (\<forall>e. e \<in> set (ins n) \<longleftrightarrow> live e \<and> tgt e = n))"

lemma links_cong:
  assumes "links valid live src tgt outs ins"
    and "\<And>n. valid' n \<longleftrightarrow> valid n" "\<And>e. live' e \<longleftrightarrow> live e" "\<And>e. live e \<Longrightarrow> src' e = src e \<and> tgt' e = tgt e"
    and "\<And>n. valid n \<Longrightarrow> outs' n = outs n \<and> ins' n = ins n"
  shows "links valid' live' src' tgt' outs' ins'"
  using assms unfolding links_def by fastforce

lemma links_add:
  assumes l: "links valid live src tgt outs ins" and e: "\<not> live e" "valid s" "valid t"
    and "\<And>x. live' x \<longleftrightarrow> x = e \<or> live x" "src' = src(e := s)" "tgt' = tgt(e := t)"
    and "\<And>n. valid n \<Longrightarrow> outs' n = (if n = s then outs n @ [e] else outs n)"
    and "\<And>n. valid n \<Longrightarrow> ins' n = (if n = t then ins n @ [e] else ins n)"
  shows "links valid live' src' tgt' outs' ins'"
  using assms unfolding links_def by auto

lemma eraseEdgeId_split:
  assumes "e \<notin> set p"
  shows "eraseEdgeId e (p @ e # ys) = (if ys = [] then p else p @ last ys # butlast ys)"
proof -
  have "takeWhile (\<lambda>x. x \<noteq> e) (p @ e # ys) = p" using assms by (induction p) auto
  then show ?thesis by (simp add: eraseEdgeId_def list_update_append butlast_append)
qed

lemma eraseEdgeId_member:
  assumes "e \<in> set xs" "distinct xs"
  shows "distinct (eraseEdgeId e xs) \<and> set (eraseEdgeId e xs) = set xs - {e}"
proof -
  obtain p ys where xs: "xs = p @ e # ys" "e \<notin> set p" using assms(1) by (meson split_list_first)
  show ?thesis
  proof (cases ys rule: rev_cases)
    case Nil
    then show ?thesis using xs assms(2) by (auto simp: eraseEdgeId_split)
  next
    case (snoc zs z)
    then show ?thesis using xs assms(2) by (auto simp: eraseEdgeId_split)
  qed
qed

lemma eraseEdgeId_spec:
  "distinct xs \<Longrightarrow> distinct (eraseEdgeId e xs) \<and> set (eraseEdgeId e xs) = set xs - {e}"
  using eraseEdgeId_member [of e xs] by (cases "e \<in> set xs") (auto simp: eraseEdgeId_def)

lemma links_remove:
  assumes l: "links valid live src tgt outs ins" and e: "live e"
    and "\<And>x. live' x \<longleftrightarrow> x \<noteq> e \<and> live x" "\<And>x. live' x \<Longrightarrow> src' x = src x \<and> tgt' x = tgt x"
    and "\<And>n. valid n \<Longrightarrow> outs' n = (if n = src e then eraseEdgeId e (outs n) else outs n)"
    and "\<And>n. valid n \<Longrightarrow> ins' n = (if n = tgt e then eraseEdgeId e (ins n) else ins n)"
  shows "links valid live' src' tgt' outs' ins'"
proof -
  have "distinct (outs' n) \<and> (\<forall>x. x \<in> set (outs' n) \<longleftrightarrow> live' x \<and> src' x = n) \<and>
      distinct (ins' n) \<and> (\<forall>x. x \<in> set (ins' n) \<longleftrightarrow> live' x \<and> tgt' x = n)" if n: "valid n" for n
  proof -
    have n': "distinct (outs n)" "\<And>x. x \<in> set (outs n) \<longleftrightarrow> live x \<and> src x = n"
      "distinct (ins n)" "\<And>x. x \<in> set (ins n) \<longleftrightarrow> live x \<and> tgt x = n"
      using l n by (auto simp: links_def)
    have "distinct (outs' n) \<and> set (outs' n) = set (outs n) - {e}"
      using eraseEdgeId_spec [OF n'(1), of e] n'(1,2) assms(5) [OF n] by auto
    moreover have "distinct (ins' n) \<and> set (ins' n) = set (ins n) - {e}"
      using eraseEdgeId_spec [OF n'(3), of e] n'(3,4) assms(6) [OF n] by auto
    ultimately show ?thesis using n'(2,4) assms(3,4) by auto
  qed
  moreover have "valid (src' x) \<and> valid (tgt' x)" if "live' x" for x
    using l that assms(3,4) by (auto simp: links_def)
  ultimately show ?thesis by (simp add: links_def)
qed

text \<open>A node without edges comes or goes.\<close>

lemma links_node:
  assumes "links valid live src tgt outs ins"
    and "\<And>m. m \<noteq> n \<Longrightarrow> valid' m \<longleftrightarrow> valid m" "\<And>m. m \<noteq> n \<Longrightarrow> valid m \<Longrightarrow> outs' m = outs m \<and> ins' m = ins m"
    and "\<And>e. live e \<Longrightarrow> src e \<noteq> n \<and> tgt e \<noteq> n" "valid' n \<Longrightarrow> outs' n = [] \<and> ins' n = []"
  shows "links valid' live src tgt outs' ins'"
  using assms unfolding links_def by (metis distinct.simps(1) empty_iff empty_set)

abbreviation edge_links :: "TGraph \<Rightarrow> bool" where
  "edge_links g \<equiv> links (isNodeValid g) (isEdgeValid g) (\<lambda>e. te_source (g_edges g ! e)) (\<lambda>e. te_target (g_edges g ! e))
       (\<lambda>n. tn_out (g_nodes g ! n)) (\<lambda>n. tn_in (g_nodes g ! n))"

abbreviation capture_links :: "TGraph \<Rightarrow> bool" where
  "capture_links g \<equiv> links (isNodeValid g) (isCaptureEdgeValid g) (\<lambda>e. tc_source (g_captures g ! e)) (\<lambda>e. tc_target (g_captures g ! e))
       (\<lambda>n. tn_captureOut (g_nodes g ! n)) (\<lambda>n. tn_captureIn (g_nodes g ! n))"

definition graph_inv :: "TGraph \<Rightarrow> bool" where
  "graph_inv g \<longleftrightarrow>
     edge_links g \<and>
     capture_links g \<and>
     pool_inv tn_alive (g_nodes g) (g_freeNodes g) (g_liveNodes g) \<and>
     pool_inv te_alive (g_edges g) (g_freeEdges g) (g_liveEdges g) \<and>
     pool_inv tc_alive (g_captures g) (g_freeCaptures g) (g_liveCaptures g) \<and>
     (\<forall>e. isEdgeValid g e \<longrightarrow> length (te_from (g_edges g ! e)) = length (g_clocks g) \<and>
        length (te_to (g_edges g ! e)) = length (g_clocks g)) \<and>
     (\<forall>c\<in>set (g_clocks g). ck_node c < length (g_nodes g))"

end
