(* ===== verification/TimingGraphInv.thy ===== *)
theory TimingGraphInv
  imports TimingGraph
begin

text \<open>
  Every operation of the timing graph keeps its invariant: adjacency lists agree with the edges in both
  directions, dead slots are exactly the free ones, the counts are exact and every live edge has masks of the
  number of clocks.
\<close>

named_theorems node_op_simps "fields of a node after an edge operation"

lemma node_ops [node_op_simps]:
  "tn_alive (addInEdge e n) = tn_alive n" "tn_alive (addOutEdge e n) = tn_alive n"
  "tn_alive (removeInEdge e n) = tn_alive n" "tn_alive (removeOutEdge e n) = tn_alive n"
  "tn_alive (addCaptureInEdge e n) = tn_alive n" "tn_alive (addCaptureOutEdge e n) = tn_alive n"
  "tn_alive (removeCaptureInEdge e n) = tn_alive n" "tn_alive (removeCaptureOutEdge e n) = tn_alive n"
  "tn_out (addInEdge e n) = tn_out n" "tn_out (addOutEdge e n) = tn_out n @ [e]"
  "tn_out (removeInEdge e n) = tn_out n" "tn_out (removeOutEdge e n) = eraseEdgeId e (tn_out n)"
  "tn_in (addInEdge e n) = tn_in n @ [e]" "tn_in (addOutEdge e n) = tn_in n"
  "tn_in (removeInEdge e n) = eraseEdgeId e (tn_in n)" "tn_in (removeOutEdge e n) = tn_in n"
  "tn_captureOut (addInEdge e n) = tn_captureOut n" "tn_captureOut (addOutEdge e n) = tn_captureOut n"
  "tn_captureOut (removeInEdge e n) = tn_captureOut n" "tn_captureOut (removeOutEdge e n) = tn_captureOut n"
  "tn_captureIn (addInEdge e n) = tn_captureIn n" "tn_captureIn (addOutEdge e n) = tn_captureIn n"
  "tn_captureIn (removeInEdge e n) = tn_captureIn n" "tn_captureIn (removeOutEdge e n) = tn_captureIn n"
  "tn_captureOut (addCaptureInEdge e n) = tn_captureOut n" "tn_captureOut (addCaptureOutEdge e n) = tn_captureOut n @ [e]"
  "tn_captureOut (removeCaptureInEdge e n) = tn_captureOut n" "tn_captureOut (removeCaptureOutEdge e n) = eraseEdgeId e (tn_captureOut n)"
  "tn_captureIn (addCaptureInEdge e n) = tn_captureIn n @ [e]" "tn_captureIn (addCaptureOutEdge e n) = tn_captureIn n"
  "tn_captureIn (removeCaptureInEdge e n) = eraseEdgeId e (tn_captureIn n)" "tn_captureIn (removeCaptureOutEdge e n) = tn_captureIn n"
  "tn_out (addCaptureInEdge e n) = tn_out n" "tn_out (addCaptureOutEdge e n) = tn_out n"
  "tn_out (removeCaptureInEdge e n) = tn_out n" "tn_out (removeCaptureOutEdge e n) = tn_out n"
  "tn_in (addCaptureInEdge e n) = tn_in n" "tn_in (addCaptureOutEdge e n) = tn_in n"
  "tn_in (removeCaptureInEdge e n) = tn_in n" "tn_in (removeCaptureOutEdge e n) = tn_in n"
  by (simp_all add: addInEdge_def addOutEdge_def removeInEdge_def removeOutEdge_def addCaptureInEdge_def
      addCaptureOutEdge_def removeCaptureInEdge_def removeCaptureOutEdge_def)

text \<open>Two node updates in a row, possibly of the same node.\<close>

definition two_nodes :: "nat \<Rightarrow> (TNode \<Rightarrow> TNode) \<Rightarrow> nat \<Rightarrow> (TNode \<Rightarrow> TNode) \<Rightarrow> TNode list \<Rightarrow> TNode list" where
  "two_nodes s f t h ns = (let ns = ns[s := f (ns ! s)] in ns[t := h (ns ! t)])"

lemma length_two_nodes [simp]: "length (two_nodes s f t h ns) = length ns"
  by (simp add: two_nodes_def Let_def)

lemma nth_two_nodes:
  "n < length ns \<Longrightarrow> two_nodes s f t h ns ! n =
     (if n = t then h (if n = s then f (ns ! n) else ns ! n) else if n = s then f (ns ! n) else ns ! n)"
  by (auto simp: two_nodes_def Let_def nth_list_update)

lemma upd_two_nodes:
  "s < length (g_nodes g) \<Longrightarrow> t < length (g_nodes g) \<Longrightarrow>
   rbind (upd_node s f g) (\<lambda>g. rbind (upd_node t h g) k) = k (g\<lparr>g_nodes := two_nodes s f t h (g_nodes g)\<rparr>)"
  by (simp add: upd_node_def two_nodes_def Let_def)

lemma two_nodes_pool:
  assumes "pool_inv tn_alive ns free k" "s < length ns" "t < length ns"
    and "\<And>n. tn_alive (f n) = tn_alive n" "\<And>n. tn_alive (h n) = tn_alive n"
  shows "pool_inv tn_alive (two_nodes s f t h ns) free k"
  unfolding two_nodes_def Let_def
  using assms by (intro nodes.update_inv) auto

lemma graph_invD:
  assumes "graph_inv g"
  shows "edge_links g"
    "capture_links g"
    "pool_inv tn_alive (g_nodes g) (g_freeNodes g) (g_liveNodes g)"
    "pool_inv te_alive (g_edges g) (g_freeEdges g) (g_liveEdges g)"
    "pool_inv tc_alive (g_captures g) (g_freeCaptures g) (g_liveCaptures g)"
    "\<And>e. isEdgeValid g e \<Longrightarrow> length (te_from (g_edges g ! e)) = length (g_clocks g)"
    "\<And>e. isEdgeValid g e \<Longrightarrow> length (te_to (g_edges g ! e)) = length (g_clocks g)"
    "\<And>c. c \<in> set (g_clocks g) \<Longrightarrow> ck_node c < length (g_nodes g)"
  using assms by (auto simp: graph_inv_def)

lemma edge_ends:
  assumes "graph_inv g" "isEdgeValid g e"
  shows "isNodeValid g (te_source (g_edges g ! e))" "isNodeValid g (te_target (g_edges g ! e))"
  using graph_invD(1) [OF assms(1)] assms(2) by (auto simp: links_def)

lemma capture_ends:
  assumes "graph_inv g" "isCaptureEdgeValid g e"
  shows "isNodeValid g (tc_source (g_captures g ! e))" "isNodeValid g (tc_target (g_captures g ! e))"
  using graph_invD(2) [OF assms(1)] assms(2) by (auto simp: links_def)

lemma out_edges:
  assumes "graph_inv g" "isNodeValid g n"
  shows "distinct (tn_out (g_nodes g ! n))" "e \<in> set (tn_out (g_nodes g ! n)) \<longleftrightarrow> isEdgeValid g e \<and> te_source (g_edges g ! e) = n"
    "distinct (tn_in (g_nodes g ! n))" "e \<in> set (tn_in (g_nodes g ! n)) \<longleftrightarrow> isEdgeValid g e \<and> te_target (g_edges g ! e) = n"
  using graph_invD(1) [OF assms(1)] assms(2) by (auto simp: links_def)

lemma capture_edges:
  assumes "graph_inv g" "isNodeValid g n"
  shows "e \<in> set (tn_captureOut (g_nodes g ! n)) \<longleftrightarrow> isCaptureEdgeValid g e \<and> tc_source (g_captures g ! e) = n"
    "e \<in> set (tn_captureIn (g_nodes g ! n)) \<longleftrightarrow> isCaptureEdgeValid g e \<and> tc_target (g_captures g ! e) = n"
  using graph_invD(2) [OF assms(1)] assms(2) by (auto simp: links_def)

section \<open>Creation\<close>

lemma empty_graph_inv: "graph_inv empty_graph"
  by (simp add: graph_inv_def empty_graph_def links_def isNodeValid_def isEdgeValid_def isCaptureEdgeValid_def pool_inv_def)

lemma createNode_inv:
  assumes "graph_inv g"
  shows "\<exists>n g'. createNode g = Inr (n, g') \<and> graph_inv g' \<and> \<not> isNodeValid g n \<and>
    (\<forall>m. isNodeValid g' m \<longleftrightarrow> m = n \<or> isNodeValid g m) \<and> g_edges g' = g_edges g \<and> g_captures g' = g_captures g \<and>
    g_clocks g' = g_clocks g"
proof -
  note inv = graph_invD [OF assms]
  obtain n ns free where a: "alloc (g_nodes g) (g_freeNodes g) new_node = Inr (n, ns, free)"
    "pool_inv tn_alive ns free (g_liveNodes g + 1)" "n < length (g_nodes g) \<Longrightarrow> \<not> tn_alive (g_nodes g ! n)"
    "n < length ns" "ns ! n = new_node" "\<And>j. j \<noteq> n \<Longrightarrow> j < length ns \<longleftrightarrow> j < length (g_nodes g)"
    "\<And>j. j \<noteq> n \<Longrightarrow> j < length (g_nodes g) \<Longrightarrow> ns ! j = g_nodes g ! j"
    using nodes.alloc_inv [OF inv(3), of new_node] by (auto simp: new_node_def)
  define g' where "g' = g\<lparr>g_nodes := ns, g_freeNodes := free, g_liveNodes := g_liveNodes g + 1\<rparr>"
  have c: "createNode g = Inr (n, g')" using a(1) by (simp add: createNode_def g'_def)
  have nv: "\<not> isNodeValid g n" using a(3) by (auto simp: isNodeValid_def)
  have v: "isNodeValid g' m \<longleftrightarrow> m = n \<or> isNodeValid g m" for m
    using a(4-7) by (cases "m = n") (auto simp: isNodeValid_def g'_def new_node_def)
  have same: "isEdgeValid g' = isEdgeValid g" "isCaptureEdgeValid g' = isCaptureEdgeValid g"
    by (simp_all add: isEdgeValid_def isCaptureEdgeValid_def g'_def fun_eq_iff)
  have sel: "g_nodes g' = ns" "g_edges g' = g_edges g" "g_captures g' = g_captures g" by (simp_all add: g'_def)
  have old: "m \<noteq> n \<Longrightarrow> isNodeValid g m \<Longrightarrow> ns ! m = g_nodes g ! m" for m
    using a(7) by (simp add: isNodeValid_def)
  have l1: "edge_links g'"
    unfolding same sel
    by (rule links_node [OF inv(1), of n]) (use v old nv edge_ends [OF assms] a(5) in \<open>auto simp: new_node_def\<close>)
  have l2: "capture_links g'"
    unfolding same sel
    by (rule links_node [OF inv(2), of n]) (use v old nv capture_ends [OF assms] a(5) in \<open>auto simp: new_node_def\<close>)
  have "ck_node k < length ns" if "k \<in> set (g_clocks g)" for k
    using inv(8) [OF that] a(4,6) by (cases "ck_node k = n") auto
  then have "graph_inv g'"
    unfolding graph_inv_def same using l1 l2 a(2) inv(4-7) unfolding same by (simp add: g'_def)
  then show ?thesis using c nv v by (auto simp: g'_def)
qed

lemma resize_length [simp]: "length (resize k m) = k"
  by (simp add: resize_def)

lemma createEdge_inv:
  assumes "graph_inv g" "isNodeValid g s" "isNodeValid g t"
  shows "\<exists>e g'. createEdge s t g = Inr (Some e, g') \<and> graph_inv g' \<and> \<not> isEdgeValid g e \<and>
    (\<forall>x. isEdgeValid g' x \<longleftrightarrow> x = e \<or> isEdgeValid g x) \<and> isNodeValid g' = isNodeValid g \<and>
    g_edges g' ! e = resizeClockMasks (length (g_clocks g)) (edge_reset s t) \<and>
    (\<forall>x. isEdgeValid g x \<longrightarrow> g_edges g' ! x = g_edges g ! x) \<and> g_clocks g' = g_clocks g"
proof -
  note inv = graph_invD [OF assms(1)]
  let ?new = "resizeClockMasks (length (g_clocks g)) (edge_reset s t)"
  have len: "s < length (g_nodes g)" "t < length (g_nodes g)" using assms by (auto simp: isNodeValid_def)
  have new: "te_alive ?new" by (simp add: resizeClockMasks_def edge_reset_def)
  obtain e es free where a: "alloc (g_edges g) (g_freeEdges g) ?new = Inr (e, es, free)"
    "pool_inv te_alive es free (g_liveEdges g + 1)" "e < length (g_edges g) \<Longrightarrow> \<not> te_alive (g_edges g ! e)"
    "e < length es" "es ! e = ?new" "\<And>j. j \<noteq> e \<Longrightarrow> j < length es \<longleftrightarrow> j < length (g_edges g)"
    "\<And>j. j \<noteq> e \<Longrightarrow> j < length (g_edges g) \<Longrightarrow> es ! j = g_edges g ! j"
    using edges.alloc_inv [OF inv(4) new] by blast
  let ?ns = "two_nodes s (addOutEdge e) t (addInEdge e) (g_nodes g)"
  define g' where "g' = g\<lparr>g_edges := es, g_freeEdges := free, g_nodes := ?ns, g_liveEdges := g_liveEdges g + 1\<rparr>"
  have c: "createEdge s t g = Inr (Some e, g')"
    using assms(2,3) a(1) len by (simp add: createEdge_def Let_def upd_two_nodes g'_def)
  have nv: "\<not> isEdgeValid g e" using a(3) by (auto simp: isEdgeValid_def)
  have v: "isEdgeValid g' x \<longleftrightarrow> x = e \<or> isEdgeValid g x" for x
    using a(4-7) new by (cases "x = e") (auto simp: isEdgeValid_def g'_def)
  have nodes: "isNodeValid g' = isNodeValid g"
    by (auto simp: isNodeValid_def g'_def nth_two_nodes node_op_simps fun_eq_iff split: if_splits)
  have sel: "g_edges g' = es" "g_nodes g' = ?ns" by (simp_all add: g'_def)
  have cap: "isCaptureEdgeValid g' = isCaptureEdgeValid g" by (simp add: isCaptureEdgeValid_def g'_def fun_eq_iff)
  have old: "isEdgeValid g x \<Longrightarrow> es ! x = g_edges g ! x" for x
    using a(7) nv by (cases "x = e") (auto simp: isEdgeValid_def)
  have "links (isNodeValid g) (isEdgeValid g') ((\<lambda>e. te_source (g_edges g ! e))(e := s)) ((\<lambda>e. te_target (g_edges g ! e))(e := t))
       (\<lambda>m. tn_out (?ns ! m)) (\<lambda>m. tn_in (?ns ! m))"
    by (rule links_add [OF inv(1) nv assms(2,3) v refl refl]) (auto simp: isNodeValid_def nth_two_nodes node_op_simps)
  then have l1: "edge_links g'"
    by (rule links_cong) (use v old a(5) in \<open>auto simp: nodes sel resizeClockMasks_def edge_reset_def\<close>)
  have l2: "capture_links g'"
    by (rule links_cong [OF inv(2)]) (auto simp: nodes cap, auto simp: g'_def isNodeValid_def nth_two_nodes node_op_simps)
  have "length (te_from (es ! x)) = length (g_clocks g) \<and> length (te_to (es ! x)) = length (g_clocks g)" if "isEdgeValid g' x" for x
    using v [of x] that old a(5) inv(6,7) by (cases "x = e") (auto simp: resizeClockMasks_def)
  then have "graph_inv g'"
    unfolding graph_inv_def using l1 l2 a(2) inv(5,8) two_nodes_pool [OF inv(3) len] by (simp add: g'_def node_op_simps)
  then show ?thesis using c nv v nodes a(5) old by (auto simp: g'_def)
qed

lemma createCaptureEdge_inv:
  assumes "graph_inv g" "isNodeValid g s" "isNodeValid g t"
  shows "\<exists>e g'. createCaptureEdge s t g = Inr (Some e, g') \<and> graph_inv g' \<and> \<not> isCaptureEdgeValid g e \<and>
    (\<forall>x. isCaptureEdgeValid g' x \<longleftrightarrow> x = e \<or> isCaptureEdgeValid g x) \<and> isNodeValid g' = isNodeValid g \<and>
    g_captures g' ! e = capture_reset s t \<and> g_edges g' = g_edges g \<and> g_clocks g' = g_clocks g"
proof -
  note inv = graph_invD [OF assms(1)]
  have len: "s < length (g_nodes g)" "t < length (g_nodes g)" using assms by (auto simp: isNodeValid_def)
  have new: "tc_alive (capture_reset s t)" by (simp add: capture_reset_def)
  obtain e es free where a: "alloc (g_captures g) (g_freeCaptures g) (capture_reset s t) = Inr (e, es, free)"
    "pool_inv tc_alive es free (g_liveCaptures g + 1)" "e < length (g_captures g) \<Longrightarrow> \<not> tc_alive (g_captures g ! e)"
    "e < length es" "es ! e = capture_reset s t" "\<And>j. j \<noteq> e \<Longrightarrow> j < length es \<longleftrightarrow> j < length (g_captures g)"
    "\<And>j. j \<noteq> e \<Longrightarrow> j < length (g_captures g) \<Longrightarrow> es ! j = g_captures g ! j"
    using captures.alloc_inv [OF inv(5) new] by blast
  let ?ns = "two_nodes s (addCaptureOutEdge e) t (addCaptureInEdge e) (g_nodes g)"
  define g' where "g' = g\<lparr>g_captures := es, g_freeCaptures := free, g_nodes := ?ns, g_liveCaptures := g_liveCaptures g + 1\<rparr>"
  have c: "createCaptureEdge s t g = Inr (Some e, g')"
    using assms(2,3) a(1) len by (simp add: createCaptureEdge_def Let_def upd_two_nodes g'_def)
  have nv: "\<not> isCaptureEdgeValid g e" using a(3) by (auto simp: isCaptureEdgeValid_def)
  have v: "isCaptureEdgeValid g' x \<longleftrightarrow> x = e \<or> isCaptureEdgeValid g x" for x
    using a(4-7) new by (cases "x = e") (auto simp: isCaptureEdgeValid_def g'_def)
  have nodes: "isNodeValid g' = isNodeValid g"
    by (auto simp: isNodeValid_def g'_def nth_two_nodes node_op_simps fun_eq_iff split: if_splits)
  have edge: "isEdgeValid g' = isEdgeValid g" by (simp add: isEdgeValid_def g'_def fun_eq_iff)
  have sel: "g_captures g' = es" "g_nodes g' = ?ns" by (simp_all add: g'_def)
  have old: "isCaptureEdgeValid g x \<Longrightarrow> es ! x = g_captures g ! x" for x
    using a(7) nv by (cases "x = e") (auto simp: isCaptureEdgeValid_def)
  have "links (isNodeValid g) (isCaptureEdgeValid g') ((\<lambda>e. tc_source (g_captures g ! e))(e := s)) ((\<lambda>e. tc_target (g_captures g ! e))(e := t))
       (\<lambda>m. tn_captureOut (?ns ! m)) (\<lambda>m. tn_captureIn (?ns ! m))"
    by (rule links_add [OF inv(2) nv assms(2,3) v refl refl]) (auto simp: isNodeValid_def nth_two_nodes node_op_simps)
  then have l2: "capture_links g'"
    by (rule links_cong) (use v old a(5) in \<open>auto simp: nodes sel capture_reset_def\<close>)
  have l1: "edge_links g'"
    by (rule links_cong [OF inv(1)]) (auto simp: nodes edge, auto simp: g'_def isNodeValid_def nth_two_nodes node_op_simps)
  have "graph_inv g'"
    unfolding graph_inv_def edge using l1 l2 a(2) inv(4,6-8) two_nodes_pool [OF inv(3) len] unfolding edge
    by (simp add: g'_def node_op_simps)
  then show ?thesis using c nv v nodes a(5) by (auto simp: g'_def)
qed

lemma createClock_inv:
  assumes "graph_inv g" "isNodeValid g n"
  shows "\<exists>g'. createClock name target n g = Inr (length (g_clocks g), g') \<and> graph_inv g' \<and>
    g_clocks g' = g_clocks g @ [\<lparr>ck_name = name, ck_target = target, ck_node = n\<rparr>] \<and>
    isNodeValid g' = isNodeValid g \<and> isEdgeValid g' = isEdgeValid g"
proof -
  note inv = graph_invD [OF assms(1)]
  let ?f = "\<lambda>e. if te_alive e then resizeClockMasks (Suc (length (g_clocks g))) e else e"
  define g' where "g' = g\<lparr>g_clocks := g_clocks g @ [\<lparr>ck_name = name, ck_target = target, ck_node = n\<rparr>],
    g_edges := map ?f (g_edges g)\<rparr>"
  have c: "createClock name target n g = Inr (length (g_clocks g), g')"
    using assms(2) by (simp add: createClock_def Let_def g'_def)
  have alive: "te_alive (?f e) = te_alive e" for e by (simp add: resizeClockMasks_def)
  have edge: "isEdgeValid g' = isEdgeValid g"
    by (auto simp: isEdgeValid_def g'_def alive fun_eq_iff resizeClockMasks_def)
  have nodes: "isNodeValid g' = isNodeValid g" "isCaptureEdgeValid g' = isCaptureEdgeValid g"
    by (simp_all add: isNodeValid_def isCaptureEdgeValid_def g'_def fun_eq_iff)
  have l1: "edge_links g'"
    by (rule links_cong [OF inv(1)]) (auto simp: nodes edge, auto simp: g'_def isEdgeValid_def resizeClockMasks_def)
  have "length (te_from (g_edges g' ! e)) = length (g_clocks g') \<and> length (te_to (g_edges g' ! e)) = length (g_clocks g')"
    if "isEdgeValid g e" for e
    using that by (auto simp: isEdgeValid_def g'_def resizeClockMasks_def)
  moreover have "\<forall>c\<in>set (g_clocks g'). ck_node c < length (g_nodes g')"
    using inv(8) assms(2) by (auto simp: g'_def isNodeValid_def)
  ultimately have "graph_inv g'"
    unfolding graph_inv_def nodes edge using l1 inv(2,3,5) edges.map_inv [OF inv(4), of ?f] alive unfolding nodes edge
    by (simp add: g'_def)
  then show ?thesis using c nodes edge by (auto simp: g'_def)
qed

section \<open>Removal\<close>

lemma removeEdge_inv:
  assumes "graph_inv g"
  shows "\<exists>g'. removeEdge e g = Inr (isEdgeValid g e, g') \<and> graph_inv g' \<and>
    (\<forall>x. isEdgeValid g' x \<longleftrightarrow> x \<noteq> e \<and> isEdgeValid g x) \<and> isNodeValid g' = isNodeValid g \<and>
    (\<forall>x. isEdgeValid g' x \<longrightarrow> g_edges g' ! x = g_edges g ! x) \<and> g_captures g' = g_captures g \<and> g_clocks g' = g_clocks g"
proof (cases "isEdgeValid g e")
  case False
  then show ?thesis using assms by (auto simp: removeEdge_def)
next
  case True
  note inv = graph_invD [OF assms]
  let ?c = "g_edges g ! e"
  let ?s = "te_source ?c" and ?t = "te_target ?c"
  have e: "e < length (g_edges g)" "te_alive ?c" using True by (auto simp: isEdgeValid_def)
  have len: "?s < length (g_nodes g)" "?t < length (g_nodes g)" using edge_ends [OF assms True] by (auto simp: isNodeValid_def)
  let ?ns = "two_nodes ?s (removeOutEdge e) ?t (removeInEdge e) (g_nodes g)"
  define g' where "g' = g\<lparr>g_nodes := ?ns, g_edges := (g_edges g)[e := edge_deactivate ?c],
    g_freeEdges := e # g_freeEdges g, g_liveEdges := g_liveEdges g - 1\<rparr>"
  have nodes: "isNodeValid g' = isNodeValid g"
    by (auto simp: isNodeValid_def g'_def nth_two_nodes node_op_simps fun_eq_iff split: if_splits)
  have t: "isNodeValid (g\<lparr>g_nodes := (g_nodes g)[?s := removeOutEdge e (g_nodes g ! ?s)]\<rparr>) ?t"
    using edge_ends [OF assms True] by (cases "?s = ?t") (simp_all add: isNodeValid_def node_op_simps)
  have c: "removeEdge e g = Inr (True, g')"
    using True edge_ends(1) [OF assms True] t len
    by (simp add: removeEdge_def Let_def upd_node_def g'_def two_nodes_def)
  have v: "isEdgeValid g' x \<longleftrightarrow> x \<noteq> e \<and> isEdgeValid g x" for x
    using e by (cases "x = e") (auto simp: isEdgeValid_def g'_def edge_deactivate_def)
  have cap: "isCaptureEdgeValid g' = isCaptureEdgeValid g" by (simp add: isCaptureEdgeValid_def g'_def fun_eq_iff)
  have l1: "edge_links g'"
    unfolding nodes
    by (rule links_remove [OF inv(1) True v]) (auto simp: v, auto simp: g'_def isNodeValid_def nth_two_nodes node_op_simps)
  have l2: "capture_links g'"
    by (rule links_cong [OF inv(2)]) (auto simp: nodes cap, auto simp: g'_def isNodeValid_def nth_two_nodes node_op_simps)
  have "length (te_from (g_edges g' ! x)) = length (g_clocks g') \<and> length (te_to (g_edges g' ! x)) = length (g_clocks g')"
    if "isEdgeValid g' x" for x
    using that v [of x] inv(6,7) by (auto simp: g'_def)
  then have "graph_inv g'"
    unfolding graph_inv_def using l1 l2 inv(5,8) edges.release_inv [OF inv(4) e] two_nodes_pool [OF inv(3) len]
    by (simp add: g'_def node_op_simps)
  then show ?thesis using c True nodes v by (auto simp: g'_def)
qed

lemma removeCaptureEdge_inv:
  assumes "graph_inv g"
  shows "\<exists>g'. removeCaptureEdge e g = Inr (isCaptureEdgeValid g e, g') \<and> graph_inv g' \<and>
    (\<forall>x. isCaptureEdgeValid g' x \<longleftrightarrow> x \<noteq> e \<and> isCaptureEdgeValid g x) \<and> isNodeValid g' = isNodeValid g \<and>
    (\<forall>x. isCaptureEdgeValid g' x \<longrightarrow> g_captures g' ! x = g_captures g ! x) \<and> g_edges g' = g_edges g \<and> g_clocks g' = g_clocks g \<and>
    (\<forall>n. isNodeValid g n \<longrightarrow> tn_out (g_nodes g' ! n) = tn_out (g_nodes g ! n) \<and> tn_in (g_nodes g' ! n) = tn_in (g_nodes g ! n))"
proof (cases "isCaptureEdgeValid g e")
  case False
  then show ?thesis using assms by (auto simp: removeCaptureEdge_def)
next
  case True
  note inv = graph_invD [OF assms]
  let ?c = "g_captures g ! e"
  let ?s = "tc_source ?c" and ?t = "tc_target ?c"
  have e: "e < length (g_captures g)" "tc_alive ?c" using True by (auto simp: isCaptureEdgeValid_def)
  have len: "?s < length (g_nodes g)" "?t < length (g_nodes g)" using capture_ends [OF assms True] by (auto simp: isNodeValid_def)
  let ?ns = "two_nodes ?s (removeCaptureOutEdge e) ?t (removeCaptureInEdge e) (g_nodes g)"
  define g' where "g' = g\<lparr>g_nodes := ?ns, g_captures := (g_captures g)[e := capture_deactivate ?c],
    g_freeCaptures := e # g_freeCaptures g, g_liveCaptures := g_liveCaptures g - 1\<rparr>"
  have nodes: "isNodeValid g' = isNodeValid g"
    by (auto simp: isNodeValid_def g'_def nth_two_nodes node_op_simps fun_eq_iff split: if_splits)
  have c: "removeCaptureEdge e g = Inr (True, g')"
    using True len by (simp add: removeCaptureEdge_def Let_def upd_two_nodes g'_def)
  have v: "isCaptureEdgeValid g' x \<longleftrightarrow> x \<noteq> e \<and> isCaptureEdgeValid g x" for x
    using e by (cases "x = e") (auto simp: isCaptureEdgeValid_def g'_def capture_deactivate_def)
  have edge: "isEdgeValid g' = isEdgeValid g" by (simp add: isEdgeValid_def g'_def fun_eq_iff)
  have l2: "capture_links g'"
    unfolding nodes
    by (rule links_remove [OF inv(2) True v]) (auto simp: v, auto simp: g'_def isNodeValid_def nth_two_nodes node_op_simps)
  have l1: "edge_links g'"
    by (rule links_cong [OF inv(1)]) (auto simp: nodes edge, auto simp: g'_def isNodeValid_def nth_two_nodes node_op_simps)
  have "graph_inv g'"
    unfolding graph_inv_def edge using l1 l2 inv(4,6-8) captures.release_inv [OF inv(5) e] two_nodes_pool [OF inv(3) len]
    unfolding edge by (simp add: g'_def node_op_simps)
  then show ?thesis using c True nodes v
    by (auto simp: g'_def isNodeValid_def nth_two_nodes node_op_simps)
qed

text \<open>The loops of \<open>removeNode\<close>.\<close>

lemma removeCaptureEdges_inv:
  "graph_inv g \<Longrightarrow> \<exists>g'. rfold (\<lambda>e g. rbind (removeCaptureEdge e g) (\<lambda>(_, g). Inr g)) es g = Inr g' \<and> graph_inv g' \<and>
     (\<forall>x. isCaptureEdgeValid g' x \<longleftrightarrow> x \<notin> set es \<and> isCaptureEdgeValid g x) \<and> isNodeValid g' = isNodeValid g \<and>
     (\<forall>x. isCaptureEdgeValid g' x \<longrightarrow> g_captures g' ! x = g_captures g ! x) \<and> g_edges g' = g_edges g \<and> g_clocks g' = g_clocks g \<and>
     (\<forall>n. isNodeValid g n \<longrightarrow> tn_out (g_nodes g' ! n) = tn_out (g_nodes g ! n) \<and> tn_in (g_nodes g' ! n) = tn_in (g_nodes g ! n))"
proof (induction es arbitrary: g)
  case (Cons e es)
  obtain g1 where g1: "removeCaptureEdge e g = Inr (isCaptureEdgeValid g e, g1)" "graph_inv g1"
    "\<forall>x. isCaptureEdgeValid g1 x \<longleftrightarrow> x \<noteq> e \<and> isCaptureEdgeValid g x" "isNodeValid g1 = isNodeValid g"
    "\<forall>x. isCaptureEdgeValid g1 x \<longrightarrow> g_captures g1 ! x = g_captures g ! x" "g_edges g1 = g_edges g" "g_clocks g1 = g_clocks g"
    "\<forall>n. isNodeValid g n \<longrightarrow> tn_out (g_nodes g1 ! n) = tn_out (g_nodes g ! n) \<and> tn_in (g_nodes g1 ! n) = tn_in (g_nodes g ! n)"
    using removeCaptureEdge_inv [OF Cons.prems] by blast
  from Cons.IH [OF g1(2)] g1 show ?case by auto
qed simp

lemma removeEdges_inv:
  "graph_inv g \<Longrightarrow> \<exists>g'. rfold (\<lambda>e g. rbind (removeEdge e g) (\<lambda>(_, g). Inr g)) es g = Inr g' \<and> graph_inv g' \<and>
     (\<forall>x. isEdgeValid g' x \<longleftrightarrow> x \<notin> set es \<and> isEdgeValid g x) \<and> isNodeValid g' = isNodeValid g \<and>
     (\<forall>x. isEdgeValid g' x \<longrightarrow> g_edges g' ! x = g_edges g ! x) \<and> g_captures g' = g_captures g \<and> g_clocks g' = g_clocks g"
proof (induction es arbitrary: g)
  case (Cons e es)
  obtain g1 where g1: "removeEdge e g = Inr (isEdgeValid g e, g1)" "graph_inv g1"
    "\<forall>x. isEdgeValid g1 x \<longleftrightarrow> x \<noteq> e \<and> isEdgeValid g x" "isNodeValid g1 = isNodeValid g"
    "\<forall>x. isEdgeValid g1 x \<longrightarrow> g_edges g1 ! x = g_edges g ! x" "g_captures g1 = g_captures g" "g_clocks g1 = g_clocks g"
    using removeEdge_inv [OF Cons.prems] by blast
  from Cons.IH [OF g1(2)] g1 show ?case by auto
qed simp

lemma removeNode_inv:
  assumes "graph_inv g"
  shows "\<exists>g'. removeNode n g = Inr (isNodeValid g n, g') \<and> graph_inv g' \<and>
    (\<forall>m. isNodeValid g' m \<longleftrightarrow> m \<noteq> n \<and> isNodeValid g m) \<and>
    (\<forall>x. isEdgeValid g' x \<longleftrightarrow> isEdgeValid g x \<and> te_source (g_edges g ! x) \<noteq> n \<and> te_target (g_edges g ! x) \<noteq> n) \<and>
    (\<forall>x. isEdgeValid g' x \<longrightarrow> g_edges g' ! x = g_edges g ! x) \<and> g_clocks g' = g_clocks g \<and>
    (isNodeValid g n \<longrightarrow> (\<exists>ns. g_freeNodes g' = n # ns))"
proof (cases "isNodeValid g n")
  case False
  then show ?thesis using assms edge_ends [OF assms] by (auto simp: removeNode_def node_at_def)
next
  case True
  let ?x = "g_nodes g ! n"
  obtain g1 where g1: "rfold (\<lambda>e g. rbind (removeCaptureEdge e g) (\<lambda>(_, g). Inr g)) (tn_captureOut ?x @ tn_captureIn ?x) g = Inr g1"
    "graph_inv g1" "\<And>x. isCaptureEdgeValid g1 x \<longleftrightarrow> x \<notin> set (tn_captureOut ?x @ tn_captureIn ?x) \<and> isCaptureEdgeValid g x"
    "isNodeValid g1 = isNodeValid g" "\<And>x. isCaptureEdgeValid g1 x \<Longrightarrow> g_captures g1 ! x = g_captures g ! x"
    "g_edges g1 = g_edges g" "g_clocks g1 = g_clocks g"
    using removeCaptureEdges_inv [OF assms, of "tn_captureOut ?x @ tn_captureIn ?x"] by blast
  obtain g2 where g2: "rfold (\<lambda>e g. rbind (removeEdge e g) (\<lambda>(_, g). Inr g)) (tn_out ?x @ tn_in ?x) g1 = Inr g2" "graph_inv g2"
    "\<And>x. isEdgeValid g2 x \<longleftrightarrow> x \<notin> set (tn_out ?x @ tn_in ?x) \<and> isEdgeValid g1 x" "isNodeValid g2 = isNodeValid g1"
    "\<And>x. isEdgeValid g2 x \<Longrightarrow> g_edges g2 ! x = g_edges g1 ! x" "g_captures g2 = g_captures g1" "g_clocks g2 = g_clocks g1"
    using removeEdges_inv [OF g1(2), of "tn_out ?x @ tn_in ?x"] by blast
  note inv = graph_invD [OF g2(2)]
  have n: "n < length (g_nodes g2)" "tn_alive (g_nodes g2 ! n)" using True g1(4) g2(4) by (auto simp: isNodeValid_def fun_eq_iff)
  have e1: "isEdgeValid g1 = isEdgeValid g" by (simp add: isEdgeValid_def g1(6) fun_eq_iff)
  have edges: "isEdgeValid g2 x \<longleftrightarrow> isEdgeValid g x \<and> te_source (g_edges g ! x) \<noteq> n \<and> te_target (g_edges g ! x) \<noteq> n" for x
    using g2(3) [of x] out_edges(2,4) [OF assms True, of x] by (auto simp: e1)
  have free: "isEdgeValid g2 x \<Longrightarrow> te_source (g_edges g2 ! x) \<noteq> n \<and> te_target (g_edges g2 ! x) \<noteq> n" for x
    using edges [of x] g2(5) [of x] g1(6) by auto
  have c2: "isCaptureEdgeValid g2 = isCaptureEdgeValid g1" by (simp add: isCaptureEdgeValid_def g2(6) fun_eq_iff)
  have cfree: "isCaptureEdgeValid g2 x \<Longrightarrow> tc_source (g_captures g2 ! x) \<noteq> n \<and> tc_target (g_captures g2 ! x) \<noteq> n" for x
    using g1(3) [of x] g1(5) [of x] capture_edges [OF assms True, of x] g2(6) by (auto simp: c2)
  define g' where "g' = g2\<lparr>g_nodes := (g_nodes g2)[n := node_deactivate (g_nodes g2 ! n)],
    g_freeNodes := n # g_freeNodes g2, g_liveNodes := g_liveNodes g2 - 1\<rparr>"
  have c: "removeNode n g = Inr (True, g')"
    using True g1(1) g2(1) n by (simp add: removeNode_def node_at_def upd_node_def g'_def)
  have same: "isEdgeValid g' = isEdgeValid g2" "isCaptureEdgeValid g' = isCaptureEdgeValid g2"
    by (simp_all add: isEdgeValid_def isCaptureEdgeValid_def g'_def fun_eq_iff)
  have sel: "g_edges g' = g_edges g2" "g_captures g' = g_captures g2" "g_clocks g' = g_clocks g2" by (simp_all add: g'_def)
  have v: "isNodeValid g' m \<longleftrightarrow> m \<noteq> n \<and> isNodeValid g2 m" for m
    using n by (cases "m = n") (auto simp: isNodeValid_def g'_def node_deactivate_def)
  have old: "m \<noteq> n \<Longrightarrow> g_nodes g' ! m = g_nodes g2 ! m" for m by (simp add: g'_def)
  have l1: "edge_links g'"
    unfolding same sel by (rule links_node [OF inv(1), of n]) (use v old free in auto)
  have l2: "capture_links g'"
    unfolding same sel by (rule links_node [OF inv(2), of n]) (use v old cfree in auto)
  have "graph_inv g'"
    unfolding graph_inv_def same using l1 l2 inv(4-8) nodes.release_inv [OF inv(3) n] unfolding same by (simp add: g'_def)
  moreover have "g_edges g' ! x = g_edges g ! x" if "isEdgeValid g' x" for x
    using that g2(5) [of x] g1(6) by (simp add: sel same)
  moreover have "g_freeNodes g' = n # g_freeNodes g2" by (simp add: g'_def)
  ultimately show ?thesis using c True v edges g1(4,7) g2(4) by (auto simp: sel g2(7) same)
qed

end
