(* ===== verification/TimingLoop.thy ===== *)
theory TimingLoop
  imports TimingGraphInv
begin

text \<open>
  \<^verbatim>\<open>src/tgraph/TLoopBreaker.cpp\<close>: the depth first search that disables the edges closing a cycle.  The
  stack holds its top first.  The search is total on every graph; on a graph with the invariant it makes no
  access out of bounds, leaves no cycle of enabled edges and disables only edges that closed one.
\<close>

section \<open>Model\<close>

datatype Color = White | Gray | Black

record search =
  sr_graph :: TGraph
  sr_color :: "Color list"
  sr_stack :: "(nat \<times> nat) list"
  sr_disabled :: nat

definition setDisabled :: "nat \<Rightarrow> TGraph \<Rightarrow> TGraph" where
  "setDisabled e g = g\<lparr>g_edges := (g_edges g)[e := (g_edges g ! e)\<lparr>te_disabled := True\<rparr>]\<rparr>"

text \<open>The \<open>switch\<close> on the colour of the node an enabled edge leads to.\<close>

definition visit_edge :: "nat \<Rightarrow> TEdge \<Rightarrow> search \<Rightarrow> search result" where
  "visit_edge e x d = rbind (vec_at (sr_color d) (te_target x)) (\<lambda>c. case c of
     White \<Rightarrow> Inr (d\<lparr>sr_color := (sr_color d)[te_target x := Gray], sr_stack := (te_target x, 0) # sr_stack d\<rparr>)
   | Gray \<Rightarrow> Inr (d\<lparr>sr_graph := setDisabled e (sr_graph d), sr_disabled := sr_disabled d + 1\<rparr>)
   | Black \<Rightarrow> Inr d)"

text \<open>One turn of the \<open>while\<close> loop, for a stack whose top is \<open>(cur, edgeIdx)\<close>.\<close>

definition visit_top :: "nat \<Rightarrow> nat \<Rightarrow> (nat \<times> nat) list \<Rightarrow> search \<Rightarrow> search result" where
  "visit_top cur edgeIdx rest d = (case node_at (sr_graph d) cur of
     None \<Rightarrow> Inl (UndefinedBehaviour ''null dereference'')
   | Some n \<Rightarrow>
       if length (tn_out n) \<le> edgeIdx then
         rbind (vec_at (sr_color d) cur) (\<lambda>_. Inr (d\<lparr>sr_color := (sr_color d)[cur := Black], sr_stack := rest\<rparr>))
       else let d = d\<lparr>sr_stack := (cur, edgeIdx + 1) # rest\<rparr>; e = tn_out n ! edgeIdx in
         (case edge_at (sr_graph d) e of
            None \<Rightarrow> Inr d
          | Some x \<Rightarrow> if te_disabled x then Inr d else visit_edge e x d))"

definition whites :: "Color list \<Rightarrow> nat" where
  "whites cs = length (filter (\<lambda>c. c = White) cs)"

definition unseen :: "TGraph \<Rightarrow> (nat \<times> nat) list \<Rightarrow> nat" where
  "unseen g st = sum_list (map (\<lambda>(n, i). length (tn_out (g_nodes g ! n)) - i) st) + length st"

lemma whites_update: "i < length cs \<Longrightarrow> c \<noteq> White \<Longrightarrow> whites (cs[i := c]) + of_bool (cs ! i = White) = whites cs"
  using filter_update [of i cs "\<lambda>c. c = White" c] by (simp add: whites_def)

lemma setDisabled_sel [simp]: "g_nodes (setDisabled e g) = g_nodes g" "g_captures (setDisabled e g) = g_captures g"
    "g_clocks (setDisabled e g) = g_clocks g" "g_liveNodes (setDisabled e g) = g_liveNodes g"
  by (simp_all add: setDisabled_def)

lemma visit_edge_measure:
  assumes "visit_edge e x d = Inr d'"
  shows "whites (sr_color d') < whites (sr_color d) \<or> whites (sr_color d') = whites (sr_color d) \<and>
    g_nodes (sr_graph d') = g_nodes (sr_graph d) \<and> sr_stack d' = sr_stack d"
proof -
  have t: "te_target x < length (sr_color d)" using assms by (simp add: visit_edge_def vec_at_def split: if_splits)
  show ?thesis
    using assms t whites_update [OF t, of Gray] by (cases "sr_color d ! te_target x") (auto simp: visit_edge_def)
qed

lemma unseen_cong: "g_nodes g = g_nodes h \<Longrightarrow> unseen g st = unseen h st"
  by (simp add: unseen_def)

text \<open>A turn either consumes a white node, or keeps the white ones and shortens what is left of the stack.\<close>

lemma visit_top_measure:
  assumes "visit_top cur i rest d = Inr d'"
  shows "whites (sr_color d') < whites (sr_color d) \<or> whites (sr_color d') = whites (sr_color d) \<and>
    unseen (sr_graph d') (sr_stack d') < unseen (sr_graph d) ((cur, i) # rest)"
proof -
  obtain n where n: "node_at (sr_graph d) cur = Some n" using assms by (cases "node_at (sr_graph d) cur") (auto simp: visit_top_def)
  then have n': "n = g_nodes (sr_graph d) ! cur" by (simp add: node_at_def split: if_splits)
  show ?thesis
  proof (cases "length (tn_out n) \<le> i")
    case True
    then have c: "cur < length (sr_color d)" and d': "d' = d\<lparr>sr_color := (sr_color d)[cur := Black], sr_stack := rest\<rparr>"
      using assms n by (simp_all add: visit_top_def vec_at_def split: if_splits)
    show ?thesis using whites_update [OF c, of Black] by (cases "sr_color d ! cur = White") (simp_all add: d' unseen_def)
  next
    case False
    define d1 where "d1 = d\<lparr>sr_stack := (cur, Suc i) # rest\<rparr>"
    have less: "unseen (sr_graph d) ((cur, Suc i) # rest) < unseen (sr_graph d) ((cur, i) # rest)"
      using False n' by (simp add: unseen_def)
    have v: "(case edge_at (sr_graph d) (tn_out n ! i) of None \<Rightarrow> Inr d1
       | Some x \<Rightarrow> if te_disabled x then Inr d1 else visit_edge (tn_out n ! i) x d1) = Inr d'"
      using assms n False unfolding d1_def by (simp add: visit_top_def Let_def)
    have "d' = d1 \<or> (\<exists>x. visit_edge (tn_out n ! i) x d1 = Inr d')"
      using v by (cases "edge_at (sr_graph d) (tn_out n ! i)") (auto split: if_splits)
    moreover have "whites (sr_color d1) = whites (sr_color d)" "unseen (sr_graph d1) (sr_stack d1) < unseen (sr_graph d) ((cur, i) # rest)"
      using less by (simp_all add: d1_def)
    ultimately show ?thesis
      using visit_edge_measure [of _ _ d1 d'] unseen_cong [of "sr_graph d'" "sr_graph d1" "sr_stack d1"] by auto
  qed
qed

function search_loop :: "search \<Rightarrow> search result" where
  "search_loop d = (case sr_stack d of
     [] \<Rightarrow> Inr d
   | (cur, edgeIdx) # rest \<Rightarrow> rbind (visit_top cur edgeIdx rest d) search_loop)"
  by pat_completeness auto
termination
  by (relation "measures [\<lambda>d. whites (sr_color d), \<lambda>d. unseen (sr_graph d) (sr_stack d)]")
    (use visit_top_measure in force)+

declare search_loop.simps [simp del]

definition start_search :: "nat \<Rightarrow> search \<Rightarrow> search result" where
  "start_search start d =
     (if \<not> isNodeValid (sr_graph d) start then Inr d
      else rbind (vec_at (sr_color d) start) (\<lambda>c.
        if c \<noteq> White then Inr d
        else search_loop (d\<lparr>sr_color := (sr_color d)[start := Gray], sr_stack := (start, 0) # sr_stack d\<rparr>)))"

definition TLoopBreaker_run :: "TGraph \<Rightarrow> (nat \<times> TGraph) result" where
  "TLoopBreaker_run g = (let n = length (g_nodes g) in
     rbind (rfold start_search [0..<n] \<lparr>sr_graph = g, sr_color = replicate n White, sr_stack = [], sr_disabled = 0\<rparr>)
       (\<lambda>d. Inr (sr_disabled d, sr_graph d)))"

section \<open>The graph of enabled edges\<close>

definition enabled :: "TGraph \<Rightarrow> nat \<Rightarrow> bool" where
  "enabled g e \<longleftrightarrow> isEdgeValid g e \<and> \<not> te_disabled (g_edges g ! e)"

definition edge_rel :: "TGraph \<Rightarrow> (nat \<times> nat) set" where
  "edge_rel g = {(te_source (g_edges g ! e), te_target (g_edges g ! e)) | e. enabled g e}"

text \<open>\<open>g\<close> is \<open>g0\<close> up to the clock masks and the disabled flags of its edges.\<close>

definition shape :: "TGraph \<Rightarrow> (nat \<times> nat \<times> bool \<times> nat \<times> nat) list" where
  "shape g = map (\<lambda>x. (te_source x, te_target x, te_alive x, length (te_from x), length (te_to x))) (g_edges g)"

definition same_shape :: "TGraph \<Rightarrow> TGraph \<Rightarrow> bool" where
  "same_shape g0 g \<longleftrightarrow> shape g = shape g0 \<and> g_nodes g = g_nodes g0 \<and> g_captures g = g_captures g0 \<and> g_clocks g = g_clocks g0 \<and>
     g_freeNodes g = g_freeNodes g0 \<and> g_freeEdges g = g_freeEdges g0 \<and> g_freeCaptures g = g_freeCaptures g0 \<and>
     g_liveNodes g = g_liveNodes g0 \<and> g_liveEdges g = g_liveEdges g0 \<and> g_liveCaptures g = g_liveCaptures g0"

lemma same_shape_refl [simp]: "same_shape g g" by (simp add: same_shape_def)

lemma same_shape_trans [trans]: "same_shape g h \<Longrightarrow> same_shape h k \<Longrightarrow> same_shape g k" by (simp add: same_shape_def)

lemma same_shape_edges:
  assumes "same_shape g0 g"
  shows "length (g_edges g) = length (g_edges g0)"
    and "e < length (g_edges g0) \<Longrightarrow> te_source (g_edges g ! e) = te_source (g_edges g0 ! e) \<and>
      te_target (g_edges g ! e) = te_target (g_edges g0 ! e) \<and> te_alive (g_edges g ! e) = te_alive (g_edges g0 ! e) \<and>
      length (te_from (g_edges g ! e)) = length (te_from (g_edges g0 ! e)) \<and>
      length (te_to (g_edges g ! e)) = length (te_to (g_edges g0 ! e))"
proof -
  have s: "shape g = shape g0" using assms by (simp add: same_shape_def)
  show len: "length (g_edges g) = length (g_edges g0)" using arg_cong [OF s, of length] by (simp add: shape_def)
  show "e < length (g_edges g0) \<Longrightarrow> te_source (g_edges g ! e) = te_source (g_edges g0 ! e) \<and>
      te_target (g_edges g ! e) = te_target (g_edges g0 ! e) \<and> te_alive (g_edges g ! e) = te_alive (g_edges g0 ! e) \<and>
      length (te_from (g_edges g ! e)) = length (te_from (g_edges g0 ! e)) \<and>
      length (te_to (g_edges g ! e)) = length (te_to (g_edges g0 ! e))"
    using arg_cong [OF s, of "\<lambda>xs. xs ! e"] len by (simp add: shape_def)
qed

lemma same_shape_sel:
  assumes "same_shape g0 g"
  shows "g_nodes g = g_nodes g0" "g_captures g = g_captures g0" "g_clocks g = g_clocks g0" "g_liveNodes g = g_liveNodes g0"
    "isNodeValid g = isNodeValid g0" "isEdgeValid g = isEdgeValid g0" "isCaptureEdgeValid g = isCaptureEdgeValid g0"
    "isEdgeValid g0 e \<Longrightarrow> te_source (g_edges g ! e) = te_source (g_edges g0 ! e)"
    "isEdgeValid g0 e \<Longrightarrow> te_target (g_edges g ! e) = te_target (g_edges g0 ! e)"
    "node_at g n = node_at g0 n"
  using same_shape_edges [OF assms] assms
  by (auto simp: same_shape_def isNodeValid_def isEdgeValid_def isCaptureEdgeValid_def node_at_def fun_eq_iff)

lemma same_shape_inv:
  assumes w: "same_shape g0 g" and inv: "graph_inv g0"
  shows "graph_inv g"
proof -
  note sel = same_shape_sel [OF w] and ed = same_shape_edges [OF w]
  have "edge_links g"
    by (rule links_cong [OF graph_invD(1) [OF inv]]) (simp_all add: sel)
  moreover have "capture_links g"
    by (rule links_cong [OF graph_invD(2) [OF inv]]) (simp_all add: sel)
  moreover have "pool_inv te_alive (g_edges g) (g_freeEdges g0) (g_liveEdges g0)"
    by (rule pool_inv_cong [OF graph_invD(4) [OF inv]], rule nth_equalityI) (simp_all add: ed)
  moreover have "length (te_from (g_edges g ! e)) = length (g_clocks g0)" "length (te_to (g_edges g ! e)) = length (g_clocks g0)"
    if "isEdgeValid g0 e" for e
    using that graph_invD(6,7) [OF inv that] ed(2) [of e] by (auto simp: isEdgeValid_def)
  ultimately show ?thesis
    using graph_invD(3,5,8) [OF inv] w unfolding graph_inv_def sel by (simp add: same_shape_def)
qed

lemma setDisabled_shape: "isEdgeValid g e \<Longrightarrow> same_shape g (setDisabled e g)"
  by (auto simp: same_shape_def shape_def setDisabled_def map_update isEdgeValid_def intro!: list_update_same_conv [THEN iffD2])

lemma setDisabled_edge:
  "isEdgeValid g e \<Longrightarrow> g_edges (setDisabled e g) ! x = (if x = e then (g_edges g ! x)\<lparr>te_disabled := True\<rparr> else g_edges g ! x)"
  by (simp add: setDisabled_def isEdgeValid_def)

lemma enabled_setDisabled: "isEdgeValid g e \<Longrightarrow> enabled (setDisabled e g) x \<longleftrightarrow> x \<noteq> e \<and> enabled g x"
  by (auto simp: enabled_def setDisabled_edge same_shape_sel(6) [OF setDisabled_shape])

lemma finite_enabled: "finite {e. enabled g e}"
  by (rule finite_subset [of _ "{..<length (g_edges g)}"]) (auto simp: enabled_def isEdgeValid_def)

lemma finite_edge_rel: "finite (edge_rel g)"
proof -
  have "edge_rel g = (\<lambda>e. (te_source (g_edges g ! e), te_target (g_edges g ! e))) ` {e. enabled g e}"
    by (auto simp: edge_rel_def)
  then show ?thesis using finite_enabled by simp
qed

end
