(* ===== verification/TimingLoopProof.thy ===== *)
theory TimingLoopProof
  imports TimingLoop
begin

text \<open>The invariant of the depth first search of \<open>TLoopBreaker\<close>, and what it leaves behind.\<close>

section \<open>Stack and colours\<close>

abbreviation source_of :: "TGraph \<Rightarrow> nat \<Rightarrow> nat" where "source_of g e \<equiv> te_source (g_edges g ! e)"
abbreviation target_of :: "TGraph \<Rightarrow> nat \<Rightarrow> nat" where "target_of g e \<equiv> te_target (g_edges g ! e)"
abbreviation outs :: "TGraph \<Rightarrow> nat \<Rightarrow> nat list" where "outs g n \<equiv> tn_out (g_nodes g ! n)"

text \<open>
  The stack is a path of \<open>g0\<close> from its bottom to its top; the edges a frame has passed lead to black nodes,
  the one to the frame above it (\<open>child\<close>) excepted.
\<close>

fun frames :: "TGraph \<Rightarrow> TGraph \<Rightarrow> Color list \<Rightarrow> nat option \<Rightarrow> (nat \<times> nat) list \<Rightarrow> bool" where
  "frames g0 g col child [] \<longleftrightarrow> True"
| "frames g0 g col child ((u, i) # st) \<longleftrightarrow> isNodeValid g u \<and> col ! u = Gray \<and> u \<notin> fst ` set st \<and>
     (\<forall>e\<in>set (take i (outs g u)). enabled g e \<longrightarrow> col ! target_of g e = Black \<or> child = Some (target_of g e)) \<and>
     (\<forall>v. child = Some v \<longrightarrow> (u, v) \<in> edge_rel g0) \<and> frames g0 g col (Some u) st"

lemma frames_mono:
  assumes sh: "same_shape g g'" and en: "\<And>e. enabled g' e \<Longrightarrow> enabled g e" and bl: "\<And>n. col ! n = Black \<Longrightarrow> col' ! n = Black"
  shows "frames g0 g col child st \<Longrightarrow> (\<And>n. n \<in> fst ` set st \<Longrightarrow> col' ! n = Gray) \<Longrightarrow>
    (\<And>t. child = Some t \<Longrightarrow> child' = Some t \<or> child' = None \<and> col' ! t = Black) \<Longrightarrow>
    (child = None \<Longrightarrow> child' = None) \<Longrightarrow> frames g0 g' col' child' st"
proof (induction st arbitrary: child child')
  case (Cons f st)
  obtain u i where f: "f = (u, i)" by (cases f)
  have tgt: "enabled g' e \<Longrightarrow> target_of g' e = target_of g e" for e
    using en [of e] same_shape_sel(9) [OF sh] by (simp add: enabled_def)
  have "frames g0 g' col' (Some u) st"
    using Cons.prems by (intro Cons.IH [of "Some u"]) (auto simp: f)
  moreover have "col' ! target_of g' e = Black \<or> child' = Some (target_of g' e)"
    if "e \<in> set (take i (outs g u))" "enabled g' e" for e
    using that Cons.prems(1,3) en [OF that(2)] bl tgt [OF that(2)] by (auto simp: f)
  moreover have "(u, v) \<in> edge_rel g0" if "child' = Some v" for v
    using that Cons.prems(1,3,4) by (cases child) (auto simp: f)
  ultimately show ?case
    using Cons.prems(1,2) by (simp add: f same_shape_sel(1,5) [OF sh])
qed simp

text \<open>The top frame passes one edge.\<close>

lemma frames_advance:
  assumes fr: "frames g0 g col None ((u, i) # st)" and i: "i < length (outs g u)"
    and e: "enabled g (outs g u ! i) \<Longrightarrow> col ! target_of g (outs g u ! i) = Black \<or>
      child = Some (target_of g (outs g u ! i))"
    and c: "\<And>v. child = Some v \<Longrightarrow> (u, v) \<in> edge_rel g0"
  shows "frames g0 g col child ((u, Suc i) # st)"
  using fr e c i by (auto simp: take_Suc_conv_app_nth)

lemma frames_gray: "frames g0 g col child st \<Longrightarrow> n \<in> fst ` set st \<Longrightarrow> col ! n = Gray \<and> isNodeValid g n"
proof (induction st arbitrary: child)
  case (Cons f st)
  then show ?case using Cons.IH [of "Some (fst f)"] by (cases f) auto
qed simp

lemma frames_path:
  "frames g0 g col child ((u, i) # st) \<Longrightarrow> v \<in> fst ` set ((u, i) # st) \<Longrightarrow> (v, u) \<in> (edge_rel g0)\<^sup>*"
proof (induction st arbitrary: child u i)
  case (Cons f st)
  obtain w j where f: "f = (w, j)" by (cases f)
  show ?case
  proof (cases "v = u")
    case False
    then have "(v, w) \<in> (edge_rel g0)\<^sup>*" using Cons.prems by (intro Cons.IH [of "Some u" w j]) (auto simp: f)
    moreover have "(w, u) \<in> edge_rel g0" using Cons.prems(1) by (simp add: f)
    ultimately show ?thesis by simp
  qed simp
qed simp

lemma acyclic_source:
  assumes R: "acyclic R" and u: "\<And>x. (x, u) \<notin> R" "\<And>x. (x, u) \<notin> N" and N: "\<And>x y. (x, y) \<in> N \<Longrightarrow> x = u"
  shows "acyclic (R \<union> N)"
proof -
  have "y \<noteq> u \<and> (x \<noteq> u \<longrightarrow> (x, y) \<in> R\<^sup>+)" if "(x, y) \<in> (R \<union> N)\<^sup>+" for x y
    using that
  proof induction
    case (base y)
    then show ?case using u N by blast
  next
    case (step y z)
    then have "(y, z) \<in> R" using N by blast
    then show ?case using step u by (meson UnE trancl.trancl_into_trancl)
  qed
  then show ?thesis using R unfolding acyclic_def by blast
qed

section \<open>The invariant of the search\<close>

definition only_disables :: "TGraph \<Rightarrow> TGraph \<Rightarrow> bool" where
  "only_disables g0 g \<longleftrightarrow> same_shape g0 g \<and> (\<forall>e. isEdgeValid g0 e \<longrightarrow>
     g_edges g ! e = g_edges g0 ! e \<or> g_edges g ! e = (g_edges g0 ! e)\<lparr>te_disabled := True\<rparr>)"

definition newly_disabled :: "TGraph \<Rightarrow> TGraph \<Rightarrow> nat set" where
  "newly_disabled g0 g = {e. enabled g0 e \<and> \<not> enabled g e}"

definition black_rel :: "TGraph \<Rightarrow> Color list \<Rightarrow> (nat \<times> nat) set" where
  "black_rel g col = {(u, v) \<in> edge_rel g. col ! u = Black}"

definition search_inv :: "TGraph \<Rightarrow> search \<Rightarrow> bool" where
  "search_inv g0 d \<longleftrightarrow> (let g = sr_graph d; col = sr_color d in
     graph_inv g0 \<and> only_disables g0 g \<and> length col = length (g_nodes g0) \<and>
     (\<forall>n<length col. col ! n = Gray \<longrightarrow> n \<in> fst ` set (sr_stack d)) \<and>
     frames g0 g col None (sr_stack d) \<and>
     (\<forall>u v. (u, v) \<in> black_rel g col \<longrightarrow> col ! v = Black) \<and> acyclic (black_rel g col) \<and>
     (\<forall>e\<in>newly_disabled g0 g. (target_of g0 e, source_of g0 e) \<in> (edge_rel g0)\<^sup>*) \<and>
     sr_disabled d = card (newly_disabled g0 g))"

lemma only_disables_shape: "only_disables g0 g \<Longrightarrow> same_shape g0 g"
  by (simp add: only_disables_def)

lemma only_disables_enabled: "only_disables g0 g \<Longrightarrow> enabled g e \<Longrightarrow> enabled g0 e"
  using same_shape_sel(6) [of g0 g] unfolding only_disables_def enabled_def by force

lemma only_disables_rel: "only_disables g0 g \<Longrightarrow> edge_rel g \<subseteq> edge_rel g0"
  using only_disables_enabled [of g0 g] same_shape_sel(8,9) [of g0 g]
  by (fastforce simp: edge_rel_def only_disables_def enabled_def)

lemma finite_newly_disabled: "finite (newly_disabled g0 g)"
  by (rule finite_subset [OF _ finite_enabled [of g0]]) (auto simp: newly_disabled_def)

lemma only_disables_step:
  assumes o: "only_disables g0 g" and e: "enabled g e"
  shows "only_disables g0 (setDisabled e g)" "newly_disabled g0 (setDisabled e g) = insert e (newly_disabled g0 g)"
    "e \<notin> newly_disabled g0 g" "edge_rel (setDisabled e g) \<subseteq> edge_rel g"
proof -
  have v: "isEdgeValid g e" using e by (simp add: enabled_def)
  note sh = setDisabled_shape [OF v] and sh0 = only_disables_shape [OF o]
  have "g_edges (setDisabled e g) ! x = g_edges g0 ! x \<or> g_edges (setDisabled e g) ! x = (g_edges g0 ! x)\<lparr>te_disabled := True\<rparr>"
    if "isEdgeValid g0 x" for x
    using o that by (auto simp: only_disables_def setDisabled_edge [OF v])
  then show "only_disables g0 (setDisabled e g)"
    using same_shape_trans [OF sh0 sh] by (simp add: only_disables_def)
  show "newly_disabled g0 (setDisabled e g) = insert e (newly_disabled g0 g)"
    using only_disables_enabled [OF o e] by (auto simp: newly_disabled_def enabled_setDisabled [OF v])
  show "e \<notin> newly_disabled g0 g" using e by (simp add: newly_disabled_def)
  show "edge_rel (setDisabled e g) \<subseteq> edge_rel g"
    by (auto simp: edge_rel_def enabled_setDisabled [OF v] setDisabled_edge [OF v])
qed

lemma search_invD:
  assumes "search_inv g0 d"
  shows "graph_inv g0" "only_disables g0 (sr_graph d)" "graph_inv (sr_graph d)" "length (sr_color d) = length (g_nodes g0)"
    "\<And>n. n < length (g_nodes g0) \<Longrightarrow> sr_color d ! n = Gray \<Longrightarrow> n \<in> fst ` set (sr_stack d)"
    "frames g0 (sr_graph d) (sr_color d) None (sr_stack d)"
    "\<And>u v. (u, v) \<in> edge_rel (sr_graph d) \<Longrightarrow> sr_color d ! u = Black \<Longrightarrow> sr_color d ! v = Black"
    "acyclic (black_rel (sr_graph d) (sr_color d))"
    "\<And>e. e \<in> newly_disabled g0 (sr_graph d) \<Longrightarrow> (target_of g0 e, source_of g0 e) \<in> (edge_rel g0)\<^sup>*"
    "sr_disabled d = card (newly_disabled g0 (sr_graph d))"
  using assms same_shape_inv [of g0 "sr_graph d"]
  by (auto simp: search_inv_def Let_def black_rel_def only_disables_def)

lemma out_edge_rel:
  "graph_inv g \<Longrightarrow> isNodeValid g u \<Longrightarrow> enabled g e \<Longrightarrow> e \<in> set (outs g u) \<Longrightarrow> (u, target_of g e) \<in> edge_rel g"
  using out_edges(2) [of g u e] by (auto simp: edge_rel_def)

lemma rel_out_edge:
  assumes "graph_inv g" "(u, v) \<in> edge_rel g"
  obtains e where "isNodeValid g u" "isNodeValid g v" "e \<in> set (outs g u)" "enabled g e" "source_of g e = u" "target_of g e = v"
proof -
  obtain e where e: "enabled g e" "source_of g e = u" "target_of g e = v" using assms(2) by (auto simp: edge_rel_def)
  then have "isEdgeValid g e" by (simp add: enabled_def)
  then show thesis using that e edge_ends [OF assms(1), of e] out_edges(2) [OF assms(1), of u e] by auto
qed

text \<open>The top frame has no edge left: its node turns black.\<close>

lemma search_inv_pop:
  assumes inv: "search_inv g0 d" and st: "sr_stack d = (u, i) # rest" and i: "length (outs (sr_graph d) u) \<le> i"
  shows "search_inv g0 (d\<lparr>sr_color := (sr_color d)[u := Black], sr_stack := rest\<rparr>)"
proof -
  note I = search_invD [OF inv]
  define g col col' where "g = sr_graph d" and "col = sr_color d" and "col' = (sr_color d)[u := Black]"
  have fr: "isNodeValid g u" "col ! u = Gray" "u \<notin> fst ` set rest" "frames g0 g col (Some u) rest"
    "\<And>e. e \<in> set (outs g u) \<Longrightarrow> enabled g e \<Longrightarrow> col ! target_of g e = Black"
    using I(6) st i by (auto simp: g_def col_def)
  have u: "u < length col" using fr(1) I(4) same_shape_sel(1) [OF only_disables_shape [OF I(2)]] by (simp add: g_def col_def isNodeValid_def)
  have nth: "col' ! n = (if n = u then Black else col ! n)" for n using u by (simp add: col'_def col_def nth_list_update)
  have gray: "col' ! n = Gray" if "n \<in> fst ` set rest" for n
    using frames_gray [OF fr(4) that] fr(3) that nth by auto
  have "frames g0 g col' None rest"
    by (rule frames_mono [OF same_shape_refl _ _ fr(4) gray]) (use nth fr(2) in auto)
  moreover have out: "col ! v = Black" if "(u, v) \<in> edge_rel g" for v
    using rel_out_edge [OF I(3) [folded g_def] that] fr(5) by metis
  then have closed: "col' ! v = Black" if "(x, v) \<in> edge_rel g" "col' ! x = Black" for x v
    using that I(7) [folded g_def col_def, of x v] by (auto simp: nth split: if_splits)
  moreover have "acyclic (black_rel g col')"
  proof -
    have eq: "black_rel g col' = black_rel g col \<union> {(x, v) \<in> edge_rel g. x = u}"
      using fr(2) by (auto simp: black_rel_def nth split: if_splits)
    show ?thesis unfolding eq
      by (rule acyclic_source [OF I(8) [folded g_def col_def], of u])
        (use fr(2) out I(7) [folded g_def col_def] in \<open>auto simp: black_rel_def\<close>)
  qed
  moreover have "n \<in> fst ` set rest" if "n < length (g_nodes g0)" "col' ! n = Gray" for n
    using I(5) [OF that(1)] that(2) st by (auto simp: nth col_def split: if_splits)
  ultimately show ?thesis
    using I(1,2,4,9,10) by (auto simp: search_inv_def Let_def g_def col'_def black_rel_def)
qed

text \<open>The top frame passes an edge that leads nowhere new.\<close>

lemma search_inv_skip:
  assumes inv: "search_inv g0 d" and st: "sr_stack d = (u, i) # rest" and i: "i < length (outs (sr_graph d) u)"
    and e: "enabled (sr_graph d) (outs (sr_graph d) u ! i) \<Longrightarrow> sr_color d ! target_of (sr_graph d) (outs (sr_graph d) u ! i) = Black"
  shows "search_inv g0 (d\<lparr>sr_stack := (u, Suc i) # rest\<rparr>)"
proof -
  note I = search_invD [OF inv]
  have "frames g0 (sr_graph d) (sr_color d) None ((u, Suc i) # rest)"
    by (rule frames_advance [OF I(6) [unfolded st] i]) (use e in auto)
  then show ?thesis using inv st by (auto simp: search_inv_def Let_def)
qed

text \<open>The edge of the top frame leads to a white node, which is pushed.\<close>

lemma search_inv_push:
  assumes inv: "search_inv g0 d" and st: "sr_stack d = (u, i) # rest" and i: "i < length (outs (sr_graph d) u)"
    and e: "enabled (sr_graph d) (outs (sr_graph d) u ! i)" and v: "v = target_of (sr_graph d) (outs (sr_graph d) u ! i)"
    and white: "sr_color d ! v = White"
  shows "search_inv g0 (d\<lparr>sr_color := (sr_color d)[v := Gray], sr_stack := (v, 0) # (u, Suc i) # rest\<rparr>)"
proof -
  note I = search_invD [OF inv]
  define g col col' where "g = sr_graph d" and "col = sr_color d" and "col' = (sr_color d)[v := Gray]"
  have fr: "frames g0 g col None ((u, i) # rest)" using I(6) st by (simp add: g_def col_def)
  have uv: "(u, v) \<in> edge_rel g"
    unfolding v g_def using fr i e by (intro out_edge_rel [OF I(3)]) (auto simp: g_def)
  have valid: "isNodeValid g v" using rel_out_edge [OF I(3) [folded g_def] uv] by metis
  then have len: "v < length col" using I(4) same_shape_sel(1) [OF only_disables_shape [OF I(2)]] by (simp add: isNodeValid_def g_def col_def)
  have nth: "col' ! n = (if n = v then Gray else col ! n)" for n using len by (simp add: col'_def col_def nth_list_update)
  have new: "v \<notin> fst ` set ((u, i) # rest)" using frames_gray [OF fr, of v] white unfolding col_def by (metis Color.distinct(1))
  have adv: "frames g0 g col (Some v) ((u, Suc i) # rest)"
    by (rule frames_advance [OF fr]) (use i v uv only_disables_rel [OF I(2)] in \<open>auto simp: g_def\<close>)
  have "frames g0 g col' (Some v) ((u, Suc i) # rest)"
    by (rule frames_mono [OF same_shape_refl _ _ adv]) (use nth white frames_gray [OF adv] new in \<open>auto simp: col_def\<close>)
  then have "frames g0 g col' None ((v, 0) # (u, Suc i) # rest)"
    using valid new nth by simp
  moreover have "black_rel g col' = black_rel g col"
    using white by (auto simp: black_rel_def nth col_def split: if_splits)
  moreover have "n \<in> fst ` set ((v, 0) # (u, Suc i) # rest)" if "n < length (g_nodes g0)" "col' ! n = Gray" for n
    using I(5) [OF that(1)] that(2) st by (auto simp: nth col_def split: if_splits)
  moreover have "col' ! y = Black" if "(x, y) \<in> black_rel g col" for x y
    using I(7) [of x y] that white by (auto simp: black_rel_def nth g_def col_def)
  ultimately show ?thesis
    using I(1,2,4,8-10) by (simp add: search_inv_def Let_def g_def col'_def col_def)
qed

text \<open>The edge of the top frame leads back to the stack and is disabled.\<close>

lemma search_inv_disable:
  assumes inv: "search_inv g0 d" and st: "sr_stack d = (u, i) # rest" and i: "i < length (outs (sr_graph d) u)"
    and e: "e = outs (sr_graph d) u ! i" "enabled (sr_graph d) e" and gray: "sr_color d ! target_of (sr_graph d) e = Gray"
  shows "search_inv g0 (d\<lparr>sr_stack := (u, Suc i) # rest, sr_graph := setDisabled e (sr_graph d), sr_disabled := sr_disabled d + 1\<rparr>)"
proof -
  note I = search_invD [OF inv]
  define g g' col where "g = sr_graph d" and "g' = setDisabled e (sr_graph d)" and "col = sr_color d"
  have ev: "isEdgeValid g e" using e by (simp add: enabled_def g_def)
  note sh = setDisabled_shape [OF ev] and step = only_disables_step [OF I(2) e(2), folded g_def, folded g_def]
  have fr: "frames g0 g col None ((u, i) # rest)" using I(6) st by (simp add: g_def col_def)
  have "frames g0 g' col None ((u, i) # rest)"
    by (rule frames_mono [OF _ _ _ fr]) (use sh frames_gray [OF fr] in \<open>auto simp: g'_def g_def enabled_setDisabled [OF ev, unfolded g_def]\<close>)
  then have "frames g0 g' col None ((u, Suc i) # rest)"
    by (rule frames_advance) (use i e ev in \<open>auto simp: g'_def g_def enabled_setDisabled\<close>)
  moreover have sub: "black_rel g' col \<subseteq> black_rel g col" using step(4) by (auto simp: black_rel_def g'_def g_def)
  moreover have "(target_of g0 x, source_of g0 x) \<in> (edge_rel g0)\<^sup>*" if "x \<in> newly_disabled g0 g'" for x
  proof (cases "x = e")
    case True
    have "isNodeValid g (target_of g e)" using edge_ends(2) [OF I(3)] ev by (simp add: g_def)
    then have "target_of g e < length (g_nodes g0)" using same_shape_sel(1) [OF only_disables_shape [OF I(2)]] by (simp add: isNodeValid_def g_def)
    then have "target_of g e \<in> fst ` set ((u, i) # rest)" using I(5) gray st by (simp add: g_def)
    then have "(target_of g e, u) \<in> (edge_rel g0)\<^sup>*" by (rule frames_path [OF fr])
    moreover have "source_of g e = u" using out_edges(2) [OF I(3), of u e] fr i e by (auto simp: g_def)
    moreover have "source_of g0 e = source_of g e" "target_of g0 e = target_of g e"
      using same_shape_sel(6,8,9) [OF only_disables_shape [OF I(2)]] ev by (simp_all add: g_def)
    ultimately show ?thesis using True by simp
  next
    case False
    then show ?thesis using that step(2) I(9) by (auto simp: g_def g'_def)
  qed
  moreover have "sr_disabled d + 1 = card (newly_disabled g0 g')"
    using I(10) step(2,3) finite_newly_disabled by (simp add: g_def g'_def)
  moreover have "only_disables g0 g'" using step(1) by (simp add: g'_def g_def)
  moreover have "acyclic (black_rel g' col)" using acyclic_subset [OF I(8)] sub by (simp add: g_def col_def)
  moreover have "col ! y = Black" if "(x, y) \<in> black_rel g' col" for x y
    using that sub I(7) by (auto simp: black_rel_def g_def col_def)
  ultimately show ?thesis
    using I(1,4,5) st unfolding g'_def col_def by (auto simp: search_inv_def Let_def)
qed

section \<open>The search\<close>

lemma visit_top_inv:
  assumes inv: "search_inv g0 d" and st: "sr_stack d = (u, i) # rest"
  shows "\<exists>d'. visit_top u i rest d = Inr d' \<and> search_inv g0 d' \<and> (\<forall>n. sr_color d ! n \<noteq> White \<longrightarrow> sr_color d' ! n \<noteq> White)"
proof -
  note I = search_invD [OF inv]
  let ?g = "sr_graph d" and ?e = "outs (sr_graph d) u ! i"
  have u: "isNodeValid ?g u" using I(6) st by simp
  have len: "isNodeValid ?g n \<Longrightarrow> n < length (sr_color d)" for n
    using I(4) same_shape_sel(1) [OF only_disables_shape [OF I(2)]] by (simp add: isNodeValid_def)
  note upd = nth_list_update_neq nth_list_update_eq
  show ?thesis
  proof (cases "length (outs ?g u) \<le> i")
    case True
    then show ?thesis
      using search_inv_pop [OF inv st True] u len [OF u]
      by (auto simp: visit_top_def node_at_def nth_list_update)
  next
    case False
    then have i: "i < length (outs ?g u)" by simp
    then have valid: "isEdgeValid ?g ?e" using out_edges(2) [OF I(3) u, of ?e] by auto
    then have t: "target_of ?g ?e < length (sr_color d)" using len edge_ends(2) [OF I(3)] by blast
    have v: "visit_top u i rest d = (if te_disabled (g_edges ?g ! ?e) then Inr (d\<lparr>sr_stack := (u, Suc i) # rest\<rparr>)
        else visit_edge ?e (g_edges ?g ! ?e) (d\<lparr>sr_stack := (u, Suc i) # rest\<rparr>))"
      using u valid False by (simp add: visit_top_def node_at_def edge_at_def Let_def)
    show ?thesis
    proof (cases "te_disabled (g_edges ?g ! ?e)")
      case True
      then show ?thesis using v search_inv_skip [OF inv st i] by (simp add: enabled_def)
    next
      case False
      then have en: "enabled ?g ?e" using valid by (simp add: enabled_def)
      show ?thesis
      proof (cases "sr_color d ! target_of ?g ?e")
        case White
        then show ?thesis using v False t search_inv_push [OF inv st i en refl White]
          by (auto simp: visit_edge_def nth_list_update)
      next
        case Gray
        then show ?thesis using v False t search_inv_disable [OF inv st i refl en Gray]
          by (auto simp: visit_edge_def)
      next
        case Black
        then show ?thesis using v False t search_inv_skip [OF inv st i] by (simp add: visit_edge_def)
      qed
    qed
  qed
qed

lemma search_loop_inv:
  "search_inv g0 d \<Longrightarrow> \<exists>d'. search_loop d = Inr d' \<and> search_inv g0 d' \<and> sr_stack d' = [] \<and>
     (\<forall>n. sr_color d ! n \<noteq> White \<longrightarrow> sr_color d' ! n \<noteq> White)"
proof (induction d rule: search_loop.induct)
  case (1 d)
  show ?case
  proof (cases "sr_stack d")
    case Nil
    then show ?thesis using 1(2) by (simp add: search_loop.simps)
  next
    case (Cons f rest)
    obtain u i where f: "f = (u, i)" by (cases f)
    obtain d1 where d1: "visit_top u i rest d = Inr d1" "search_inv g0 d1" "\<forall>n. sr_color d ! n \<noteq> White \<longrightarrow> sr_color d1 ! n \<noteq> White"
      using visit_top_inv [OF 1(2)] Cons f by blast
    then show ?thesis
      using 1(1) [OF Cons f [symmetric] d1(1) d1(2)] Cons f by (subst search_loop.simps) auto
  qed
qed

lemma start_search_inv:
  assumes inv: "search_inv g0 d" "sr_stack d = []" and s: "start < length (g_nodes g0)"
  shows "\<exists>d'. start_search start d = Inr d' \<and> search_inv g0 d' \<and> sr_stack d' = [] \<and>
     (\<forall>n. sr_color d ! n \<noteq> White \<longrightarrow> sr_color d' ! n \<noteq> White) \<and> (isNodeValid g0 start \<longrightarrow> sr_color d' ! start \<noteq> White)"
proof -
  note I = search_invD [OF inv(1)]
  have valid: "isNodeValid (sr_graph d) = isNodeValid g0" using same_shape_sel(5) [OF only_disables_shape [OF I(2)]] .
  show ?thesis
  proof (cases "isNodeValid g0 start \<and> sr_color d ! start = White")
    case False
    then show ?thesis using inv s I(4) by (auto simp: start_search_def valid)
  next
    case True
    define g col col' where "g = sr_graph d" and "col = sr_color d" and "col' = (sr_color d)[start := Gray]"
    let ?d = "d\<lparr>sr_color := col', sr_stack := [(start, 0)]\<rparr>"
    have nth: "col' ! n = (if n = start then Gray else col ! n)" for n
      using s I(4) by (cases "n = start") (simp_all add: col'_def col_def)
    have white: "col ! start = White" using True by (simp add: col_def)
    have black: "col' ! n = Black \<longleftrightarrow> col ! n = Black" for n using white by (simp add: nth)
    have "black_rel g col' = black_rel g col" by (simp add: black_rel_def black)
    moreover have "col' ! y = Black" if "(x, y) \<in> black_rel g col" for x y
      using that I(7) [of x y] by (simp add: black_rel_def black g_def col_def)
    moreover have "n = start" if "n < length (g_nodes g0)" "col' ! n = Gray" for n
      using that(2) I(5) [OF that(1)] inv(2) by (cases "n = start") (simp_all add: nth col_def)
    moreover have "frames g0 g col' None [(start, 0)]" using True nth valid by (simp add: g_def)
    ultimately have "search_inv g0 ?d"
      using I(1,2,4,8-10) by (simp add: search_inv_def Let_def g_def col_def col'_def)
    then obtain d' where d': "search_loop ?d = Inr d'" "search_inv g0 d'" "sr_stack d' = []"
      "\<And>n. col' ! n \<noteq> White \<Longrightarrow> sr_color d' ! n \<noteq> White"
      using search_loop_inv [of g0 ?d] by auto
    have "start_search start d = Inr d'" using True s I(4) inv(2) d'(1) by (simp add: start_search_def valid col'_def)
    moreover have "sr_color d' ! n \<noteq> White" if "sr_color d ! n \<noteq> White \<or> n = start" for n
      by (rule d'(4)) (use that in \<open>auto simp: nth col_def\<close>)
    ultimately show ?thesis using d'(2,3) by blast
  qed
qed

lemma all_searches_inv:
  "search_inv g0 d \<Longrightarrow> sr_stack d = [] \<Longrightarrow> \<forall>x\<in>set xs. x < length (g_nodes g0) \<Longrightarrow>
   \<exists>d'. rfold start_search xs d = Inr d' \<and> search_inv g0 d' \<and> sr_stack d' = [] \<and>
     (\<forall>n. sr_color d ! n \<noteq> White \<longrightarrow> sr_color d' ! n \<noteq> White) \<and>
     (\<forall>n\<in>set xs. isNodeValid g0 n \<longrightarrow> sr_color d' ! n \<noteq> White)"
proof (induction xs arbitrary: d)
  case (Cons x xs)
  obtain d1 where d1: "start_search x d = Inr d1" "search_inv g0 d1" "sr_stack d1 = []"
    "\<forall>n. sr_color d ! n \<noteq> White \<longrightarrow> sr_color d1 ! n \<noteq> White" "isNodeValid g0 x \<longrightarrow> sr_color d1 ! x \<noteq> White"
    using start_search_inv [OF Cons.prems(1,2), of x] Cons.prems(3) by auto
  obtain d2 where "rfold start_search xs d1 = Inr d2" "search_inv g0 d2" "sr_stack d2 = []"
    "\<forall>n. sr_color d1 ! n \<noteq> White \<longrightarrow> sr_color d2 ! n \<noteq> White" "\<forall>n\<in>set xs. isNodeValid g0 n \<longrightarrow> sr_color d2 ! n \<noteq> White"
    using Cons.IH [OF d1(2,3)] Cons.prems(3) by auto
  with d1 show ?case by auto
qed simp

lemma loop_breaker_spec:
  assumes inv: "graph_inv g"
  obtains k g' where "TLoopBreaker_run g = Inr (k, g')" "graph_inv g'" "only_disables g g'" "acyclic (edge_rel g')"
    "k = card (newly_disabled g g')"
    "\<And>e. e \<in> newly_disabled g g' \<Longrightarrow> (target_of g e, source_of g e) \<in> (edge_rel g)\<^sup>*"
proof -
  let ?n = "length (g_nodes g)"
  let ?d = "\<lparr>sr_graph = g, sr_color = replicate ?n White, sr_stack = [], sr_disabled = 0\<rparr>"
  have "replicate ?n White ! u \<noteq> Black" if "(u, v) \<in> edge_rel g" for u v
    by (rule rel_out_edge [OF inv that]) (simp add: isNodeValid_def)
  then have none: "black_rel g (replicate ?n White) = {}" unfolding black_rel_def by blast
  have "newly_disabled g g = {}" by (auto simp: newly_disabled_def)
  then have "search_inv g ?d" using inv none by (simp add: search_inv_def only_disables_def acyclic_def)
  then obtain d where d: "rfold start_search [0..<?n] ?d = Inr d" "search_inv g d" "sr_stack d = []"
    "\<forall>n\<in>set [0..<?n]. isNodeValid g n \<longrightarrow> sr_color d ! n \<noteq> White"
    using all_searches_inv [of g ?d "[0..<?n]"] by auto
  note I = search_invD [OF d(2)]
  note sel = same_shape_sel [OF only_disables_shape [OF I(2)]]
  have "sr_color d ! n = Black" if "isNodeValid g n" for n
    using d(3,4) I(5) [of n] that by (cases "sr_color d ! n") (auto simp: isNodeValid_def)
  then have "edge_rel (sr_graph d) \<subseteq> black_rel (sr_graph d) (sr_color d)"
    using rel_out_edge [OF I(3)] unfolding sel black_rel_def by blast
  then have "acyclic (edge_rel (sr_graph d))" using acyclic_subset I(8) by blast
  then show thesis
    using that [of "sr_disabled d" "sr_graph d"] d(1) I(2,3,9,10) by (simp add: TLoopBreaker_run_def Let_def)
qed

end
