(* ===== verification/TimingClock.thy ===== *)
theory TimingClock
  imports TimingLoopProof
begin

text \<open>
  \<^verbatim>\<open>src/tgraph/TClockPropagator.cpp\<close>: the launch and capture clocks of every edge.  The forward pass is
  Kahn's algorithm; its queue grows while it is read, so its loop is run with fuel, and one more step than there
  are live nodes is enough.  The in-degrees are \<open>size_t\<close> and \<open>--inDegree[m]\<close> wraps around at zero.
\<close>

section \<open>Vectors of masks\<close>

definition mask_or :: "ClockMask \<Rightarrow> ClockMask \<Rightarrow> ClockMask result" where
  "mask_or a b = (if length a = length b then Inr (map2 (\<or>) a b) else Inl (UndefinedBehaviour ''dynamic_bitset size''))"

text \<open>\<open>v[i].set(c)\<close> and \<open>v[i] |= m\<close>.\<close>

definition set_at :: "nat \<Rightarrow> nat \<Rightarrow> ClockMask list \<Rightarrow> ClockMask list result" where
  "set_at i c v = rbind (vec_at v i) (\<lambda>x. if c < length x then Inr (v[i := x[c := True]])
     else Inl (UndefinedBehaviour ''dynamic_bitset index''))"

definition or_at :: "nat \<Rightarrow> ClockMask \<Rightarrow> ClockMask list \<Rightarrow> ClockMask list result" where
  "or_at i m v = rbind (vec_at v i) (\<lambda>x. rbind (mask_or x m) (\<lambda>y. Inr (v[i := y])))"

definition no_masks :: "TGraph \<Rightarrow> ClockMask list" where
  "no_masks g = replicate (length (g_nodes g)) (replicate (length (g_clocks g)) False)"

text \<open>The loop over the clocks that both passes start with.\<close>

definition seed_masks :: "TGraph \<Rightarrow> ClockMask list result" where
  "seed_masks g = rfold (\<lambda>c. set_at (ck_node (g_clocks g ! c)) c) [0..<length (g_clocks g)] (no_masks g)"

section \<open>Forward\<close>

record kahn =
  kh_resolved :: "ClockMask list"
  kh_inDegree :: "nat list"
  kh_queue :: "nat list"

definition in_degrees :: "TGraph \<Rightarrow> nat list" where
  "in_degrees g = map (\<lambda>n. if isNodeValid g n then length (filter (enabled g) (tn_in (g_nodes g ! n))) else 0)
     [0..<length (g_nodes g)]"

definition first_queue :: "TGraph \<Rightarrow> nat list" where
  "first_queue g = filter (\<lambda>n. isNodeValid g n \<and> in_degrees g ! n = 0) [0..<length (g_nodes g)]"

definition decrement :: "nat \<Rightarrow> nat" where
  "decrement d = (if d = 0 then 2 ^ 64 - 1 else d - 1)"

definition relax :: "TGraph \<Rightarrow> nat \<Rightarrow> nat \<Rightarrow> kahn \<Rightarrow> kahn result" where
  "relax g n e s =
     (if \<not> enabled g e then Inr s
      else let m = te_target (g_edges g ! e) in
        rbind (vec_at (kh_resolved s) n) (\<lambda>x. rbind (or_at m x (kh_resolved s)) (\<lambda>res.
        rbind (vec_at (kh_inDegree s) m) (\<lambda>d.
          Inr \<lparr>kh_resolved = res, kh_inDegree = (kh_inDegree s)[m := decrement d],
            kh_queue = (if decrement d = 0 then kh_queue s @ [m] else kh_queue s)\<rparr>))))"

definition kahn_node :: "TGraph \<Rightarrow> nat \<Rightarrow> kahn \<Rightarrow> kahn result" where
  "kahn_node g n s = (case node_at g n of
     None \<Rightarrow> Inl (UndefinedBehaviour ''null dereference'')
   | Some x \<Rightarrow> rfold (relax g n) (tn_out x) s)"

fun kahn_loop :: "nat \<Rightarrow> TGraph \<Rightarrow> nat \<Rightarrow> kahn \<Rightarrow> kahn result option" where
  "kahn_loop 0 g qi s = None"
| "kahn_loop (Suc fuel) g qi s =
     (if qi < length (kh_queue s) then
        (case kahn_node g (kh_queue s ! qi) s of Inl err \<Rightarrow> Some (Inl err) | Inr s \<Rightarrow> kahn_loop fuel g (Suc qi) s)
      else Some (Inr s))"

definition setFromClocks :: "ClockMask \<Rightarrow> nat \<Rightarrow> TGraph \<Rightarrow> TGraph" where
  "setFromClocks m e g = g\<lparr>g_edges := (g_edges g)[e := (g_edges g ! e)\<lparr>te_from := m\<rparr>]\<rparr>"

definition setToClocks :: "ClockMask \<Rightarrow> nat \<Rightarrow> TGraph \<Rightarrow> TGraph" where
  "setToClocks m e g = g\<lparr>g_edges := (g_edges g)[e := (g_edges g ! e)\<lparr>te_to := m\<rparr>]\<rparr>"

text \<open>The last loop of the forward pass, for one node.\<close>

definition launch_node :: "ClockMask list \<Rightarrow> nat \<Rightarrow> TGraph \<Rightarrow> TGraph" where
  "launch_node res n g = (if \<not> isNodeValid g n then g
     else fold (\<lambda>e g. if enabled g e then setFromClocks (res ! n) e g else g) (tn_out (g_nodes g ! n)) g)"

definition propagateForward :: "nat \<Rightarrow> TGraph \<Rightarrow> (nat list \<times> TGraph) result option" where
  "propagateForward fuel g = (case seed_masks g of
     Inl err \<Rightarrow> Some (Inl err)
   | Inr seeds \<Rightarrow>
       map_option (\<lambda>r. rbind r (\<lambda>s.
         if length (kh_queue s) \<noteq> g_liveNodes g then
           Inl (Raise ''std::logic_error'' ''TClockPropagator::propagateForward: cycle among enabled edges - run TLoopBreaker first'')
         else Inr (kh_queue s, fold (launch_node (kh_resolved s)) [0..<length (g_nodes g)] g)))
       (kahn_loop fuel g 0 \<lparr>kh_resolved = seeds, kh_inDegree = in_degrees g, kh_queue = first_queue g\<rparr>))"

section \<open>Backward\<close>

definition capture_edge :: "TGraph \<Rightarrow> ClockMask list \<Rightarrow> TCaptureEdge \<Rightarrow> ClockMask list \<Rightarrow> ClockMask list result" where
  "capture_edge g seeds k v =
     (if \<not> tc_alive k then Inr v
      else rbind (vec_at seeds (tc_source k)) (\<lambda>atClock. case node_at g (tc_source k) of
        None \<Rightarrow> Inl (UndefinedBehaviour ''null dereference'')
      | Some x \<Rightarrow>
          rbind (rfold (\<lambda>e m. if enabled g e then mask_or m (te_from (g_edges g ! e)) else Inr m) (tn_in x) atClock)
            (\<lambda>atClock. or_at (tc_target k) atClock v)))"

definition capture_in :: "nat \<Rightarrow> nat \<Rightarrow> TGraph \<times> ClockMask list \<Rightarrow> (TGraph \<times> ClockMask list) result" where
  "capture_in n e = (\<lambda>(g, v).
     if enabled g e then
       rbind (vec_at v n) (\<lambda>m. let g = setToClocks m e g in
         rbind (or_at (te_source (g_edges g ! e)) m v) (\<lambda>v. Inr (g, v)))
     else Inr (g, v))"

definition capture_node :: "nat \<Rightarrow> TGraph \<times> ClockMask list \<Rightarrow> (TGraph \<times> ClockMask list) result" where
  "capture_node n s = (case node_at (fst s) n of
     None \<Rightarrow> Inl (UndefinedBehaviour ''null dereference'')
   | Some x \<Rightarrow> if isFlopDataOutput x then Inr s else rfold (capture_in n) (tn_in x) s)"

definition propagateBackward :: "nat list \<Rightarrow> TGraph \<Rightarrow> TGraph result" where
  "propagateBackward order g =
     rbind (seed_masks g) (\<lambda>seeds.
     rbind (rfold (capture_edge g seeds) (g_captures g) (no_masks g)) (\<lambda>capture.
     rbind (rfold capture_node (rev order) (g, capture)) (\<lambda>(g, _). Inr g)))"

section \<open>The pass\<close>

definition clear_masks :: "TGraph \<Rightarrow> TGraph" where
  "clear_masks g = g\<lparr>g_edges := map (\<lambda>e. if te_alive e
     then e\<lparr>te_from := replicate (length (g_clocks g)) False, te_to := replicate (length (g_clocks g)) False\<rparr>
     else e) (g_edges g)\<rparr>"

text \<open>The outcome and the graph that is left, also when the pass throws.\<close>

definition TClockPropagator_run :: "nat \<Rightarrow> TGraph \<Rightarrow> (unit result \<times> TGraph) option" where
  "TClockPropagator_run fuel g0 = (let g = clear_masks g0 in
     if \<exists>x\<in>set (g_nodes g). tn_alive x \<and> isLatch x then
       Some (Inl (Raise ''std::logic_error'' ''TClockPropagator::run: latch analysis is unsupported''), g)
     else if \<exists>c\<in>set (g_clocks g). \<not> isNodeValid g (ck_node c) then
       Some (Inl (Raise ''std::logic_error'' ''TClockPropagator::run: clock seed node was removed''), g)
     else (case TLoopBreaker_run g of
       Inl err \<Rightarrow> Some (Inl err, g)
     | Inr (_, g) \<Rightarrow> (case propagateForward fuel g of
         None \<Rightarrow> None
       | Some (Inl err) \<Rightarrow> Some (Inl err, g)
       | Some (Inr (order, g)) \<Rightarrow> (case propagateBackward order g of
           Inl err \<Rightarrow> Some (Inl err, g)
         | Inr g \<Rightarrow> Some (Inr (), g)))))"

section \<open>Mask lemmas\<close>

definition masks_ok :: "TGraph \<Rightarrow> ClockMask list \<Rightarrow> bool" where
  "masks_ok g v \<longleftrightarrow> length v = length (g_nodes g) \<and> (\<forall>i<length v. length (v ! i) = length (g_clocks g))"

lemma no_masks_ok: "masks_ok g (no_masks g)"
  by (simp add: masks_ok_def no_masks_def)

lemma set_at_ok:
  assumes "masks_ok g v" "i < length (g_nodes g)" "c < length (g_clocks g)"
  obtains v' where "set_at i c v = Inr v'" "masks_ok g v'"
    "\<And>n d. v' ! n ! d \<longleftrightarrow> v ! n ! d \<or> n = i \<and> d = c"
proof -
  have "v[i := (v ! i)[c := True]] ! n ! d \<longleftrightarrow> v ! n ! d \<or> n = i \<and> d = c" for n d
    using assms by (cases "n = i"; cases "d = c") (auto simp: masks_ok_def)
  moreover have "masks_ok g (v[i := (v ! i)[c := True]])"
    using assms by (auto simp: masks_ok_def nth_list_update)
  ultimately show thesis using that assms by (auto simp: set_at_def masks_ok_def)
qed

lemma mask_or_ok:
  assumes "length a = length b"
  obtains m where "mask_or a b = Inr m" "length m = length b" "\<And>c. c < length b \<Longrightarrow> m ! c \<longleftrightarrow> a ! c \<or> b ! c"
  using that [of "map2 (\<or>) a b"] assms by (simp add: mask_or_def)

lemma or_at_ok:
  assumes ok: "masks_ok g v" "i < length (g_nodes g)" "length m = length (g_clocks g)"
  obtains v' where "or_at i m v = Inr v'" "masks_ok g v'"
    "\<And>n c. c < length (g_clocks g) \<Longrightarrow> v' ! n ! c \<longleftrightarrow> v ! n ! c \<or> n = i \<and> m ! c"
proof -
  have len: "length (v ! i) = length m" using ok by (simp add: masks_ok_def)
  obtain y where y: "mask_or (v ! i) m = Inr y" "length y = length m" "\<And>c. c < length m \<Longrightarrow> y ! c \<longleftrightarrow> (v ! i) ! c \<or> m ! c"
    using mask_or_ok [OF len] by blast
  have "v[i := y] ! n ! c \<longleftrightarrow> v ! n ! c \<or> n = i \<and> m ! c" if "c < length (g_clocks g)" for n c
    using ok y(3) [of c] that by (cases "n = i") (auto simp: masks_ok_def)
  moreover have "masks_ok g (v[i := y])" using ok y(2) by (auto simp: masks_ok_def nth_list_update)
  moreover have "or_at i m v = Inr (v[i := y])" using ok y(1) by (simp add: or_at_def masks_ok_def)
  ultimately show thesis using that by blast
qed

lemma seed_masks_ok:
  assumes "graph_inv g"
  obtains v where "seed_masks g = Inr v" "masks_ok g v"
    "\<And>n c. n < length (g_nodes g) \<Longrightarrow> c < length (g_clocks g) \<Longrightarrow> v ! n ! c \<longleftrightarrow> ck_node (g_clocks g ! c) = n"
proof -
  have "\<exists>v. rfold (\<lambda>c. set_at (ck_node (g_clocks g ! c)) c) [0..<k] (no_masks g) = Inr v \<and> masks_ok g v \<and>
      (\<forall>n<length (g_nodes g). \<forall>c<length (g_clocks g). v ! n ! c \<longleftrightarrow> c < k \<and> ck_node (g_clocks g ! c) = n)"
    if "k \<le> length (g_clocks g)" for k
    using that
  proof (induction k)
    case 0
    then show ?case by (simp add: no_masks_ok, simp add: no_masks_def)
  next
    case (Suc k)
    then obtain v where v: "rfold (\<lambda>c. set_at (ck_node (g_clocks g ! c)) c) [0..<k] (no_masks g) = Inr v" "masks_ok g v"
      "\<forall>n<length (g_nodes g). \<forall>c<length (g_clocks g). v ! n ! c \<longleftrightarrow> c < k \<and> ck_node (g_clocks g ! c) = n" by auto
    have "ck_node (g_clocks g ! k) < length (g_nodes g)" using graph_invD(8) [OF assms] Suc.prems by simp
    then obtain v' where v': "set_at (ck_node (g_clocks g ! k)) k v = Inr v'" "masks_ok g v'"
      "\<And>n d. v' ! n ! d \<longleftrightarrow> v ! n ! d \<or> n = ck_node (g_clocks g ! k) \<and> d = k"
      using set_at_ok [OF v(2)] Suc.prems by (metis Suc_le_lessD)
    show ?case using v v' by (auto simp: rfold_append less_Suc_eq)
  qed
  from this [of "length (g_clocks g)"] show thesis using that by (auto simp: seed_masks_def)
qed

end
