(* ===== verification/TimingForward.thy ===== *)
theory TimingForward
  imports TimingClock
begin

text \<open>
  The forward pass of \<open>TClockPropagator\<close>: Kahn's algorithm visits the live nodes in a topological order of the
  enabled edges, and the mask of a node is the set of clocks whose seed reaches it.
\<close>

section \<open>Kahn's algorithm\<close>

abbreviation seed_of :: "TGraph \<Rightarrow> nat \<Rightarrow> nat" where "seed_of g c \<equiv> ck_node (g_clocks g ! c)"

definition topological :: "TGraph \<Rightarrow> nat list \<Rightarrow> bool" where
  "topological g q \<longleftrightarrow> (\<forall>p n r. q = p @ n # r \<longrightarrow> (\<forall>e. enabled g e \<and> target_of g e = n \<longrightarrow> source_of g e \<in> set p))"

definition open_edges :: "TGraph \<Rightarrow> nat set \<Rightarrow> nat \<Rightarrow> nat set" where
  "open_edges g D n = {e. enabled g e \<and> target_of g e = n \<and> e \<notin> D}"

text \<open>\<open>D\<close> is the set of edges already relaxed.\<close>

definition kahn_inv :: "TGraph \<Rightarrow> nat set \<Rightarrow> kahn \<Rightarrow> bool" where
  "kahn_inv g D s \<longleftrightarrow> masks_ok g (kh_resolved s) \<and> length (kh_inDegree s) = length (g_nodes g) \<and> distinct (kh_queue s) \<and>
     set (kh_queue s) = {n. isNodeValid g n \<and> kh_inDegree s ! n = 0} \<and>
     (\<forall>n. isNodeValid g n \<longrightarrow> kh_inDegree s ! n = card (open_edges g D n)) \<and>
     (\<forall>n c. isNodeValid g n \<longrightarrow> c < length (g_clocks g) \<longrightarrow> (kh_resolved s ! n ! c \<longleftrightarrow> seed_of g c = n \<or>
        (\<exists>e\<in>D. enabled g e \<and> target_of g e = n \<and> (seed_of g c, source_of g e) \<in> (edge_rel g)\<^sup>*))) \<and>
     (\<forall>e\<in>D. source_of g e \<in> set (kh_queue s)) \<and> topological g (kh_queue s)"

lemma kahn_queue:
  assumes "kahn_inv g D s"
  shows "distinct (kh_queue s)" "n \<in> set (kh_queue s) \<Longrightarrow> isNodeValid g n"
  using assms by (simp_all add: kahn_inv_def)

lemma finite_open: "finite (open_edges g D n)"
  by (rule finite_subset [OF _ finite_enabled [of g]]) (auto simp: open_edges_def)

lemma topological_snoc:
  assumes "topological g q" "\<And>e. enabled g e \<Longrightarrow> target_of g e = m \<Longrightarrow> source_of g e \<in> set q"
  shows "topological g (q @ [m])"
  unfolding topological_def
proof (intro allI impI)
  fix p n r e
  assume q: "q @ [m] = p @ n # r" and e: "enabled g e \<and> target_of g e = n"
  show "source_of g e \<in> set p"
  proof (cases r rule: rev_cases)
    case Nil
    then show ?thesis using q e assms(2) by simp
  next
    case (snoc r' x)
    then have "q = p @ n # r'" using q by simp
    then show ?thesis using assms(1) e unfolding topological_def by blast
  qed
qed

lemma resolved_reach:
  assumes inv: "graph_inv g" "kahn_inv g D s" and n: "n \<in> set (kh_queue s)" and c: "c < length (g_clocks g)"
  shows "kh_resolved s ! n ! c \<longleftrightarrow> (seed_of g c, n) \<in> (edge_rel g)\<^sup>*"
proof -
  have v: "isNodeValid g n" "card (open_edges g D n) = 0" using inv(2) n by (auto simp: kahn_inv_def)
  then have D: "e \<in> D" if "enabled g e" "target_of g e = n" for e
    using that finite_open [of g D n] by (auto simp: open_edges_def)
  have r: "kh_resolved s ! n ! c \<longleftrightarrow> seed_of g c = n \<or>
      (\<exists>e\<in>D. enabled g e \<and> target_of g e = n \<and> (seed_of g c, source_of g e) \<in> (edge_rel g)\<^sup>*)"
    using inv(2) v(1) c by (simp add: kahn_inv_def)
  show ?thesis unfolding r
  proof
    assume "(seed_of g c, n) \<in> (edge_rel g)\<^sup>*"
    then show "seed_of g c = n \<or> (\<exists>e\<in>D. enabled g e \<and> target_of g e = n \<and> (seed_of g c, source_of g e) \<in> (edge_rel g)\<^sup>*)"
      by (cases rule: rtranclE) (use D in \<open>auto simp: edge_rel_def\<close>)
  qed (auto simp: edge_rel_def intro: rtrancl_into_rtrancl)
qed

text \<open>One edge is relaxed.\<close>

lemma relax_inv:
  assumes g: "graph_inv g" and k: "kahn_inv g D s" and n: "n \<in> set (kh_queue s)"
    and e: "isEdgeValid g e" "source_of g e = n" "e \<notin> D"
  shows "\<exists>s' r. relax g n e s = Inr s' \<and> kahn_inv g (insert e D) s' \<and> kh_queue s' = kh_queue s @ r"
proof (cases "enabled g e")
  case False
  have "open_edges g (insert e D) m = open_edges g D m" for m using False by (auto simp: open_edges_def)
  then have "kahn_inv g (insert e D) s" using k n e False by (auto simp: kahn_inv_def)
  then show ?thesis using False by (simp add: relax_def)
next
  case True
  define m where "m = target_of g e"
  let ?q = "kh_queue s" and ?deg = "kh_inDegree s"
  have v: "isNodeValid g m" "isNodeValid g n" using edge_ends [OF g e(1)] e(2) by (auto simp: m_def)
  then have len: "m < length (g_nodes g)" "n < length (g_nodes g)" by (auto simp: isNodeValid_def)
  have ok: "masks_ok g (kh_resolved s)" "length ?deg = length (g_nodes g)" using k by (auto simp: kahn_inv_def)
  have "length (kh_resolved s ! n) = length (g_clocks g)" using ok(1) len by (simp add: masks_ok_def)
  then obtain res where res: "or_at m (kh_resolved s ! n) (kh_resolved s) = Inr res" "masks_ok g res"
    "\<And>x c. c < length (g_clocks g) \<Longrightarrow> res ! x ! c \<longleftrightarrow> kh_resolved s ! x ! c \<or> x = m \<and> kh_resolved s ! n ! c"
    using or_at_ok [OF ok(1) len(1)] by metis
  have open_m: "open_edges g (insert e D) m = open_edges g D m - {e}" and mem: "e \<in> open_edges g D m"
    using True e by (auto simp: open_edges_def m_def)
  have open_o: "x \<noteq> m \<Longrightarrow> open_edges g (insert e D) x = open_edges g D x" for x by (auto simp: open_edges_def m_def)
  have pos: "?deg ! m = card (open_edges g D m)" "0 < ?deg ! m"
    using k v(1) mem finite_open [of g D m] by (auto simp: kahn_inv_def card_gt_0_iff)
  have "card (open_edges g (insert e D) m) = ?deg ! m - 1" using mem by (simp add: open_m pos(1))
  then have dec: "decrement (?deg ! m) = card (open_edges g (insert e D) m)" using pos(2) unfolding decrement_def by simp
  define s' where "s' = \<lparr>kh_resolved = res, kh_inDegree = ?deg[m := decrement (?deg ! m)],
    kh_queue = (if decrement (?deg ! m) = 0 then ?q @ [m] else ?q)\<rparr>"
  have r: "relax g n e s = Inr s'"
    using True res(1) ok len by (simp add: relax_def Let_def s'_def masks_ok_def flip: m_def)
  have new: "m \<notin> set ?q" using k pos(2) by (simp add: kahn_inv_def)
  have src: "source_of g x \<in> set ?q" if "x \<in> insert e D" for x using that k n e(2) by (auto simp: kahn_inv_def)
  have "topological g (kh_queue s')"
  proof (cases "decrement (?deg ! m) = 0")
    case True
    then have "x \<in> insert e D" if "enabled g x" "target_of g x = m" for x
      using that dec finite_open [of g "insert e D" m] by (auto simp: open_edges_def)
    then show ?thesis using k True src by (auto simp: s'_def kahn_inv_def intro!: topological_snoc)
  next
    case False
    then show ?thesis using k by (simp add: s'_def kahn_inv_def)
  qed
  moreover have deg: "kh_inDegree s' ! x = card (open_edges g (insert e D) x)" if "isNodeValid g x" for x
    using that k dec ok(2) len open_o [of x] by (cases "x = m") (auto simp: s'_def kahn_inv_def)
  moreover have "set (kh_queue s') = {x. isNodeValid g x \<and> kh_inDegree s' ! x = 0}"
  proof -
    have q: "set ?q = {x. isNodeValid g x \<and> ?deg ! x = 0}" using k by (simp add: kahn_inv_def)
    have "kh_inDegree s' ! x = (if x = m then decrement (?deg ! m) else ?deg ! x)" for x
      using ok(2) len by (simp add: s'_def nth_list_update)
    then show ?thesis using q v(1) pos(2) by (auto simp: s'_def)
  qed
  moreover have "kh_resolved s' ! x ! c \<longleftrightarrow> seed_of g c = x \<or>
      (\<exists>y\<in>insert e D. enabled g y \<and> target_of g y = x \<and> (seed_of g c, source_of g y) \<in> (edge_rel g)\<^sup>*)"
    if "isNodeValid g x" "c < length (g_clocks g)" for x c
  proof -
    have "kh_resolved s ! x ! c \<longleftrightarrow> seed_of g c = x \<or>
      (\<exists>y\<in>D. enabled g y \<and> target_of g y = x \<and> (seed_of g c, source_of g y) \<in> (edge_rel g)\<^sup>*)"
      using k that by (simp add: kahn_inv_def)
    then show ?thesis
      using res(3) [OF that(2), of x] resolved_reach [OF g k n that(2)] True e(2) by (auto simp: s'_def m_def)
  qed
  moreover have "distinct (kh_queue s')" using k new by (simp add: s'_def kahn_inv_def)
  moreover have "source_of g x \<in> set (kh_queue s')" if "x \<in> insert e D" for x using src [OF that] by (simp add: s'_def)
  moreover have "masks_ok g (kh_resolved s')" "length (kh_inDegree s') = length (g_nodes g)"
    using res(2) ok(2) by (simp_all add: s'_def)
  ultimately have "kahn_inv g (insert e D) s'" unfolding kahn_inv_def by blast
  then show ?thesis using r by (simp add: s'_def)
qed

lemma relax_all_inv:
  assumes g: "graph_inv g"
  shows "kahn_inv g D s \<Longrightarrow> n \<in> set (kh_queue s) \<Longrightarrow> distinct es \<Longrightarrow>
    (\<And>e. e \<in> set es \<Longrightarrow> isEdgeValid g e \<and> source_of g e = n \<and> e \<notin> D) \<Longrightarrow>
    \<exists>s' r. rfold (relax g n) es s = Inr s' \<and> kahn_inv g (D \<union> set es) s' \<and> kh_queue s' = kh_queue s @ r"
proof (induction es arbitrary: s D)
  case (Cons e es)
  obtain s1 r1 where s1: "relax g n e s = Inr s1" "kahn_inv g (insert e D) s1" "kh_queue s1 = kh_queue s @ r1"
    using relax_inv [OF g Cons.prems(1,2), of e] Cons.prems(4) [of e] by auto
  obtain s2 r2 where "rfold (relax g n) es s1 = Inr s2" "kahn_inv g (insert e D \<union> set es) s2" "kh_queue s2 = kh_queue s1 @ r2"
    using Cons.IH [OF s1(2)] Cons.prems s1(3) by auto
  then show ?case using s1 by auto
qed simp

text \<open>The edges out of the nodes already visited.\<close>

definition edges_from :: "TGraph \<Rightarrow> nat set \<Rightarrow> nat set" where
  "edges_from g N = {e. isEdgeValid g e \<and> source_of g e \<in> N}"

lemma kahn_start:
  assumes g: "graph_inv g" and v: "masks_ok g v" "\<And>n c. n < length (g_nodes g) \<Longrightarrow> c < length (g_clocks g) \<Longrightarrow> v ! n ! c \<longleftrightarrow> seed_of g c = n"
  shows "kahn_inv g {} \<lparr>kh_resolved = v, kh_inDegree = in_degrees g, kh_queue = first_queue g\<rparr>"
proof -
  have "in_degrees g ! n = card (open_edges g {} n)" if n: "isNodeValid g n" for n
  proof -
    have "open_edges g {} n = set (filter (enabled g) (tn_in (g_nodes g ! n)))"
      using out_edges(4) [OF g n] by (auto simp: open_edges_def enabled_def)
    moreover have "in_degrees g ! n = length (filter (enabled g) (tn_in (g_nodes g ! n)))"
      using n by (simp add: in_degrees_def isNodeValid_def)
    ultimately show ?thesis using out_edges(3) [OF g n] by (simp only: distinct_card distinct_filter)
  qed
  moreover have "topological g (first_queue g)"
    unfolding topological_def
  proof (intro allI impI)
    fix p n r e
    assume q: "first_queue g = p @ n # r" and e: "enabled g e \<and> target_of g e = n"
    then have "n \<in> set (first_queue g)" by simp
    then have n: "isNodeValid g n" "in_degrees g ! n = 0" by (auto simp: first_queue_def)
    then have "filter (enabled g) (tn_in (g_nodes g ! n)) = []" by (simp add: in_degrees_def isNodeValid_def)
    then show "source_of g e \<in> set p"
      using out_edges(4) [OF g n(1), of e] e by (auto simp: filter_empty_conv enabled_def)
  qed
  ultimately show ?thesis
    using v by (auto simp: kahn_inv_def first_queue_def isNodeValid_def in_degrees_def)
qed

lemma queue_length:
  assumes "graph_inv g" "kahn_inv g D s"
  shows "length (kh_queue s) \<le> g_liveNodes g" "g_liveNodes g = card {n. isNodeValid g n}" "finite {n. isNodeValid g n}"
proof -
  show live: "g_liveNodes g = card {n. isNodeValid g n}"
    using graph_invD(3) [OF assms(1)] by (simp add: pool_inv_def length_filter_conv_card isNodeValid_def)
  show fin: "finite {n. isNodeValid g n}" by (rule finite_subset [of _ "{..<length (g_nodes g)}"]) (auto simp: isNodeValid_def)
  have "card (set (kh_queue s)) \<le> card {n. isNodeValid g n}"
    using assms(2) by (intro card_mono [OF fin]) (auto simp: kahn_inv_def)
  then show "length (kh_queue s) \<le> g_liveNodes g" using kahn_queue(1) [OF assms(2)] live by (simp only: distinct_card)
qed

lemma kahn_node_inv:
  assumes g: "graph_inv g" and k: "kahn_inv g (edges_from g (set (take qi (kh_queue s)))) s" and qi: "qi < length (kh_queue s)"
  shows "\<exists>s' r. kahn_node g (kh_queue s ! qi) s = Inr s' \<and> kh_queue s' = kh_queue s @ r \<and>
    kahn_inv g (edges_from g (set (take (Suc qi) (kh_queue s')))) s'"
proof -
  let ?n = "kh_queue s ! qi"
  have n: "?n \<in> set (kh_queue s)" "isNodeValid g ?n" "?n \<notin> set (take qi (kh_queue s))"
    using kahn_queue [OF k] qi by (auto simp: in_set_conv_nth nth_eq_iff_index_eq)
  obtain s' r where s': "rfold (relax g ?n) (outs g ?n) s = Inr s'" "kh_queue s' = kh_queue s @ r"
    "kahn_inv g (edges_from g (set (take qi (kh_queue s))) \<union> set (outs g ?n)) s'"
    using relax_all_inv [OF g k n(1) out_edges(1) [OF g n(2)]] out_edges(2) [OF g n(2)] n(3)
    by (auto simp: edges_from_def)
  have "edges_from g (set (take qi (kh_queue s))) \<union> set (outs g ?n) = edges_from g (set (take (Suc qi) (kh_queue s')))"
    using out_edges(2) [OF g n(2)] qi s'(2) by (auto simp: edges_from_def take_Suc_conv_app_nth)
  then show ?thesis using s' n(2) by (auto simp: kahn_node_def node_at_def)
qed

lemma kahn_loop_inv:
  assumes g: "graph_inv g"
  shows "kahn_inv g (edges_from g (set (take qi (kh_queue s)))) s \<Longrightarrow> qi \<le> length (kh_queue s) \<Longrightarrow> g_liveNodes g < fuel + qi \<Longrightarrow>
    \<exists>s'. kahn_loop fuel g qi s = Some (Inr s') \<and> kahn_inv g (edges_from g (set (kh_queue s'))) s'"
proof (induction fuel arbitrary: qi s)
  case 0
  then show ?case using queue_length(1) [OF g 0(1)] by simp
next
  case (Suc fuel)
  show ?case
  proof (cases "qi < length (kh_queue s)")
    case True
    then obtain s1 r where s1: "kahn_node g (kh_queue s ! qi) s = Inr s1" "kh_queue s1 = kh_queue s @ r"
      "kahn_inv g (edges_from g (set (take (Suc qi) (kh_queue s1)))) s1"
      using kahn_node_inv [OF g Suc.prems(1)] by blast
    show ?thesis using Suc.IH [OF s1(3)] True s1(1,2) Suc.prems(3) by simp
  next
    case False
    then show ?thesis using Suc.prems by simp
  qed
qed

text \<open>Without cycles every live node is visited.\<close>

lemma kahn_complete:
  assumes g: "graph_inv g" and a: "acyclic (edge_rel g)" and k: "kahn_inv g (edges_from g (set (kh_queue s))) s"
  shows "set (kh_queue s) = {n. isNodeValid g n}" "length (kh_queue s) = g_liveNodes g"
proof -
  have wf: "wf (edge_rel g)" by (rule finite_acyclic_wf [OF finite_edge_rel a])
  have "isNodeValid g n \<longrightarrow> n \<in> set (kh_queue s)" for n
    using wf
  proof (induction n rule: wf_induct_rule)
    case (less n)
    show ?case
    proof (rule impI, rule ccontr)
      assume n: "isNodeValid g n" "n \<notin> set (kh_queue s)"
      then have "card (open_edges g (edges_from g (set (kh_queue s))) n) \<noteq> 0" using k by (simp add: kahn_inv_def)
      then have "open_edges g (edges_from g (set (kh_queue s))) n \<noteq> {}" by auto
      then obtain e where e: "enabled g e" "target_of g e = n" "e \<notin> edges_from g (set (kh_queue s))"
        unfolding open_edges_def by blast
      then have "isEdgeValid g e" by (simp add: enabled_def)
      then have "isNodeValid g (source_of g e)" "source_of g e \<notin> set (kh_queue s)"
        using edge_ends(1) [OF g] e(3) by (auto simp: edges_from_def)
      moreover have "(source_of g e, n) \<in> edge_rel g" using e by (auto simp: edge_rel_def)
      ultimately show False using less.IH by blast
    qed
  qed
  then show q: "set (kh_queue s) = {n. isNodeValid g n}" using kahn_queue(2) [OF k] by auto
  then show "length (kh_queue s) = g_liveNodes g"
    using kahn_queue(1) [OF k] queue_length(2) [OF g k] by (simp only: distinct_card [symmetric])
qed

section \<open>Launch clocks\<close>

text \<open>\<open>g\<close> is \<open>g0\<close> up to clock masks.\<close>

definition relabelled :: "TGraph \<Rightarrow> TGraph \<Rightarrow> bool" where
  "relabelled g0 g \<longleftrightarrow> same_shape g0 g \<and> (\<forall>e<length (g_edges g0). te_disabled (g_edges g ! e) = te_disabled (g_edges g0 ! e))"

lemma relabelled_refl [simp]: "relabelled g g" by (simp add: relabelled_def)

lemma relabelled_trans [trans]: "relabelled g h \<Longrightarrow> relabelled h k \<Longrightarrow> relabelled g k"
  using same_shape_trans [of g h k] same_shape_edges(1) [of g h] by (auto simp: relabelled_def)

lemma relabelled_sel:
  assumes "relabelled g0 g"
  shows "enabled g = enabled g0" "edge_rel g = edge_rel g0" "same_shape g0 g"
proof -
  have sh: "same_shape g0 g" using assms by (simp add: relabelled_def)
  have "isEdgeValid g0 e \<Longrightarrow> te_disabled (g_edges g ! e) = te_disabled (g_edges g0 ! e)" for e
    using assms by (simp add: relabelled_def isEdgeValid_def)
  then show en: "enabled g = enabled g0" unfolding enabled_def same_shape_sel(6) [OF sh] by blast
  have "enabled g0 e \<Longrightarrow> source_of g e = source_of g0 e \<and> target_of g e = target_of g0 e" for e
    using same_shape_sel(8,9) [OF sh] by (simp add: enabled_def)
  then show "edge_rel g = edge_rel g0" unfolding edge_rel_def en by (intro Collect_cong ex_cong1) auto
  show "same_shape g0 g" by fact
qed

lemma setClocks_relabelled:
  assumes "isEdgeValid g e"
  shows "length m = length (te_from (g_edges g ! e)) \<Longrightarrow> relabelled g (setFromClocks m e g)"
    "length m = length (te_to (g_edges g ! e)) \<Longrightarrow> relabelled g (setToClocks m e g)"
  using assms unfolding relabelled_def same_shape_def shape_def setFromClocks_def setToClocks_def isEdgeValid_def
  by (auto simp: map_update nth_list_update intro!: list_update_same_conv [THEN iffD2])

lemma setClocks_edge:
  assumes "isEdgeValid g e"
  shows "g_edges (setFromClocks m e g) ! x = (if x = e then (g_edges g ! x)\<lparr>te_from := m\<rparr> else g_edges g ! x)"
    "g_edges (setToClocks m e g) ! x = (if x = e then (g_edges g ! x)\<lparr>te_to := m\<rparr> else g_edges g ! x)"
  using assms by (auto simp: setFromClocks_def setToClocks_def isEdgeValid_def nth_list_update)

lemma launch_edges:
  assumes "graph_inv g" "length m = length (g_clocks g)"
  shows "\<exists>g'. fold (\<lambda>e g. if enabled g e then setFromClocks m e g else g) es g = g' \<and> relabelled g g' \<and>
    (\<forall>e. te_to (g_edges g' ! e) = te_to (g_edges g ! e) \<and>
      te_from (g_edges g' ! e) = (if e \<in> set es \<and> enabled g e then m else te_from (g_edges g ! e)))"
  using assms
proof (induction es arbitrary: g)
  case (Cons e es)
  show ?case
  proof (cases "enabled g e")
    case True
    then have v: "isEdgeValid g e" by (simp add: enabled_def)
    let ?g = "setFromClocks m e g"
    have r: "relabelled g ?g" using setClocks_relabelled(1) [OF v] graph_invD(6) [OF Cons.prems(1) v] Cons.prems(2) by simp
    have "graph_inv ?g" "length m = length (g_clocks ?g)"
      using same_shape_inv [OF relabelled_sel(3) [OF r]] same_shape_sel(3) [OF relabelled_sel(3) [OF r]] Cons.prems by auto
    from Cons.IH [OF this] obtain g' where g': "fold (\<lambda>e g. if enabled g e then setFromClocks m e g else g) es ?g = g'"
      "relabelled ?g g'" "\<forall>x. te_to (g_edges g' ! x) = te_to (g_edges ?g ! x) \<and>
        te_from (g_edges g' ! x) = (if x \<in> set es \<and> enabled ?g x then m else te_from (g_edges ?g ! x))" by blast
    show ?thesis
      using g' True relabelled_trans [OF r g'(2)] by (auto simp: relabelled_sel(1) [OF r] setClocks_edge [OF v])
  next
    case False
    then show ?thesis using Cons.IH [OF Cons.prems] by auto
  qed
qed simp

lemma launch_nodes:
  assumes "graph_inv g" "masks_ok g res" "\<forall>n\<in>set ns. n < length (g_nodes g)"
  shows "\<exists>g'. fold (launch_node res) ns g = g' \<and> relabelled g g' \<and>
    (\<forall>e. te_to (g_edges g' ! e) = te_to (g_edges g ! e) \<and>
      te_from (g_edges g' ! e) = (if enabled g e \<and> source_of g e \<in> set ns then res ! source_of g e else te_from (g_edges g ! e)))"
  using assms
proof (induction ns arbitrary: g)
  case (Cons n ns)
  note g = Cons.prems(1)
  have "\<exists>g1. launch_node res n g = g1 \<and> relabelled g g1 \<and>
    (\<forall>e. te_to (g_edges g1 ! e) = te_to (g_edges g ! e) \<and>
      te_from (g_edges g1 ! e) = (if enabled g e \<and> source_of g e = n then res ! n else te_from (g_edges g ! e)))"
  proof (cases "isNodeValid g n")
    case True
    have "length (res ! n) = length (g_clocks g)" using Cons.prems(2,3) by (simp add: masks_ok_def)
    moreover have "e \<in> set (outs g n) \<and> enabled g e \<longleftrightarrow> enabled g e \<and> source_of g e = n" for e
      using out_edges(2) [OF g True] by (auto simp: enabled_def)
    ultimately show ?thesis using launch_edges [OF g, of "res ! n" "outs g n"] True by (simp add: launch_node_def)
  next
    case False
    then have "\<not> (enabled g e \<and> source_of g e = n)" for e using edge_ends(1) [OF g, of e] by (auto simp: enabled_def)
    then show ?thesis using False by (auto simp: launch_node_def)
  qed
  then obtain g1 where g1: "launch_node res n g = g1" "relabelled g g1"
    "\<forall>e. te_to (g_edges g1 ! e) = te_to (g_edges g ! e) \<and>
      te_from (g_edges g1 ! e) = (if enabled g e \<and> source_of g e = n then res ! n else te_from (g_edges g ! e))" by blast
  note sh = relabelled_sel(3) [OF g1(2)]
  have "\<exists>g'. fold (launch_node res) ns g1 = g' \<and> relabelled g1 g' \<and>
    (\<forall>e. te_to (g_edges g' ! e) = te_to (g_edges g1 ! e) \<and>
      te_from (g_edges g' ! e) = (if enabled g1 e \<and> source_of g1 e \<in> set ns then res ! source_of g1 e else te_from (g_edges g1 ! e)))"
    by (rule Cons.IH) (use same_shape_inv [OF sh g] same_shape_sel(1,3) [OF sh] Cons.prems in \<open>auto simp: masks_ok_def\<close>)
  moreover have "enabled g e \<Longrightarrow> source_of g1 e = source_of g e" for e using same_shape_sel(8) [OF sh] by (simp add: enabled_def)
  ultimately show ?case
    using g1 relabelled_trans [OF g1(2)] by (auto simp: relabelled_sel(1) [OF g1(2)])
qed simp

text \<open>The forward pass, on a graph without cycles of enabled edges.\<close>

lemma propagateForward_spec:
  assumes g: "graph_inv g" and a: "acyclic (edge_rel g)" and fuel: "g_liveNodes g < fuel"
  obtains order g' where "propagateForward fuel g = Some (Inr (order, g'))" "relabelled g g'"
    "distinct order" "set order = {n. isNodeValid g n}" "topological g order"
    "\<And>e. te_to (g_edges g' ! e) = te_to (g_edges g ! e)"
    "\<And>e c. enabled g e \<Longrightarrow> c < length (g_clocks g) \<Longrightarrow> te_from (g_edges g' ! e) ! c \<longleftrightarrow> (seed_of g c, source_of g e) \<in> (edge_rel g)\<^sup>*"
    "\<And>e. \<not> enabled g e \<Longrightarrow> te_from (g_edges g' ! e) = te_from (g_edges g ! e)"
proof -
  obtain v where v: "seed_masks g = Inr v" "masks_ok g v"
    "\<And>n c. n < length (g_nodes g) \<Longrightarrow> c < length (g_clocks g) \<Longrightarrow> v ! n ! c \<longleftrightarrow> seed_of g c = n"
    using seed_masks_ok [OF g] by blast
  let ?s = "\<lparr>kh_resolved = v, kh_inDegree = in_degrees g, kh_queue = first_queue g\<rparr>"
  have "kahn_inv g (edges_from g (set (take 0 (kh_queue ?s)))) ?s"
    using kahn_start [OF g v(2,3)] by (simp add: edges_from_def)
  then obtain s where s: "kahn_loop fuel g 0 ?s = Some (Inr s)" "kahn_inv g (edges_from g (set (kh_queue s))) s"
    using kahn_loop_inv [OF g, of 0 ?s fuel] fuel by auto
  note c = kahn_complete [OF g a s(2)]
  have ok: "masks_ok g (kh_resolved s)" using s(2) by (simp add: kahn_inv_def)
  obtain g' where g': "fold (launch_node (kh_resolved s)) [0..<length (g_nodes g)] g = g'" "relabelled g g'"
    "\<forall>e. te_to (g_edges g' ! e) = te_to (g_edges g ! e) \<and> te_from (g_edges g' ! e) =
       (if enabled g e \<and> source_of g e \<in> set [0..<length (g_nodes g)] then kh_resolved s ! source_of g e else te_from (g_edges g ! e))"
    using launch_nodes [OF g ok, of "[0..<length (g_nodes g)]"] by auto
  have "propagateForward fuel g = Some (Inr (kh_queue s, g'))"
    using v(1) s(1) c(2) g'(1) by (simp add: propagateForward_def)
  moreover have "te_from (g_edges g' ! e) ! k \<longleftrightarrow> (seed_of g k, source_of g e) \<in> (edge_rel g)\<^sup>*"
    if "enabled g e" "k < length (g_clocks g)" for e k
  proof -
    have n: "isNodeValid g (source_of g e)" using that(1) edge_ends(1) [OF g] by (simp add: enabled_def)
    then have "source_of g e \<in> set (kh_queue s)" using c(1) by simp
    from resolved_reach [OF g s(2) this that(2)] show ?thesis using g'(3) that(1) n by (simp add: isNodeValid_def)
  qed
  ultimately show thesis
    using that g'(2,3) kahn_queue(1) [OF s(2)] c(1) s(2) by (simp add: kahn_inv_def)
qed

end
