(* ===== verification/TimingCapture.thy ===== *)
theory TimingCapture
  imports TimingForward
begin

text \<open>
  The backward pass of \<open>TClockPropagator\<close> and the whole run: the capture clocks of an edge are those that
  reach a capture endpoint downstream of it without passing a flip-flop output.
\<close>

section \<open>Specification\<close>

definition flop_output :: "TGraph \<Rightarrow> nat \<Rightarrow> bool" where
  "flop_output g n \<longleftrightarrow> isFlopDataOutput (g_nodes g ! n)"

definition comb_rel :: "TGraph \<Rightarrow> (nat \<times> nat) set" where
  "comb_rel g = {(s, t) \<in> edge_rel g. \<not> flop_output g t}"

text \<open>Clock \<open>c\<close> clocks a capture edge into node \<open>n\<close>.\<close>

definition captured :: "TGraph \<Rightarrow> nat \<Rightarrow> nat \<Rightarrow> bool" where
  "captured g n c \<longleftrightarrow> (\<exists>k. isCaptureEdgeValid g k \<and> tc_target (g_captures g ! k) = n \<and>
     (seed_of g c, tc_source (g_captures g ! k)) \<in> (edge_rel g)\<^sup>*)"

definition to_clock :: "TGraph \<Rightarrow> nat \<Rightarrow> nat \<Rightarrow> bool" where
  "to_clock g n c \<longleftrightarrow> (\<exists>m. (n, m) \<in> (comb_rel g)\<^sup>* \<and> captured g m c)"

text \<open>Every enabled edge carries the clocks that reach its source.\<close>

definition launched :: "TGraph \<Rightarrow> bool" where
  "launched g \<longleftrightarrow> (\<forall>e c. enabled g e \<longrightarrow> c < length (g_clocks g) \<longrightarrow>
     (te_from (g_edges g ! e) ! c \<longleftrightarrow> (seed_of g c, source_of g e) \<in> (edge_rel g)\<^sup>*))"

lemma to_clock_unfold:
  "to_clock g n c \<longleftrightarrow> captured g n c \<or>
     (\<exists>e. enabled g e \<and> source_of g e = n \<and> \<not> flop_output g (target_of g e) \<and> to_clock g (target_of g e) c)"
proof
  assume "to_clock g n c"
  then obtain m where m: "(n, m) \<in> (comb_rel g)\<^sup>*" "captured g m c" by (auto simp: to_clock_def)
  then show "captured g n c \<or>
     (\<exists>e. enabled g e \<and> source_of g e = n \<and> \<not> flop_output g (target_of g e) \<and> to_clock g (target_of g e) c)"
    by (cases rule: converse_rtranclE) (auto simp: to_clock_def comb_rel_def edge_rel_def)
next
  assume "captured g n c \<or>
     (\<exists>e. enabled g e \<and> source_of g e = n \<and> \<not> flop_output g (target_of g e) \<and> to_clock g (target_of g e) c)"
  moreover have "(source_of g e, target_of g e) \<in> comb_rel g" if "enabled g e" "\<not> flop_output g (target_of g e)" for e
    using that by (auto simp: comb_rel_def edge_rel_def)
  ultimately show "to_clock g n c" unfolding to_clock_def by (blast intro: converse_rtrancl_into_rtrancl)
qed

section \<open>Capture endpoints\<close>

lemma at_clock:
  assumes g: "graph_inv g" and l: "launched g" and es: "\<forall>e\<in>set es. isEdgeValid g e" and m: "length m = length (g_clocks g)"
  shows "\<exists>m'. rfold (\<lambda>e m. if enabled g e then mask_or m (te_from (g_edges g ! e)) else Inr m) es m = Inr m' \<and>
    length m' = length (g_clocks g) \<and>
    (\<forall>c<length (g_clocks g). m' ! c \<longleftrightarrow> m ! c \<or> (\<exists>e\<in>set es. enabled g e \<and> (seed_of g c, source_of g e) \<in> (edge_rel g)\<^sup>*))"
  using es m
proof (induction es arbitrary: m)
  case (Cons e es)
  show ?case
  proof (cases "enabled g e")
    case True
    have len: "length (te_from (g_edges g ! e)) = length (g_clocks g)" using graph_invD(6) [OF g] Cons.prems(1) by simp
    obtain m1 where m1: "mask_or m (te_from (g_edges g ! e)) = Inr m1" "length m1 = length (g_clocks g)"
      "\<And>c. c < length (g_clocks g) \<Longrightarrow> m1 ! c \<longleftrightarrow> m ! c \<or> te_from (g_edges g ! e) ! c"
      using mask_or_ok [of m "te_from (g_edges g ! e)"] Cons.prems(2) len by metis
    have "te_from (g_edges g ! e) ! c \<longleftrightarrow> (seed_of g c, source_of g e) \<in> (edge_rel g)\<^sup>*" if "c < length (g_clocks g)" for c
      using l that True by (simp add: launched_def)
    then show ?thesis using Cons.IH [of m1] Cons.prems(1) True m1 by auto
  next
    case False
    then show ?thesis using Cons.IH [OF _ Cons.prems(2)] Cons.prems(1) by auto
  qed
qed simp

lemma capture_edge_ok:
  assumes g: "graph_inv g" and l: "launched g" and seeds: "masks_ok g seeds"
    "\<And>n c. n < length (g_nodes g) \<Longrightarrow> c < length (g_clocks g) \<Longrightarrow> seeds ! n ! c \<longleftrightarrow> seed_of g c = n"
    and k: "tc_alive k \<Longrightarrow> isNodeValid g (tc_source k) \<and> isNodeValid g (tc_target k)" and v: "masks_ok g v"
  shows "\<exists>v'. capture_edge g seeds k v = Inr v' \<and> masks_ok g v' \<and> (\<forall>n. \<forall>c<length (g_clocks g). v' ! n ! c \<longleftrightarrow>
    v ! n ! c \<or> tc_alive k \<and> tc_target k = n \<and> (seed_of g c, tc_source k) \<in> (edge_rel g)\<^sup>*)"
proof (cases "tc_alive k")
  case True
  let ?s = "tc_source k"
  have s: "isNodeValid g ?s" "?s < length (g_nodes g)" "tc_target k < length (g_nodes g)" using k [OF True] by (auto simp: isNodeValid_def)
  have "length (seeds ! ?s) = length (g_clocks g)" using seeds(1) s(2) by (simp add: masks_ok_def)
  then obtain m where m: "rfold (\<lambda>e m. if enabled g e then mask_or m (te_from (g_edges g ! e)) else Inr m)
      (tn_in (g_nodes g ! ?s)) (seeds ! ?s) = Inr m" "length m = length (g_clocks g)"
    "\<And>c. c < length (g_clocks g) \<Longrightarrow> m ! c \<longleftrightarrow> seeds ! ?s ! c \<or>
      (\<exists>e\<in>set (tn_in (g_nodes g ! ?s)). enabled g e \<and> (seed_of g c, source_of g e) \<in> (edge_rel g)\<^sup>*)"
    using at_clock [OF g l, of "tn_in (g_nodes g ! ?s)" "seeds ! ?s"] out_edges(4) [OF g s(1)] by auto
  have reach: "m ! c \<longleftrightarrow> (seed_of g c, ?s) \<in> (edge_rel g)\<^sup>*" if c: "c < length (g_clocks g)" for c
  proof -
    have "m ! c \<longleftrightarrow> seed_of g c = ?s \<or> (\<exists>e. enabled g e \<and> target_of g e = ?s \<and> (seed_of g c, source_of g e) \<in> (edge_rel g)\<^sup>*)"
      using m(3) [OF c] seeds(2) [OF s(2) c] out_edges(4) [OF g s(1)] by (auto simp: enabled_def)
    also have "\<dots> \<longleftrightarrow> (seed_of g c, ?s) \<in> (edge_rel g)\<^sup>*"
      by (subst rtrancl.simps [of _ ?s "edge_rel g"]) (auto simp: edge_rel_def)
    finally show ?thesis .
  qed
  obtain v' where v': "or_at (tc_target k) m v = Inr v'" "masks_ok g v'"
    "\<And>n c. c < length (g_clocks g) \<Longrightarrow> v' ! n ! c \<longleftrightarrow> v ! n ! c \<or> n = tc_target k \<and> m ! c"
    using or_at_ok [OF v s(3) m(2)] by blast
  have "capture_edge g seeds k v = Inr v'"
    using True s v'(1) m(1) seeds(1) by (simp add: capture_edge_def node_at_def masks_ok_def)
  then show ?thesis using v'(2,3) reach True by auto
qed (use v in \<open>simp add: capture_edge_def\<close>)

lemma capture_edges_ok:
  assumes g: "graph_inv g" and l: "launched g" and seeds: "masks_ok g seeds"
    "\<And>n c. n < length (g_nodes g) \<Longrightarrow> c < length (g_clocks g) \<Longrightarrow> seeds ! n ! c \<longleftrightarrow> seed_of g c = n"
  shows "\<forall>k\<in>set ks. tc_alive k \<longrightarrow> isNodeValid g (tc_source k) \<and> isNodeValid g (tc_target k) \<Longrightarrow> masks_ok g v \<Longrightarrow>
    \<exists>v'. rfold (capture_edge g seeds) ks v = Inr v' \<and> masks_ok g v' \<and> (\<forall>n. \<forall>c<length (g_clocks g). v' ! n ! c \<longleftrightarrow>
    v ! n ! c \<or> (\<exists>k\<in>set ks. tc_alive k \<and> tc_target k = n \<and> (seed_of g c, tc_source k) \<in> (edge_rel g)\<^sup>*))"
proof (induction ks arbitrary: v)
  case (Cons k ks)
  obtain v1 where v1: "capture_edge g seeds k v = Inr v1" "masks_ok g v1"
    "\<forall>n. \<forall>c<length (g_clocks g). v1 ! n ! c \<longleftrightarrow> v ! n ! c \<or> tc_alive k \<and> tc_target k = n \<and> (seed_of g c, tc_source k) \<in> (edge_rel g)\<^sup>*"
    using capture_edge_ok [OF g l seeds _ Cons.prems(2), of k] Cons.prems(1) by auto
  obtain v2 where "rfold (capture_edge g seeds) ks v1 = Inr v2" "masks_ok g v2"
    "\<forall>n. \<forall>c<length (g_clocks g). v2 ! n ! c \<longleftrightarrow>
    v1 ! n ! c \<or> (\<exists>k\<in>set ks. tc_alive k \<and> tc_target k = n \<and> (seed_of g c, tc_source k) \<in> (edge_rel g)\<^sup>*)"
    using Cons.IH [OF _ v1(2)] Cons.prems(1) by auto
  then show ?case using v1 by auto
qed simp

lemma capture_masks_ok:
  assumes g: "graph_inv g" and l: "launched g"
  obtains seeds v where "seed_masks g = Inr seeds" "rfold (capture_edge g seeds) (g_captures g) (no_masks g) = Inr v" "masks_ok g v"
    "\<And>n c. n < length (g_nodes g) \<Longrightarrow> c < length (g_clocks g) \<Longrightarrow> v ! n ! c \<longleftrightarrow> captured g n c"
proof -
  obtain seeds where seeds: "seed_masks g = Inr seeds" "masks_ok g seeds"
    "\<And>n c. n < length (g_nodes g) \<Longrightarrow> c < length (g_clocks g) \<Longrightarrow> seeds ! n ! c \<longleftrightarrow> seed_of g c = n"
    using seed_masks_ok [OF g] by blast
  have ends: "\<forall>k\<in>set (g_captures g). tc_alive k \<longrightarrow> isNodeValid g (tc_source k) \<and> isNodeValid g (tc_target k)"
    using capture_ends [OF g] by (auto simp: in_set_conv_nth isCaptureEdgeValid_def)
  obtain v where v: "rfold (capture_edge g seeds) (g_captures g) (no_masks g) = Inr v" "masks_ok g v"
    "\<forall>n. \<forall>c<length (g_clocks g). v ! n ! c \<longleftrightarrow>
    no_masks g ! n ! c \<or> (\<exists>k\<in>set (g_captures g). tc_alive k \<and> tc_target k = n \<and> (seed_of g c, tc_source k) \<in> (edge_rel g)\<^sup>*)"
    using capture_edges_ok [OF g l seeds(2,3) ends no_masks_ok] by blast
  have cap: "(\<exists>k\<in>set (g_captures g). tc_alive k \<and> tc_target k = n \<and> (seed_of g c, tc_source k) \<in> (edge_rel g)\<^sup>*) \<longleftrightarrow> captured g n c" for n c
    unfolding captured_def isCaptureEdgeValid_def by (metis in_set_conv_nth)
  have "v ! n ! c \<longleftrightarrow> captured g n c" if "n < length (g_nodes g)" "c < length (g_clocks g)" for n c
    using v(3) that unfolding cap by (simp add: no_masks_def)
  then show thesis using that seeds(1) v(1,2) by blast
qed

section \<open>Backward\<close>

text \<open>\<open>D\<close> is the set of edges whose capture clocks are set.\<close>

definition capture_inv :: "TGraph \<Rightarrow> nat set \<Rightarrow> TGraph \<times> ClockMask list \<Rightarrow> bool" where
  "capture_inv g0 D s \<longleftrightarrow> (let g = fst s; v = snd s in
     relabelled g0 g \<and> masks_ok g0 v \<and> (\<forall>e. te_from (g_edges g ! e) = te_from (g_edges g0 ! e)) \<and>
     (\<forall>n c. n < length (g_nodes g0) \<longrightarrow> c < length (g_clocks g0) \<longrightarrow>
        (v ! n ! c \<longleftrightarrow> captured g0 n c \<or> (\<exists>e\<in>D. source_of g0 e = n \<and> to_clock g0 (target_of g0 e) c))) \<and>
     (\<forall>e\<in>D. \<forall>c<length (g_clocks g0). te_to (g_edges g ! e) ! c \<longleftrightarrow> to_clock g0 (target_of g0 e) c) \<and>
     (\<forall>e. e \<notin> D \<longrightarrow> te_to (g_edges g ! e) = te_to (g_edges g0 ! e)))"

lemma capture_in_inv:
  assumes g0: "graph_inv g0" and inv: "capture_inv g0 D (g, v)" and n: "n < length (g_nodes g0)"
    and v: "\<And>c. c < length (g_clocks g0) \<Longrightarrow> v ! n ! c \<longleftrightarrow> to_clock g0 n c"
    and e: "isEdgeValid g0 e" "target_of g0 e = n"
  shows "\<exists>g' v'. capture_in n e (g, v) = Inr (g', v') \<and> capture_inv g0 (D \<union> {x. x = e \<and> enabled g0 e}) (g', v') \<and>
    (\<forall>c<length (g_clocks g0). v' ! n ! c \<longleftrightarrow> to_clock g0 n c)"
proof -
  have r: "relabelled g0 g" and ok: "masks_ok g0 v" using inv by (auto simp: capture_inv_def)
  note sh = relabelled_sel(3) [OF r]
  show ?thesis
  proof (cases "enabled g0 e")
    case False
    then show ?thesis using inv v by (auto simp: capture_in_def relabelled_sel(1) [OF r])
  next
    case True
    let ?m = "v ! n" and ?g = "setToClocks (v ! n) e g"
    have m: "length ?m = length (g_clocks g0)" using ok n by (simp add: masks_ok_def)
    have ev: "isEdgeValid g e" using same_shape_sel(6) [OF sh] e(1) by simp
    have "length ?m = length (te_to (g_edges g ! e))"
      using graph_invD(7) [OF same_shape_inv [OF sh g0] ev] m same_shape_sel(3) [OF sh] by simp
    then have r': "relabelled g0 ?g" using relabelled_trans [OF r] setClocks_relabelled(2) [OF ev] by blast
    have s: "source_of ?g e = source_of g0 e" using same_shape_sel(8) [OF relabelled_sel(3) [OF r'] e(1)] .
    have "source_of g0 e < length (g_nodes g0)" using edge_ends(1) [OF g0 e(1)] by (simp add: isNodeValid_def)
    then obtain v' where v': "or_at (source_of g0 e) ?m v = Inr v'" "masks_ok g0 v'"
      "\<And>x c. c < length (g_clocks g0) \<Longrightarrow> v' ! x ! c \<longleftrightarrow> v ! x ! c \<or> x = source_of g0 e \<and> ?m ! c"
      using or_at_ok [OF ok _ m] by blast
    have c: "capture_in n e (g, v) = Inr (?g, v')"
      using True n ok v'(1) s by (simp add: capture_in_def Let_def relabelled_sel(1) [OF r] masks_ok_def)
    note I = inv [unfolded capture_inv_def Let_def fst_conv snd_conv]
    have "capture_inv g0 (insert e D) (?g, v')"
      unfolding capture_inv_def Let_def fst_conv snd_conv
    proof (intro conjI allI impI ballI)
      fix x c assume xc: "x < length (g_nodes g0)" "c < length (g_clocks g0)"
      have "v ! x ! c \<longleftrightarrow> captured g0 x c \<or> (\<exists>y\<in>D. source_of g0 y = x \<and> to_clock g0 (target_of g0 y) c)"
        using I xc by blast
      then show "v' ! x ! c \<longleftrightarrow> captured g0 x c \<or> (\<exists>y\<in>insert e D. source_of g0 y = x \<and> to_clock g0 (target_of g0 y) c)"
        using v'(3) [OF xc(2), of x] v [OF xc(2)] e(2) by auto
    next
      fix x c assume "x \<in> insert e D" "c < length (g_clocks g0)"
      then show "te_to (g_edges ?g ! x) ! c \<longleftrightarrow> to_clock g0 (target_of g0 x) c"
        using I v e(2) by (auto simp: setClocks_edge(2) [OF ev])
    qed (use I r' v'(2) in \<open>auto simp: setClocks_edge(2) [OF ev]\<close>)
    moreover have "v' ! n ! k \<longleftrightarrow> to_clock g0 n k" if "k < length (g_clocks g0)" for k
      using v'(3) [OF that, of n] v [OF that] by auto
    ultimately show ?thesis using c True by auto
  qed
qed

lemma capture_ins_inv:
  assumes g0: "graph_inv g0" and n: "n < length (g_nodes g0)"
  shows "capture_inv g0 D (g, v) \<Longrightarrow> (\<And>c. c < length (g_clocks g0) \<Longrightarrow> v ! n ! c \<longleftrightarrow> to_clock g0 n c) \<Longrightarrow>
    \<forall>e\<in>set es. isEdgeValid g0 e \<and> target_of g0 e = n \<Longrightarrow>
    \<exists>g' v'. rfold (capture_in n) es (g, v) = Inr (g', v') \<and> capture_inv g0 (D \<union> {e \<in> set es. enabled g0 e}) (g', v')"
proof (induction es arbitrary: D g v)
  case (Cons e es)
  obtain g1 v1 where 1: "capture_in n e (g, v) = Inr (g1, v1)" "capture_inv g0 (D \<union> {x. x = e \<and> enabled g0 e}) (g1, v1)"
    "\<And>c. c < length (g_clocks g0) \<Longrightarrow> v1 ! n ! c \<longleftrightarrow> to_clock g0 n c"
    using capture_in_inv [OF g0 Cons.prems(1) n Cons.prems(2), of e] Cons.prems(3) by auto
  have eq: "D \<union> {x. x = e \<and> enabled g0 e} \<union> {x \<in> set es. enabled g0 x} = D \<union> {x \<in> set (e # es). enabled g0 x}" by auto
  show ?case using Cons.IH [OF 1(2,3)] Cons.prems(3) 1(1) unfolding eq by simp
qed simp

text \<open>The edges into the nodes already visited, flip-flop outputs excepted.\<close>

definition edges_into :: "TGraph \<Rightarrow> nat set \<Rightarrow> nat set" where
  "edges_into g N = {e. enabled g e \<and> target_of g e \<in> N \<and> \<not> flop_output g (target_of g e)}"

lemma topological_targets:
  assumes g: "graph_inv g" and q: "topological g (p @ n # r)" "distinct (p @ n # r)" "set (p @ n # r) = {n. isNodeValid g n}"
    and e: "enabled g e" "source_of g e = n"
  shows "target_of g e \<in> set r"
proof -
  have "isNodeValid g (target_of g e)" using edge_ends(2) [OF g] e(1) by (simp add: enabled_def)
  then have "target_of g e \<in> set (p @ n # r)" using q(3) by blast
  moreover have "target_of g e \<noteq> n" using q(1,2) e unfolding topological_def by auto
  moreover have "target_of g e \<notin> set p"
  proof
    assume "target_of g e \<in> set p"
    then obtain p1 p2 where "p = p1 @ target_of g e # p2" by (meson split_list)
    then have "n \<in> set p1" using q(1) e unfolding topological_def by auto
    then show False using q(2) \<open>p = _\<close> by auto
  qed
  ultimately show ?thesis by auto
qed

lemma capture_nodes_inv:
  assumes g0: "graph_inv g0" and inv: "capture_inv g0 {} (g0, v0)"
    and q: "topological g0 order" "distinct order" "set order = {n. isNodeValid g0 n}"
  shows "order = p @ r \<Longrightarrow> \<exists>g v. rfold capture_node (rev r) (g0, v0) = Inr (g, v) \<and> capture_inv g0 (edges_into g0 (set r)) (g, v)"
proof (induction r arbitrary: p)
  case Nil
  then show ?case using inv by (simp add: edges_into_def)
next
  case (Cons n r)
  obtain g v where 1: "rfold capture_node (rev r) (g0, v0) = Inr (g, v)" "capture_inv g0 (edges_into g0 (set r)) (g, v)"
    using Cons.IH [of "p @ [n]"] Cons.prems by auto
  have n: "isNodeValid g0 n" "n < length (g_nodes g0)" using q(3) Cons.prems by (auto simp: isNodeValid_def)
  have r: "relabelled g0 g" using 1(2) by (simp add: capture_inv_def)
  have node: "node_at g n = Some (g_nodes g0 ! n)" using same_shape_sel(10) [OF relabelled_sel(3) [OF r], of n] n(1) by (simp add: node_at_def)
  have cn: "capture_node n (g, v) = (if flop_output g0 n then Inr (g, v) else rfold (capture_in n) (tn_in (g_nodes g0 ! n)) (g, v))"
    by (simp add: capture_node_def node flop_output_def)
  show ?case
  proof (cases "flop_output g0 n")
    case True
    then have "edges_into g0 (set (n # r)) = edges_into g0 (set r)" by (auto simp: edges_into_def)
    then show ?thesis using 1 True by (simp add: rfold_append cn)
  next
    case False
    have v: "v ! n ! c \<longleftrightarrow> to_clock g0 n c" if "c < length (g_clocks g0)" for c
    proof -
      have "e \<in> edges_into g0 (set r) \<longleftrightarrow> enabled g0 e \<and> \<not> flop_output g0 (target_of g0 e)" if "source_of g0 e = n" for e
        using topological_targets [OF g0 _ _ _ _ that] q Cons.prems that by (auto simp: edges_into_def)
      then show ?thesis
        using 1(2) n(2) that unfolding to_clock_unfold [of g0 n] capture_inv_def Let_def by auto
    qed
    obtain g' v' where "rfold (capture_in n) (tn_in (g_nodes g0 ! n)) (g, v) = Inr (g', v')"
      "capture_inv g0 (edges_into g0 (set r) \<union> {e \<in> set (tn_in (g_nodes g0 ! n)). enabled g0 e}) (g', v')"
      using capture_ins_inv [OF g0 n(2) 1(2) v, of "tn_in (g_nodes g0 ! n)"] out_edges(4) [OF g0 n(1)] by auto
    moreover have "edges_into g0 (set r) \<union> {e \<in> set (tn_in (g_nodes g0 ! n)). enabled g0 e} = edges_into g0 (set (n # r))"
      using out_edges(4) [OF g0 n(1)] False by (auto simp: edges_into_def enabled_def)
    ultimately show ?thesis using 1(1) False by (simp add: rfold_append cn)
  qed
qed

lemma propagateBackward_spec:
  assumes g: "graph_inv g" and l: "launched g" and q: "topological g order" "distinct order" "set order = {n. isNodeValid g n}"
  obtains g' where "propagateBackward order g = Inr g'" "relabelled g g'"
    "\<And>e. te_from (g_edges g' ! e) = te_from (g_edges g ! e)"
    "\<And>e c. enabled g e \<Longrightarrow> \<not> flop_output g (target_of g e) \<Longrightarrow> c < length (g_clocks g) \<Longrightarrow>
       te_to (g_edges g' ! e) ! c \<longleftrightarrow> to_clock g (target_of g e) c"
    "\<And>e. \<not> enabled g e \<or> flop_output g (target_of g e) \<Longrightarrow> te_to (g_edges g' ! e) = te_to (g_edges g ! e)"
proof -
  obtain seeds v where v: "seed_masks g = Inr seeds" "rfold (capture_edge g seeds) (g_captures g) (no_masks g) = Inr v" "masks_ok g v"
    "\<And>n c. n < length (g_nodes g) \<Longrightarrow> c < length (g_clocks g) \<Longrightarrow> v ! n ! c \<longleftrightarrow> captured g n c"
    using capture_masks_ok [OF g l] by blast
  have "capture_inv g {} (g, v)" using v(3,4) by (simp add: capture_inv_def)
  from capture_nodes_inv [OF g this q, of "[]" order] obtain g' v' where
    g': "rfold capture_node (rev order) (g, v) = Inr (g', v')" "capture_inv g (edges_into g (set order)) (g', v')" by auto
  have into: "e \<in> edges_into g (set order) \<longleftrightarrow> enabled g e \<and> \<not> flop_output g (target_of g e)" for e
    using edge_ends(2) [OF g, of e] q(3) by (auto simp: edges_into_def enabled_def)
  have "propagateBackward order g = Inr g'" using v(1,2) g'(1) by (simp add: propagateBackward_def)
  then show thesis using that g'(2) into unfolding capture_inv_def Let_def by auto
qed

section \<open>The whole pass\<close>

lemma clear_masks_shape:
  assumes "graph_inv g"
  shows "same_shape g (clear_masks g)" "enabled (clear_masks g) = enabled g"
    "isEdgeValid g e \<Longrightarrow> te_from (g_edges (clear_masks g) ! e) = replicate (length (g_clocks g)) False \<and>
       te_to (g_edges (clear_masks g) ! e) = replicate (length (g_clocks g)) False"
proof -
  have len: "length (te_from x) = length (g_clocks g) \<and> length (te_to x) = length (g_clocks g)" if "x \<in> set (g_edges g)" "te_alive x" for x
    using that graph_invD(6,7) [OF assms] by (metis in_set_conv_nth isEdgeValid_def)
  show "same_shape g (clear_masks g)"
    using len by (auto simp: same_shape_def shape_def clear_masks_def)
  show "enabled (clear_masks g) = enabled g"
    by (auto simp: enabled_def isEdgeValid_def clear_masks_def fun_eq_iff split: if_splits)
  show "isEdgeValid g e \<Longrightarrow> te_from (g_edges (clear_masks g) ! e) = replicate (length (g_clocks g)) False \<and>
       te_to (g_edges (clear_masks g) ! e) = replicate (length (g_clocks g)) False"
    by (simp add: clear_masks_def isEdgeValid_def)
qed

lemma relabelled_spec:
  assumes "relabelled g g'"
  shows "g_clocks g' = g_clocks g" "flop_output g' = flop_output g" "edge_rel g' = edge_rel g" "to_clock g' = to_clock g"
    "topological g' q = topological g q"
proof -
  note sh = relabelled_sel(3) [OF assms]
  note sel = same_shape_sel [OF sh] and rel = relabelled_sel(1,2) [OF assms]
  show a: "g_clocks g' = g_clocks g" "flop_output g' = flop_output g" "edge_rel g' = edge_rel g"
    by (simp_all add: sel rel flop_output_def fun_eq_iff)
  have "comb_rel g' = comb_rel g" "captured g' = captured g"
    using a by (simp_all add: comb_rel_def captured_def fun_eq_iff sel)
  then show "to_clock g' = to_clock g" by (simp add: to_clock_def fun_eq_iff)
  have "enabled g e \<Longrightarrow> source_of g' e = source_of g e \<and> target_of g' e = target_of g e" for e
    using sel(8,9) by (simp add: enabled_def)
  then show "topological g' q = topological g q" unfolding topological_def rel by (metis (no_types))
qed

lemma clock_run_spec:
  assumes g: "graph_inv g" and latch: "\<And>x. x \<in> set (g_nodes g) \<Longrightarrow> tn_alive x \<Longrightarrow> \<not> isLatch x"
    and seeds: "\<And>c. c \<in> set (g_clocks g) \<Longrightarrow> isNodeValid g (ck_node c)" and fuel: "g_liveNodes g < fuel"
  obtains g' where "TClockPropagator_run fuel g = Some (Inr (), g')" "graph_inv g'" "same_shape g g'" "acyclic (edge_rel g')"
    "\<And>e. enabled g' e \<Longrightarrow> enabled g e"
    "\<And>e c. enabled g' e \<Longrightarrow> c < length (g_clocks g) \<Longrightarrow> te_from (g_edges g' ! e) ! c \<longleftrightarrow> (seed_of g c, source_of g' e) \<in> (edge_rel g')\<^sup>*"
    "\<And>e c. isEdgeValid g e \<Longrightarrow> c < length (g_clocks g) \<Longrightarrow> te_to (g_edges g' ! e) ! c \<longleftrightarrow>
       enabled g' e \<and> \<not> flop_output g' (target_of g' e) \<and> to_clock g' (target_of g' e) c"
    "\<And>e c. isEdgeValid g e \<Longrightarrow> c < length (g_clocks g) \<Longrightarrow> te_from (g_edges g' ! e) ! c \<Longrightarrow> enabled g' e"
proof -
  let ?g0 = "clear_masks g"
  note sh0 = clear_masks_shape(1) [OF g]
  note sel0 = same_shape_sel [OF sh0] and g0 = same_shape_inv [OF sh0 g]
  obtain k g1 where g1: "TLoopBreaker_run ?g0 = Inr (k, g1)" "graph_inv g1" "only_disables ?g0 g1" "acyclic (edge_rel g1)"
    using loop_breaker_spec [OF g0] by metis
  note sh1 = same_shape_trans [OF sh0 only_disables_shape [OF g1(3)]]
  note sel1 = same_shape_sel [OF sh1]
  have mask1: "te_from (g_edges g1 ! e) = replicate (length (g_clocks g)) False \<and> te_to (g_edges g1 ! e) = replicate (length (g_clocks g)) False"
    if "isEdgeValid g e" for e
    using g1(3) clear_masks_shape(3) [OF g that] that sel0(6) unfolding only_disables_def by (metis TEdge.select_convs(4,5) TEdge.surjective TEdge.update_convs(6))
  obtain order g2 where g2: "propagateForward fuel g1 = Some (Inr (order, g2))" "relabelled g1 g2"
    "distinct order" "set order = {n. isNodeValid g1 n}" "topological g1 order"
    "\<And>e. te_to (g_edges g2 ! e) = te_to (g_edges g1 ! e)"
    "\<And>e c. enabled g1 e \<Longrightarrow> c < length (g_clocks g1) \<Longrightarrow> te_from (g_edges g2 ! e) ! c \<longleftrightarrow> (seed_of g1 c, source_of g1 e) \<in> (edge_rel g1)\<^sup>*"
    "\<And>e. \<not> enabled g1 e \<Longrightarrow> te_from (g_edges g2 ! e) = te_from (g_edges g1 ! e)"
    using propagateForward_spec [OF g1(2,4)] fuel sel1(4) by metis
  note r2 = relabelled_spec [OF g2(2)] and sh2 = same_shape_trans [OF sh1 relabelled_sel(3) [OF g2(2)]]
  have src2: "enabled g1 e \<Longrightarrow> source_of g2 e = source_of g1 e" for e
    using same_shape_sel(8) [OF relabelled_sel(3) [OF g2(2)]] by (simp add: enabled_def)
  have l: "launched g2" unfolding launched_def relabelled_sel(1) [OF g2(2)] r2 using g2(7) src2 by simp
  obtain g3 where g3: "propagateBackward order g2 = Inr g3" "relabelled g2 g3"
    "\<And>e. te_from (g_edges g3 ! e) = te_from (g_edges g2 ! e)"
    "\<And>e c. enabled g2 e \<Longrightarrow> \<not> flop_output g2 (target_of g2 e) \<Longrightarrow> c < length (g_clocks g2) \<Longrightarrow>
       te_to (g_edges g3 ! e) ! c \<longleftrightarrow> to_clock g2 (target_of g2 e) c"
    "\<And>e. \<not> enabled g2 e \<or> flop_output g2 (target_of g2 e) \<Longrightarrow> te_to (g_edges g3 ! e) = te_to (g_edges g2 ! e)"
    using propagateBackward_spec [OF same_shape_inv [OF sh2 g] l, of order] g2(3-5) r2(5) same_shape_sel(5) [OF relabelled_sel(3) [OF g2(2)]]
    by metis
  note r3 = relabelled_spec [OF g3(2)] and sh3 = same_shape_trans [OF sh2 relabelled_sel(3) [OF g3(2)]]
  note en = relabelled_sel(1) [OF g3(2)] relabelled_sel(1) [OF g2(2)]
  have ends: "isEdgeValid g e \<Longrightarrow> source_of g3 e = source_of g e \<and> target_of g3 e = target_of g e \<and> source_of g1 e = source_of g e \<and>
      target_of g2 e = target_of g e" for e
    using same_shape_sel(8,9) [OF sh3] same_shape_sel(8,9) [OF sh1] same_shape_sel(8,9) [OF sh2] by simp
  have valid: "enabled g1 e \<Longrightarrow> isEdgeValid g e" for e using sel1(6) by (simp add: enabled_def)
  have "TClockPropagator_run fuel g = Some (Inr (), g3)"
    using latch seeds g1(1) g2(1) g3(1) by (simp add: TClockPropagator_run_def Let_def sel0)
  moreover have "te_from (g_edges g3 ! e) ! c \<longleftrightarrow> (seed_of g c, source_of g3 e) \<in> (edge_rel g3)\<^sup>*"
    if "enabled g3 e" "c < length (g_clocks g)" for e c
    using that g2(7) [of e c] ends [OF valid] sel1(3) unfolding en r3 r2 g3(3) by simp
  moreover have "te_to (g_edges g3 ! e) ! c \<longleftrightarrow> enabled g3 e \<and> \<not> flop_output g3 (target_of g3 e) \<and> to_clock g3 (target_of g3 e) c"
    if "isEdgeValid g e" "c < length (g_clocks g)" for e c
    using that g3(4) [of e c] g3(5) [of e] g2(6) mask1 ends [OF that(1)] same_shape_sel(3) [OF sh2] unfolding en r3
    by (cases "enabled g1 e \<and> \<not> flop_output g2 (target_of g e)") auto
  moreover have "enabled g3 e" if "isEdgeValid g e" "c < length (g_clocks g)" "te_from (g_edges g3 ! e) ! c" for e c
    using that g2(8) [of e] mask1 unfolding en g3(3) by (cases "enabled g1 e") auto
  moreover have "enabled g3 e \<Longrightarrow> enabled g e" for e
    using only_disables_enabled [OF g1(3)] clear_masks_shape(2) [OF g] unfolding en by simp
  moreover have "acyclic (edge_rel g3)" using g1(4) r2(3) r3(3) by simp
  ultimately show thesis using that same_shape_inv [OF sh3 g] sh3 by blast
qed

end
