(* ===== verification/TimingTheorems.thy ===== *)
theory TimingTheorems
  imports TimingCapture
begin

text \<open>
  The properties of the timing graph: a client's calls in any order keep the invariant and never leave the
  defined behaviour, the loop breaker, and the launch and capture clocks.
\<close>

section \<open>Clients\<close>

text \<open>
  A client of \<open>TGraph\<close> as a sequence of calls.  An exception is caught by the client, which goes on with the graph
  the throw left behind; classifications are set on a node the graph returns.
\<close>

datatype graph_op =
    CreateNode
  | CreateEdge nat nat
  | CreateCaptureEdge nat nat
  | CreateClock string NLID nat
  | Classify nat CellKind PinRole
  | RemoveNode nat
  | RemoveEdge nat
  | RemoveCaptureEdge nat
  | BreakLoops
  | PropagateClocks

definition caught :: "TGraph \<Rightarrow> ('a \<times> TGraph) result \<Rightarrow> TGraph result" where
  "caught g r = (case r of Inr (_, g') \<Rightarrow> Inr g' | Inl (Raise _ _) \<Rightarrow> Inr g | Inl err \<Rightarrow> Inl err)"

fun apply_op :: "graph_op \<Rightarrow> TGraph \<Rightarrow> TGraph result" where
  "apply_op CreateNode g = caught g (createNode g)"
| "apply_op (CreateEdge s t) g = caught g (createEdge s t g)"
| "apply_op (CreateCaptureEdge s t) g = caught g (createCaptureEdge s t g)"
| "apply_op (CreateClock name target n) g = caught g (createClock name target n g)"
| "apply_op (Classify n k r) g = (if isNodeValid g n then upd_node n (\<lambda>x. setPinRole r (setCellKind k x)) g else Inr g)"
| "apply_op (RemoveNode n) g = caught g (removeNode n g)"
| "apply_op (RemoveEdge e) g = caught g (removeEdge e g)"
| "apply_op (RemoveCaptureEdge e) g = caught g (removeCaptureEdge e g)"
| "apply_op BreakLoops g = caught g (TLoopBreaker_run g)"
| "apply_op PropagateClocks g = (case TClockPropagator_run (Suc (g_liveNodes g)) g of
     None \<Rightarrow> Inl (UndefinedBehaviour ''out of fuel'')
   | Some (Inl (UndefinedBehaviour m), _) \<Rightarrow> Inl (UndefinedBehaviour m)
   | Some (_, g') \<Rightarrow> Inr g')"

lemma caught_ok:
  "\<exists>x g'. r = Inr (x, g') \<and> graph_inv g' \<Longrightarrow> \<exists>g'. caught g r = Inr g' \<and> graph_inv g'"
  by (auto simp: caught_def)

lemma createEdge_total:
  assumes "graph_inv g"
  shows "\<exists>x g'. createEdge s t g = Inr (x, g') \<and> graph_inv g'" "\<exists>x g'. createCaptureEdge s t g = Inr (x, g') \<and> graph_inv g'"
proof -
  show "\<exists>x g'. createEdge s t g = Inr (x, g') \<and> graph_inv g'"
    using createEdge_inv [OF assms, of s t] assms by (cases "isNodeValid g s \<and> isNodeValid g t") (auto simp: createEdge_def)
  show "\<exists>x g'. createCaptureEdge s t g = Inr (x, g') \<and> graph_inv g'"
    using createCaptureEdge_inv [OF assms, of s t] assms
    by (cases "isNodeValid g s \<and> isNodeValid g t") (auto simp: createCaptureEdge_def)
qed

lemma classify_inv:
  assumes g: "graph_inv g" and n: "isNodeValid g n"
  shows "\<exists>g'. upd_node n (\<lambda>x. setPinRole r (setCellKind k x)) g = Inr g' \<and> graph_inv g'"
proof -
  let ?f = "\<lambda>x. setPinRole r (setCellKind k x)"
  let ?g = "g\<lparr>g_nodes := (g_nodes g)[n := ?f (g_nodes g ! n)]\<rparr>"
  have len: "n < length (g_nodes g)" using n by (simp add: isNodeValid_def)
  have f: "tn_alive (?f x) = tn_alive x" "tn_out (?f x) = tn_out x" "tn_in (?f x) = tn_in x"
    "tn_captureOut (?f x) = tn_captureOut x" "tn_captureIn (?f x) = tn_captureIn x" for x
    by (simp_all add: setPinRole_def setCellKind_def)
  have nth: "(g_nodes g)[n := ?f (g_nodes g ! n)] ! m = (if m = n then ?f (g_nodes g ! m) else g_nodes g ! m)" for m
    using len by (simp add: nth_list_update)
  have valid: "isNodeValid ?g = isNodeValid g" "isEdgeValid ?g = isEdgeValid g" "isCaptureEdgeValid ?g = isCaptureEdgeValid g"
    using nth f by (auto simp: isNodeValid_def isEdgeValid_def isCaptureEdgeValid_def fun_eq_iff)
  have "edge_links ?g" by (rule links_cong [OF graph_invD(1) [OF g]]) (simp_all add: valid nth f)
  moreover have "capture_links ?g" by (rule links_cong [OF graph_invD(2) [OF g]]) (simp_all add: valid nth f)
  moreover have "pool_inv tn_alive (g_nodes ?g) (g_freeNodes ?g) (g_liveNodes ?g)"
    using nodes.update_inv [OF graph_invD(3) [OF g] len] f by simp
  ultimately have "graph_inv ?g"
    using graph_invD(4-8) [OF g] unfolding graph_inv_def valid by simp
  then show ?thesis using len by (simp add: upd_node_def)
qed

lemma clear_masks_inv: "graph_inv g \<Longrightarrow> graph_inv (clear_masks g)"
  using same_shape_inv clear_masks_shape(1) by blast

lemma propagate_total:
  assumes g: "graph_inv g"
  shows "\<exists>g'. apply_op PropagateClocks g = Inr g' \<and> graph_inv g'"
proof -
  note sel = same_shape_sel [OF clear_masks_shape(1) [OF g]]
  consider (latch) "\<exists>x\<in>set (g_nodes g). tn_alive x \<and> isLatch x" |
    (seed) "\<not> (\<exists>x\<in>set (g_nodes g). tn_alive x \<and> isLatch x)" "\<exists>c\<in>set (g_clocks g). \<not> isNodeValid g (ck_node c)" |
    (ok) "\<not> (\<exists>x\<in>set (g_nodes g). tn_alive x \<and> isLatch x)" "\<not> (\<exists>c\<in>set (g_clocks g). \<not> isNodeValid g (ck_node c))" by blast
  then show ?thesis
  proof cases
    case ok
    show ?thesis by (rule clock_run_spec [OF g, of "Suc (g_liveNodes g)"]) (use ok in auto)
  next
    case latch
    then have "\<exists>m. TClockPropagator_run (Suc (g_liveNodes g)) g = Some (Inl (Raise ''std::logic_error'' m), clear_masks g)"
      by (simp add: TClockPropagator_run_def Let_def sel)
    then show ?thesis using clear_masks_inv [OF g] by auto
  next
    case seed
    then have "\<exists>m. TClockPropagator_run (Suc (g_liveNodes g)) g = Some (Inl (Raise ''std::logic_error'' m), clear_masks g)"
      unfolding TClockPropagator_run_def Let_def sel by auto
    then show ?thesis using clear_masks_inv [OF g] by auto
  qed
qed

lemma apply_op_inv:
  assumes g: "graph_inv g"
  shows "\<exists>g'. apply_op op g = Inr g' \<and> graph_inv g'"
proof (cases op)
  case CreateNode
  then show ?thesis using createNode_inv [OF g] by (auto intro!: caught_ok)
next
  case (CreateEdge s t)
  then show ?thesis using createEdge_total(1) [OF g] by (auto intro!: caught_ok)
next
  case (CreateCaptureEdge s t)
  then show ?thesis using createEdge_total(2) [OF g] by (auto intro!: caught_ok)
next
  case (CreateClock name target n)
  then show ?thesis using createClock_inv [OF g, of n name target] g
    by (cases "isNodeValid g n") (auto simp: createClock_def caught_def)
next
  case (Classify n k r)
  then show ?thesis using classify_inv [OF g] g by auto
next
  case (RemoveNode n)
  then show ?thesis using removeNode_inv [OF g, of n] by (auto intro!: caught_ok)
next
  case (RemoveEdge e)
  then show ?thesis using removeEdge_inv [OF g, of e] by (auto intro!: caught_ok)
next
  case (RemoveCaptureEdge e)
  then show ?thesis using removeCaptureEdge_inv [OF g, of e] by (auto intro!: caught_ok)
next
  case BreakLoops
  obtain k g' where "TLoopBreaker_run g = Inr (k, g')" "graph_inv g'" using loop_breaker_spec [OF g] by metis
  then show ?thesis using BreakLoops by (auto intro!: caught_ok)
next
  case PropagateClocks
  then show ?thesis using propagate_total [OF g] by blast
qed

lemma client_inv: "rfold apply_op ops empty_graph = Inr g \<Longrightarrow> graph_inv g"
  using rfold_total [of ops graph_inv apply_op empty_graph] apply_op_inv empty_graph_inv by auto

section \<open>Refused graphs\<close>

abbreviation no_latch :: "TGraph \<Rightarrow> bool" where
  "no_latch g \<equiv> \<forall>x\<in>set (g_nodes g). tn_alive x \<longrightarrow> \<not> isLatch x"

lemma upd_node_no_latch:
  assumes "upd_node n f g = Inr g'" "no_latch g" "\<And>x. tn_alive (f x) \<and> isLatch (f x) \<Longrightarrow> tn_alive x \<and> isLatch x"
  shows "no_latch g'"
proof -
  have "set (g_nodes g') \<subseteq> insert (f (g_nodes g ! n)) (set (g_nodes g))" "n < length (g_nodes g)"
    using assms(1) set_update_subset_insert [of "g_nodes g" n "f (g_nodes g ! n)"] by (auto simp: upd_node_def split: if_splits)
  then show ?thesis using assms(2,3) nth_mem by blast
qed

lemmas latch_simps = isLatch_def node_deactivate_def removeOutEdge_def removeInEdge_def removeCaptureOutEdge_def removeCaptureInEdge_def

lemma removeEdge_no_latch: "removeEdge e g = Inr (b, g') \<Longrightarrow> no_latch g \<Longrightarrow> no_latch g'"
  unfolding removeEdge_def Let_def
  by (auto simp: rbind_eq_Inr_iff latch_simps split: if_splits dest!: upd_node_no_latch)

lemma removeCaptureEdge_no_latch: "removeCaptureEdge e g = Inr (b, g') \<Longrightarrow> no_latch g \<Longrightarrow> no_latch g'"
  unfolding removeCaptureEdge_def Let_def
  by (auto simp: rbind_eq_Inr_iff latch_simps split: if_splits dest!: upd_node_no_latch)

lemma createNode_no_latch: "createNode g = Inr (n, g') \<Longrightarrow> no_latch g \<Longrightarrow> no_latch g'"
  by (auto simp: createNode_def alloc_def new_node_def isLatch_def rbind_eq_Inr_iff split: list.splits if_splits
      dest!: set_update_subset_insert [THEN subsetD])

lemma removeNode_no_latch:
  assumes r: "removeNode n g = Inr (b, g')" and g: "no_latch g"
  shows "no_latch g'"
proof (cases "node_at g n")
  case None
  then show ?thesis using r g by (simp add: removeNode_def)
next
  case (Some x)
  let ?c = "\<lambda>e g. rbind (removeCaptureEdge e g) (\<lambda>(_, g). Inr g)" and ?e = "\<lambda>e g. rbind (removeEdge e g) (\<lambda>(_, g). Inr g)"
  obtain g1 g2 g3 where s: "rfold ?c (tn_captureOut x @ tn_captureIn x) g = Inr g1" "rfold ?e (tn_out x @ tn_in x) g1 = Inr g2"
    "upd_node n node_deactivate g2 = Inr g3" "g_nodes g' = g_nodes g3"
    using r Some by (auto simp: removeNode_def rbind_eq_Inr_iff)
  have "no_latch t" if "no_latch s" "?c e s = Inr t" for e s t
    using that removeCaptureEdge_no_latch [of e s] by (auto simp: rbind_eq_Inr_iff)
  then have g1: "no_latch g1" using rfold_inv [where P = no_latch, OF _ g s(1)] by blast
  have "no_latch t" if "no_latch s" "?e e s = Inr t" for e s t
    using that removeEdge_no_latch [of e s] by (auto simp: rbind_eq_Inr_iff)
  then have g2: "no_latch g2" using rfold_inv [where P = no_latch, OF _ g1 s(2)] by blast
  show ?thesis unfolding s(4) by (rule upd_node_no_latch [OF s(3) g2]) (simp add: latch_simps)
qed

lemma run_dead_seed:
  assumes "no_latch g" "\<exists>c\<in>set (g_clocks g). \<not> isNodeValid g (ck_node c)"
  shows "\<exists>g'. TClockPropagator_run fuel g =
    Some (Inl (Raise ''std::logic_error'' ''TClockPropagator::run: clock seed node was removed''), g')"
proof -
  have "g_nodes (clear_masks g) = g_nodes g" "g_clocks (clear_masks g) = g_clocks g" "isNodeValid (clear_masks g) = isNodeValid g"
    by (simp_all add: clear_masks_def isNodeValid_def fun_eq_iff)
  then show ?thesis using assms unfolding TClockPropagator_run_def Let_def by auto
qed

lemma clear_masks_cleared:
  "clear_masks g = g\<lparr>g_edges := g_edges (clear_masks g)\<rparr>" "length (g_edges (clear_masks g)) = length (g_edges g)"
  "e < length (g_edges g) \<Longrightarrow> g_edges (clear_masks g) ! e =
     (if isEdgeValid g e then (g_edges g ! e)\<lparr>te_from := replicate (length (g_clocks g)) False,
        te_to := replicate (length (g_clocks g)) False\<rparr> else g_edges g ! e)"
  by (simp_all add: clear_masks_def isEdgeValid_def)

section \<open>An example\<close>

text \<open>
  A flip-flop (clock pin 1, output 2, data 3) clocked by port 0; its output goes through a gate (input 4, output 5)
  back to its data pin, and the gate has a combinational loop.
\<close>

definition flop_ops :: "graph_op list" where
  "flop_ops = replicate 6 CreateNode @
     [Classify 1 FlipFlop Clock, Classify 2 FlipFlop DataOutput, Classify 3 FlipFlop DataInput,
      CreateEdge 0 1, CreateEdge 1 2, CreateEdge 2 4, CreateEdge 4 5, CreateEdge 5 4, CreateEdge 5 3,
      CreateCaptureEdge 1 3, CreateClock ''clk'' (nlid_db 1) 0]"

definition flop_graph :: TGraph where
  "flop_graph = (case rfold apply_op flop_ops empty_graph of Inr g \<Rightarrow> g | Inl _ \<Rightarrow> empty_graph)"

lemma flop_inv: "graph_inv flop_graph"
  using client_inv [of flop_ops] empty_graph_inv by (auto simp: flop_graph_def split: sum.split)

section \<open>Properties\<close>

text \<open>
  C27.  Whatever calls a client of the timing graph makes (the methods of \<open>TGraph\<close>, classifications of nodes and the two
  passes; not the setters of an edge taken from \<open>getEdge\<close>), in whatever order and with whatever identifiers, none of them indexes out of bounds, dereferences a null pointer or runs forever, and the graph they build has the
  invariant: adjacency lists and edges agree in both directions, dead slots are exactly the free ones, the counts are
  exact, and every live edge has masks of the number of clocks.
\<close>

theorem timing_graph_safe: "\<exists>g. rfold apply_op ops empty_graph = Inr g \<and> graph_inv g"
  using rfold_total [of ops graph_inv apply_op empty_graph] apply_op_inv empty_graph_inv by blast

text \<open>
  C28.  Removing a live node succeeds and removes exactly the node and the edges it is an end of; every other
  edge is kept as it was.
\<close>

theorem remove_node_exact:
  assumes "graph_inv g" "isNodeValid g n"
  shows "\<exists>g'. removeNode n g = Inr (True, g') \<and> graph_inv g' \<and>
    (\<forall>m. isNodeValid g' m \<longleftrightarrow> m \<noteq> n \<and> isNodeValid g m) \<and>
    (\<forall>e. isEdgeValid g' e \<longleftrightarrow> isEdgeValid g e \<and> te_source (g_edges g ! e) \<noteq> n \<and> te_target (g_edges g ! e) \<noteq> n) \<and>
    (\<forall>e. isEdgeValid g' e \<longrightarrow> g_edges g' ! e = g_edges g ! e)"
  using removeNode_inv [OF assms(1), of n] assms(2) by auto

theorem remove_node_exact_witness:
  "\<exists>g'. removeNode 4 flop_graph = Inr (True, g') \<and> graph_inv g' \<and> isNodeValid g' 5 \<and> \<not> isNodeValid g' 4 \<and>
    filter (isEdgeValid g') [0..<6] = [0, 1, 5]"
proof -
  have n: "isNodeValid flop_graph 4" "isNodeValid flop_graph 5" by code_simp+
  obtain g' where g': "removeNode 4 flop_graph = Inr (True, g')" "graph_inv g'"
    "\<forall>m. isNodeValid g' m \<longleftrightarrow> m \<noteq> 4 \<and> isNodeValid flop_graph m"
    "\<forall>e. isEdgeValid g' e \<longleftrightarrow> isEdgeValid flop_graph e \<and> te_source (g_edges flop_graph ! e) \<noteq> 4 \<and> te_target (g_edges flop_graph ! e) \<noteq> 4"
    using remove_node_exact [OF flop_inv n(1)] by blast
  have "filter (\<lambda>e. isEdgeValid flop_graph e \<and> te_source (g_edges flop_graph ! e) \<noteq> 4 \<and> te_target (g_edges flop_graph ! e) \<noteq> 4) [0..<6] = [0, 1, 5]"
    by code_simp
  moreover have "isEdgeValid g' = (\<lambda>e. isEdgeValid flop_graph e \<and> te_source (g_edges flop_graph ! e) \<noteq> 4 \<and> te_target (g_edges flop_graph ! e) \<noteq> 4)"
    using g'(4) by blast
  ultimately show ?thesis using g' n(2) by auto
qed

text \<open>
  C29.  The loop breaker returns on every graph with the invariant, leaves no cycle of enabled edges, changes nothing
  but the disabled flags, reports the number of edges it disabled, and disables only edges that close a cycle of
  the edges that were enabled; so on a graph without such cycles it disables nothing.
\<close>

theorem loop_breaker_breaks:
  assumes "graph_inv g"
  shows "\<exists>k g'. TLoopBreaker_run g = Inr (k, g') \<and> graph_inv g' \<and> only_disables g g' \<and> acyclic (edge_rel g') \<and>
    k = card (newly_disabled g g') \<and>
    (\<forall>e\<in>newly_disabled g g'. (te_target (g_edges g ! e), te_source (g_edges g ! e)) \<in> (edge_rel g)\<^sup>*) \<and>
    (acyclic (edge_rel g) \<longrightarrow> newly_disabled g g' = {})"
proof -
  obtain k g' where r: "TLoopBreaker_run g = Inr (k, g')" "graph_inv g'" "only_disables g g'" "acyclic (edge_rel g')"
    "k = card (newly_disabled g g')"
    "\<And>e. e \<in> newly_disabled g g' \<Longrightarrow> (target_of g e, source_of g e) \<in> (edge_rel g)\<^sup>*"
    using loop_breaker_spec [OF assms] by metis
  have "newly_disabled g g' = {}" if "acyclic (edge_rel g)"
  proof (rule equals0I)
    fix e assume e: "e \<in> newly_disabled g g'"
    then have "(source_of g e, target_of g e) \<in> edge_rel g" by (auto simp: newly_disabled_def edge_rel_def)
    with r(6) [OF e] that show False by (meson acyclic_def rtrancl_into_trancl2)
  qed
  then show ?thesis using r by blast
qed

theorem loop_breaker_breaks_witness:
  "\<exists>g'. TLoopBreaker_run flop_graph = Inr (1, g') \<and> acyclic (edge_rel g') \<and> card (newly_disabled flop_graph g') = 1 \<and> enabled g' 3"
proof -
  obtain k g' where r: "TLoopBreaker_run flop_graph = Inr (k, g')" "acyclic (edge_rel g')" "k = card (newly_disabled flop_graph g')"
    using loop_breaker_breaks [OF flop_inv] by blast
  have "(case TLoopBreaker_run flop_graph of Inr (k, g') \<Rightarrow> k = 1 \<and> enabled g' 3 | _ \<Rightarrow> False)" by code_simp
  then show ?thesis using r by auto
qed

text \<open>
  C30.  On a graph without latches whose clock seeds are live nodes, \<open>TClockPropagator::run\<close> returns and throws
  nothing: after it, a clock is a launch clock of an edge exactly when the edge is enabled and its source is reached from
  the seed by enabled edges, and a capture clock exactly when the edge is enabled and from its target a capture
  endpoint of that clock is reached by enabled edges that do not enter a flip-flop output.  One step more
  than there are live nodes is enough for the queue.
\<close>

theorem clocks_propagated:
  assumes "graph_inv g" "\<forall>x\<in>set (g_nodes g). tn_alive x \<longrightarrow> \<not> isLatch x" "\<forall>c\<in>set (g_clocks g). isNodeValid g (ck_node c)"
    and "g_liveNodes g < fuel"
  shows "\<exists>g'. TClockPropagator_run fuel g = Some (Inr (), g') \<and> graph_inv g' \<and> same_shape g g' \<and> acyclic (edge_rel g') \<and>
    (\<forall>e c. isEdgeValid g e \<longrightarrow> c < length (g_clocks g) \<longrightarrow>
      (te_from (g_edges g' ! e) ! c \<longleftrightarrow> enabled g' e \<and> (ck_node (g_clocks g ! c), te_source (g_edges g' ! e)) \<in> (edge_rel g')\<^sup>*) \<and>
      (te_to (g_edges g' ! e) ! c \<longleftrightarrow> enabled g' e \<and> \<not> flop_output g' (te_target (g_edges g' ! e)) \<and> to_clock g' (te_target (g_edges g' ! e)) c))"
proof -
  have l: "\<And>x. x \<in> set (g_nodes g) \<Longrightarrow> tn_alive x \<Longrightarrow> \<not> isLatch x" and c: "\<And>c. c \<in> set (g_clocks g) \<Longrightarrow> isNodeValid g (ck_node c)"
    using assms(2,3) by auto
  show ?thesis by (rule clock_run_spec [OF assms(1) l c assms(4)]) blast+
qed

theorem clocks_propagated_witness:
  "\<exists>g'. TClockPropagator_run 7 flop_graph = Some (Inr (), g') \<and> acyclic (edge_rel g') \<and>
    te_from (g_edges g' ! 5) = [True] \<and> te_to (g_edges g' ! 2) = [True] \<and> te_to (g_edges g' ! 0) = [False] \<and>
    (ck_node (g_clocks flop_graph ! 0), te_source (g_edges g' ! 5)) \<in> (edge_rel g')\<^sup>*"
proof -
  have ok: "\<forall>x\<in>set (g_nodes flop_graph). tn_alive x \<longrightarrow> \<not> isLatch x" "\<forall>c\<in>set (g_clocks flop_graph). isNodeValid flop_graph (ck_node c)"
    "g_liveNodes flop_graph < 7" "isEdgeValid flop_graph 5" "0 < length (g_clocks flop_graph)"
    by code_simp+
  obtain g' where r: "TClockPropagator_run 7 flop_graph = Some (Inr (), g')" "acyclic (edge_rel g')"
    "te_from (g_edges g' ! 5) ! 0 \<longleftrightarrow> enabled g' 5 \<and> (ck_node (g_clocks flop_graph ! 0), te_source (g_edges g' ! 5)) \<in> (edge_rel g')\<^sup>*"
    using clocks_propagated [OF flop_inv ok(1-3)] ok(4,5) by blast
  have "(case TClockPropagator_run 7 flop_graph of
      Some (Inr _, g') \<Rightarrow> te_from (g_edges g' ! 5) = [True] \<and> te_to (g_edges g' ! 2) = [True] \<and> te_to (g_edges g' ! 0) = [False] | _ \<Rightarrow> False)"
    by code_simp
  then show ?thesis using r by auto
qed

text \<open>
  C31.  \<open>TClockPropagator::run\<close> returns on every graph with the invariant, and throws exactly on a graph with a live
  latch or, failing that, with a clock whose seed is not a live node, with the source's exception for each.  When
  it throws, the launch and the capture mask of every live edge are left empty, one false bit for each
  clock, and nothing else of the graph is changed.
\<close>

theorem clock_run_refuses:
  assumes "graph_inv g" "g_liveNodes g < fuel"
  shows "\<exists>r g'. TClockPropagator_run fuel g = Some (r, g') \<and>
    r = (if \<exists>x\<in>set (g_nodes g). tn_alive x \<and> isLatch x
         then Inl (Raise ''std::logic_error'' ''TClockPropagator::run: latch analysis is unsupported'')
         else if \<exists>c\<in>set (g_clocks g). \<not> isNodeValid g (ck_node c)
         then Inl (Raise ''std::logic_error'' ''TClockPropagator::run: clock seed node was removed'')
         else Inr ()) \<and>
    (r \<noteq> Inr () \<longrightarrow> g' = g\<lparr>g_edges := g_edges g'\<rparr> \<and> length (g_edges g') = length (g_edges g) \<and>
      (\<forall>e<length (g_edges g). g_edges g' ! e =
        (if isEdgeValid g e then (g_edges g ! e)\<lparr>te_from := replicate (length (g_clocks g)) False,
           te_to := replicate (length (g_clocks g)) False\<rparr>
         else g_edges g ! e)))"
proof (cases "(\<exists>x\<in>set (g_nodes g). tn_alive x \<and> isLatch x) \<or> (\<exists>c\<in>set (g_clocks g). \<not> isNodeValid g (ck_node c))")
  case True
  have sel: "g_nodes (clear_masks g) = g_nodes g" "g_clocks (clear_masks g) = g_clocks g" "isNodeValid (clear_masks g) = isNodeValid g"
    by (simp_all add: clear_masks_def isNodeValid_def fun_eq_iff)
  have run: "TClockPropagator_run fuel g = Some (if \<exists>x\<in>set (g_nodes g). tn_alive x \<and> isLatch x
      then Inl (Raise ''std::logic_error'' ''TClockPropagator::run: latch analysis is unsupported'')
      else Inl (Raise ''std::logic_error'' ''TClockPropagator::run: clock seed node was removed''), clear_masks g)"
    using True unfolding TClockPropagator_run_def Let_def sel by (cases "\<exists>x\<in>set (g_nodes g). tn_alive x \<and> isLatch x") auto
  show ?thesis
    by (rule exI, rule exI, rule conjI, rule run)
      (use True clear_masks_cleared in \<open>intro conjI impI allI, simp, blast, blast, blast\<close>)
next
  case False
  then show ?thesis by (rule_tac clock_run_spec [OF assms(1) _ _ assms(2)]) auto
qed

theorem clock_run_refuses_witness:
  "\<exists>g g'. rfold apply_op [PropagateClocks, Classify 4 Latch Gate] flop_graph = Inr g \<and>
     te_from (g_edges g ! 5) = [True] \<and> te_to (g_edges g ! 2) = [True] \<and>
     TClockPropagator_run 7 g =
       Some (Inl (Raise ''std::logic_error'' ''TClockPropagator::run: latch analysis is unsupported''), g') \<and>
     te_from (g_edges g' ! 5) = [False] \<and> te_to (g_edges g' ! 2) = [False]"
proof -
  obtain g where g: "rfold apply_op [PropagateClocks, Classify 4 Latch Gate] flop_graph = Inr g" "graph_inv g"
    using rfold_total [of "[PropagateClocks, Classify 4 Latch Gate]" graph_inv apply_op flop_graph] apply_op_inv flop_inv by blast
  have "(case rfold apply_op [PropagateClocks, Classify 4 Latch Gate] flop_graph of Inr g \<Rightarrow>
      g_liveNodes g < 7 \<and> (\<exists>x\<in>set (g_nodes g). tn_alive x \<and> isLatch x) \<and> length (g_clocks g) = 1 \<and> length (g_edges g) = 6 \<and>
      isEdgeValid g 5 \<and> isEdgeValid g 2 \<and> te_from (g_edges g ! 5) = [True] \<and> te_to (g_edges g ! 2) = [True] | _ \<Rightarrow> False)"
    by code_simp
  then have h: "g_liveNodes g < 7" "\<exists>x\<in>set (g_nodes g). tn_alive x \<and> isLatch x" "length (g_clocks g) = 1" "length (g_edges g) = 6"
    "isEdgeValid g 5" "isEdgeValid g 2" "te_from (g_edges g ! 5) = [True]" "te_to (g_edges g ! 2) = [True]"
    unfolding g by simp_all
  show ?thesis using clock_run_refuses [OF g(2) h(1)] g(1) h(2-8) by auto
qed

text \<open>
  C32.  A removed seed is not always noticed.  On a graph that \<open>TClockPropagator::run\<close> accepts, after the seed of a clock
  is removed the pass is refused; but the next node created takes the seed's slot and its identifier, so the
  clock is seeded at a node that is not the one it was created for, and the pass runs and throws nothing.
\<close>

theorem recycled_seed_accepted:
  assumes "graph_inv g" "isNodeValid g n" "c \<in> set (g_clocks g)" "ck_node c = n"
    and "\<forall>x\<in>set (g_nodes g). tn_alive x \<longrightarrow> \<not> isLatch x" "\<forall>k\<in>set (g_clocks g). isNodeValid g (ck_node k)"
  shows "\<exists>g1 g2. removeNode n g = Inr (True, g1) \<and> \<not> isNodeValid g1 n \<and>
    (\<forall>fuel. \<exists>g'. TClockPropagator_run fuel g1 =
       Some (Inl (Raise ''std::logic_error'' ''TClockPropagator::run: clock seed node was removed''), g')) \<and>
    createNode g1 = Inr (n, g2) \<and> c \<in> set (g_clocks g2) \<and> isNodeValid g2 (ck_node c) \<and>
    (\<forall>fuel>g_liveNodes g2. \<exists>g'. TClockPropagator_run fuel g2 = Some (Inr (), g') \<and> graph_inv g')"
proof -
  obtain g1 ns where g1: "removeNode n g = Inr (True, g1)" "graph_inv g1" "\<And>m. isNodeValid g1 m \<longleftrightarrow> m \<noteq> n \<and> isNodeValid g m"
    "g_clocks g1 = g_clocks g" "g_freeNodes g1 = n # ns"
    using removeNode_inv [OF assms(1), of n] assms(2) by auto
  obtain m g2 where g2: "createNode g1 = Inr (m, g2)" "graph_inv g2" "\<And>x. isNodeValid g2 x \<longleftrightarrow> x = m \<or> isNodeValid g1 x"
    "g_clocks g2 = g_clocks g1"
    using createNode_inv [OF g1(2)] by blast
  have m: "m = n" using g2(1) g1(5) by (auto simp: createNode_def alloc_def rbind_eq_Inr_iff split: if_splits)
  have l1: "no_latch g1" using removeNode_no_latch [OF g1(1)] assms(5) by simp
  have l2: "no_latch g2" by (rule createNode_no_latch [OF g2(1) l1])
  have dead: "\<exists>k\<in>set (g_clocks g1). \<not> isNodeValid g1 (ck_node k)" using assms(3,4) g1(3,4) by auto
  have refused: "\<exists>g'. TClockPropagator_run fuel g1 =
      Some (Inl (Raise ''std::logic_error'' ''TClockPropagator::run: clock seed node was removed''), g')" for fuel
    by (rule run_dead_seed [OF l1 dead])
  have seeds: "isNodeValid g2 (ck_node k)" if "k \<in> set (g_clocks g2)" for k
    using that assms(6) by (auto simp: g2(3,4) g1(3,4) m)
  have accepted: "\<exists>g'. TClockPropagator_run fuel g2 = Some (Inr (), g') \<and> graph_inv g'" if "g_liveNodes g2 < fuel" for fuel
    using l2 by (rule_tac clock_run_spec [OF g2(2) _ seeds that]) auto
  show ?thesis using g1 g2 m assms(3,4) seeds refused accepted by (intro exI [of _ g1] exI [of _ g2]) auto
qed

theorem recycled_seed_accepted_witness:
  "\<exists>g1 g2 g' g''. removeNode 0 flop_graph = Inr (True, g1) \<and> \<not> isNodeValid g1 0 \<and>
    TClockPropagator_run 7 g1 =
      Some (Inl (Raise ''std::logic_error'' ''TClockPropagator::run: clock seed node was removed''), g') \<and>
    createNode g1 = Inr (0, g2) \<and> map ck_node (g_clocks g2) = [0] \<and> isNodeValid g2 0 \<and> TClockPropagator_run 7 g2 = Some (Inr (), g'')"
proof -
  have n: "isNodeValid flop_graph 0" "g_clocks flop_graph ! 0 \<in> set (g_clocks flop_graph)" "ck_node (g_clocks flop_graph ! 0) = 0"
    "\<forall>x\<in>set (g_nodes flop_graph). tn_alive x \<longrightarrow> \<not> isLatch x" "\<forall>c\<in>set (g_clocks flop_graph). isNodeValid flop_graph (ck_node c)"
    by code_simp+
  obtain g1 g2 where r: "removeNode 0 flop_graph = Inr (True, g1)" "\<not> isNodeValid g1 0" "createNode g1 = Inr (0, g2)" "isNodeValid g2 0"
    "\<forall>fuel. \<exists>g'. TClockPropagator_run fuel g1 =
       Some (Inl (Raise ''std::logic_error'' ''TClockPropagator::run: clock seed node was removed''), g')"
    "\<forall>fuel>g_liveNodes g2. \<exists>g'. TClockPropagator_run fuel g2 = Some (Inr (), g') \<and> graph_inv g'"
    using recycled_seed_accepted [OF flop_inv n] n(3) by auto
  have "(case rbind (removeNode 0 flop_graph) (\<lambda>(_, g). createNode g) of Inr (_, g2) \<Rightarrow>
      map ck_node (g_clocks g2) = [0] \<and> g_liveNodes g2 < 7 | _ \<Rightarrow> False)"
    by code_simp
  then have "map ck_node (g_clocks g2) = [0]" "g_liveNodes g2 < 7" using r(1,3) by simp_all
  moreover obtain g' g'' where "TClockPropagator_run 7 g1 =
      Some (Inl (Raise ''std::logic_error'' ''TClockPropagator::run: clock seed node was removed''), g')"
    "TClockPropagator_run 7 g2 = Some (Inr (), g'')" using r(5,6) calculation(2) by blast
  ultimately show ?thesis using r(1-4) by metis
qed

end
