(* ===== verification/VHDLLexer.thy ===== *)
theory VHDLLexer
  imports Naja_Prelude
begin

text \<open>
  \<^verbatim>\<open>src/vhdl/src/Lexer.cpp\<close>: the VHDL scanner.  The source is a \<open>std::string_view\<close>; reading it out of range is
  undefined, \<open>peek\<close> gives the null character there.  The scanner's members are a record that every function
  returns updated.
\<close>

section \<open>Data\<close>

record SourcePosition =
  offset :: nat
  line :: nat
  column :: nat

record SourceSpan =
  sp_start :: SourcePosition
  sp_end :: SourcePosition

datatype TokenKind =
    Identifier | ExtendedIdentifier | IntegerLiteral | RealLiteral | StringLiteral | CharacterLiteral
  | Symbol | Invalid | EndOfFile

record Token =
  t_kind :: TokenKind
  t_text :: string
  t_canonical :: string
  t_span :: SourceSpan

record LexDiagnostic =
  d_message :: string
  d_span :: SourceSpan

record Scanner =
  sc_excluded :: bool
  sc_exclusionStart :: SourcePosition
  sc_position :: SourcePosition
  sc_tokens :: "Token list"
  sc_diagnostics :: "LexDiagnostic list"

definition first_position :: SourcePosition where
  "first_position = \<lparr>offset = 0, line = 1, column = 1\<rparr>"

definition new_scanner :: Scanner where
  "new_scanner = \<lparr>sc_excluded = False, sc_exclusionStart = first_position, sc_position = first_position,
     sc_tokens = [], sc_diagnostics = []\<rparr>"

section \<open>Characters\<close>

definition nul :: char where "nul = CHR 0x00"
definition newline :: char where "newline = CHR 0x0A"

definition between :: "char \<Rightarrow> char \<Rightarrow> char \<Rightarrow> bool" where
  "between a b c \<longleftrightarrow> (of_char a :: nat) \<le> of_char c \<and> (of_char c :: nat) \<le> of_char b"

definition isUpper :: "char \<Rightarrow> bool" where "isUpper c \<longleftrightarrow> between CHR ''A'' CHR ''Z'' c"
definition isAlpha :: "char \<Rightarrow> bool" where "isAlpha c \<longleftrightarrow> isUpper c \<or> between CHR ''a'' CHR ''z'' c"
definition isDigit :: "char \<Rightarrow> bool" where "isDigit c \<longleftrightarrow> between CHR ''0'' CHR ''9'' c"
definition isAlphaNumeric :: "char \<Rightarrow> bool" where "isAlphaNumeric c \<longleftrightarrow> isAlpha c \<or> isDigit c"

definition isWhitespace :: "char \<Rightarrow> bool" where
  "isWhitespace c \<longleftrightarrow> c = CHR '' '' \<or> c = CHR 0x09 \<or> c = newline \<or> c = CHR 0x0D \<or> c = CHR 0x0C"

definition lower :: "char \<Rightarrow> char" where
  "lower c = (if isUpper c then char_of (of_char c + 32 :: nat) else c)"

section \<open>Reading the source\<close>

definition atEnd :: "string \<Rightarrow> SourcePosition \<Rightarrow> bool" where
  "atEnd src p \<longleftrightarrow> length src \<le> offset p"

definition peek :: "string \<Rightarrow> SourcePosition \<Rightarrow> nat \<Rightarrow> char" where
  "peek src p k = (if offset p + k < length src then src ! (offset p + k) else nul)"

definition advance :: "string \<Rightarrow> SourcePosition \<Rightarrow> SourcePosition result" where
  "advance src p = rbind (vec_at src (offset p)) (\<lambda>c. Inr
     (if c = newline then \<lparr>offset = offset p + 1, line = line p + 1, column = 1\<rparr>
      else \<lparr>offset = offset p + 1, line = line p, column = column p + 1\<rparr>))"

lemma advance_offset: "advance src p = Inr q \<Longrightarrow> offset q = Suc (offset p) \<and> offset p < length src"
  by (auto simp: advance_def vec_at_def split: if_splits)

text \<open>
  \<open>while (P(peek())) advance()\<close>, with or without a test of \<open>atEnd\<close>: the conditions of the loops without it are
  false on the null character.
\<close>

function advance_while :: "(char \<Rightarrow> bool) \<Rightarrow> string \<Rightarrow> SourcePosition \<Rightarrow> SourcePosition result" where
  "advance_while P src p =
     (if \<not> atEnd src p \<and> P (peek src p 0) then rbind (advance src p) (advance_while P src) else Inr p)"
  by pat_completeness auto
termination
  by (relation "measure (\<lambda>(P, src, p). length src - offset p)") (auto dest!: advance_offset)

declare advance_while.simps [simp del]

definition substr :: "string \<Rightarrow> nat \<Rightarrow> nat \<Rightarrow> string" where
  "substr src i n = take n (drop i src)"

text \<open>The text between two positions.\<close>

abbreviation text_between :: "string \<Rightarrow> SourcePosition \<Rightarrow> SourcePosition \<Rightarrow> string" where
  "text_between src p q \<equiv> substr src (offset p) (offset q - offset p)"

section \<open>Tokens\<close>

definition emit :: "string \<Rightarrow> TokenKind \<Rightarrow> SourcePosition \<Rightarrow> string \<Rightarrow> Scanner \<Rightarrow> Scanner" where
  "emit src k start canonical s = (if sc_excluded s then s
     else s\<lparr>sc_tokens := sc_tokens s @ [\<lparr>t_kind = k, t_text = text_between src start (sc_position s), t_canonical = canonical,
       t_span = \<lparr>sp_start = start, sp_end = sc_position s\<rparr>\<rparr>]\<rparr>)"

definition diagnose :: "string \<Rightarrow> SourcePosition \<Rightarrow> Scanner \<Rightarrow> Scanner" where
  "diagnose message start s = (if sc_excluded s then s
     else s\<lparr>sc_diagnostics := sc_diagnostics s @ [\<lparr>d_message = message, d_span = \<lparr>sp_start = start, sp_end = sc_position s\<rparr>\<rparr>]\<rparr>)"

text \<open>\<open>diagnose(...); emit(TokenKind::Invalid, start); return;\<close>\<close>

definition invalid :: "string \<Rightarrow> string \<Rightarrow> SourcePosition \<Rightarrow> Scanner \<Rightarrow> Scanner result" where
  "invalid src message start s = Inr (emit src Invalid start '''' (diagnose message start s))"

definition move :: "(SourcePosition \<Rightarrow> SourcePosition result) \<Rightarrow> Scanner \<Rightarrow> Scanner result" where
  "move f s = rbind (f (sc_position s)) (\<lambda>p. Inr (s\<lparr>sc_position := p\<rparr>))"

abbreviation step :: "string \<Rightarrow> Scanner \<Rightarrow> Scanner result" where "step src \<equiv> move (advance src)"
abbreviation skip :: "(char \<Rightarrow> bool) \<Rightarrow> string \<Rightarrow> Scanner \<Rightarrow> Scanner result" where "skip P src \<equiv> move (advance_while P src)"
abbreviation look :: "string \<Rightarrow> Scanner \<Rightarrow> nat \<Rightarrow> char" where "look src s \<equiv> peek src (sc_position s)"

section \<open>Trivia\<close>

text \<open>\<open>words >> prefix >> command\<close>: the first two words of a stream, empty when there are none.\<close>

definition isspace_c :: "char \<Rightarrow> bool" where
  "isspace_c c \<longleftrightarrow> isWhitespace c \<or> c = CHR 0x0B"

definition next_word :: "string \<Rightarrow> string \<times> string" where
  "next_word cs = (let cs = dropWhile isspace_c cs in (takeWhile (\<lambda>c. \<not> isspace_c c) cs, dropWhile (\<lambda>c. \<not> isspace_c c) cs))"

definition directive :: "string \<Rightarrow> SourcePosition \<Rightarrow> Scanner \<Rightarrow> Scanner" where
  "directive src start s =
     (let comment = map lower (substr src (offset start + 2) (offset (sc_position s) - offset start - 2));
          (prefix, rest) = next_word comment; command = fst (next_word rest);
          span = \<lparr>sp_start = start, sp_end = sc_position s\<rparr> in
      if prefix \<noteq> ''pragma'' \<and> prefix \<noteq> ''synthesis'' \<and> prefix \<noteq> ''synopsys'' then s
      else if command = ''translate_off'' then
        (if sc_excluded s then
           s\<lparr>sc_diagnostics := sc_diagnostics s @ [\<lparr>d_message = ''nested translate_off is unsupported'', d_span = span\<rparr>]\<rparr>
         else s\<lparr>sc_excluded := True, sc_exclusionStart := start\<rparr>)
      else if command = ''translate_on'' then
        (if \<not> sc_excluded s then
           s\<lparr>sc_diagnostics := sc_diagnostics s @ [\<lparr>d_message = ''translate_on without translate_off'', d_span = span\<rparr>],
             sc_excluded := False\<rparr>
         else s\<lparr>sc_excluded := False\<rparr>)
      else s)"

lemma directive_position [simp]: "sc_position (directive src start s) = sc_position s"
  by (simp add: directive_def Let_def split: prod.split)

lemma advance_while_offset: "advance_while P src p = Inr q \<Longrightarrow> offset p \<le> offset q"
proof (induction P src p rule: advance_while.induct)
  case (1 P src p)
  show ?case
  proof (cases "\<not> atEnd src p \<and> P (peek src p 0)")
    case True
    obtain r where r: "advance src p = Inr r" using True by (auto simp: advance_def vec_at_def atEnd_def)
    then have "advance_while P src r = Inr q" using 1(2) True by (simp add: advance_while.simps [of P src p])
    then show ?thesis using 1(1) [OF True r] advance_offset [OF r] by simp
  next
    case False
    then show ?thesis using 1(2) by (auto simp: advance_while.simps [of P src p])
  qed
qed

lemma advance_while_progress:
  assumes "advance_while P src p = Inr q" "P (peek src p 0)" "\<not> atEnd src p"
  shows "offset p < offset q"
proof -
  obtain r where r: "advance src p = Inr r" using assms(3) by (auto simp: advance_def vec_at_def atEnd_def)
  then have "advance_while P src r = Inr q" using assms by (simp add: advance_while.simps [of P src p])
  from advance_while_offset [OF this] advance_offset [OF r] show ?thesis by simp
qed

function skipTrivia :: "string \<Rightarrow> bool \<Rightarrow> Scanner \<Rightarrow> Scanner result" where
  "skipTrivia src synthesis s = rbind (skip isWhitespace src s) (\<lambda>s.
     if look src s 0 \<noteq> CHR ''-'' then Inr s
     else if look src s 1 \<noteq> CHR ''-'' then Inr s
     else rbind (skip (\<lambda>c. c \<noteq> newline) src s) (\<lambda>s'.
       skipTrivia src synthesis (if synthesis then directive src (sc_position s) s' else s')))"
  by pat_completeness auto
termination
proof (relation "measure (\<lambda>(src, synthesis, s). length src - offset (sc_position s))", goal_cases)
  case (2 src synthesis s s1 s2)
  have 1: "advance_while isWhitespace src (sc_position s) = Inr (sc_position s1)"
    "advance_while (\<lambda>c. c \<noteq> newline) src (sc_position s1) = Inr (sc_position s2)"
    using 2 by (auto simp: move_def rbind_eq_Inr_iff)
  have "\<not> atEnd src (sc_position s1)" "peek src (sc_position s1) 0 \<noteq> newline"
    using 2(2) by (auto simp: peek_def atEnd_def nul_def newline_def split: if_splits)
  then have "offset (sc_position s1) < offset (sc_position s2)" using advance_while_progress [OF 1(2)] by simp
  then show ?case
    using advance_while_offset [OF 1(1)] \<open>\<not> atEnd src (sc_position s1)\<close> by (auto simp: atEnd_def)
qed auto

declare skipTrivia.simps [simp del]

section \<open>Identifiers\<close>

definition no_double_underscore :: "string \<Rightarrow> bool" where
  "no_double_underscore cs \<longleftrightarrow> (\<forall>i\<in>set [1..<length cs]. \<not> (cs ! i = CHR ''_'' \<and> cs ! (i - 1) = CHR ''_''))"

definition scanIdentifier :: "string \<Rightarrow> SourcePosition \<Rightarrow> Scanner \<Rightarrow> Scanner result" where
  "scanIdentifier src start s = rbind (skip (\<lambda>c. isAlphaNumeric c \<or> c = CHR ''_'') src s) (\<lambda>s.
     let t = text_between src start (sc_position s) in
     if \<not> (t \<noteq> [] \<and> last t \<noteq> CHR ''_'' \<and> no_double_underscore t) then invalid src ''malformed basic identifier'' start s
     else Inr (emit src Identifier start (map lower t) s))"

text \<open>The loop after an opening backslash: whether it was closed, and where it ends.\<close>

function extended_loop :: "string \<Rightarrow> SourcePosition \<Rightarrow> (bool \<times> SourcePosition) result" where
  "extended_loop src p =
     (if atEnd src p then Inr (False, p)
      else if peek src p 0 \<noteq> CHR 0x5C then rbind (advance src p) (extended_loop src)
      else rbind (advance src p) (\<lambda>p. if peek src p 0 = CHR 0x5C then rbind (advance src p) (extended_loop src) else Inr (True, p)))"
  by pat_completeness auto
termination
  by (relation "measure (\<lambda>(src, p). length src - offset p)") (auto dest!: advance_offset)

declare extended_loop.simps [simp del]

definition scanExtendedIdentifier :: "string \<Rightarrow> SourcePosition \<Rightarrow> Scanner \<Rightarrow> Scanner result" where
  "scanExtendedIdentifier src start s = rbind (step src s) (\<lambda>s. rbind (extended_loop src (sc_position s)) (\<lambda>(closed, p).
     let s = s\<lparr>sc_position := p\<rparr> in
     if \<not> closed then invalid src ''unterminated extended identifier'' start s
     else Inr (emit src ExtendedIdentifier start '''' s)))"

section \<open>Numbers\<close>

text \<open>
  The scan of separators of \<open>validDecimalSeparators\<close>, and the same loop with \<open>isAlphaNumeric\<close> for based literals: the
  bytes at the ends of the range are tested first.
\<close>

fun valid_separators :: "(char \<Rightarrow> bool) \<Rightarrow> string \<Rightarrow> nat \<Rightarrow> nat \<Rightarrow> nat list \<Rightarrow> bool result" where
  "valid_separators digit src start last_index [] = Inr True"
| "valid_separators digit src start end (i # is) = rbind (vec_at src i) (\<lambda>c.
     if c \<noteq> CHR ''_'' then valid_separators digit src start end is
     else if i = start \<or> i + 1 = end then Inr False
     else rbind (vec_at src (i - 1)) (\<lambda>b. if \<not> digit b then Inr False
       else rbind (vec_at src (i + 1)) (\<lambda>a. if \<not> digit a then Inr False else valid_separators digit src start end is)))"

definition validDecimalSeparators :: "string \<Rightarrow> nat \<Rightarrow> nat \<Rightarrow> bool result" where
  "validDecimalSeparators src start end = valid_separators isDigit src start end [start..<end]"

abbreviation digits :: "char \<Rightarrow> bool" where "digits c \<equiv> isDigit c \<or> c = CHR ''_''"

text \<open>An exponent, of a decimal or of a based literal; then the literal is emitted.\<close>

definition scan_exponent :: "string \<Rightarrow> string \<Rightarrow> bool \<Rightarrow> SourcePosition \<Rightarrow> Scanner \<Rightarrow> Scanner result" where
  "scan_exponent src missing real start s =
     (let finish = (\<lambda>s. Inr (emit src (if real then RealLiteral else IntegerLiteral) start '''' s)) in
      if look src s 0 = CHR ''e'' \<or> look src s 0 = CHR ''E'' then
        rbind (step src s) (\<lambda>s.
        rbind (if look src s 0 = CHR ''+'' \<or> look src s 0 = CHR ''-'' then step src s else Inr s) (\<lambda>s.
        let exponentStart = offset (sc_position s) in
        if \<not> isDigit (look src s 0) then invalid src missing start s
        else rbind (skip digits src s) (\<lambda>s.
          rbind (validDecimalSeparators src exponentStart (offset (sc_position s))) (\<lambda>ok.
            if \<not> ok then invalid src ''underscores in an exponent must separate digits'' start s else finish s))))
      else finish s)"

definition scan_based :: "string \<Rightarrow> SourcePosition \<Rightarrow> Scanner \<Rightarrow> Scanner result" where
  "scan_based src start s =
     rbind (step src s) (\<lambda>s.
     let digitsStart = offset (sc_position s) in
     rbind (skip (\<lambda>c. c \<noteq> CHR ''#'') src s) (\<lambda>s.
     let real = (CHR ''.'' \<in> set (substr src digitsStart (offset (sc_position s) - digitsStart))) in
     if look src s 0 \<noteq> CHR ''#'' then invalid src ''unterminated based literal'' start s
     else rbind (step src s) (\<lambda>s.
       let end = offset (sc_position s) - 1 in
       rbind (valid_separators isAlphaNumeric src digitsStart end [digitsStart..<end]) (\<lambda>ok.
         if \<not> ok then invalid src ''underscores in a based literal must separate digits'' start s
         else scan_exponent src ''based literal exponent requires at least one digit'' real start s))))"

definition scan_decimal :: "string \<Rightarrow> SourcePosition \<Rightarrow> Scanner \<Rightarrow> Scanner result" where
  "scan_decimal src start s =
     (if look src s 0 = CHR ''.'' \<and> isDigit (look src s 1) then
        rbind (step src s) (\<lambda>s.
        let fractionStart = offset (sc_position s) in
        rbind (skip digits src s) (\<lambda>s.
        rbind (validDecimalSeparators src fractionStart (offset (sc_position s))) (\<lambda>ok.
          if \<not> ok then invalid src ''underscores in a decimal fraction must separate digits'' start s
          else scan_exponent src ''exponent requires at least one digit'' True start s)))
      else scan_exponent src ''exponent requires at least one digit'' False start s)"

definition scanNumber :: "string \<Rightarrow> SourcePosition \<Rightarrow> Scanner \<Rightarrow> Scanner result" where
  "scanNumber src start s = rbind (skip digits src s) (\<lambda>s.
     rbind (validDecimalSeparators src (offset start) (offset (sc_position s))) (\<lambda>ok.
     if \<not> ok then invalid src ''underscores in a decimal literal must separate digits'' start s
     else if look src s 0 = CHR ''#'' then scan_based src start s
     else scan_decimal src start s))"

section \<open>Strings, characters, symbols\<close>

text \<open>The loop after an opening quote.\<close>

function string_loop :: "string \<Rightarrow> SourcePosition \<Rightarrow> (bool \<times> SourcePosition) result" where
  "string_loop src p =
     (if atEnd src p then Inr (False, p)
      else rbind (vec_at src (offset p)) (\<lambda>c. rbind (advance src p) (\<lambda>p.
        if c \<noteq> CHR 0x22 then string_loop src p
        else if peek src p 0 = CHR 0x22 then rbind (advance src p) (string_loop src)
        else Inr (True, p))))"
  by pat_completeness auto
termination
  by (relation "measure (\<lambda>(src, p). length src - offset p)") (auto dest!: advance_offset)

declare string_loop.simps [simp del]

definition scanString :: "string \<Rightarrow> SourcePosition \<Rightarrow> Scanner \<Rightarrow> Scanner result" where
  "scanString src start s = rbind (step src s) (\<lambda>s. rbind (string_loop src (sc_position s)) (\<lambda>(closed, p).
     let s = s\<lparr>sc_position := p\<rparr> in
     if closed then Inr (emit src StringLiteral start '''' s)
     else invalid src ''unterminated string literal'' start s))"

abbreviation quote :: char where "quote \<equiv> CHR 0x27"

definition isCharacterLiteral :: "string \<Rightarrow> Scanner \<Rightarrow> bool" where
  "isCharacterLiteral src s \<longleftrightarrow>
     look src s 1 = quote \<and> look src s 2 = quote \<and> look src s 3 = quote \<or>
     look src s 1 \<noteq> nul \<and> look src s 2 = quote \<and> look src s 1 \<noteq> newline"

definition scanCharacter :: "string \<Rightarrow> SourcePosition \<Rightarrow> Scanner \<Rightarrow> Scanner result" where
  "scanCharacter src start s = rbind (step src s) (\<lambda>s. rbind (step src s) (\<lambda>s. rbind (step src s) (\<lambda>s.
     rbind (if substr src (offset start) 3 = [quote, quote, quote] \<and> look src s 0 = quote then step src s else Inr s) (\<lambda>s.
       Inr (emit src CharacterLiteral start '''' s)))))"

definition compound :: "string list" where
  "compound = ['':='', ''<='', ''>='', ''/='', ''=>'', ''**'', ''<>'', ''??'']"

definition punctuation :: string where
  "punctuation = ''&'' @ [quote] @ ''()*+,-./:;<=>|[]?''"

definition scanSymbol :: "string \<Rightarrow> SourcePosition \<Rightarrow> Scanner \<Rightarrow> Scanner result" where
  "scanSymbol src start s =
     (if look src s 0 \<notin> set punctuation then
        rbind (step src s) (invalid src ''invalid character in VHDL source'' start)
      else let candidate = [look src s 0] @ (if offset (sc_position s) + 1 < length src then [look src s 1] else []) in
        rbind (if candidate \<in> set compound then step src s else Inr s) (\<lambda>s.
        rbind (step src s) (\<lambda>s. Inr (emit src Symbol start '''' s))))"

section \<open>The scanner\<close>

definition scan_token :: "string \<Rightarrow> Scanner \<Rightarrow> Scanner result" where
  "scan_token src s = (let start = sc_position s; c = look src s 0 in
     if isAlpha c then scanIdentifier src start s
     else if c = CHR 0x5C then scanExtendedIdentifier src start s
     else if isDigit c then scanNumber src start s
     else if c = CHR 0x22 then scanString src start s
     else if c = quote \<and> isCharacterLiteral src s then scanCharacter src start s
     else scanSymbol src start s)"

end
