(* ===== verification/VHDLLexerProof.thy ===== *)
theory VHDLLexerProof
  imports VHDLLexer
begin

text \<open>
  What one token of the VHDL scanner is: every scanning function succeeds, moves forward inside the source and
  emits one token whose text is what it has passed and whose kind fits the text.
\<close>

section \<open>Positions\<close>

abbreviation reach :: "string \<Rightarrow> SourcePosition \<Rightarrow> SourcePosition \<Rightarrow> bool" where
  "reach src \<equiv> (\<lambda>p q. advance src p = Inr q)\<^sup>*\<^sup>*"

text \<open>The line is one more than the newlines before the offset, the column counts from the last of them.\<close>

definition pos_at :: "string \<Rightarrow> nat \<Rightarrow> SourcePosition" where
  "pos_at src n = \<lparr>offset = n, line = 1 + length (filter (\<lambda>c. c = newline) (take n src)),
     column = 1 + length (takeWhile (\<lambda>c. c \<noteq> newline) (rev (take n src)))\<rparr>"

lemma pos_at_0: "pos_at src 0 = first_position"
  by (simp add: pos_at_def first_position_def)

lemma advance_in: "offset p < length src \<Longrightarrow> \<exists>q. advance src p = Inr q \<and> offset q = Suc (offset p)"
  by (simp add: advance_def)

lemma advance_pos_at:
  assumes "advance src (pos_at src n) = Inr q"
  shows "q = pos_at src (Suc n)"
proof -
  have n: "n < length src" using advance_offset [OF assms] by (simp add: pos_at_def)
  then show ?thesis using assms by (auto simp: advance_def pos_at_def take_Suc_conv_app_nth split: if_splits)
qed

lemma reach_pos_at:
  assumes "reach src (pos_at src n) q"
  shows "q = pos_at src (offset q)"
  using assms
proof (induction rule: rtranclp_induct)
  case (step q r)
  then show ?case using advance_pos_at [of src "offset q" r] by (metis SourcePosition.select_convs(1) pos_at_def)
qed (simp add: pos_at_def)

lemma reach_offset: "reach src p q \<Longrightarrow> offset p \<le> offset q"
proof (induction rule: rtranclp_induct)
  case (step q r)
  then show ?case using advance_offset [of src q r] by simp
qed simp

lemma reach_in: "reach src p q \<Longrightarrow> offset p \<le> length src \<Longrightarrow> offset q \<le> length src"
proof (induction rule: rtranclp_induct)
  case (step q r)
  then show ?case using advance_offset [of src q r] by simp
qed simp

lemma text_append:
  assumes "reach src p q" "reach src q r"
  shows "text_between src p r = text_between src p q @ text_between src q r"
proof -
  obtain a b where "offset q = offset p + a" "offset r = offset q + b"
    using reach_offset [OF assms(1)] reach_offset [OF assms(2)] le_Suc_ex by metis
  then show ?thesis by (simp add: substr_def take_add add.commute)
qed

lemma substr_0 [simp]: "substr src i 0 = []"
  by (simp add: substr_def)

lemma text_length: "offset p \<le> offset q \<Longrightarrow> offset q \<le> length src \<Longrightarrow> length (text_between src p q) = offset q - offset p"
  by (simp add: substr_def)

lemma text_step: "advance src p = Inr q \<Longrightarrow> text_between src p q = [src ! offset p]"
  using advance_offset [of src p q] by (simp add: substr_def take_Suc_conv_app_nth hd_drop_conv_nth take_Suc)

text \<open>Stepping on a character that \<open>peek\<close> shows.\<close>

lemma step_peek:
  assumes "peek src p 0 = c" "c \<noteq> nul"
  obtains q where "advance src p = Inr q" "offset q = Suc (offset p)" "reach src p q" "text_between src p q = [c]" "offset p < length src"
proof -
  have i: "offset p < length src" "src ! offset p = c" using assms by (auto simp: peek_def split: if_splits)
  then obtain q where "advance src p = Inr q" "offset q = Suc (offset p)" using advance_in by blast
  then show thesis using that i text_step [of src p q] by blast
qed

lemma advance_while_ok:
  assumes "offset p \<le> length src"
  obtains q where "advance_while P src p = Inr q" "reach src p q" "\<forall>c\<in>set (text_between src p q). P c"
    "atEnd src q \<or> \<not> P (peek src q 0)"
proof -
  have "\<exists>q. advance_while P src p = Inr q \<and> reach src p q \<and> (\<forall>c\<in>set (text_between src p q). P c) \<and> (atEnd src q \<or> \<not> P (peek src q 0))"
    using assms
  proof (induction P src p rule: advance_while.induct)
    case (1 P src p)
    show ?case
    proof (cases "\<not> atEnd src p \<and> P (peek src p 0)")
      case True
      then obtain r where r: "advance src p = Inr r" "offset r = Suc (offset p)" using advance_in [of p src] by (auto simp: atEnd_def)
      then obtain q where q: "advance_while P src r = Inr q" "reach src r q" "\<forall>c\<in>set (text_between src r q). P c" "atEnd src q \<or> \<not> P (peek src q 0)"
        using 1(1) [OF True r(1)] True by (auto simp: atEnd_def)
      have "text_between src p q = src ! offset p # text_between src r q"
        using text_append [OF r_into_rtranclp [of "\<lambda>p q. advance src p = Inr q", OF r(1)] q(2)] text_step [OF r(1)] by simp
      then show ?thesis
        using q r(1) True by (subst advance_while.simps)
          (auto simp: peek_def atEnd_def intro: converse_rtranclp_into_rtranclp)
    next
      case False
      then show ?thesis by (auto simp: advance_while.simps [of P src p])
    qed
  qed
  then show thesis using that by blast
qed

section \<open>Texts of tokens\<close>

text \<open>Underscores stand between digits.\<close>

definition separated :: "(char \<Rightarrow> bool) \<Rightarrow> string \<Rightarrow> bool" where
  "separated digit cs \<longleftrightarrow> (\<forall>i<length cs. cs ! i = CHR ''_'' \<longrightarrow> 0 < i \<and> i + 1 < length cs \<and> digit (cs ! (i - 1)) \<and> digit (cs ! (i + 1)))"

definition digit_text :: "string \<Rightarrow> bool" where
  "digit_text cs \<longleftrightarrow> cs \<noteq> [] \<and> (\<forall>c\<in>set cs. isDigit c \<or> c = CHR ''_'') \<and> separated isDigit cs"

definition exponent_text :: "string \<Rightarrow> bool" where
  "exponent_text cs \<longleftrightarrow> cs = [] \<or> (\<exists>e sign ds. cs = [e] @ sign @ ds \<and> e \<in> {CHR ''e'', CHR ''E''} \<and> sign \<in> {[], ''+'', ''-''} \<and> digit_text ds)"

text \<open>A decimal literal, or a based one.\<close>

definition number_text :: "bool \<Rightarrow> string \<Rightarrow> bool" where
  "number_text real cs \<longleftrightarrow>
     (\<exists>i f e. cs = i @ f @ e \<and> digit_text i \<and> exponent_text e \<and> (if real then \<exists>ds. f = CHR ''.'' # ds \<and> digit_text ds else f = [])) \<or>
     (\<exists>i b e. cs = i @ [CHR ''#''] @ b @ [CHR ''#''] @ e \<and> digit_text i \<and> CHR ''#'' \<notin> set b \<and> separated isAlphaNumeric b \<and>
        exponent_text e \<and> real = (CHR ''.'' \<in> set b))"

definition identifier_text :: "string \<Rightarrow> bool" where
  "identifier_text cs \<longleftrightarrow> cs \<noteq> [] \<and> isAlpha (hd cs) \<and> (\<forall>c\<in>set cs. isAlphaNumeric c \<or> c = CHR ''_'') \<and>
     last cs \<noteq> CHR ''_'' \<and> (\<forall>i. Suc i < length cs \<longrightarrow> \<not> (cs ! Suc i = CHR ''_'' \<and> cs ! i = CHR ''_''))"

text \<open>A body in which the delimiter is doubled.\<close>

inductive doubled :: "char \<Rightarrow> string \<Rightarrow> bool" for q where
  doubled_Nil: "doubled q []"
| doubled_char: "c \<noteq> q \<Longrightarrow> doubled q cs \<Longrightarrow> doubled q (c # cs)"
| doubled_quote: "doubled q cs \<Longrightarrow> doubled q (q # q # cs)"

definition delimited :: "char \<Rightarrow> string \<Rightarrow> bool" where
  "delimited q cs \<longleftrightarrow> (\<exists>body. cs = [q] @ body @ [q] \<and> doubled q body)"

fun token_ok :: "TokenKind \<Rightarrow> string \<Rightarrow> string \<Rightarrow> bool" where
  "token_ok Identifier cs can \<longleftrightarrow> identifier_text cs \<and> can = map lower cs"
| "token_ok ExtendedIdentifier cs can \<longleftrightarrow> delimited (CHR 0x5C) cs \<and> can = []"
| "token_ok IntegerLiteral cs can \<longleftrightarrow> number_text False cs \<and> can = []"
| "token_ok RealLiteral cs can \<longleftrightarrow> number_text True cs \<and> can = []"
| "token_ok StringLiteral cs can \<longleftrightarrow> delimited (CHR 0x22) cs \<and> can = []"
| "token_ok CharacterLiteral cs can \<longleftrightarrow> (\<exists>c. cs = [quote, c, quote]) \<and> can = [] \<or> cs = replicate 4 quote \<and> can = []"
| "token_ok Symbol cs can \<longleftrightarrow> (cs \<in> set compound \<or> (\<exists>c\<in>set punctuation. cs = [c])) \<and> can = []"
| "token_ok Invalid cs can \<longleftrightarrow> can = []"
| "token_ok EndOfFile cs can \<longleftrightarrow> False"

text \<open>What a scanning function leaves behind: a position ahead and one token, with a diagnostic when it is invalid.\<close>

definition outcome :: "string \<Rightarrow> SourcePosition \<Rightarrow> Scanner \<Rightarrow> Scanner \<Rightarrow> bool" where
  "outcome src start s s' \<longleftrightarrow> (\<exists>q k can. reach src start q \<and> offset start < offset q \<and> token_ok k (text_between src start q) can \<and>
     (if k = Invalid then \<exists>m. s' = emit src Invalid start can (diagnose m start (s\<lparr>sc_position := q\<rparr>))
      else s' = emit src k start can (s\<lparr>sc_position := q\<rparr>)))"

lemma outcome_emit:
  assumes "reach src start q" "offset start < offset q" "k \<noteq> Invalid" "token_ok k (text_between src start q) can"
  shows "outcome src start s (emit src k start can (s\<lparr>sc_position := q\<rparr>))"
  unfolding outcome_def using assms by (intro exI [of _ q] exI [of _ k] exI [of _ can]) simp

lemma outcome_invalid:
  assumes "reach src start q" "offset start < offset q"
  shows "\<exists>s'. invalid src m start (s\<lparr>sc_position := q\<rparr>) = Inr s' \<and> outcome src start s s'"
proof -
  have "outcome src start s (emit src Invalid start '''' (diagnose m start (s\<lparr>sc_position := q\<rparr>)))"
    unfolding outcome_def using assms by (intro exI [of _ q] exI [of _ Invalid] exI [of _ "''''"]) auto
  then show ?thesis by (simp add: invalid_def)
qed

lemma outcome_move [simp]: "outcome src start (s\<lparr>sc_position := p\<rparr>) s' \<longleftrightarrow> outcome src start s s'"
  by (simp add: outcome_def)

lemma move_position: "f (sc_position s) = Inr q \<Longrightarrow> move f s = Inr (s\<lparr>sc_position := q\<rparr>)"
  by (simp add: move_def)

section \<open>Identifiers\<close>

lemma text_hd:
  assumes "reach src p q" "offset p < offset q" "offset p < length src"
  shows "text_between src p q \<noteq> []" "hd (text_between src p q) = src ! offset p"
proof -
  have "text_between src p q = take (offset q - offset p) (drop (offset p) src)" by (simp add: substr_def)
  then show "text_between src p q \<noteq> []" "hd (text_between src p q) = src ! offset p"
    using assms(2,3) by (auto simp: hd_drop_conv_nth)
qed

lemma not_nul: "isAlpha c \<Longrightarrow> c \<noteq> nul" "isDigit c \<Longrightarrow> c \<noteq> nul" "c \<in> set punctuation \<Longrightarrow> c \<noteq> nul"
  by (auto simp: isAlpha_def isUpper_def isDigit_def between_def nul_def punctuation_def)

lemma peek_in: "peek src p k = c \<Longrightarrow> c \<noteq> nul \<Longrightarrow> offset p + k < length src \<and> src ! (offset p + k) = c"
  by (auto simp: peek_def split: if_splits)

lemma peek_next: "offset q = Suc (offset p) \<Longrightarrow> peek src q 0 = peek src p 1"
  by (simp add: peek_def)

lemma no_double_underscore_iff:
  "no_double_underscore cs \<longleftrightarrow> (\<forall>i. Suc i < length cs \<longrightarrow> \<not> (cs ! Suc i = CHR ''_'' \<and> cs ! i = CHR ''_''))"
proof -
  have "(\<forall>i\<in>{1..<length cs}. \<not> (cs ! i = CHR ''_'' \<and> cs ! (i - 1) = CHR ''_'')) \<longleftrightarrow>
      (\<forall>i. Suc i < length cs \<longrightarrow> \<not> (cs ! Suc i = CHR ''_'' \<and> cs ! i = CHR ''_''))"
    by (auto simp: Ball_def)
  then show ?thesis by (simp add: no_double_underscore_def)
qed

lemma scanIdentifier_ok:
  assumes "start = sc_position s" "isAlpha (look src s 0)"
  shows "\<exists>s'. scanIdentifier src start s = Inr s' \<and> outcome src start s s'"
proof -
  have i: "offset start < length src" "isAlpha (src ! offset start)"
    using peek_in [OF refl not_nul(1) [OF assms(2)]] assms by auto
  let ?P = "\<lambda>c. isAlphaNumeric c \<or> c = CHR ''_''"
  obtain q where q: "advance_while ?P src start = Inr q" "reach src start q" "\<forall>c\<in>set (text_between src start q). ?P c"
    using advance_while_ok [OF less_imp_le [OF i(1)], of ?P] by blast
  have less: "offset start < offset q"
    using advance_while_progress [OF q(1)] assms i by (auto simp: isAlphaNumeric_def atEnd_def)
  let ?s = "s\<lparr>sc_position := q\<rparr>" and ?t = "text_between src start q"
  have sk: "skip ?P src s = Inr ?s" using move_position [of "advance_while ?P src" s q] q(1) assms(1) by simp
  show ?thesis
  proof (cases "?t \<noteq> [] \<and> last ?t \<noteq> CHR ''_'' \<and> no_double_underscore ?t")
    case True
    then have "token_ok Identifier ?t (map lower ?t)"
      using text_hd [OF q(2) less i(1)] i(2) q(3) by (simp add: identifier_text_def no_double_underscore_iff)
    then have "outcome src start s (emit src Identifier start (map lower ?t) ?s)"
      using q(2) less by (intro outcome_emit) simp_all
    then show ?thesis using sk True by (simp add: scanIdentifier_def)
  next
    case False
    then show ?thesis using sk outcome_invalid [OF q(2) less] by (simp add: scanIdentifier_def)
  qed
qed

text \<open>The loops of extended identifiers and of strings, after the opening delimiter.\<close>

lemma closing_loop_ok:
  assumes L: "\<And>p. L p = (if atEnd src p then Inr (False, p) else rbind (advance src p) (\<lambda>r.
      if src ! offset p \<noteq> d then L r else if peek src r 0 = d then rbind (advance src r) L else Inr (True, r)))"
    and d: "d \<noteq> nul"
  shows "offset p \<le> length src \<Longrightarrow> \<exists>closed q. L p = Inr (closed, q) \<and> reach src p q \<and>
    (closed \<longrightarrow> (\<exists>body. text_between src p q = body @ [d] \<and> doubled d body))"
proof (induction "length src - offset p" arbitrary: p rule: less_induct)
  case less
  show ?case
  proof (cases "atEnd src p")
    case True
    then show ?thesis by (auto simp: L [of p])
  next
    case False
    then have p: "offset p < length src" by (simp add: atEnd_def)
    then obtain r where r: "advance src p = Inr r" "offset r = Suc (offset p)" using advance_in by blast
    have d1: "length src - offset r < length src - offset p" using r(2) p by simp
    have pr: "reach src p r" using r(1) by blast
    have tr: "text_between src p x = src ! offset p # text_between src r x" if "reach src r x" for x
      using text_append [OF pr that] text_step [OF r(1)] by simp
    have Lp: "L p = (if src ! offset p \<noteq> d then L r else if peek src r 0 = d then rbind (advance src r) L else Inr (True, r))"
      using False r(1) by (simp add: L [of p])
    consider (plain) "src ! offset p \<noteq> d" | (double) "src ! offset p = d" "peek src r 0 = d" |
      (close) "src ! offset p = d" "peek src r 0 \<noteq> d" by blast
    then show ?thesis
    proof cases
      case plain
      obtain closed x where x: "L r = Inr (closed, x)" "reach src r x"
          "closed \<longrightarrow> (\<exists>body. text_between src r x = body @ [d] \<and> doubled d body)"
        using less.hyps [OF d1] r(2) p by (metis Suc_leI)
      have "closed \<longrightarrow> (\<exists>body. text_between src p x = body @ [d] \<and> doubled d body)"
        using x(3) tr [OF x(2)] plain doubled_char by (metis append_Cons)
      then show ?thesis using x(1,2) Lp plain rtranclp_trans [OF pr] by auto
    next
      case double
      have r0: "offset r < length src" "src ! offset r = d" using peek_in [OF double(2) d] by auto
      then obtain r2 where r2: "advance src r = Inr r2" "offset r2 = Suc (offset r)" using advance_in by blast
      have d2: "length src - offset r2 < length src - offset p" using r(2) r2(2) r0(1) by simp
      have rr2: "reach src r r2" using r2(1) by blast
      obtain closed x where x: "L r2 = Inr (closed, x)" "reach src r2 x"
          "closed \<longrightarrow> (\<exists>body. text_between src r2 x = body @ [d] \<and> doubled d body)"
        using less.hyps [OF d2] r2(2) r0(1) by (metis Suc_leI)
      have rx: "reach src r x" using rtranclp_trans [OF rr2 x(2)] .
      have "text_between src p x = d # d # text_between src r2 x"
        using tr [OF rx] text_append [OF rr2 x(2)] text_step [OF r2(1)] r0(2) double(1) by simp
      then have "closed \<longrightarrow> (\<exists>body. text_between src p x = body @ [d] \<and> doubled d body)"
        using x(3) doubled_quote by (metis append_Cons)
      then show ?thesis using x(1) Lp r2(1) double rtranclp_trans [OF pr rx] by auto
    next
      case close
      then have "text_between src p r = [] @ [d]" using tr [of r] by simp
      then show ?thesis using Lp close pr doubled_Nil by auto
    qed
  qed
qed

lemma extended_loop_ok:
  "offset p \<le> length src \<Longrightarrow> \<exists>closed q. extended_loop src p = Inr (closed, q) \<and> reach src p q \<and>
    (closed \<longrightarrow> (\<exists>body. text_between src p q = body @ [CHR 0x5C] \<and> doubled (CHR 0x5C) body))"
  by (rule closing_loop_ok, subst extended_loop.simps)
    (auto simp: nul_def peek_def atEnd_def advance_def intro!: rbind_cong)

lemma string_loop_ok:
  "offset p \<le> length src \<Longrightarrow> \<exists>closed q. string_loop src p = Inr (closed, q) \<and> reach src p q \<and>
    (closed \<longrightarrow> (\<exists>body. text_between src p q = body @ [CHR 0x22] \<and> doubled (CHR 0x22) body))"
  by (rule closing_loop_ok, subst string_loop.simps)
    (auto simp: nul_def atEnd_def intro!: rbind_cong)

section \<open>Extended identifiers, strings, characters, symbols\<close>

lemma step_ok:
  assumes "look src s 0 = c" "c \<noteq> nul"
  shows "\<exists>q. step src s = Inr (s\<lparr>sc_position := q\<rparr>) \<and> offset q = Suc (offset (sc_position s)) \<and> reach src (sc_position s) q \<and>
    text_between src (sc_position s) q = [c] \<and> offset q \<le> length src"
proof -
  obtain q where q: "advance src (sc_position s) = Inr q" "offset q = Suc (offset (sc_position s))" "reach src (sc_position s) q"
    "text_between src (sc_position s) q = [c]" "offset (sc_position s) < length src"
    using step_peek [OF assms] by blast
  then show ?thesis using move_position [of "advance src" s q] by (intro exI [of _ q]) simp
qed

lemma delimited_ok:
  assumes "start = sc_position s" "look src s 0 = d" "d \<noteq> nul" "k \<noteq> Invalid" "\<And>cs. delimited d cs \<Longrightarrow> token_ok k cs ''''"
    and L: "\<And>p. offset p \<le> length src \<Longrightarrow> \<exists>closed q. L p = Inr (closed, q) \<and> reach src p q \<and>
      (closed \<longrightarrow> (\<exists>body. text_between src p q = body @ [d] \<and> doubled d body))"
  shows "\<exists>closed q s'. rbind (step src s) (\<lambda>s. rbind (L (sc_position s)) (\<lambda>(closed, p). f closed (s\<lparr>sc_position := p\<rparr>))) =
      f closed (s\<lparr>sc_position := q\<rparr>) \<and> reach src start q \<and> offset start < offset q \<and>
      (closed \<longrightarrow> outcome src start s (emit src k start '''' (s\<lparr>sc_position := q\<rparr>)))"
proof -
  obtain r where r: "step src s = Inr (s\<lparr>sc_position := r\<rparr>)" "offset r = Suc (offset start)" "reach src start r"
    "text_between src start r = [d]" "offset r \<le> length src"
    using step_ok [OF assms(2,3)] unfolding assms(1) by blast
  obtain closed q where q: "L r = Inr (closed, q)" "reach src r q" "closed \<longrightarrow> (\<exists>body. text_between src r q = body @ [d] \<and> doubled d body)"
    using L [OF r(5)] by blast
  have sq: "reach src start q" "offset start < offset q" using rtranclp_trans [OF r(3) q(2)] reach_offset [OF q(2)] r(2) by auto
  have "delimited d (text_between src start q)" if closed
    using that q(3) text_append [OF r(3) q(2)] r(4) by (auto simp: delimited_def)
  then have "closed \<longrightarrow> outcome src start s (emit src k start '''' (s\<lparr>sc_position := q\<rparr>))"
    using outcome_emit [OF sq assms(4)] assms(5) by simp
  then show ?thesis using r(1) q(1) sq by auto
qed

lemma scanExtendedIdentifier_ok:
  assumes "start = sc_position s" "look src s 0 = CHR 0x5C"
  shows "\<exists>s'. scanExtendedIdentifier src start s = Inr s' \<and> outcome src start s s'"
proof -
  let ?f = "\<lambda>closed s. if \<not> closed then invalid src ''unterminated extended identifier'' start s else Inr (emit src ExtendedIdentifier start '''' s)"
  obtain closed q where q: "scanExtendedIdentifier src start s = ?f closed (s\<lparr>sc_position := q\<rparr>)" "reach src start q" "offset start < offset q"
    "closed \<longrightarrow> outcome src start s (emit src ExtendedIdentifier start '''' (s\<lparr>sc_position := q\<rparr>))"
    using delimited_ok [OF assms, of ExtendedIdentifier "extended_loop src" ?f, OF _ _ _ extended_loop_ok]
    unfolding scanExtendedIdentifier_def Let_def by (auto simp: nul_def)
  show ?thesis
  proof (cases closed)
    case False
    then show ?thesis using q(1) outcome_invalid [OF q(2,3)] by simp
  qed (use q in auto)
qed

lemma scanString_ok:
  assumes "start = sc_position s" "look src s 0 = CHR 0x22"
  shows "\<exists>s'. scanString src start s = Inr s' \<and> outcome src start s s'"
proof -
  let ?f = "\<lambda>closed s. if closed then Inr (emit src StringLiteral start '''' s) else invalid src ''unterminated string literal'' start s"
  obtain closed q where q: "scanString src start s = ?f closed (s\<lparr>sc_position := q\<rparr>)" "reach src start q" "offset start < offset q"
    "closed \<longrightarrow> outcome src start s (emit src StringLiteral start '''' (s\<lparr>sc_position := q\<rparr>))"
    using delimited_ok [OF assms, of StringLiteral "string_loop src" ?f, OF _ _ _ string_loop_ok]
    unfolding scanString_def Let_def by (auto simp: nul_def)
  show ?thesis
  proof (cases closed)
    case False
    then show ?thesis using q(1) outcome_invalid [OF q(2,3)] by simp
  qed (use q in auto)
qed

lemma scanSymbol_ok:
  assumes "start = sc_position s" "\<not> atEnd src start"
  shows "\<exists>s'. scanSymbol src start s = Inr s' \<and> outcome src start s s'"
proof -
  let ?c = "look src s 0"
  have p: "offset start < length src" "?c = src ! offset start" using assms by (auto simp: atEnd_def peek_def)
  obtain q where q: "advance src start = Inr q" "offset q = Suc (offset start)" using advance_in [OF p(1)] by blast
  have qr: "reach src start q" using q(1) by blast
  have st: "step src s = Inr (s\<lparr>sc_position := q\<rparr>)" using move_position [of "advance src" s q] q(1) assms(1) by simp
  have tq: "text_between src start q = [?c]" using text_step [OF q(1)] p(2) by simp
  show ?thesis
  proof (cases "?c \<in> set punctuation")
    case False
    have "offset start < offset q" using q(2) by simp
    then show ?thesis using False st outcome_invalid [OF qr] by (simp add: scanSymbol_def)
  next
    case True
    let ?cand = "[?c] @ (if offset (sc_position s) + 1 < length src then [look src s 1] else [])"
    show ?thesis
    proof (cases "?cand \<in> set compound")
      case False
      have "outcome src start s (emit src Symbol start '''' (s\<lparr>sc_position := q\<rparr>))"
        using qr q(2) True tq by (intro outcome_emit) auto
      then show ?thesis using True False st by (simp add: scanSymbol_def Let_def)
    next
      case comp: True
      then have two: "offset start + 1 < length src" using assms(1) by (auto simp: compound_def split: if_splits)
      then obtain r where r: "advance src q = Inr r" "offset r = Suc (offset q)" using advance_in [of q src] q(2) by auto
      have "text_between src start r = [?c, src ! offset q]"
        using text_append [OF qr, of r] r(1) tq text_step [OF r(1)] by (simp add: r_into_rtranclp)
      moreover have "look src s 1 = src ! offset q" using two q(2) assms(1) by (simp add: peek_def)
      ultimately have "text_between src start r \<in> set compound" using comp two assms(1) by simp
      moreover have "reach src start r" using qr r(1) by (rule rtranclp.rtrancl_into_rtrancl)
      ultimately have "outcome src start s (emit src Symbol start '''' (s\<lparr>sc_position := r\<rparr>))"
        using q(2) r(2) by (intro outcome_emit) auto
      moreover have "step src (s\<lparr>sc_position := q\<rparr>) = Inr (s\<lparr>sc_position := r\<rparr>)"
        using move_position [of "advance src" "s\<lparr>sc_position := q\<rparr>" r] r(1) by simp
      ultimately show ?thesis using True comp st by (simp add: scanSymbol_def Let_def)
    qed
  qed
qed

text \<open>\<open>n\<close> steps inside the source.\<close>

fun steps :: "nat \<Rightarrow> string \<Rightarrow> Scanner \<Rightarrow> Scanner result" where
  "steps 0 src s = Inr s"
| "steps (Suc n) src s = rbind (step src s) (steps n src)"

lemma steps_ok:
  "offset (sc_position s) + n \<le> length src \<Longrightarrow> \<exists>q. steps n src s = Inr (s\<lparr>sc_position := q\<rparr>) \<and> reach src (sc_position s) q \<and>
     offset q = offset (sc_position s) + n \<and> text_between src (sc_position s) q = substr src (offset (sc_position s)) n"
proof (induction n arbitrary: s)
  case (Suc n)
  let ?p = "sc_position s"
  obtain r where r: "advance src ?p = Inr r" "offset r = Suc (offset ?p)" using advance_in [of ?p src] Suc.prems by auto
  have st: "step src s = Inr (s\<lparr>sc_position := r\<rparr>)" using move_position [of "advance src" s r] r(1) by simp
  obtain q where q: "steps n src (s\<lparr>sc_position := r\<rparr>) = Inr (s\<lparr>sc_position := q\<rparr>)" "reach src r q" "offset q = offset r + n"
    using Suc.IH [of "s\<lparr>sc_position := r\<rparr>"] Suc.prems r(2) by auto
  then show ?case using st r by (auto intro: converse_rtranclp_into_rtranclp)
next
  case 0
  show ?case by (rule exI [of _ "sc_position s"]) simp
qed

lemma scanCharacter_ok:
  assumes "start = sc_position s" "look src s 0 = quote" "isCharacterLiteral src s"
  shows "\<exists>s'. scanCharacter src start s = Inr s' \<and> outcome src start s s'"
proof -
  have "look src s 2 = quote" using assms(3) by (auto simp: isCharacterLiteral_def)
  then have o: "offset start + 2 < length src" "src ! (offset start + 2) = quote" "src ! offset start = quote"
    using peek_in [of src start 2 quote] peek_in [of src start 0 quote] assms(1,2) by (auto simp: nul_def)
  obtain q where q: "steps 3 src s = Inr (s\<lparr>sc_position := q\<rparr>)" "reach src start q" "offset q = offset start + 3"
    "text_between src start q = substr src (offset start) 3"
    using steps_ok [of s 3 src] o(1) assms(1) by auto
  have "length (drop (offset start) src) \<ge> 3" using o(1) by simp
  then have sub: "substr src (offset start) 3 = [quote, src ! (offset start + 1), quote]"
    using o by (simp add: substr_def numeral_3_eq_3 take_Suc_conv_app_nth)
  obtain s1 s2 where "step src s = Inr s1" "step src s1 = Inr s2" "step src s2 = Inr (s\<lparr>sc_position := q\<rparr>)"
    using q(1) unfolding numeral_3_eq_3 by (auto simp: rbind_eq_Inr_iff)
  then have three: "rbind (step src s) (\<lambda>s. rbind (step src s) (\<lambda>s. rbind (step src s) f)) = f (s\<lparr>sc_position := q\<rparr>)" for f
    by simp
  show ?thesis
  proof (cases "substr src (offset start) 3 = [quote, quote, quote] \<and> look src (s\<lparr>sc_position := q\<rparr>) 0 = quote")
    case True
    obtain r where r: "step src (s\<lparr>sc_position := q\<rparr>) = Inr (s\<lparr>sc_position := r\<rparr>)" "offset r = Suc (offset q)" "reach src q r"
      "text_between src q r = [quote]"
      using step_ok [of src "s\<lparr>sc_position := q\<rparr>" quote] True by (auto simp: nul_def)
    have "text_between src start r = replicate 4 quote"
      using text_append [OF q(2) r(3)] r(4) q(4) True by (simp add: numeral_eq_Suc)
    then have "outcome src start s (emit src CharacterLiteral start '''' (s\<lparr>sc_position := r\<rparr>))"
      using rtranclp_trans [OF q(2) r(3)] q(3) r(2) by (intro outcome_emit) auto
    then show ?thesis using True r(1) unfolding scanCharacter_def three by simp
  next
    case False
    have "outcome src start s (emit src CharacterLiteral start '''' (s\<lparr>sc_position := q\<rparr>))"
      using q sub by (intro outcome_emit) auto
    then show ?thesis using False unfolding scanCharacter_def three by auto
  qed
qed

section \<open>Numbers\<close>

lemma valid_separators_ok:
  assumes "start \<le> k" "end \<le> length src"
  shows "valid_separators digit src start end [k..<end] =
    Inr (\<forall>i\<in>{k..<end}. src ! i = CHR ''_'' \<longrightarrow> i \<noteq> start \<and> i + 1 \<noteq> end \<and> digit (src ! (i - 1)) \<and> digit (src ! (i + 1)))"
  using assms
proof (induction "end - k" arbitrary: k)
  case 0
  then show ?case by simp
next
  case (Suc n)
  then have k: "k < end" by simp
  have IH: "valid_separators digit src start end [Suc k..<end] =
    Inr (\<forall>i\<in>{Suc k..<end}. src ! i = CHR ''_'' \<longrightarrow> i \<noteq> start \<and> i + 1 \<noteq> end \<and> digit (src ! (i - 1)) \<and> digit (src ! (i + 1)))"
    using Suc by (intro Suc.hyps(1)) auto
  have eq: "[k..<end] = k # [Suc k..<end]" "{k..<end} = insert k {Suc k..<end}" using k by (auto simp: upt_conv_Cons)
  have "k \<noteq> start \<Longrightarrow> k - 1 < length src" "k + 1 \<noteq> end \<Longrightarrow> k + 1 < length src" "k < length src" using k Suc.prems by auto
  then show ?case unfolding eq using IH k by (auto simp: vec_at_def)
qed

lemma separators_text:
  assumes "reach src p q" "offset q \<le> length src"
  shows "valid_separators digit src (offset p) (offset q) [offset p..<offset q] = Inr (separated digit (text_between src p q))"
proof -
  let ?t = "text_between src p q"
  have le: "offset p \<le> offset q" using reach_offset [OF assms(1)] .
  have len: "length ?t = offset q - offset p" using text_length [OF le assms(2)] .
  have nth: "?t ! i = src ! (offset p + i)" if "i < offset q - offset p" for i
    using that assms(2) by (simp add: substr_def)
  have "(\<forall>i\<in>{offset p..<offset q}. src ! i = CHR ''_'' \<longrightarrow> i \<noteq> offset p \<and> i + 1 \<noteq> offset q \<and> digit (src ! (i - 1)) \<and> digit (src ! (i + 1))) \<longleftrightarrow>
    separated digit ?t"
    unfolding separated_def len
  proof (intro iffI allI impI ballI)
    fix i assume a: "\<forall>i\<in>{offset p..<offset q}. src ! i = CHR ''_'' \<longrightarrow> i \<noteq> offset p \<and> i + 1 \<noteq> offset q \<and> digit (src ! (i - 1)) \<and> digit (src ! (i + 1))"
      and i: "i < offset q - offset p" "?t ! i = CHR ''_''"
    have m: "offset p + i \<in> {offset p..<offset q}" "src ! (offset p + i) = CHR ''_''" using i nth by auto
    then have r: "offset p + i \<noteq> offset p" "offset p + i + 1 \<noteq> offset q" "digit (src ! (offset p + i - 1))" "digit (src ! (offset p + i + 1))"
      using a by blast+
    then show "0 < i \<and> i + 1 < offset q - offset p \<and> digit (?t ! (i - 1)) \<and> digit (?t ! (i + 1))"
      using i(1) nth [of "i - 1"] nth [of "i + 1"] by auto
  next
    fix i assume a: "\<forall>i<offset q - offset p. ?t ! i = CHR ''_'' \<longrightarrow> 0 < i \<and> i + 1 < offset q - offset p \<and> digit (?t ! (i - 1)) \<and> digit (?t ! (i + 1))"
      and i: "i \<in> {offset p..<offset q}" "src ! i = CHR ''_''"
    have j: "i - offset p < offset q - offset p" "?t ! (i - offset p) = CHR ''_''" using i nth [of "i - offset p"] by auto
    then have r: "0 < i - offset p" "i - offset p + 1 < offset q - offset p" "digit (?t ! (i - offset p - 1))" "digit (?t ! (i - offset p + 1))"
      using a by blast+
    then show "i \<noteq> offset p \<and> i + 1 \<noteq> offset q \<and> digit (src ! (i - 1)) \<and> digit (src ! (i + 1))"
      using nth [of "i - offset p - 1"] nth [of "i - offset p + 1"] by auto
  qed
  then show ?thesis using valid_separators_ok [OF order_refl assms(2)] by simp
qed

text \<open>Digits with separators.\<close>

lemma digits_ok:
  assumes "isDigit (look src s 0)"
  shows "\<exists>q. skip digits src s = Inr (s\<lparr>sc_position := q\<rparr>) \<and> reach src (sc_position s) q \<and> offset (sc_position s) < offset q \<and>
    offset q \<le> length src \<and>
    validDecimalSeparators src (offset (sc_position s)) (offset q) = Inr (digit_text (text_between src (sc_position s) q))"
proof -
  let ?p = "sc_position s"
  have p: "offset ?p < length src" using peek_in [OF refl not_nul(2) [OF assms]] by simp
  obtain q where q: "advance_while digits src ?p = Inr q" "reach src ?p q" "\<forall>c\<in>set (text_between src ?p q). digits c"
    using advance_while_ok [OF less_imp_le [OF p], of digits] by blast
  have less: "offset ?p < offset q" using advance_while_progress [OF q(1)] assms p by (simp add: atEnd_def)
  have le: "offset q \<le> length src" using reach_in [OF q(2)] p by simp
  have "validDecimalSeparators src (offset ?p) (offset q) = Inr (digit_text (text_between src ?p q))"
    using separators_text [OF q(2) le] text_hd(1) [OF q(2) less p] q(3) by (simp add: validDecimalSeparators_def digit_text_def)
  then show ?thesis using move_position [of "advance_while digits src" s q] q less le by (intro exI [of _ q]) simp
qed

text \<open>An exponent follows a number; then the literal is complete.\<close>

lemma scan_exponent_ok:
  assumes "reach src start p" "offset start < offset p" "p = sc_position s" "offset p \<le> length src"
    and pre: "\<And>e. exponent_text e \<Longrightarrow> number_text real (text_between src start p @ e)"
  shows "\<exists>s'. scan_exponent src m real start s = Inr s' \<and> outcome src start s s'"
proof -
  let ?k = "if real then RealLiteral else IntegerLiteral"
  have fin: "outcome src start s (emit src ?k start '''' (s\<lparr>sc_position := q\<rparr>))"
    if "reach src p q" "exponent_text (text_between src p q)" for q
    using that pre [OF that(2)] text_append [OF assms(1) that(1)] rtranclp_trans [OF assms(1) that(1)] reach_offset [OF that(1)] assms(2)
    by (intro outcome_emit) auto
  show ?thesis
  proof (cases "look src s 0 = CHR ''e'' \<or> look src s 0 = CHR ''E''")
    case False
    have "s\<lparr>sc_position := p\<rparr> = s" using assms(3) by simp
    then show ?thesis using False fin [of p] by (auto simp: scan_exponent_def Let_def exponent_text_def)
  next
    case True
    then have "look src s 0 \<noteq> nul" by (auto simp: nul_def)
    then obtain q1 where q1: "step src s = Inr (s\<lparr>sc_position := q1\<rparr>)" "reach src p q1" "text_between src p q1 = [look src s 0]" "offset q1 \<le> length src"
      using step_ok [OF refl, of src s] unfolding assms(3) by blast
    let ?sgn = "look src (s\<lparr>sc_position := q1\<rparr>) 0"
    obtain q2 sign where q2: "(if ?sgn = CHR ''+'' \<or> ?sgn = CHR ''-'' then step src (s\<lparr>sc_position := q1\<rparr>) else Inr (s\<lparr>sc_position := q1\<rparr>)) = Inr (s\<lparr>sc_position := q2\<rparr>)"
      "reach src q1 q2" "text_between src q1 q2 = sign" "sign \<in> {[], ''+'', ''-''}" "offset q2 \<le> length src"
    proof (cases "?sgn = CHR ''+'' \<or> ?sgn = CHR ''-''")
      case sg: True
      then have "?sgn \<noteq> nul" by (auto simp: nul_def)
      from step_ok [OF refl this] obtain q2 where
        "step src (s\<lparr>sc_position := q1\<rparr>) = Inr (s\<lparr>sc_position := q2\<rparr>)" "reach src q1 q2" "text_between src q1 q2 = [?sgn]" "offset q2 \<le> length src"
        by auto
      then show thesis using that [of q2 "[?sgn]"] sg by auto
    next
      case False
      then show thesis using that [of q1 "[]"] q1(4) by simp
    qed
    have p2: "reach src p q2" using rtranclp_trans [OF q1(2) q2(2)] .
    show ?thesis
    proof (cases "isDigit (peek src q2 0)")
      case False
      have "reach src start q2" "offset start < offset q2" using rtranclp_trans [OF assms(1) p2] reach_offset [OF p2] assms(2) by auto
      from outcome_invalid [OF this, of m s] show ?thesis
        using True q1(1) q2(1) False by (simp add: scan_exponent_def Let_def)
    next
      case dig: True
      obtain q3 where q3: "skip digits src (s\<lparr>sc_position := q2\<rparr>) = Inr (s\<lparr>sc_position := q3\<rparr>)" "reach src q2 q3" 
        "validDecimalSeparators src (offset q2) (offset q3) = Inr (digit_text (text_between src q2 q3))"
        using digits_ok [of src "s\<lparr>sc_position := q2\<rparr>"] dig by auto
      have p3: "reach src p q3" using rtranclp_trans [OF p2 q3(2)] .
      have r: "scan_exponent src m real start s = (if digit_text (text_between src q2 q3) then Inr (emit src ?k start '''' (s\<lparr>sc_position := q3\<rparr>))
          else invalid src ''underscores in an exponent must separate digits'' start (s\<lparr>sc_position := q3\<rparr>))"
        using True q1(1) q2(1) dig q3(1,3) by (simp add: scan_exponent_def Let_def)
      show ?thesis
      proof (cases "digit_text (text_between src q2 q3)")
        case ok: True
        have "text_between src p q3 = [look src s 0] @ sign @ text_between src q2 q3"
          using text_append [OF p2 q3(2)] text_append [OF q1(2) q2(2)] q1(3) q2(3) by simp
        then have "exponent_text (text_between src p q3)" unfolding exponent_text_def using True q2(4) ok by blast
        then show ?thesis using r ok fin [OF p3] by simp
      next
        case False
        have "reach src start q3" "offset start < offset q3" using rtranclp_trans [OF assms(1) p3] reach_offset [OF p3] assms(2) by auto
        from outcome_invalid [OF this] show ?thesis using r False by simp
      qed
    qed
  qed
qed

lemma scan_decimal_ok:
  assumes "reach src start p" "offset start < offset p" "p = sc_position s" "offset p \<le> length src" "digit_text (text_between src start p)"
  shows "\<exists>s'. scan_decimal src start s = Inr s' \<and> outcome src start s s'"
proof (cases "look src s 0 = CHR ''.'' \<and> isDigit (look src s 1)")
  case False
  have "number_text False (text_between src start p @ e)" if "exponent_text e" for e
    unfolding number_text_def using assms(5) that by (intro disjI1 exI [of _ "text_between src start p"] exI [of _ "[]"] exI [of _ e]) simp
  from scan_exponent_ok [OF assms(1-4) this] show ?thesis using False by (auto simp: scan_decimal_def)
next
  case True
  then obtain q1 where q1: "step src s = Inr (s\<lparr>sc_position := q1\<rparr>)" "offset q1 = Suc (offset p)" "reach src p q1" "text_between src p q1 = ''.''"
    using step_ok [of src s "CHR ''.''"] assms(3) by (auto simp: nul_def)
  have "isDigit (peek src q1 0)" using True peek_next [OF q1(2)] assms(3) by simp
  then obtain q2 where q2: "skip digits src (s\<lparr>sc_position := q1\<rparr>) = Inr (s\<lparr>sc_position := q2\<rparr>)" "reach src q1 q2" "offset q2 \<le> length src"
    "validDecimalSeparators src (offset q1) (offset q2) = Inr (digit_text (text_between src q1 q2))"
    using digits_ok [of src "s\<lparr>sc_position := q1\<rparr>"] by auto
  have s2: "reach src start q2" "offset start < offset q2"
    using rtranclp_trans [OF assms(1) rtranclp_trans [OF q1(3) q2(2)]] reach_offset [OF q2(2)] q1(2) assms(2) by auto
  have r: "scan_decimal src start s = (if digit_text (text_between src q1 q2)
      then scan_exponent src ''exponent requires at least one digit'' True start (s\<lparr>sc_position := q2\<rparr>)
      else invalid src ''underscores in a decimal fraction must separate digits'' start (s\<lparr>sc_position := q2\<rparr>))"
    using True q1(1) q2(1,4) by (simp add: scan_decimal_def Let_def)
  show ?thesis
  proof (cases "digit_text (text_between src q1 q2)")
    case ok: True
    have "text_between src start q2 = text_between src start p @ ''.'' @ text_between src q1 q2"
      using text_append [OF assms(1) rtranclp_trans [OF q1(3) q2(2)]] text_append [OF q1(3) q2(2)] q1(4) by simp
    then have "number_text True (text_between src start q2 @ e)" if "exponent_text e" for e
      unfolding number_text_def using assms(5) that ok
      by (intro disjI1 exI [of _ "text_between src start p"] exI [of _ "CHR ''.'' # text_between src q1 q2"] exI [of _ e]) simp
    from scan_exponent_ok [OF s2 _ q2(3) this, of "s\<lparr>sc_position := q2\<rparr>"] show ?thesis using r ok by auto
  next
    case False
    then show ?thesis using r outcome_invalid [OF s2] by simp
  qed
qed

lemma scan_based_ok:
  assumes "reach src start p" "offset start < offset p" "p = sc_position s" "digit_text (text_between src start p)" "look src s 0 = CHR ''#''"
  shows "\<exists>s'. scan_based src start s = Inr s' \<and> outcome src start s s'"
proof -
  have hash: "CHR ''#'' \<noteq> nul" by (simp add: nul_def)
  obtain q1 where q1: "step src s = Inr (s\<lparr>sc_position := q1\<rparr>)" "reach src p q1" "text_between src p q1 = ''#''" "offset q1 \<le> length src"
    using step_ok [OF assms(5) hash] unfolding assms(3) by blast
  let ?P = "\<lambda>c. c \<noteq> CHR ''#''"
  obtain q2 where q2: "advance_while ?P src q1 = Inr q2" "reach src q1 q2" "\<forall>c\<in>set (text_between src q1 q2). ?P c"
    using advance_while_ok [OF q1(4), of ?P] by blast
  let ?b = "text_between src q1 q2"
  have sk: "skip ?P src (s\<lparr>sc_position := q1\<rparr>) = Inr (s\<lparr>sc_position := q2\<rparr>)"
    using move_position [of "advance_while ?P src" "s\<lparr>sc_position := q1\<rparr>" q2] q2(1) by simp
  have p2: "reach src p q2" using rtranclp_trans [OF q1(2) q2(2)] .
  have s2: "reach src start q2" "offset start < offset q2" using rtranclp_trans [OF assms(1) p2] reach_offset [OF p2] assms(2) by auto
  show ?thesis
  proof (cases "peek src q2 0 = CHR ''#''")
    case False
    then show ?thesis using q1(1) sk outcome_invalid [OF s2] by (simp add: scan_based_def Let_def)
  next
    case True
    then have "look src (s\<lparr>sc_position := q2\<rparr>) 0 = CHR ''#''" by simp
    from step_ok [OF this hash] obtain q3 where q3: "step src (s\<lparr>sc_position := q2\<rparr>) = Inr (s\<lparr>sc_position := q3\<rparr>)" "offset q3 = Suc (offset q2)" "reach src q2 q3"
      "text_between src q2 q3 = ''#''" "offset q3 \<le> length src" by auto
    have s3: "reach src start q3" "offset start < offset q3" using rtranclp_trans [OF s2(1) q3(3)] s2(2) q3(2) by auto
    have sep: "valid_separators isAlphaNumeric src (offset q1) (offset q2) [offset q1..<offset q2] = Inr (separated isAlphaNumeric ?b)"
      using separators_text [OF q2(2)] q3(2,5) by simp
    have r: "scan_based src start s = (if separated isAlphaNumeric ?b
        then scan_exponent src ''based literal exponent requires at least one digit'' (CHR ''.'' \<in> set ?b) start (s\<lparr>sc_position := q3\<rparr>)
        else invalid src ''underscores in a based literal must separate digits'' start (s\<lparr>sc_position := q3\<rparr>))"
      using q1(1) sk True q3(1,2) sep by (simp add: scan_based_def Let_def)
    show ?thesis
    proof (cases "separated isAlphaNumeric ?b")
      case ok: True
      have whole: "text_between src start q3 = text_between src start p @ [CHR ''#''] @ ?b @ [CHR ''#'']"
        using text_append [OF s2(1) q3(3)] text_append [OF assms(1) p2] text_append [OF q1(2) q2(2)] q1(3) q3(4) by simp
      have nohash: "CHR ''#'' \<notin> set ?b" using q2(3) by blast
      have "number_text (CHR ''.'' \<in> set ?b) (text_between src start q3 @ e)" if "exponent_text e" for e
        unfolding number_text_def whole using assms(4) that ok nohash
        by (intro disjI2 exI [of _ "text_between src start p"] exI [of _ ?b] exI [of _ e] conjI) simp_all
      from scan_exponent_ok [OF s3 _ q3(5) this, of "s\<lparr>sc_position := q3\<rparr>"] show ?thesis using r ok by auto
    next
      case False
      then show ?thesis using r outcome_invalid [OF s3] by simp
    qed
  qed
qed

lemma scanNumber_ok:
  assumes "start = sc_position s" "isDigit (look src s 0)"
  shows "\<exists>s'. scanNumber src start s = Inr s' \<and> outcome src start s s'"
proof -
  obtain q where q: "skip digits src s = Inr (s\<lparr>sc_position := q\<rparr>)" "reach src start q" "offset start < offset q" "offset q \<le> length src"
    "validDecimalSeparators src (offset start) (offset q) = Inr (digit_text (text_between src start q))"
    using digits_ok [OF assms(2)] assms(1) by auto
  show ?thesis
  proof (cases "digit_text (text_between src start q)")
    case False
    then show ?thesis using q(1,5) outcome_invalid [OF q(2,3)] by (simp add: scanNumber_def)
  next
    case True
    then show ?thesis
      using q(1,5) scan_based_ok [OF q(2,3), of "s\<lparr>sc_position := q\<rparr>"] scan_decimal_ok [OF q(2,3), of "s\<lparr>sc_position := q\<rparr>"] q(4)
      by (cases "peek src q 0 = CHR ''#''") (simp_all add: scanNumber_def)
  qed
qed

lemma scan_token_ok:
  assumes "\<not> atEnd src (sc_position s)"
  shows "\<exists>s'. scan_token src s = Inr s' \<and> outcome src (sc_position s) s s'"
  using scanIdentifier_ok [of "sc_position s" s src] scanExtendedIdentifier_ok [of "sc_position s" s src]
    scanNumber_ok [of "sc_position s" s src] scanString_ok [of "sc_position s" s src] scanCharacter_ok [of "sc_position s" s src]
    scanSymbol_ok [of "sc_position s" s src] assms
  unfolding scan_token_def Let_def by simp

end
