(* ===== verification/VHDLScan.thy ===== *)
theory VHDLScan
  imports VHDLLexerProof
begin

text \<open>
  The loop of the VHDL scanner: what lies between two tokens is white space and comments, so tokens and trivia
  together are the source.
\<close>

section \<open>Trivia\<close>

text \<open>
  White space and comments.  A comment ends before a newline, or with the source: the first argument says whether the
  trivia stand at the end of the source.
\<close>

inductive trivia :: "bool \<Rightarrow> string \<Rightarrow> bool" for at_end where
  trivia_Nil: "trivia at_end []"
| trivia_space: "isWhitespace c \<Longrightarrow> trivia at_end cs \<Longrightarrow> trivia at_end (c # cs)"
| trivia_comment: "newline \<notin> set cs \<Longrightarrow> trivia at_end ds \<Longrightarrow> (if ds = [] then at_end else hd ds = newline) \<Longrightarrow> trivia at_end (''--'' @ cs @ ds)"

lemma trivia_spaces: "\<forall>c\<in>set cs. isWhitespace c \<Longrightarrow> trivia b ds \<Longrightarrow> trivia b (cs @ ds)"
  by (induction cs) (auto intro: trivia_space)

text \<open>What follows a comment that was read up to a newline or the end of the source.\<close>

lemma comment_end:
  assumes r: "reach src p q" and le: "offset p \<le> length src" and e: "atEnd src p \<or> peek src p 0 = newline"
    and prog: "\<not> atEnd src p \<Longrightarrow> offset p < offset q"
  shows "if text_between src p q = [] then atEnd src q else hd (text_between src p q) = newline"
proof (cases "atEnd src p")
  case True
  then show ?thesis using reach_offset [OF r] reach_in [OF r le] by (simp add: atEnd_def substr_def)
next
  case False
  then show ?thesis using prog e reach_in [OF r le] by (auto simp: atEnd_def peek_def substr_def hd_drop_conv_nth hd_take)
qed

text \<open>Trivia leave tokens alone; diagnostics come from directives only.\<close>

lemma skipTrivia_ok:
  "offset (sc_position s) \<le> length src \<Longrightarrow> \<exists>s' q. skipTrivia src synthesis s = Inr s' \<and> q = sc_position s' \<and>
     reach src (sc_position s) q \<and> trivia (atEnd src q) (text_between src (sc_position s) q) \<and> sc_tokens s' = sc_tokens s \<and>
     (\<not> synthesis \<longrightarrow> s' = s\<lparr>sc_position := q\<rparr>) \<and>
     (\<not> atEnd src (sc_position s) \<longrightarrow> peek src (sc_position s) 0 = newline \<longrightarrow> offset (sc_position s) < offset q)"
proof (induction src synthesis s rule: skipTrivia.induct)
  case (1 src synthesis s)
  let ?p = "sc_position s"
  obtain q1 where q1: "advance_while isWhitespace src ?p = Inr q1" "reach src ?p q1" "\<forall>c\<in>set (text_between src ?p q1). isWhitespace c"
    using advance_while_ok [OF 1(2), of isWhitespace] by blast
  let ?s1 = "s\<lparr>sc_position := q1\<rparr>"
  have sk1: "skip isWhitespace src s = Inr ?s1" using move_position [of "advance_while isWhitespace src" s q1] q1(1) by simp
  have t1: "trivia b (text_between src ?p q1)" for b using trivia_spaces [OF q1(3) trivia_Nil] by simp
  have prog: "offset ?p < offset q1" if "\<not> atEnd src ?p" "peek src ?p 0 = newline"
    using advance_while_progress [OF q1(1)] that by (simp add: isWhitespace_def newline_def)
  show ?case
  proof (cases "peek src q1 0 = CHR ''-'' \<and> peek src q1 1 = CHR ''-''")
    case False
    then have "skipTrivia src synthesis s = Inr ?s1" using sk1 by (auto simp: skipTrivia.simps [of src synthesis s])
    then show ?thesis using q1(2) t1 prog by simp
  next
    case True
    let ?P = "\<lambda>c. c \<noteq> newline"
    have le1: "offset q1 \<le> length src" using reach_in [OF q1(2) 1(2)] .
    obtain q2 where q2: "advance_while ?P src q1 = Inr q2" "reach src q1 q2" "\<forall>c\<in>set (text_between src q1 q2). ?P c"
      "atEnd src q2 \<or> \<not> ?P (peek src q2 0)"
      using advance_while_ok [OF le1, of ?P] by blast
    let ?s2 = "s\<lparr>sc_position := q2\<rparr>"
    have sk2: "skip ?P src ?s1 = Inr ?s2" using move_position [of "advance_while ?P src" ?s1 q2] q2(1) by simp
    define s3 where "s3 = (if synthesis then directive src (sc_position ?s1) ?s2 else ?s2)"
    have pos3: "sc_position s3 = q2" by (simp add: s3_def)
    have le2: "offset q2 \<le> length src" using reach_in [OF q2(2) le1] .
    obtain s' q where s': "skipTrivia src synthesis s3 = Inr s'" "q = sc_position s'" "reach src q2 q" "trivia (atEnd src q) (text_between src q2 q)"
      "sc_tokens s' = sc_tokens s3" "\<not> synthesis \<longrightarrow> s' = s3\<lparr>sc_position := q\<rparr>"
      "\<not> atEnd src q2 \<Longrightarrow> peek src q2 0 = newline \<Longrightarrow> offset q2 < offset q"
      using 1(1) [OF sk1 _ _ sk2, folded s3_def] True le2 pos3 by auto
    have run: "skipTrivia src synthesis s = Inr s'" using sk1 sk2 True s'(1) unfolding s3_def by (simp add: skipTrivia.simps [of src synthesis s])
    have toks: "sc_tokens s3 = sc_tokens s" "\<not> synthesis \<Longrightarrow> s3 = ?s2" by (simp_all add: s3_def directive_def Let_def split: prod.split)
    have d: "peek src q1 0 = CHR ''-''" "peek src q1 1 = CHR ''-''" using True by auto
    have in1: "offset q1 + 1 < length src" "src ! offset q1 = CHR ''-''" "src ! (offset q1 + 1) = CHR ''-''"
      using peek_in [OF d(1)] peek_in [OF d(2)] by (auto simp: nul_def)
    have o2: "offset q1 + 2 \<le> offset q2"
    proof -
      obtain r where r: "advance src q1 = Inr r" "offset r = Suc (offset q1)" using advance_in [of q1 src] in1(1) by auto
      have "advance_while ?P src r = Inr q2" using q2(1) r(1) d(1) in1(1) by (subst (asm) advance_while.simps) (simp add: atEnd_def newline_def)
      moreover have "peek src r 0 \<noteq> newline" "\<not> atEnd src r" using r(2) in1 by (auto simp: peek_def atEnd_def newline_def)
      ultimately show ?thesis using advance_while_progress [of ?P src r q2] r(2) by simp
    qed
    have "take 2 (text_between src q1 q2) = ''--''"
      using in1 o2 by (simp add: substr_def numeral_2_eq_2 take_Suc_conv_app_nth min_def)
    then have "text_between src q1 q2 = ''--'' @ drop 2 (text_between src q1 q2)" by (metis append_take_drop_id)
    moreover have "newline \<notin> set (drop 2 (text_between src q1 q2))" using q2(3) in_set_dropD by fast
    moreover have "if text_between src q2 q = [] then atEnd src q else hd (text_between src q2 q) = newline"
      by (rule comment_end [OF s'(3) le2]) (use q2(4) s'(7) in auto)
    ultimately have "trivia (atEnd src q) (text_between src q1 q2 @ text_between src q2 q)"
      using trivia_comment [of "drop 2 (text_between src q1 q2)" "atEnd src q" "text_between src q2 q"] s'(4) by (metis append.assoc)
    then have "trivia (atEnd src q) (text_between src ?p q)"
      using trivia_spaces [OF q1(3)] text_append [OF q1(2) rtranclp_trans [OF q2(2) s'(3)]] text_append [OF q2(2) s'(3)] by simp
    moreover have "reach src ?p q" using rtranclp_trans [OF q1(2) rtranclp_trans [OF q2(2) s'(3)]] .
    ultimately show ?thesis using run s'(2,5,6) toks prog reach_offset [OF rtranclp_trans [OF q2(2) s'(3)]] by auto
  qed
qed

section \<open>The loop\<close>

lemma outcome_position:
  assumes "outcome src start s s'"
  shows "reach src start (sc_position s')" "offset start < offset (sc_position s')"
  using assms by (auto simp: outcome_def emit_def diagnose_def split: if_splits)

function scan_loop :: "string \<Rightarrow> bool \<Rightarrow> Scanner \<Rightarrow> Scanner result" where
  "scan_loop src synthesis s =
     (if atEnd src (sc_position s) then Inr s
      else rbind (skipTrivia src synthesis s) (\<lambda>s.
        if atEnd src (sc_position s) then Inr s else rbind (scan_token src s) (scan_loop src synthesis)))"
  by pat_completeness auto
termination
proof (relation "measure (\<lambda>(src, synthesis, s). length src - offset (sc_position s))", goal_cases)
  case (2 src synthesis s s1 s2)
  obtain s1' where s1': "skipTrivia src synthesis s = Inr s1'" "reach src (sc_position s) (sc_position s1')"
    using skipTrivia_ok [of s src synthesis] 2(1) by (auto simp: atEnd_def)
  obtain s2' where s2': "scan_token src s1 = Inr s2'" "outcome src (sc_position s1) s1 s2'" using scan_token_ok [OF 2(3)] by blast
  have "offset (sc_position s) \<le> offset (sc_position s1)" using reach_offset [OF s1'(2)] s1'(1) 2(2) by simp
  moreover have "offset (sc_position s1) < offset (sc_position s2)" using outcome_position(2) [OF s2'(2)] s2'(1) 2(4) by simp
  ultimately show ?case using 2(3) by (auto simp: atEnd_def)
qed simp

declare scan_loop.simps [simp del]

definition scan :: "string \<Rightarrow> bool \<Rightarrow> (Token list \<times> LexDiagnostic list) result" where
  "scan src synthesis = rbind (scan_loop src synthesis new_scanner) (\<lambda>s.
     let p = sc_position s;
         diagnostics = (if sc_excluded s then sc_diagnostics s @ [\<lparr>d_message = ''unterminated translate_off region'',
           d_span = \<lparr>sp_start = sc_exclusionStart s, sp_end = p\<rparr>\<rparr>] else sc_diagnostics s) in
     Inr (sc_tokens s @ [\<lparr>t_kind = EndOfFile, t_text = [], t_canonical = [], t_span = \<lparr>sp_start = p, sp_end = p\<rparr>\<rparr>], diagnostics))"

text \<open>An invariant of every turn of the loop is an invariant of the loop.\<close>

lemma scan_loop_induct:
  assumes turn: "\<And>s s1 s2. I s \<Longrightarrow> \<not> atEnd src (sc_position s) \<Longrightarrow> skipTrivia src synthesis s = Inr s1 \<Longrightarrow> \<not> atEnd src (sc_position s1) \<Longrightarrow>
      outcome src (sc_position s1) s1 s2 \<Longrightarrow> I s2"
  shows "I s \<Longrightarrow> offset (sc_position s) \<le> length src \<Longrightarrow> \<exists>s0 s'. scan_loop src synthesis s = Inr s' \<and> I s0 \<and> offset (sc_position s0) \<le> length src \<and>
    (s' = s0 \<or> skipTrivia src synthesis s0 = Inr s') \<and> atEnd src (sc_position s')"
proof (induction "length src - offset (sc_position s)" arbitrary: s rule: less_induct)
  case less
  show ?case
  proof (cases "atEnd src (sc_position s)")
    case True
    then show ?thesis using less.prems by (auto simp: scan_loop.simps [of src synthesis s])
  next
    case False
    obtain s1 where s1: "skipTrivia src synthesis s = Inr s1" "reach src (sc_position s) (sc_position s1)"
      using skipTrivia_ok [OF less.prems(2), of synthesis] by blast
    show ?thesis
    proof (cases "atEnd src (sc_position s1)")
      case True
      then show ?thesis using less.prems s1(1) False by (auto simp: scan_loop.simps [of src synthesis s])
    next
      case more: False
      obtain s2 where s2: "scan_token src s1 = Inr s2" "outcome src (sc_position s1) s1 s2" using scan_token_ok [OF more] by blast
      note o = outcome_position [OF s2(2)] reach_offset [OF s1(2)]
      have le: "offset (sc_position s2) \<le> length src" using reach_in [OF o(1)] more by (simp add: atEnd_def)
      have "scan_loop src synthesis s = scan_loop src synthesis s2"
        using s1(1) s2(1) False more by (simp add: scan_loop.simps [of src synthesis s])
      moreover have "length src - offset (sc_position s2) < length src - offset (sc_position s)" using o(2,3) False by (simp add: atEnd_def)
      ultimately show ?thesis using less.hyps [OF _ turn [OF less.prems(1) False s1(1) more s2(2)] le] by simp
    qed
  qed
qed

section \<open>Tokens of a source\<close>

text \<open>A token spans a non-empty part of the source, with the line and column of both ends, and fits its kind.\<close>

definition spans :: "string \<Rightarrow> Token \<Rightarrow> bool" where
  "spans src t \<longleftrightarrow> (let a = offset (sp_start (t_span t)); b = offset (sp_end (t_span t)) in
     a < b \<and> b \<le> length src \<and> t_span t = \<lparr>sp_start = pos_at src a, sp_end = pos_at src b\<rparr> \<and> t_text t = substr src a (b - a))"

definition token_wf :: "string \<Rightarrow> Token \<Rightarrow> bool" where
  "token_wf src t \<longleftrightarrow> spans src t \<and> token_ok (t_kind t) (t_text t) (t_canonical t)"

definition before :: "Token \<Rightarrow> Token \<Rightarrow> bool" where
  "before t u \<longleftrightarrow> offset (sp_end (t_span t)) \<le> offset (sp_start (t_span u))"

definition lex_inv :: "string \<Rightarrow> Scanner \<Rightarrow> bool" where
  "lex_inv src s \<longleftrightarrow> reach src first_position (sc_position s) \<and> (\<forall>t\<in>set (sc_tokens s). token_wf src t) \<and>
     sorted_wrt before (sc_tokens s) \<and> (\<forall>t\<in>set (sc_tokens s). offset (sp_end (t_span t)) \<le> offset (sc_position s))"

lemma reach_first: "reach src first_position p \<Longrightarrow> p = pos_at src (offset p) \<and> offset p \<le> length src"
  using reach_pos_at [of src 0 p] reach_in [of src first_position p] by (simp add: pos_at_0) (simp add: first_position_def)

text \<open>The token a turn of the loop adds.\<close>

lemma outcome_token:
  assumes "outcome src start s s'" "reach src first_position start"
  shows "sc_excluded s' = sc_excluded s \<and> (if sc_excluded s then sc_tokens s' = sc_tokens s \<and> sc_diagnostics s' = sc_diagnostics s
    else \<exists>t. sc_tokens s' = sc_tokens s @ [t] \<and> token_wf src t \<and> t_span t = \<lparr>sp_start = start, sp_end = sc_position s'\<rparr> \<and>
      t_text t = text_between src start (sc_position s') \<and>
      map d_span (sc_diagnostics s') = map d_span (sc_diagnostics s) @ (if t_kind t = Invalid then [t_span t] else []))"
proof -
  obtain q k can where q: "reach src start q" "offset start < offset q" "token_ok k (text_between src start q) can"
    "if k = Invalid then \<exists>m. s' = emit src Invalid start can (diagnose m start (s\<lparr>sc_position := q\<rparr>))
      else s' = emit src k start can (s\<lparr>sc_position := q\<rparr>)"
    using assms(1) by (auto simp: outcome_def)
  let ?t = "\<lparr>t_kind = k, t_text = text_between src start q, t_canonical = can, t_span = \<lparr>sp_start = start, sp_end = q\<rparr>\<rparr>"
  have "start = pos_at src (offset start)" "q = pos_at src (offset q)" "offset q \<le> length src"
    using reach_first [OF assms(2)] reach_first [OF rtranclp_trans [OF assms(2) q(1)]] by auto
  then have "token_wf src ?t" using q(2,3) by (simp add: token_wf_def spans_def)
  then show ?thesis using q(4) by (cases "k = Invalid") (auto simp: emit_def diagnose_def)
qed

lemma lex_inv_turn:
  assumes inv: "lex_inv src s" and s1: "skipTrivia src synthesis s = Inr s1" and s2: "outcome src (sc_position s1) s1 s2"
  shows "lex_inv src s2"
proof -
  have r: "reach src first_position (sc_position s)" using inv by (simp add: lex_inv_def)
  have "reach src (sc_position s) (sc_position s1)" "sc_tokens s1 = sc_tokens s"
    using skipTrivia_ok [of s src synthesis] reach_first [OF r] s1 by auto
  note t = this
  have r1: "reach src first_position (sc_position s1)" using rtranclp_trans [OF r t(1)] .
  note o = outcome_position [OF s2]
  have le: "offset (sc_position s) \<le> offset (sc_position s1)" using reach_offset [OF t(1)] .
  have ends: "offset (sp_end (t_span x)) \<le> offset (sc_position s1)" "offset (sp_end (t_span x)) \<le> offset (sc_position s2)"
    if "x \<in> set (sc_tokens s)" for x
    using inv that le o(2) unfolding lex_inv_def by (meson order_trans less_imp_le)+
  then show ?thesis
    using outcome_token [OF s2 r1] inv o(2) rtranclp_trans [OF r1 o(1)] unfolding lex_inv_def t(2)
    by (cases "sc_excluded s1") (auto simp: sorted_wrt_append before_def)
qed

text \<open>Outside synthesis mode nothing is excluded: trivia and tokens make up the source read so far.\<close>

definition rebuild :: "string list \<Rightarrow> Token list \<Rightarrow> string" where
  "rebuild gaps ts = concat (map2 (\<lambda>g t. g @ t_text t) gaps ts)"

definition lossless :: "string \<Rightarrow> Scanner \<Rightarrow> bool" where
  "lossless src s \<longleftrightarrow> reach src first_position (sc_position s) \<and> \<not> sc_excluded s \<and>
     (\<exists>gaps. length gaps = length (sc_tokens s) \<and> list_all (trivia False) gaps \<and> take (offset (sc_position s)) src = rebuild gaps (sc_tokens s)) \<and>
     map d_span (sc_diagnostics s) = map t_span (filter (\<lambda>t. t_kind t = Invalid) (sc_tokens s))"

lemma take_text: "reach src p q \<Longrightarrow> take (offset q) src = take (offset p) src @ text_between src p q"
  using reach_offset [of src p q] by (metis le_add_diff_inverse substr_def take_add)

lemma lossless_turn:
  assumes inv: "lossless src s" and s1: "skipTrivia src False s = Inr s1" and more: "\<not> atEnd src (sc_position s1)"
    and s2: "outcome src (sc_position s1) s1 s2"
  shows "lossless src s2"
proof -
  have r: "reach src first_position (sc_position s)" using inv by (simp add: lossless_def)
  obtain q where q: "q = sc_position s1" "reach src (sc_position s) q" "trivia (atEnd src q) (text_between src (sc_position s) q)" "s1 = s\<lparr>sc_position := q\<rparr>"
    using skipTrivia_ok [of s src False] reach_first [OF r] s1 by auto
  have r1: "reach src first_position q" using rtranclp_trans [OF r q(2)] .
  note o = outcome_position [OF s2, folded q(1)]
  obtain t where t: "\<not> sc_excluded s2" "sc_tokens s2 = sc_tokens s @ [t]" "t_text t = text_between src q (sc_position s2)"
    "map d_span (sc_diagnostics s2) = map d_span (sc_diagnostics s) @ (if t_kind t = Invalid then [t_span t] else [])"
    using outcome_token [OF s2] r1 inv unfolding q(1)[symmetric] by (auto simp: q(4) lossless_def)
  obtain gaps where gaps: "length gaps = length (sc_tokens s)" "list_all (trivia False) gaps" "take (offset (sc_position s)) src = rebuild gaps (sc_tokens s)"
    using inv by (auto simp: lossless_def)
  let ?g = "text_between src (sc_position s) q"
  have "take (offset (sc_position s2)) src = rebuild (gaps @ [?g]) (sc_tokens s @ [t])"
    using take_text [OF q(2)] take_text [OF o(1)] gaps(1,3) t(3) by (simp add: rebuild_def)
  then have "\<exists>gaps. length gaps = length (sc_tokens s2) \<and> list_all (trivia False) gaps \<and> take (offset (sc_position s2)) src = rebuild gaps (sc_tokens s2)"
    using gaps(1,2) q(1,3) more t(2) by (intro exI [of _ "gaps @ [?g]"]) simp
  then show ?thesis
    using t inv rtranclp_trans [OF r1 o(1)] by (simp add: lossless_def)
qed

definition end_of_file :: "string \<Rightarrow> Token" where
  "end_of_file src = (let p = pos_at src (length src) in
     \<lparr>t_kind = EndOfFile, t_text = [], t_canonical = [], t_span = \<lparr>sp_start = p, sp_end = p\<rparr>\<rparr>)"

lemma at_the_end:
  "reach src first_position p \<Longrightarrow> atEnd src p \<Longrightarrow> p = pos_at src (length src) \<and> offset p = length src"
  using reach_first [of src p] by (auto simp: atEnd_def)

lemma start_in: "offset (sc_position new_scanner) \<le> length src"
  by (simp add: new_scanner_def first_position_def)

lemma scan_spec:
  "\<exists>ts diagnostics. scan src synthesis = Inr (ts @ [end_of_file src], diagnostics) \<and> list_all (token_wf src) ts \<and> sorted_wrt before ts"
proof -
  have "lex_inv src new_scanner" by (simp add: lex_inv_def new_scanner_def)
  then obtain s0 s where s: "scan_loop src synthesis new_scanner = Inr s" "lex_inv src s0" "offset (sc_position s0) \<le> length src"
    "s = s0 \<or> skipTrivia src synthesis s0 = Inr s" "atEnd src (sc_position s)"
    using scan_loop_induct [of "lex_inv src" src synthesis new_scanner] lex_inv_turn start_in by blast
  have "reach src (sc_position s0) (sc_position s)" "sc_tokens s = sc_tokens s0"
    using s(4) skipTrivia_ok [OF s(3), of synthesis] by auto
  then have "reach src first_position (sc_position s)" "sc_tokens s = sc_tokens s0"
    using s(2) rtranclp_trans [of "\<lambda>p q. advance src p = Inr q" first_position "sc_position s0"] by (auto simp: lex_inv_def)
  then show ?thesis
    using s(1,2,5) at_the_end [of src "sc_position s"] by (simp add: scan_def Let_def end_of_file_def lex_inv_def list_all_iff)
qed

lemma scan_lossless_spec:
  "\<exists>ts gaps tail diagnostics. scan src False = Inr (ts @ [end_of_file src], diagnostics) \<and> length gaps = length ts \<and>
     list_all (trivia False) gaps \<and> trivia True tail \<and> src = rebuild gaps ts @ tail \<and> map d_span diagnostics = map t_span (filter (\<lambda>t. t_kind t = Invalid) ts)"
proof -
  have "lossless src new_scanner" by (simp add: lossless_def new_scanner_def rebuild_def first_position_def)
  then obtain s0 s where s: "scan_loop src False new_scanner = Inr s" "lossless src s0" "offset (sc_position s0) \<le> length src"
    "s = s0 \<or> skipTrivia src False s0 = Inr s" "atEnd src (sc_position s)"
    using scan_loop_induct [of "lossless src" src False new_scanner] lossless_turn start_in by blast
  have tail: "reach src (sc_position s0) (sc_position s)" "trivia True (text_between src (sc_position s0) (sc_position s))"
    "s = s0\<lparr>sc_position := sc_position s\<rparr>"
    using s(4,5) skipTrivia_ok [OF s(3), of False] by (auto simp: trivia_Nil)
  have r: "reach src first_position (sc_position s)"
    using s(2) rtranclp_trans [of "\<lambda>p q. advance src p = Inr q" first_position "sc_position s0"] tail(1) by (auto simp: lossless_def)
  have toks: "sc_tokens s = sc_tokens s0" "sc_diagnostics s = sc_diagnostics s0" "sc_excluded s = sc_excluded s0"
    by (subst tail(3), simp)+
  obtain gaps where gaps: "length gaps = length (sc_tokens s0)" "list_all (trivia False) gaps" "take (offset (sc_position s0)) src = rebuild gaps (sc_tokens s0)"
    using s(2) by (auto simp: lossless_def)
  have "src = rebuild gaps (sc_tokens s0) @ text_between src (sc_position s0) (sc_position s)"
    using take_text [OF tail(1)] gaps(3) conjunct2 [OF at_the_end [OF r s(5)]] by simp
  then show ?thesis
    using s(1,2) at_the_end [OF r s(5)] toks gaps tail(2)
    by (intro exI [of _ "sc_tokens s0"] exI [of _ gaps] exI [of _ "text_between src (sc_position s0) (sc_position s)"] exI [of _ "sc_diagnostics s0"])
      (simp add: scan_def Let_def end_of_file_def lossless_def)
qed

end
