(* ===== verification/VHDLTheorems.thy ===== *)
theory VHDLTheorems
  imports VHDLScan
begin

text \<open>The properties of the VHDL scanner.\<close>

text \<open>
  C33.  Outside synthesis mode, where no \<^verbatim>\<open>translate_off\<close> region is dropped, the VHDL scanner returns on every source
  text, without reading outside the text, and loses nothing: the texts of the tokens, interleaved with pieces of
  white space and comments, are the source, a comment between two tokens ends before a newline and only the last one
  may end with the source; the end-of-file token comes last, and there is exactly one diagnostic for every
  invalid token, with its span, in the same order.
\<close>

theorem vhdl_scan_lossless:
  "\<exists>ts gaps tail diagnostics. scan src False = Inr (ts @ [end_of_file src], diagnostics) \<and> length gaps = length ts \<and>
     list_all (trivia False) gaps \<and> trivia True tail \<and> src = rebuild gaps ts @ tail \<and>
     map d_span diagnostics = map t_span (filter (\<lambda>t. t_kind t = Invalid) ts)"
  by (rule scan_lossless_spec)

text \<open>
  C34.  In both modes the scanner returns, and every token before the end-of-file token spans a non-empty part of the
  source: its text is that part, its positions have the line and column of their offsets, tokens do not
  overlap and come in the order of the source, and the text is of the token's kind (identifiers with their canonical
  form, decimal and based literals with separated digits, strings and extended identifiers with doubled
  delimiters, character literals, symbols).
\<close>

theorem vhdl_tokens_classified:
  "\<exists>ts diagnostics. scan src synthesis = Inr (ts @ [end_of_file src], diagnostics) \<and> list_all (token_wf src) ts \<and> sorted_wrt before ts"
  by (rule scan_spec)

text \<open>The scanner on a small source.\<close>

lemma scan_example:
  "(case scan ''Q <= x\"1_0\"&16#Ff#; -- c'' False of Inr (ts, ds) \<Rightarrow>
      map t_text ts = [''Q'', ''<='', ''x'', ''\"1_0\"'', ''&'', ''16#Ff#'', '';'', ''''] \<and>
      map t_kind ts = [Identifier, Symbol, Identifier, StringLiteral, Symbol, IntegerLiteral, Symbol, EndOfFile] \<and> ds = []
    | _ \<Rightarrow> False)"
  by code_simp

end
