(* ===== verification/VHDLTokens.thy ===== *)
theory VHDLTokens
  imports VHDLScan
begin

text \<open>
  \<^verbatim>\<open>src/vhdl/src/Parser.cpp\<close>: the state of the VHDL parser and the functions that read tokens.  A parsing function
  returns a \<open>Value\<close>, or \<open>Null\<close> (a null pointer, an empty optional or false, on which its caller gives up), both with the
  new state; it is \<open>Undefined\<close> where the code reads outside the vector of tokens.
\<close>

section \<open>Data\<close>

record ParseDiagnostic =
  pd_message :: string
  pd_span :: SourceSpan

record ParseWarning =
  pw_code :: string
  pw_message :: string
  pw_span :: SourceSpan

record Name =
  nm_spelling :: string
  nm_canonical :: string
  nm_span :: SourceSpan

record RecursiveParser =
  ps_tokens :: "Token list"
  ps_synthesis :: bool
  ps_allowWait :: bool
  ps_diagnostics :: "ParseDiagnostic list"
  ps_warnings :: "ParseWarning list"
  ps_index :: nat

datatype 'a outcome = Undefined | Null RecursiveParser | Value 'a RecursiveParser

type_synonym 'a parser = "RecursiveParser \<Rightarrow> 'a outcome"

text \<open>The constructor of the parser.\<close>

definition new_parser :: "Token list \<Rightarrow> LexDiagnostic list \<Rightarrow> bool \<Rightarrow> RecursiveParser" where
  "new_parser ts ds synthesis = \<lparr>ps_tokens = ts, ps_synthesis = synthesis, ps_allowWait = False,
     ps_diagnostics = map (\<lambda>d. \<lparr>pd_message = d_message d, pd_span = d_span d\<rparr>) ds, ps_warnings = [], ps_index = 0\<rparr>"

section \<open>Sequencing\<close>

text \<open>\<open>x = m(); if (!x) return null; k(x)\<close>\<close>

definition pbind :: "'a parser \<Rightarrow> ('a \<Rightarrow> 'b parser) \<Rightarrow> 'b parser" where
  "pbind m k = (\<lambda>s. case m s of Undefined \<Rightarrow> Undefined | Null s' \<Rightarrow> Null s' | Value x s' \<Rightarrow> k x s')"

definition pthen :: "'a parser \<Rightarrow> 'b parser \<Rightarrow> 'b parser" where
  "pthen m k = pbind m (\<lambda>_. k)"

definition preturn :: "'a \<Rightarrow> 'a parser" where
  "preturn x = (\<lambda>s. Value x s)"

definition pnull :: "'a parser" where
  "pnull = (\<lambda>s. Null s)"

text \<open>The result of \<open>m\<close> is tested, or ignored, by the caller.\<close>

definition optional :: "'a parser \<Rightarrow> 'a option parser" where
  "optional m = (\<lambda>s. case m s of Undefined \<Rightarrow> Undefined | Null s' \<Rightarrow> Value None s' | Value x s' \<Rightarrow> Value (Some x) s')"

section \<open>Tokens\<close>

definition join :: "SourceSpan \<Rightarrow> SourceSpan \<Rightarrow> SourceSpan" where
  "join first final = \<lparr>sp_start = sp_start first, sp_end = sp_end final\<rparr>"

definition token_at :: "nat \<Rightarrow> Token parser" where
  "token_at i = (\<lambda>s. if i < length (ps_tokens s) then Value (ps_tokens s ! i) s else Undefined)"

definition current :: "Token parser" where
  "current = (\<lambda>s. token_at (ps_index s) s)"

definition look_token :: "nat \<Rightarrow> Token parser" where
  "look_token distance = (\<lambda>s. let i = ps_index s + distance in
     token_at (if i < length (ps_tokens s) then i else length (ps_tokens s) - 1) s)"

text \<open>\<open>lexed_.tokens[index_ - 1]\<close>\<close>

definition previous_token :: "Token parser" where
  "previous_token = (\<lambda>s. if ps_index s = 0 then Undefined else token_at (ps_index s - 1) s)"

abbreviation is_eof :: "Token \<Rightarrow> bool" where "is_eof t \<equiv> t_kind t = EndOfFile"

definition atEnd_token :: "bool parser" where
  "atEnd_token = pbind current (\<lambda>t. preturn (is_eof t))"

definition advance_token :: "Token parser" where
  "advance_token = pbind current (\<lambda>t s. Value t (if is_eof t then s else s\<lparr>ps_index := ps_index s + 1\<rparr>))"

definition is_word :: "string \<Rightarrow> Token \<Rightarrow> bool" where
  "is_word v t \<longleftrightarrow> t_kind t = Identifier \<and> t_canonical t = v"

definition is_symbol :: "string \<Rightarrow> Token \<Rightarrow> bool" where
  "is_symbol v t \<longleftrightarrow> t_kind t = Symbol \<and> t_text t = v"

definition word :: "string \<Rightarrow> bool parser" where
  "word v = pbind current (\<lambda>t. preturn (is_word v t))"

definition symbol :: "string \<Rightarrow> bool parser" where
  "symbol v = pbind current (\<lambda>t. preturn (is_symbol v t))"

definition acceptWord :: "string \<Rightarrow> bool parser" where
  "acceptWord v = pbind (word v) (\<lambda>b. if \<not> b then preturn False else pthen advance_token (preturn True))"

definition acceptSymbol :: "string \<Rightarrow> bool parser" where
  "acceptSymbol v = pbind (symbol v) (\<lambda>b. if \<not> b then preturn False else pthen advance_token (preturn True))"

definition error :: "string \<Rightarrow> SourceSpan \<Rightarrow> unit parser" where
  "error message span = (\<lambda>s. Value () (s\<lparr>ps_diagnostics := ps_diagnostics s @ [\<lparr>pd_message = message, pd_span = span\<rparr>]\<rparr>))"

text \<open>\<open>error(message, current().span); return null;\<close>, and the same at another place.\<close>

definition fail_at :: "string \<Rightarrow> SourceSpan \<Rightarrow> 'a parser" where
  "fail_at message span = pthen (error message span) pnull"

definition fail_here :: "string \<Rightarrow> 'a parser" where
  "fail_here message = pbind current (\<lambda>t. fail_at message (t_span t))"

definition expectWord :: "string \<Rightarrow> unit parser" where
  "expectWord v = pbind (acceptWord v) (\<lambda>b. if b then preturn ()
     else fail_here (''expected keyword '' @ [quote] @ v @ [quote]))"

definition expectSymbol :: "string \<Rightarrow> unit parser" where
  "expectSymbol v = pbind (acceptSymbol v) (\<lambda>b. if b then preturn ()
     else fail_here (''expected '' @ [quote] @ v @ [quote]))"

definition nameKey :: "Name \<Rightarrow> string" where
  "nameKey n = (if nm_canonical n = [] then nm_spelling n else nm_canonical n)"

definition is_name_token :: "Token \<Rightarrow> bool" where
  "is_name_token t \<longleftrightarrow> t_kind t = Identifier \<or> t_kind t = ExtendedIdentifier"

definition isNameToken :: "bool parser" where
  "isNameToken = pbind current (\<lambda>t. preturn (is_name_token t))"

definition parseName :: "Name parser" where
  "parseName = pbind current (\<lambda>t.
     if \<not> is_name_token t then fail_at ''expected an identifier'' (t_span t)
     else pbind advance_token (\<lambda>t. preturn \<lparr>nm_spelling = t_text t, nm_canonical = t_canonical t, nm_span = t_span t\<rparr>))"

text \<open>The span from \<open>start\<close> to the last token read.\<close>

definition span_from :: "SourceSpan \<Rightarrow> SourceSpan parser" where
  "span_from start = pbind previous_token (\<lambda>t. preturn (join start (t_span t)))"

end
