(* ===== verification/VHDLExpr.thy ===== *)
theory VHDLExpr
  imports VHDLTokens
begin

text \<open>
  The expressions of \<^verbatim>\<open>src/vhdl/src/Parser.cpp\<close>.  The functions of the recursive descent call each other through a
  parameter \<open>call\<close>, the \<open>goal\<close>s being the functions (and the loops in them) with their arguments; \<open>descend\<close> closes the
  recursion with fuel, and \<open>parseExpression\<close> gives it enough of it for the tokens that are left.
\<close>

section \<open>Data\<close>

datatype ExpressionKind =
    KName | KIntegerLiteral | KRealLiteral | KStringLiteral | KCharacterLiteral | KUnary | KBinary | KConditional
  | KIndexed | KOthers | KAggregate | KRange | KBitStringLiteral | KCall | KSelected | KAssociation | KAttribute

datatype Expression = Expression
  (ex_kind: ExpressionKind) (ex_text: string) (ex_canonical: string) (ex_span: SourceSpan)
  (ex_left: "Expression option") (ex_right: "Expression option") (ex_condition: "Expression option")
  (ex_elements: "Expression list")

definition no_span :: SourceSpan where
  "no_span = \<lparr>sp_start = first_position, sp_end = first_position\<rparr>"

definition leaf :: "ExpressionKind \<Rightarrow> string \<Rightarrow> string \<Rightarrow> SourceSpan \<Rightarrow> Expression" where
  "leaf k t c sp = Expression k t c sp None None None []"

definition unary :: "ExpressionKind \<Rightarrow> string \<Rightarrow> string \<Rightarrow> SourceSpan \<Rightarrow> Expression \<Rightarrow> Expression" where
  "unary k t c sp l = Expression k t c sp (Some l) None None []"

definition binary :: "ExpressionKind \<Rightarrow> string \<Rightarrow> SourceSpan \<Rightarrow> Expression \<Rightarrow> Expression \<Rightarrow> Expression" where
  "binary k t sp l r = Expression k t '''' sp (Some l) (Some r) None []"

fun push_element :: "Expression \<Rightarrow> Expression \<Rightarrow> Expression" where
  "push_element (Expression k t c sp l r cn es) e = Expression k t c sp l r cn (es @ [e])"

fun with_span :: "SourceSpan \<Rightarrow> Expression \<Rightarrow> Expression" where
  "with_span sp (Expression k t c _ l r cn es) = Expression k t c sp l r cn es"

datatype goal =
    Expr int | Operators int Expression | Primary | Index | Conditional bool
  | Element | Choices Expression | Elements Expression | Suffixes Expression | Associate Expression | Arguments Expression

type_synonym descent = "goal \<Rightarrow> Expression parser"

section \<open>Operators\<close>

definition precedence :: "Token \<Rightarrow> int" where
  "precedence t =
     (if is_word ''or'' t \<or> is_word ''nor'' t \<or> is_word ''xor'' t \<or> is_word ''xnor'' t then 1
      else if is_word ''and'' t \<or> is_word ''nand'' t then 2
      else if is_symbol ''='' t \<or> is_symbol ''/='' t \<or> is_symbol ''<'' t \<or> is_symbol ''<='' t \<or> is_symbol ''>'' t \<or>
        is_symbol ''>='' t then 3
      else if is_symbol ''+'' t \<or> is_symbol ''-'' t \<or> is_symbol ''&'' t then 4
      else if is_symbol ''*'' t \<or> is_symbol ''/'' t \<or> is_word ''mod'' t \<or> is_word ''rem'' t then 5
      else if is_symbol ''**'' t then 6
      else -1)"

definition op_precedence :: "Token \<Rightarrow> int" where
  "op_precedence t =
     (if t_kind t = Identifier \<and> t_canonical t \<in> {''or'', ''nor'', ''xor'', ''xnor''} then 1
      else if t_kind t = Identifier \<and> t_canonical t \<in> {''and'', ''nand''} then 2
      else if t_kind t = Identifier \<and> t_canonical t \<in> {''mod'', ''rem''} then 5
      else if t_text t \<in> {''='', ''/='', ''<'', ''<='', ''>'', ''>=''} then 3
      else if t_text t \<in> {''+'', ''-'', ''&''} then 4
      else if t_text t \<in> {''*'', ''/''} then 5
      else if t_text t = ''**'' then 6
      else -1)"

text \<open>\<open>op.kind == TokenKind::Identifier ? op.canonical : op.text\<close>\<close>

definition op_name :: "Token \<Rightarrow> string" where
  "op_name t = (if t_kind t = Identifier then t_canonical t else t_text t)"

definition expression :: "descent \<Rightarrow> int \<Rightarrow> Expression parser" where
  "expression call m = pbind (call Primary) (\<lambda>left. call (Operators m left))"

definition operators :: "descent \<Rightarrow> int \<Rightarrow> Expression \<Rightarrow> Expression parser" where
  "operators call m left = pbind current (\<lambda>t.
     if precedence t < m then preturn left
     else pbind advance_token (\<lambda>op.
       pbind (call (Expr (op_precedence op + (if t_text op = ''**'' then 0 else 1)))) (\<lambda>right.
         call (Operators m (binary KBinary (op_name op) (join (ex_span left) (ex_span right)) left right)))))"

definition parseIndex :: "descent \<Rightarrow> Expression parser" where
  "parseIndex call = pbind (call (Expr 0)) (\<lambda>left. pbind current (\<lambda>t.
     if is_word ''to'' t \<or> is_word ''downto'' t then
       pbind advance_token (\<lambda>d. pbind (call (Expr 0)) (\<lambda>right. preturn (binary KRange (t_canonical d) no_span left right)))
     else preturn left))"

definition parseConditional :: "descent \<Rightarrow> bool \<Rightarrow> Expression parser" where
  "parseConditional call allowOmittedElse = pbind (call (Expr 0)) (\<lambda>v. pbind (acceptWord ''when'') (\<lambda>b.
     if \<not> b then preturn v
     else pbind (call (Expr 0)) (\<lambda>cn. pbind (symbol '';'') (\<lambda>omitted.
       if allowOmittedElse \<and> omitted then
         preturn (Expression KConditional '''' '''' (join (ex_span v) (ex_span cn)) (Some v) None (Some cn) [])
       else pthen (expectWord ''else'') (pbind (call (Conditional allowOmittedElse)) (\<lambda>r.
         preturn (Expression KConditional '''' '''' (join (ex_span v) (ex_span r)) (Some v) (Some r) (Some cn) [])))))))"

section \<open>Bit strings\<close>

definition bitStringBase :: "Token \<Rightarrow> bool" where
  "bitStringBase t \<longleftrightarrow> t_kind t = Identifier \<and>
     t_canonical t \<in> {''b'', ''o'', ''x'', ''d'', ''ub'', ''uo'', ''ux'', ''sb'', ''so'', ''sx''}"

abbreviation char_code :: "char \<Rightarrow> nat" where "char_code c \<equiv> of_char c"

abbreviation digit_value :: "char \<Rightarrow> nat" where "digit_value c \<equiv> of_char c - 48"

fun decimal_value :: "nat \<Rightarrow> string \<Rightarrow> nat" where
  "decimal_value v [] = v"
| "decimal_value v (c # cs) = decimal_value (10 * v + digit_value c) cs"

text \<open>\<open>std::from_chars\<close> to a \<open>size_t\<close> that has to read the whole text.\<close>

definition from_chars_size :: "string \<Rightarrow> nat option" where
  "from_chars_size cs = (if cs \<noteq> [] \<and> list_all isDigit cs \<and> decimal_value 0 cs < 2 ^ 64 then Some (decimal_value 0 cs) else None)"

definition max_bits :: nat where "max_bits = 65536"

text \<open>\<open>'0' + n % 2\<close>\<close>

definition bit_char :: "nat \<Rightarrow> char" where
  "bit_char n = (if n mod 2 = 1 then CHR ''1'' else CHR ''0'')"

fun times_ten :: "nat \<Rightarrow> string \<Rightarrow> string \<times> nat" where
  "times_ten carry [] = ([], carry)"
| "times_ten carry (b # bs) = (let c = carry + digit_value b * 10; (bs', out) = times_ten (c div 2) bs in (bit_char c # bs', out))"

fun carry_bits :: "nat \<Rightarrow> string" where
  "carry_bits c = (if c = 0 then [] else bit_char c # carry_bits (c div 2))"

declare carry_bits.simps [simp del]

text \<open>The loop over the digits, with the bits in little-endian order; or the message and whether it is put at the start.\<close>

fun decimal_bits :: "string \<Rightarrow> string \<Rightarrow> (string \<times> bool) + string" where
  "decimal_bits bits [] = Inr bits"
| "decimal_bits bits (c # cs) =
     (if c = CHR ''_'' then decimal_bits bits cs
      else if \<not> isDigit c then Inl (''decimal bit string requires decimal digits'', False)
      else let (bits', carry) = times_ten (digit_value c) bits; bits = bits' @ carry_bits carry in
        if max_bits < length bits then Inl (''bit string length exceeds the supported range'', True) else decimal_bits bits cs)"

definition upper :: "char \<Rightarrow> char" where
  "upper c = (if between CHR ''a'' CHR ''z'' c then char_of (char_code c - 32) else c)"

definition hex_value :: "char \<Rightarrow> int" where
  "hex_value c = (if isDigit c then int (char_code c) - 48
     else if between CHR ''A'' CHR ''F'' c then int (char_code c) - 65 + 10 else -1)"

definition digit_bits :: "nat \<Rightarrow> nat \<Rightarrow> string" where
  "digit_bits width d = map (\<lambda>b. bit_char (d div 2 ^ b)) (rev [0..<width])"

text \<open>The bits a digit stands for.\<close>

definition radix_digit :: "nat \<Rightarrow> char \<Rightarrow> string option" where
  "radix_digit width c =
     (if c = CHR ''X'' \<or> c = CHR ''Z'' then Some (replicate width c)
      else if hex_value c < 0 \<or> 2 ^ width \<le> hex_value c then None
      else Some (digit_bits width (nat (hex_value c))))"

fun radix_bits :: "nat \<Rightarrow> string \<Rightarrow> string \<Rightarrow> (string \<times> bool) + string" where
  "radix_bits width bits [] = Inr bits"
| "radix_bits width bits (c # cs) =
     (if c = CHR ''_'' then radix_bits width bits cs
      else case radix_digit width (upper c) of
          None \<Rightarrow> Inl (''invalid bit string digit'', False)
        | Some ds \<Rightarrow> if max_bits < length (bits @ ds) then Inl (''bit string length exceeds the supported range'', True)
            else radix_bits width (bits @ ds) cs)"

definition expand_bits :: "char \<Rightarrow> string \<Rightarrow> (string \<times> bool) + string" where
  "expand_bits radix cs = (if radix = CHR ''d'' then map_sum id rev (decimal_bits ''0'' cs)
     else radix_bits (if radix = CHR ''x'' then 4 else if radix = CHR ''o'' then 3 else 1) '''' cs)"

text \<open>
  The padding or cutting to the given length.  \<open>find_first_not_of\<close> is the length of the run of padding characters; where there is no
  other character it is \<open>npos\<close>, and the run is as long as the text.
\<close>

definition fit_bits :: "nat \<Rightarrow> char \<Rightarrow> string \<Rightarrow> string option" where
  "fit_bits len pad bits =
     (if len < length bits then
        (let excess = length bits - len in
         if length (takeWhile (\<lambda>c. c = pad) bits) < excess then None else Some (drop excess bits))
      else Some (replicate (len - length bits) pad @ bits))"

definition underscores_misplaced :: "string \<Rightarrow> bool" where
  "underscores_misplaced t \<longleftrightarrow> 2 < length t \<and>
     (t ! 1 = CHR ''_'' \<or> t ! (length t - 2) = CHR ''_'' \<or>
      (\<exists>i\<in>set [0..<length t - 1]. t ! i = CHR ''_'' \<and> t ! (i + 1) = CHR ''_''))"

definition bit_string_length :: "SourceSpan \<Rightarrow> nat option parser" where
  "bit_string_length start = pbind current (\<lambda>t.
     if t_kind t \<noteq> IntegerLiteral then preturn None
     else pthen advance_token (case from_chars_size (filter (\<lambda>c. c \<noteq> CHR ''_'') (t_text t)) of
         None \<Rightarrow> fail_at ''bit string length exceeds the supported range'' start
       | Some v \<Rightarrow> if max_bits < v then fail_at ''bit string length exceeds the supported range'' start else preturn (Some v)))"

definition bit_string_value :: "SourceSpan \<Rightarrow> nat option \<Rightarrow> Token \<Rightarrow> Token \<Rightarrow> Expression parser" where
  "bit_string_value start len base literal =
     (if t_canonical base = [] then (\<lambda>s. Undefined)
      else let signedBase = (hd (t_canonical base) = CHR ''s''); t = t_text literal in
        case expand_bits (last (t_canonical base)) (take (length t - 2) (drop 1 t)) of
          Inl (message, at_start) \<Rightarrow> fail_at message (if at_start then start else t_span literal)
        | Inr bits \<Rightarrow>
            if signedBase \<and> bits = [] then fail_at ''signed bit string cannot be empty'' (t_span literal)
            else case (case len of None \<Rightarrow> Some bits | Some n \<Rightarrow> fit_bits n (if signedBase then hd bits else CHR ''0'') bits) of
                None \<Rightarrow> fail_at ''excess non-padding digits in bit string literal'' (t_span literal)
              | Some bits \<Rightarrow> preturn (leaf KBitStringLiteral ([CHR 0x22] @ bits @ [CHR 0x22]) ''b'' (join start (t_span literal))))"

definition parseExtendedBitString :: "Expression parser" where
  "parseExtendedBitString = pbind current (\<lambda>first. let start = t_span first in
     pbind (bit_string_length start) (\<lambda>len.
     pbind advance_token (\<lambda>base. pbind advance_token (\<lambda>literal.
       if len \<noteq> None \<and> offset (sp_end start) \<noteq> offset (sp_start (t_span base)) \<or>
          offset (sp_end (t_span base)) \<noteq> offset (sp_start (t_span literal)) then
         fail_at ''bit string length, base, and string must be adjacent'' start
       else if underscores_misplaced (t_text literal) then fail_at ''bit string underscores must separate digits'' (t_span literal)
       else bit_string_value start len base literal))))"

section \<open>Primaries\<close>

definition is_prefix_operator :: "Token \<Rightarrow> bool" where
  "is_prefix_operator t \<longleftrightarrow> is_symbol ''??'' t \<or> is_symbol ''+'' t \<or> is_symbol ''-'' t \<or> is_word ''not'' t \<or> is_word ''abs'' t \<or>
     is_word ''and'' t \<or> is_word ''or'' t \<or> is_word ''nand'' t \<or> is_word ''nor'' t \<or> is_word ''xor'' t \<or> is_word ''xnor'' t"

definition prefix_expression :: "descent \<Rightarrow> Expression parser" where
  "prefix_expression call = pthen advance_token (pbind previous_token (\<lambda>op.
     pbind (call (if t_text op = ''+'' \<or> t_text op = ''-'' then Expr 5 else Primary)) (\<lambda>operand.
       preturn (unary KUnary (op_name op) '''' (join (t_span op) (ex_span operand)) operand))))"

definition associate :: "descent \<Rightarrow> Expression \<Rightarrow> Expression parser" where
  "associate call actual = pbind (acceptSymbol ''=>'') (\<lambda>b.
     if \<not> b then preturn actual
     else pbind (call (Expr 0)) (\<lambda>right. preturn (binary KAssociation '''' (join (ex_span actual) (ex_span right)) actual right)))"

definition choices_loop :: "descent \<Rightarrow> Expression \<Rightarrow> Expression parser" where
  "choices_loop call choices = pbind (acceptSymbol ''|'') (\<lambda>b.
     if b then pbind (call Index) (\<lambda>choice. call (Choices (push_element choices choice))) else preturn choices)"

definition parseElement :: "descent \<Rightarrow> Expression parser" where
  "parseElement call = pbind (call Index) (\<lambda>element. pbind (symbol ''|'') (\<lambda>b.
     pbind (if b then pbind (call (Choices (Expression KAggregate '''' '''' (ex_span element) None None None [element]))) (\<lambda>choices.
              pbind (symbol ''=>'') (\<lambda>arrow.
                if \<not> arrow then fail_here ''aggregate choices require an association'' else preturn choices))
            else preturn element) (\<lambda>element. call (Associate element))))"

definition elements_loop :: "descent \<Rightarrow> Expression \<Rightarrow> Expression parser" where
  "elements_loop call aggregate = pbind (acceptSymbol '','') (\<lambda>b.
     if b then pbind (call Element) (\<lambda>element. call (Elements (push_element aggregate element))) else preturn aggregate)"

definition parenthesized :: "descent \<Rightarrow> Expression parser" where
  "parenthesized call = pthen advance_token (pbind previous_token (\<lambda>open. let start = t_span open in
     pbind (acceptWord ''others'') (\<lambda>others.
     if others then
       pthen (expectSymbol ''=>'') (pbind (call (Expr 0)) (\<lambda>v. pthen (expectSymbol '')'')
         (pbind (span_from start) (\<lambda>sp. preturn (unary KOthers '''' '''' sp v)))))
     else pbind (call Element) (\<lambda>nested. pbind (symbol '','') (\<lambda>comma.
       pbind (if comma \<or> ex_kind nested = KAssociation
              then call (Elements (Expression KAggregate '''' '''' no_span None None None [nested])) else preturn nested) (\<lambda>nested.
       pthen (expectSymbol '')'') (pbind (span_from start) (\<lambda>sp. preturn (with_span sp nested)))))))))"

definition bit_string :: "Expression parser" where
  "bit_string = pbind advance_token (\<lambda>base. pbind advance_token (\<lambda>literal. pbind previous_token (\<lambda>last_token.
     preturn (leaf KBitStringLiteral (t_text literal) (t_canonical base) (t_span last_token)))))"

definition arguments_loop :: "descent \<Rightarrow> Expression \<Rightarrow> Expression parser" where
  "arguments_loop call node = pbind (acceptSymbol '','') (\<lambda>b.
     if b then pbind (call (Expr 0)) (\<lambda>argument. pbind (call (Associate argument)) (\<lambda>argument.
       call (Arguments (push_element node argument))))
     else preturn node)"

text \<open>\<open>.\<close> and \<open>'\<close> with a name after a prefix.\<close>

definition named_suffix :: "ExpressionKind \<Rightarrow> Expression \<Rightarrow> Expression parser" where
  "named_suffix k e = pthen advance_token (pbind parseName (\<lambda>n.
     preturn (unary k (nm_spelling n) (nm_canonical n) (join (ex_span e) (nm_span n)) e)))"

definition parenthesized_suffix :: "descent \<Rightarrow> Expression \<Rightarrow> Expression parser" where
  "parenthesized_suffix call e = pthen advance_token (pbind (call Index) (\<lambda>index. pbind (call (Associate index)) (\<lambda>index.
     pbind (symbol '','') (\<lambda>comma.
     if comma \<or> ex_kind index = KAssociation then
       pbind (call (Arguments (Expression KCall '''' '''' no_span (Some e) None None [index]))) (\<lambda>node.
         pthen (expectSymbol '')'') (pbind (span_from (ex_span e)) (\<lambda>sp. preturn (with_span sp node))))
     else pthen (expectSymbol '')'') (pbind (span_from (ex_span e)) (\<lambda>sp. preturn (binary KIndexed '''' sp e index)))))))"

definition suffixes :: "descent \<Rightarrow> Expression \<Rightarrow> Expression parser" where
  "suffixes call e = pbind current (\<lambda>t.
     if is_symbol [quote] t then pbind (named_suffix KAttribute e) (\<lambda>e. call (Suffixes e))
     else if is_symbol ''.'' t then pbind (named_suffix KSelected e) (\<lambda>e. call (Suffixes e))
     else if is_symbol ''('' t then pbind (parenthesized_suffix call e) (\<lambda>e. call (Suffixes e))
     else preturn e)"

definition name_expression :: "descent \<Rightarrow> Expression parser" where
  "name_expression call = pbind parseName (\<lambda>n. call (Suffixes (leaf KName (nm_spelling n) (nm_canonical n) (nm_span n))))"

fun literal_kind :: "TokenKind \<Rightarrow> ExpressionKind option" where
  "literal_kind IntegerLiteral = Some KIntegerLiteral"
| "literal_kind RealLiteral = Some KRealLiteral"
| "literal_kind StringLiteral = Some KStringLiteral"
| "literal_kind CharacterLiteral = Some KCharacterLiteral"
| "literal_kind _ = None"

definition literal :: "Expression parser" where
  "literal = pbind current (\<lambda>t. case literal_kind (t_kind t) of
       None \<Rightarrow> fail_at ''expected a name, literal, or parenthesized expression'' (t_span t)
     | Some k \<Rightarrow> pthen advance_token (preturn (leaf k (t_text t) '''' (t_span t))))"

definition parsePrimary :: "descent \<Rightarrow> Expression parser" where
  "parsePrimary call = pbind current (\<lambda>t. pbind (look_token 1) (\<lambda>t1. pbind (look_token 2) (\<lambda>t2.
     if t_kind t = IntegerLiteral \<and> bitStringBase t1 \<and> t_kind t2 = StringLiteral \<or>
        bitStringBase t \<and> length (t_canonical t) \<noteq> 1 \<and> t_kind t1 = StringLiteral \<or>
        is_word ''d'' t \<and> t_kind t1 = StringLiteral then parseExtendedBitString
     else if is_prefix_operator t then prefix_expression call
     else if is_symbol ''('' t then parenthesized call
     else if (is_word ''x'' t \<or> is_word ''b'' t \<or> is_word ''o'' t) \<and> t_kind t1 = StringLiteral then bit_string
     else if is_name_token t then name_expression call
     else literal)))"

section \<open>The recursion\<close>

fun dispatch :: "descent \<Rightarrow> descent" where
  "dispatch call (Expr m) = expression call m"
| "dispatch call (Operators m left) = operators call m left"
| "dispatch call Primary = parsePrimary call"
| "dispatch call Index = parseIndex call"
| "dispatch call (Conditional b) = parseConditional call b"
| "dispatch call Element = parseElement call"
| "dispatch call (Choices e) = choices_loop call e"
| "dispatch call (Elements e) = elements_loop call e"
| "dispatch call (Suffixes e) = suffixes call e"
| "dispatch call (Associate e) = associate call e"
| "dispatch call (Arguments e) = arguments_loop call e"

fun descend :: "nat \<Rightarrow> descent" where
  "descend 0 g = (\<lambda>s. Undefined)"
| "descend (Suc n) g = dispatch (descend n) g"

definition tokens_left :: "RecursiveParser \<Rightarrow> nat" where
  "tokens_left s = length (ps_tokens s) - ps_index s"

definition descent_fuel :: "RecursiveParser \<Rightarrow> nat" where
  "descent_fuel s = 8 * tokens_left s + 8"

definition run_goal :: descent where
  "run_goal g = (\<lambda>s. descend (descent_fuel s) g s)"

definition parseExpression :: "int \<Rightarrow> Expression parser" where
  "parseExpression m = run_goal (Expr m)"

end
