(* ===== verification/VHDLAst.thy ===== *)
theory VHDLAst
  imports VHDLExpr
begin

text \<open>
  The syntax trees of \<^verbatim>\<open>src/vhdl/include/vhdl/Parser.h\<close> and the loops of the parser.  The statements that contain
  statements are datatypes over a record of their other fields.
\<close>

section \<open>Declarations\<close>

datatype PortMode = ModeIn | ModeOut | ModeInOut | ModeBuffer | ModeLinkage

record DiscreteRange =
  dr_left :: int
  dr_right :: int
  dr_ascending :: bool
  dr_span :: SourceSpan
  dr_leftExpression :: "Expression option"
  dr_rightExpression :: "Expression option"
  dr_attribute :: "Expression option"
  dr_subtype :: "Name option"

definition no_range :: DiscreteRange where
  "no_range = \<lparr>dr_left = 0, dr_right = 0, dr_ascending = False, dr_span = no_span, dr_leftExpression = None,
     dr_rightExpression = None, dr_attribute = None, dr_subtype = None\<rparr>"

definition no_name :: Name where
  "no_name = \<lparr>nm_spelling = [], nm_canonical = [], nm_span = no_span\<rparr>"

record TypeMark =
  tm_name :: Name
  tm_constraint :: "DiscreteRange option"

record SubtypeDeclaration =
  sd_name :: Name
  sd_type :: TypeMark
  sd_span :: SourceSpan

record AliasDeclaration =
  ad_name :: Name
  ad_type :: "TypeMark option"
  ad_target :: Expression
  ad_span :: SourceSpan

record PortDeclaration =
  po_names :: "Name list"
  po_mode :: PortMode
  po_type :: TypeMark
  po_span :: SourceSpan
  po_defaultValue :: "Expression option"

record GenericDeclaration =
  gd_names :: "Name list"
  gd_type :: TypeMark
  gd_defaultValue :: "Expression option"
  gd_span :: SourceSpan
  gd_mode :: PortMode

record ObjectDeclaration =
  od_names :: "Name list"
  od_type :: TypeMark
  od_span :: SourceSpan
  od_initializer :: "Expression option"

record ConstantDeclaration =
  cd_object :: ObjectDeclaration
  cd_value :: Expression

record ArrayTypeDeclaration =
  at_name :: Name
  at_indexRange :: DiscreteRange
  at_elementType :: TypeMark
  at_span :: SourceSpan
  at_indexSubtype :: "Name option"
  at_indexType :: "Name option"

record EnumerationTypeDeclaration =
  en_name :: Name
  en_literals :: "Name list"
  en_span :: SourceSpan

record RecordTypeDeclaration =
  rt_name :: Name
  rt_fields :: "ObjectDeclaration list"
  rt_span :: SourceSpan

record FileDeclaration =
  fd_names :: "Name list"
  fd_type :: Name
  fd_mode :: Name
  fd_path :: "Expression option"
  fd_span :: SourceSpan

section \<open>Statements\<close>

datatype AssignmentKind = SignalAssignment | VariableAssignment

record Assignment =
  as_target :: Name
  as_value :: "Expression option"
  as_span :: SourceSpan
  as_kind :: AssignmentKind
  as_indices :: "Expression list"
  as_selector :: "Expression option"
  as_choices :: "Expression list list"
  as_alternatives :: "Expression list"

definition no_assignment :: Assignment where
  "no_assignment = \<lparr>as_target = no_name, as_value = None, as_span = no_span, as_kind = SignalAssignment, as_indices = [],
     as_selector = None, as_choices = [], as_alternatives = []\<rparr>"

datatype StatementKind =
  SAssignment | SIf | SFor | SReturn | SCase | SNull | SExit | SWhile | SWait | SCall

record StatementHead =
  st_kind :: StatementKind
  st_assignment :: Assignment
  st_condition :: "Expression option"
  st_iterator :: Name
  st_range :: DiscreteRange
  st_span :: SourceSpan
  st_returnValue :: "Expression option"
  st_procedureCall :: "Expression option"
  st_choices :: "Expression list list"

definition no_head :: StatementHead where
  "no_head = \<lparr>st_kind = SAssignment, st_assignment = no_assignment, st_condition = None, st_iterator = no_name,
     st_range = no_range, st_span = no_span, st_returnValue = None, st_procedureCall = None, st_choices = []\<rparr>"

text \<open>The nested lists are the statements, the alternative and the bodies of a case.\<close>

datatype SequentialStatement = Statement
  (ss_head: StatementHead) (ss_statements: "SequentialStatement list") (ss_alternative: "SequentialStatement list")
  (ss_caseBodies: "SequentialStatement list list")

fun statement_span :: "SourceSpan \<Rightarrow> SequentialStatement \<Rightarrow> SequentialStatement" where
  "statement_span sp (Statement h ss al bs) = Statement (h\<lparr>st_span := sp\<rparr>) ss al bs"

record FunctionDeclaration =
  fn_name :: Name
  fn_parameters :: "GenericDeclaration list"
  fn_returnType :: TypeMark
  fn_variables :: "ObjectDeclaration list"
  fn_constants :: "ConstantDeclaration list"
  fn_statements :: "SequentialStatement list"
  fn_span :: SourceSpan
  fn_body :: bool
  fn_pure :: bool
  fn_procedure :: bool
  fn_files :: "FileDeclaration list"

section \<open>Design units\<close>

record LibraryClause =
  lc_names :: "Name list"
  lc_span :: SourceSpan

record UseClause =
  uc_selectedName :: "Name list"
  uc_span :: SourceSpan

record ContextClause =
  cc_libraries :: "LibraryClause list"
  cc_uses :: "UseClause list"

definition no_context :: ContextClause where
  "no_context = \<lparr>cc_libraries = [], cc_uses = []\<rparr>"

datatype ClockEdgeForm = EventAndLevel | RisingEdgeCall | FallingEdgeCall

record ClockedProcess =
  cp_sensitivity :: Name
  cp_eventSignal :: Name
  cp_levelSignal :: Name
  cp_level :: string
  cp_assignments :: "Assignment list"
  cp_variables :: "ObjectDeclaration list"
  cp_enableSignal :: "Name option"
  cp_enableLevel :: string
  cp_resetSignal :: "Name option"
  cp_resetLevel :: string
  cp_resetAssignments :: "Assignment list"
  cp_edgeForm :: ClockEdgeForm
  cp_span :: SourceSpan
  cp_statements :: "SequentialStatement list"
  cp_sensitivityList :: "Name list"
  cp_sensitivityFields :: "Name list list"
  cp_combinational :: bool
  cp_allSensitivity :: bool
  cp_asynchronousReset :: bool
  cp_resetStatements :: "SequentialStatement list"
  cp_label :: "Name option"
  cp_constants :: "ConstantDeclaration list"
  cp_clockEnable :: "Expression option"
  cp_arrayTypes :: "ArrayTypeDeclaration list"
  cp_recordTypes :: "RecordTypeDeclaration list"
  cp_enumerationTypes :: "EnumerationTypeDeclaration list"
  cp_subtypes :: "SubtypeDeclaration list"
  cp_functions :: "FunctionDeclaration list"

definition no_process :: ClockedProcess where
  "no_process = \<lparr>cp_sensitivity = no_name, cp_eventSignal = no_name, cp_levelSignal = no_name, cp_level = [], cp_assignments = [],
     cp_variables = [], cp_enableSignal = None, cp_enableLevel = [], cp_resetSignal = None, cp_resetLevel = [],
     cp_resetAssignments = [], cp_edgeForm = EventAndLevel, cp_span = no_span, cp_statements = [], cp_sensitivityList = [],
     cp_sensitivityFields = [], cp_combinational = False, cp_allSensitivity = False, cp_asynchronousReset = False,
     cp_resetStatements = [], cp_label = None, cp_constants = [], cp_clockEnable = None, cp_arrayTypes = [], cp_recordTypes = [],
     cp_enumerationTypes = [], cp_subtypes = [], cp_functions = []\<rparr>"

record EntityDeclaration =
  ed_name :: Name
  ed_generics :: "GenericDeclaration list"
  ed_ports :: "PortDeclaration list"
  ed_span :: SourceSpan
  ed_context :: ContextClause

record GenericAssociation =
  ga_formal :: "Name option"
  ga_actual :: Expression
  ga_span :: SourceSpan

record EntityInstantiation =
  ei_label :: Name
  ei_library :: Name
  ei_entity :: Name
  ei_architecture :: "Name option"
  ei_generics :: "GenericAssociation list"
  ei_actuals :: "Name list"
  ei_span :: SourceSpan
  ei_formals :: "Name option list"
  ei_component :: bool
  ei_actualIndices :: "Expression list list"
  ei_actualLiterals :: "Expression option list"
  ei_formalIndices :: "Expression list list"
  ei_actualOpen :: "bool list"

record GenerateHead =
  gh_iterator :: Name
  gh_range :: DiscreteRange
  gh_assignments :: "Assignment list"
  gh_label :: Name
  gh_instantiations :: "EntityInstantiation list"
  gh_conditional :: bool
  gh_condition :: "Expression option"
  gh_processes :: "ClockedProcess list"
  gh_signals :: "ObjectDeclaration list"
  gh_constants :: "ConstantDeclaration list"
  gh_arrayTypes :: "ArrayTypeDeclaration list"
  gh_recordTypes :: "RecordTypeDeclaration list"
  gh_enumerationTypes :: "EnumerationTypeDeclaration list"
  gh_subtypes :: "SubtypeDeclaration list"
  gh_functions :: "FunctionDeclaration list"

definition no_generate :: GenerateHead where
  "no_generate = \<lparr>gh_iterator = no_name, gh_range = no_range, gh_assignments = [], gh_label = no_name, gh_instantiations = [],
     gh_conditional = False, gh_condition = None, gh_processes = [], gh_signals = [], gh_constants = [], gh_arrayTypes = [],
     gh_recordTypes = [], gh_enumerationTypes = [], gh_subtypes = [], gh_functions = []\<rparr>"

datatype GenerateStatement = Generate
  (gs_head: GenerateHead) (gs_generates: "GenerateStatement list") (gs_alternatives: "GenerateStatement list")

record PackageDeclaration =
  pk_name :: Name
  pk_context :: ContextClause
  pk_arrayTypes :: "ArrayTypeDeclaration list"
  pk_constants :: "ConstantDeclaration list"
  pk_components :: "EntityDeclaration list"
  pk_body :: bool
  pk_recordTypes :: "RecordTypeDeclaration list"
  pk_enumerationTypes :: "EnumerationTypeDeclaration list"
  pk_functions :: "FunctionDeclaration list"
  pk_subtypes :: "SubtypeDeclaration list"

record ArchitectureBody =
  ab_name :: Name
  ab_entity :: Name
  ab_assignments :: "Assignment list"
  ab_processes :: "ClockedProcess list"
  ab_arrayTypes :: "ArrayTypeDeclaration list"
  ab_signals :: "ObjectDeclaration list"
  ab_instantiations :: "EntityInstantiation list"
  ab_span :: SourceSpan
  ab_context :: ContextClause
  ab_generates :: "GenerateStatement list"
  ab_components :: "EntityDeclaration list"
  ab_constants :: "ConstantDeclaration list"
  ab_recordTypes :: "RecordTypeDeclaration list"
  ab_enumerationTypes :: "EnumerationTypeDeclaration list"
  ab_functions :: "FunctionDeclaration list"
  ab_subtypes :: "SubtypeDeclaration list"
  ab_aliases :: "AliasDeclaration list"

record DesignFile =
  df_packages :: "PackageDeclaration list"
  df_entities :: "EntityDeclaration list"
  df_architectures :: "ArchitectureBody list"

end
