(* ===== verification/VHDLDecl.thy ===== *)
theory VHDLDecl
  imports VHDLAst
begin

text \<open>
  The declarations of \<^verbatim>\<open>src/vhdl/src/Parser.cpp\<close>: clauses, entities, generics, ports, ranges, objects and types.  Each turn of a
  loop reads a token, so the tokens left bound the turns.
\<close>

section \<open>Loops\<close>

text \<open>\<open>while (c) x = body(x);\<close> with a condition on the current token.\<close>

fun repeat_while :: "nat \<Rightarrow> (Token \<Rightarrow> bool) \<Rightarrow> ('a \<Rightarrow> 'a parser) \<Rightarrow> 'a \<Rightarrow> 'a parser" where
  "repeat_while 0 c body x = (\<lambda>s. Undefined)"
| "repeat_while (Suc n) c body x = pbind current (\<lambda>t. if c t then pbind (body x) (repeat_while n c body) else preturn x)"

definition while_token :: "(Token \<Rightarrow> bool) \<Rightarrow> ('a \<Rightarrow> 'a parser) \<Rightarrow> 'a \<Rightarrow> 'a parser" where
  "while_token c body x = (\<lambda>s. repeat_while (tokens_left s + 1) c body x s)"

text \<open>\<open>do { x = item(); if (!x) return null; xs.push_back(x); } while (acceptSymbol(sep));\<close>\<close>

fun repeat_separated :: "nat \<Rightarrow> string \<Rightarrow> 'a parser \<Rightarrow> 'a list parser" where
  "repeat_separated 0 sep item = (\<lambda>s. Undefined)"
| "repeat_separated (Suc n) sep item = pbind item (\<lambda>x. pbind (acceptSymbol sep) (\<lambda>b.
     if b then pbind (repeat_separated n sep item) (\<lambda>xs. preturn (x # xs)) else preturn [x]))"

definition separated_list :: "string \<Rightarrow> 'a parser \<Rightarrow> 'a list parser" where
  "separated_list sep item = (\<lambda>s. repeat_separated (tokens_left s + 1) sep item s)"

definition name_list :: "Name list parser" where
  "name_list = separated_list '','' parseName"

definition synchronize :: "string \<Rightarrow> unit parser" where
  "synchronize wordToStop = pbind
     (while_token (\<lambda>t. \<not> is_eof t \<and> \<not> is_word wordToStop t \<and> \<not> is_symbol '';'' t) (\<lambda>_. pthen advance_token (preturn ())) ())
     (\<lambda>_. pbind current (\<lambda>t. if is_symbol '';'' t \<and> \<not> is_word wordToStop t then pthen advance_token (preturn ()) else preturn ()))"

section \<open>Ranges\<close>

definition from_chars_int :: "string \<Rightarrow> int option" where
  "from_chars_int cs = (case cs of
       [] \<Rightarrow> None
     | c # ds \<Rightarrow> if c = CHR ''-'' then
           (if ds \<noteq> [] \<and> list_all isDigit ds \<and> decimal_value 0 ds \<le> 2 ^ 63 then Some (- int (decimal_value 0 ds)) else None)
         else if list_all isDigit cs \<and> decimal_value 0 cs < 2 ^ 63 then Some (int (decimal_value 0 cs)) else None)"

definition decimalInteger :: "TokenKind \<Rightarrow> string \<Rightarrow> int option" where
  "decimalInteger k t = (if k \<noteq> IntegerLiteral \<or> CHR ''#'' \<in> set t then None
     else from_chars_int (filter (\<lambda>c. c \<noteq> CHR ''_'') t))"

fun literalInteger :: "Expression \<Rightarrow> int option" where
  "literalInteger (Expression k t c sp l r cn es) =
     (if k = KIntegerLiteral then decimalInteger IntegerLiteral t
      else if k \<noteq> KUnary then None
      else case l of None \<Rightarrow> None | Some e \<Rightarrow> (case literalInteger e of None \<Rightarrow> None
        | Some v \<Rightarrow> if t = ''-'' then Some (- v) else if t = ''+'' then Some v else None))"

definition value_or :: "'a \<Rightarrow> 'a option \<Rightarrow> 'a" where
  "value_or d x = (case x of None \<Rightarrow> d | Some v \<Rightarrow> v)"

definition range_attribute :: "Expression \<Rightarrow> bool" where
  "range_attribute e = (case (if ex_kind e = KIndexed then ex_left e else Some e) of None \<Rightarrow> False
     | Some a \<Rightarrow> ex_kind a = KAttribute \<and> (ex_canonical a = ''range'' \<or> ex_canonical a = ''reverse_range''))"

definition parseDiscreteRange :: "DiscreteRange parser" where
  "parseDiscreteRange = pbind current (\<lambda>first. pbind (parseExpression 0) (\<lambda>left. pbind current (\<lambda>t.
     let directed = (is_word ''to'' t \<or> is_word ''downto'' t) in
     if range_attribute left then preturn (no_range\<lparr>dr_span := ex_span left, dr_attribute := Some left\<rparr>)
     else if ex_kind left = KName \<and> \<not> directed then
       preturn (no_range\<lparr>dr_span := ex_span left,
         dr_subtype := Some \<lparr>nm_spelling = ex_text left, nm_canonical = ex_canonical left, nm_span = ex_span left\<rparr>\<rparr>)
     else if \<not> directed then fail_at (''expected '' @ [quote] @ ''to'' @ [quote] @ '' or '' @ [quote] @ ''downto'' @ [quote] @
       '' in range constraint'') (t_span t)
     else pbind (acceptWord ''to'') (\<lambda>ascending.
       pthen (if \<not> ascending then acceptWord ''downto'' else preturn False)
       (pbind (parseExpression 0) (\<lambda>right. pbind (span_from (t_span first)) (\<lambda>sp.
         preturn (no_range\<lparr>dr_left := value_or 0 (literalInteger left), dr_right := value_or 0 (literalInteger right),
           dr_ascending := ascending, dr_span := sp, dr_leftExpression := Some left, dr_rightExpression := Some right\<rparr>))))))))"

text \<open>\<open>if (acceptSymbol("(")) ...\<close> and \<open>if (acceptWord("range")) ...\<close>, after the name of a type.\<close>

definition paren_constraint :: "DiscreteRange option parser" where
  "paren_constraint = pbind (acceptSymbol ''('') (\<lambda>b. if \<not> b then preturn None
     else pbind parseDiscreteRange (\<lambda>r. pthen (expectSymbol '')'') (preturn (Some r))))"

definition range_constraint :: "DiscreteRange option parser" where
  "range_constraint = pbind (acceptWord ''range'') (\<lambda>b. if \<not> b then preturn None
     else pbind parseDiscreteRange (\<lambda>r. preturn (Some r)))"

definition constraint :: "DiscreteRange option parser" where
  "constraint = pbind paren_constraint (\<lambda>c. if c \<noteq> None then preturn c else range_constraint)"

definition default_value :: "Expression option parser" where
  "default_value = pbind (acceptSymbol '':='') (\<lambda>b. if \<not> b then preturn None
     else pbind (parseExpression 0) (\<lambda>e. preturn (Some e)))"

section \<open>Clauses\<close>

definition parseLibraryClause :: "LibraryClause parser" where
  "parseLibraryClause = pbind advance_token (\<lambda>start. pbind name_list (\<lambda>names.
     pthen (expectSymbol '';'') (pbind (span_from (t_span start)) (\<lambda>sp. preturn \<lparr>lc_names = names, lc_span = sp\<rparr>))))"

text \<open>
  The clauses read so far are returned even when a later one is malformed: the loops keep them, with whether the clause list
  ended well.
\<close>

definition selected_name :: "Name list parser" where
  "selected_name = separated_list ''.'' parseName"

fun use_clauses :: "nat \<Rightarrow> SourceSpan \<Rightarrow> UseClause list \<Rightarrow> (bool \<times> UseClause list) parser" where
  "use_clauses 0 start cs = (\<lambda>s. Undefined)"
| "use_clauses (Suc n) start cs = pbind (optional selected_name) (\<lambda>r. case r of
       None \<Rightarrow> preturn (False, cs)
     | Some names \<Rightarrow> let cs = cs @ [\<lparr>uc_selectedName = names, uc_span = start\<rparr>] in
         pbind (acceptSymbol '','') (\<lambda>b. if b then use_clauses n start cs else preturn (True, cs)))"

definition use_clause_list :: "SourceSpan \<Rightarrow> (bool \<times> UseClause list) parser" where
  "use_clause_list start = (\<lambda>s. use_clauses (tokens_left s + 1) start [] s)"

definition parseUseClause :: "UseClause list parser" where
  "parseUseClause = pbind advance_token (\<lambda>start. pbind (use_clause_list (t_span start)) (\<lambda>(ok, cs).
     if \<not> ok then preturn cs
     else pbind (optional (expectSymbol '';'')) (\<lambda>semicolon. if semicolon = None then preturn cs
       else pbind (span_from (t_span start)) (\<lambda>sp. preturn (map (\<lambda>c. c\<lparr>uc_span := sp\<rparr>) cs)))))"

section \<open>Interfaces\<close>

definition interface_mode :: "bool \<Rightarrow> PortMode parser" where
  "interface_mode procedure = pbind (acceptWord ''in'') (\<lambda>isIn. if isIn \<or> \<not> procedure then preturn ModeIn
     else pbind (acceptWord ''inout'') (\<lambda>b. if b then preturn ModeInOut
       else pbind (acceptWord ''out'') (\<lambda>b. preturn (if b then ModeOut else ModeIn))))"

definition parseGenericDeclaration :: "bool \<Rightarrow> GenericDeclaration parser" where
  "parseGenericDeclaration procedure = pbind current (\<lambda>first. let start = t_span first in
     pbind (acceptWord ''constant'') (\<lambda>constantClass.
     pthen (if procedure \<and> \<not> constantClass then acceptWord ''variable'' else preturn False)
     (pbind name_list (\<lambda>names. pthen (expectSymbol '':'') (pbind (interface_mode procedure) (\<lambda>mode.
       if constantClass \<and> mode \<noteq> ModeIn then fail_at ''constant procedure parameters require mode in'' start
       else pbind parseName (\<lambda>typeName. pbind constraint (\<lambda>c. pbind default_value (\<lambda>d.
         preturn \<lparr>gd_names = names, gd_type = \<lparr>tm_name = typeName, tm_constraint = c\<rparr>, gd_defaultValue = d,
           gd_span = join start (case d of Some e \<Rightarrow> ex_span e | None \<Rightarrow> nm_span typeName), gd_mode = mode\<rparr>)))))))))"

definition port_mode :: "PortMode parser" where
  "port_mode = pbind (acceptWord ''in'') (\<lambda>b. if b then preturn ModeIn
     else pbind (acceptWord ''out'') (\<lambda>b. if b then preturn ModeOut
     else pbind (acceptWord ''inout'') (\<lambda>b. if b then preturn ModeInOut
     else pbind (acceptWord ''buffer'') (\<lambda>b. if b then preturn ModeBuffer
     else pbind (acceptWord ''linkage'') (\<lambda>b. preturn (if b then ModeLinkage else ModeIn))))))"

definition parsePortDeclaration :: "PortDeclaration parser" where
  "parsePortDeclaration = pbind current (\<lambda>first. let start = t_span first in
     pthen (acceptWord ''signal'') (pbind name_list (\<lambda>names. pthen (expectSymbol '':'') (pbind port_mode (\<lambda>mode.
       pbind parseName (\<lambda>typeName. pbind constraint (\<lambda>c. pbind default_value (\<lambda>d.
         preturn \<lparr>po_names = names, po_mode = mode, po_type = \<lparr>tm_name = typeName, tm_constraint = c\<rparr>,
           po_span = join start (case d of Some e \<Rightarrow> ex_span e
             | None \<Rightarrow> (case c of Some r \<Rightarrow> dr_span r | None \<Rightarrow> nm_span typeName)), po_defaultValue = d\<rparr>))))))))"

text \<open>
  The lists of generics and ports: a declaration that fails is left out, and reading goes on when \<open>;\<close> or \<open>)\<close> follows.
\<close>

definition interface_list :: "'a parser \<Rightarrow> bool \<Rightarrow> string \<Rightarrow> 'a list parser" where
  "interface_list item stepping message = pthen (expectSymbol ''('')
     (pbind (while_token (\<lambda>t. \<not> is_eof t \<and> \<not> is_symbol '')'' t) (\<lambda>xs.
        pbind current (\<lambda>before. pbind (optional item) (\<lambda>r. let xs = (case r of Some x \<Rightarrow> xs @ [x] | None \<Rightarrow> xs) in
          pbind (acceptSymbol '';'') (\<lambda>b. if b then preturn xs
          else pbind current (\<lambda>t. if \<not> is_symbol '')'' t then
              pthen (error message (t_span t)) (pthen (synchronize ''end'') pnull)
            else if stepping \<and> offset (sp_start (t_span before)) = offset (sp_start (t_span t)) then pthen advance_token (preturn xs)
            else preturn xs))))) [])
     (\<lambda>xs. pthen (expectSymbol '')'') (pthen (expectSymbol '';'') (preturn xs))))"

definition generic_clause :: "GenericDeclaration list parser" where
  "generic_clause = pbind (acceptWord ''generic'') (\<lambda>b. if \<not> b then preturn []
     else interface_list (parseGenericDeclaration False) False
       (''expected '' @ [quote] @ '';'' @ [quote] @ '' or '' @ [quote] @ '')'' @ [quote] @ '' after generic declaration''))"

definition port_clause :: "PortDeclaration list parser" where
  "port_clause = pbind (acceptWord ''port'') (\<lambda>b. if \<not> b then preturn []
     else interface_list parsePortDeclaration True
       (''expected '' @ [quote] @ '';'' @ [quote] @ '' or '' @ [quote] @ '')'' @ [quote] @ '' after port declaration''))"

text \<open>\<open>if (isNameToken()) { closing = parseName(); if (nameKey(closing) != nameKey(name)) error(...); }\<close>, where the mismatch ends
  the declaration or does not.\<close>

definition closing_name :: "bool \<Rightarrow> string \<Rightarrow> Name \<Rightarrow> unit parser" where
  "closing_name strict message n = pbind isNameToken (\<lambda>b. if \<not> b then preturn ()
     else pbind parseName (\<lambda>closing. if nameKey closing = nameKey n then preturn ()
       else if strict then fail_at message (nm_span closing) else error message (nm_span closing)))"

definition parseEntity :: "bool \<Rightarrow> EntityDeclaration parser" where
  "parseEntity isComponent = pbind advance_token (\<lambda>start. pbind parseName (\<lambda>name.
     pthen (if \<not> isComponent then expectWord ''is'' else pthen (acceptWord ''is'') (preturn ()))
     (pbind generic_clause (\<lambda>generics. pbind port_clause (\<lambda>ports.
       pthen (pbind (word ''end'') (\<lambda>b. if b then preturn ()
         else pthen (pbind current (\<lambda>t. error ''unsupported entity declaration; expected end of entity'' (t_span t))) (synchronize ''end'')))
       (pthen (expectWord ''end'')
       (pthen (if isComponent then pthen (optional (expectWord ''component'')) (preturn ()) else pthen (acceptWord ''entity'') (preturn ()))
       (pthen (closing_name False ''entity end name does not match its declaration'' name)
       (pthen (expectSymbol '';'') (pbind (span_from (t_span start)) (\<lambda>sp.
         preturn \<lparr>ed_name = name, ed_generics = generics, ed_ports = ports, ed_span = sp, ed_context = no_context\<rparr>)))))))))))"

section \<open>Objects and types\<close>

definition parseObjectDeclaration :: "bool \<Rightarrow> ObjectDeclaration parser" where
  "parseObjectDeclaration allowInitializer = pbind previous_token (\<lambda>start. pbind name_list (\<lambda>names.
     pthen (expectSymbol '':'') (pbind parseName (\<lambda>typeName. pbind paren_constraint (\<lambda>c. pbind range_constraint (\<lambda>r.
       pbind (if allowInitializer then default_value else preturn None) (\<lambda>d. pthen (expectSymbol '';'')
       (pbind (span_from (t_span start)) (\<lambda>sp. preturn \<lparr>od_names = names,
          od_type = \<lparr>tm_name = typeName, tm_constraint = (if r \<noteq> None then r else c)\<rparr>, od_span = sp, od_initializer = d\<rparr>)))))))))"

definition parseConstantDeclaration :: "ConstantDeclaration parser" where
  "parseConstantDeclaration = pbind (parseObjectDeclaration True) (\<lambda>d. case od_initializer d of
       None \<Rightarrow> fail_at ''constant requires an initializer'' (od_span d)
     | Some e \<Rightarrow> preturn \<lparr>cd_object = d\<lparr>od_initializer := None\<rparr>, cd_value = e\<rparr>)"

definition parseSubtypeDeclaration :: "SubtypeDeclaration parser" where
  "parseSubtypeDeclaration = pbind advance_token (\<lambda>start. pbind parseName (\<lambda>name. pthen (expectWord ''is'')
     (pbind parseName (\<lambda>base. pbind constraint (\<lambda>c. pthen (expectSymbol '';'') (pbind (span_from (t_span start)) (\<lambda>sp.
       preturn \<lparr>sd_name = name, sd_type = \<lparr>tm_name = base, tm_constraint = c\<rparr>, sd_span = sp\<rparr>)))))))"

definition parseEnumerationTypeDeclaration :: "EnumerationTypeDeclaration parser" where
  "parseEnumerationTypeDeclaration = pbind previous_token (\<lambda>start. pbind parseName (\<lambda>name. pthen (expectWord ''is'')
     (pthen (expectSymbol ''('') (pbind name_list (\<lambda>literals. pthen (expectSymbol '')'') (pthen (expectSymbol '';'')
     (pbind (span_from (t_span start)) (\<lambda>sp. preturn \<lparr>en_name = name, en_literals = literals, en_span = sp\<rparr>))))))))"

definition parseRecordTypeDeclaration :: "RecordTypeDeclaration parser" where
  "parseRecordTypeDeclaration = pbind previous_token (\<lambda>start. pbind parseName (\<lambda>name. pthen (expectWord ''is'')
     (pthen (expectWord ''record'')
     (pbind (while_token (\<lambda>t. \<not> is_eof t \<and> \<not> is_word ''end'' t) (\<lambda>fs. pbind (parseObjectDeclaration False) (\<lambda>f. preturn (fs @ [f]))) []) (\<lambda>fields.
     if fields = [] then fail_here ''record requires at least one element''
     else pthen (expectWord ''end'') (pthen (expectWord ''record'') (pthen (closing_name True ''record end name mismatch'' name)
       (pthen (expectSymbol '';'') (pbind (span_from (t_span start)) (\<lambda>sp.
         preturn \<lparr>rt_name = name, rt_fields = fields, rt_span = sp\<rparr>))))))))))"

text \<open>The index of an array: an unconstrained range, a type, or a range.\<close>

definition array_index :: "(DiscreteRange \<times> Name option \<times> Name option) parser" where
  "array_index = pbind isNameToken (\<lambda>isName. pbind (look_token 1) (\<lambda>t1. pbind (look_token 2) (\<lambda>t2.
     if isName \<and> t_canonical t1 = ''range'' \<and> t_text t2 = ''<>'' then
       pbind parseName (\<lambda>n. pthen advance_token (pthen advance_token (preturn (no_range, Some n, None))))
     else if isName \<and> t_text t1 = '')'' then pbind parseName (\<lambda>n. preturn (no_range, None, Some n))
     else pbind parseDiscreteRange (\<lambda>r. preturn (r, None, None)))))"

definition parseArrayTypeDeclaration :: "ArrayTypeDeclaration parser" where
  "parseArrayTypeDeclaration = pbind previous_token (\<lambda>start. pbind parseName (\<lambda>name. pthen (expectWord ''is'')
     (pthen (expectWord ''array'') (pthen (expectSymbol ''('') (pbind array_index (\<lambda>(range, indexSubtype, indexType).
       pthen (expectSymbol '')'') (pthen (expectWord ''of'') (pbind parseName (\<lambda>elementName. pbind paren_constraint (\<lambda>c.
         pthen (expectSymbol '';'') (pbind (span_from (t_span start)) (\<lambda>sp.
           preturn \<lparr>at_name = name, at_indexRange = range, at_elementType = \<lparr>tm_name = elementName, tm_constraint = c\<rparr>,
             at_span = sp, at_indexSubtype = indexSubtype, at_indexType = indexType\<rparr>))))))))))))"

definition fixed_name :: "string \<Rightarrow> SourceSpan \<Rightarrow> Name" where
  "fixed_name v sp = \<lparr>nm_spelling = v, nm_canonical = v, nm_span = sp\<rparr>"

definition parseFileDeclaration :: "FileDeclaration parser" where
  "parseFileDeclaration = pbind advance_token (\<lambda>start. pbind name_list (\<lambda>names. pthen (expectSymbol '':'') (pbind parseName (\<lambda>type.
     let readMode = fixed_name ''read_mode'' (t_span start) in
     pbind (acceptWord ''open'') (\<lambda>opened. pbind (if opened then parseName else preturn readMode) (\<lambda>mode.
     pbind (acceptWord ''is'') (\<lambda>b.
     pbind (if \<not> b then preturn (mode, None)
            else pbind (acceptWord ''in'') (\<lambda>i. pbind (if i then preturn readMode else pbind (acceptWord ''out'') (\<lambda>w.
                preturn (if w then fixed_name ''write_mode'' (t_span start) else mode))) (\<lambda>mode.
              pbind (parseExpression 0) (\<lambda>path. preturn (mode, Some path))))) (\<lambda>(mode, path).
     pthen (expectSymbol '';'') (pbind (span_from (t_span start)) (\<lambda>sp.
       preturn \<lparr>fd_names = names, fd_type = type, fd_mode = mode, fd_path = path, fd_span = sp\<rparr>))))))))))"

definition parseAlias :: "AliasDeclaration parser" where
  "parseAlias = pbind advance_token (\<lambda>start. pbind parseName (\<lambda>name. pbind (acceptSymbol '':'') (\<lambda>typed.
     pbind (if \<not> typed then preturn None
            else pbind parseName (\<lambda>n. pbind paren_constraint (\<lambda>c. preturn (Some \<lparr>tm_name = n, tm_constraint = c\<rparr>)))) (\<lambda>type.
     pthen (expectWord ''is'') (pbind (parseExpression 0) (\<lambda>target. pthen (expectSymbol '';'') (pbind (span_from (t_span start)) (\<lambda>sp.
       preturn \<lparr>ad_name = name, ad_type = type, ad_target = target, ad_span = sp\<rparr>))))))))"

end
