(* ===== verification/VHDLExprSafe.thy ===== *)
theory VHDLExprSafe
  imports VHDLExpr
begin

text \<open>
  The descent never reads outside the tokens, ends, builds trees with the children their kinds demand, and reports every
  failure with exactly one diagnostic.  \<open>reads\<close> is the weakest precondition of a parsing function that
  changes only the position, or fails with a diagnostic; \<open>descent\<close> is the contract of the recursive calls.
\<close>

section \<open>Weakest preconditions\<close>

text \<open>The tokens of a scan: one end of file, at the end.\<close>

definition stream :: "Token list \<Rightarrow> bool" where
  "stream ts \<longleftrightarrow> ts \<noteq> [] \<and> (\<forall>i\<in>set [0..<length ts]. is_eof (ts ! i) = (i + 1 = length ts))"

abbreviation parser_at :: "RecursiveParser \<Rightarrow> nat \<Rightarrow> RecursiveParser" where
  "parser_at b i \<equiv> b\<lparr>ps_index := i\<rparr>"

abbreviation tok :: "RecursiveParser \<Rightarrow> nat \<Rightarrow> Token" where
  "tok b i \<equiv> ps_tokens b ! i"

definition ready :: "RecursiveParser \<Rightarrow> nat \<Rightarrow> bool" where
  "ready b i \<longleftrightarrow> stream (ps_tokens b) \<and> i < length (ps_tokens b)"

definition reported :: "RecursiveParser \<Rightarrow> nat \<Rightarrow> RecursiveParser \<Rightarrow> bool" where
  "reported b i s \<longleftrightarrow> (\<exists>j d. i \<le> j \<and> ready b j \<and> s = (parser_at b j)\<lparr>ps_diagnostics := ps_diagnostics b @ [d]\<rparr>)"

definition reads :: "RecursiveParser \<Rightarrow> 'a parser \<Rightarrow> nat \<Rightarrow> ('a \<Rightarrow> nat \<Rightarrow> bool) \<Rightarrow> bool" where
  "reads b m i Q \<longleftrightarrow> (case m (parser_at b i) of Undefined \<Rightarrow> False | Null s \<Rightarrow> reported b i s
     | Value x s \<Rightarrow> \<exists>j. i \<le> j \<and> ready b j \<and> s = parser_at b j \<and> Q x j)"

named_theorems reads_intros "weakest preconditions of parsing functions"

lemma reported_mono: "reported b j s \<Longrightarrow> i \<le> j \<Longrightarrow> reported b i s"
  unfolding reported_def using le_trans by blast

lemma reads_mono:
  assumes "reads b m i Q" "\<And>x j. i \<le> j \<Longrightarrow> ready b j \<Longrightarrow> Q x j \<Longrightarrow> R x j"
  shows "reads b m i R"
  using assms by (auto simp: reads_def split: outcome.splits)

lemma reads_bind [reads_intros]:
  assumes "reads b m i (\<lambda>x j. i \<le> j \<longrightarrow> ready b j \<longrightarrow> reads b (k x) j Q)"
  shows "reads b (pbind m k) i Q"
proof (cases "m (parser_at b i)")
  case (Value x s)
  then obtain j where j: "i \<le> j" "ready b j" "s = parser_at b j" "reads b (k x) j Q" using assms by (auto simp: reads_def)
  then show ?thesis
    using Value le_trans [OF j(1)] reported_mono [OF _ j(1), of b] by (auto simp: reads_def pbind_def split: outcome.splits)
qed (use assms in \<open>auto simp: reads_def pbind_def\<close>)

lemma reads_then [reads_intros]:
  "reads b m i (\<lambda>_ j. i \<le> j \<longrightarrow> ready b j \<longrightarrow> reads b k j Q) \<Longrightarrow> reads b (pthen m k) i Q"
  unfolding pthen_def by (rule reads_bind)

lemma reads_return [reads_intros]: "ready b i \<Longrightarrow> Q x i \<Longrightarrow> reads b (preturn x) i Q"
  by (auto simp: reads_def preturn_def)

lemma reads_if [reads_intros]:
  "(c \<Longrightarrow> reads b m i Q) \<Longrightarrow> (\<not> c \<Longrightarrow> reads b k i Q) \<Longrightarrow> reads b (if c then m else k) i Q"
  by simp

lemma reads_fail_at [reads_intros]: "ready b i \<Longrightarrow> reads b (fail_at message span) i Q"
  unfolding reads_def fail_at_def pthen_def pbind_def error_def pnull_def reported_def by force

lemma reads_current [reads_intros]: "ready b i \<Longrightarrow> Q (tok b i) i \<Longrightarrow> reads b current i Q"
  by (auto simp: reads_def current_def token_at_def ready_def)

definition look_index :: "RecursiveParser \<Rightarrow> nat \<Rightarrow> nat" where
  "look_index b i = (if i < length (ps_tokens b) then i else length (ps_tokens b) - 1)"

lemma reads_look [reads_intros]: "ready b i \<Longrightarrow> Q (tok b (look_index b (i + d))) i \<Longrightarrow> reads b (look_token d) i Q"
  by (auto simp: reads_def look_token_def token_at_def ready_def stream_def look_index_def Let_def)

lemma ready_Suc: "ready b i \<Longrightarrow> \<not> is_eof (tok b i) \<Longrightarrow> ready b (Suc i)"
  by (auto simp: ready_def stream_def)

lemma look_next: "ready b i \<Longrightarrow> \<not> is_eof (tok b i) \<Longrightarrow> look_index b (Suc i) = Suc i"
  using ready_Suc [of b i] by (simp add: look_index_def ready_def)

lemma reads_previous [reads_intros]: "ready b i \<Longrightarrow> 0 < i \<Longrightarrow> Q (tok b (i - 1)) i \<Longrightarrow> reads b previous_token i Q"
  by (auto simp: reads_def previous_token_def token_at_def ready_def)

lemma reads_advance [reads_intros]:
  assumes "ready b i" "is_eof (tok b i) \<Longrightarrow> Q (tok b i) i" "\<not> is_eof (tok b i) \<Longrightarrow> Q (tok b i) (Suc i)"
  shows "reads b advance_token i Q"
proof -
  have "advance_token (parser_at b i) = Value (tok b i) (parser_at b (if is_eof (tok b i) then i else Suc i))"
    using assms(1) by (simp add: advance_token_def pbind_def current_def token_at_def ready_def)
  moreover have "ready b (if is_eof (tok b i) then i else Suc i)" "Q (tok b i) (if is_eof (tok b i) then i else Suc i)"
    using assms ready_Suc by auto
  moreover have "i \<le> (if is_eof (tok b i) then i else Suc i)" by simp
  ultimately show ?thesis unfolding reads_def by (simp only: outcome.case) blast
qed

lemma word_not_eof [simp]: "is_word v t \<Longrightarrow> t_kind t \<noteq> EndOfFile" by (simp add: is_word_def)
lemma symbol_not_eof [simp]: "is_symbol v t \<Longrightarrow> t_kind t \<noteq> EndOfFile" by (simp add: is_symbol_def)
lemma name_not_eof [simp]: "is_name_token t \<Longrightarrow> t_kind t \<noteq> EndOfFile" by (auto simp: is_name_token_def)

lemma reads_fail_here [reads_intros]: "ready b i \<Longrightarrow> reads b (fail_here message) i Q"
  unfolding fail_here_def by (auto intro!: reads_intros)

lemma reads_symbol [reads_intros]: "ready b i \<Longrightarrow> Q (is_symbol v (tok b i)) i \<Longrightarrow> reads b (symbol v) i Q"
  unfolding symbol_def by (auto intro!: reads_intros)

lemma reads_word [reads_intros]: "ready b i \<Longrightarrow> Q (is_word v (tok b i)) i \<Longrightarrow> reads b (word v) i Q"
  unfolding word_def by (auto intro!: reads_intros)

lemma reads_acceptSymbol [reads_intros]:
  "ready b i \<Longrightarrow> (is_symbol v (tok b i) \<Longrightarrow> Q True (Suc i)) \<Longrightarrow> (\<not> is_symbol v (tok b i) \<Longrightarrow> Q False i) \<Longrightarrow>
    reads b (acceptSymbol v) i Q"
  unfolding acceptSymbol_def by (auto intro!: reads_intros)

lemma reads_acceptWord [reads_intros]:
  "ready b i \<Longrightarrow> (is_word v (tok b i) \<Longrightarrow> Q True (Suc i)) \<Longrightarrow> (\<not> is_word v (tok b i) \<Longrightarrow> Q False i) \<Longrightarrow>
    reads b (acceptWord v) i Q"
  unfolding acceptWord_def by (auto intro!: reads_intros)

lemma reads_expectSymbol [reads_intros]: "ready b i \<Longrightarrow> (is_symbol v (tok b i) \<Longrightarrow> Q () (Suc i)) \<Longrightarrow> reads b (expectSymbol v) i Q"
  unfolding expectSymbol_def by (auto intro!: reads_intros)

lemma reads_expectWord [reads_intros]: "ready b i \<Longrightarrow> (is_word v (tok b i) \<Longrightarrow> Q () (Suc i)) \<Longrightarrow> reads b (expectWord v) i Q"
  unfolding expectWord_def by (auto intro!: reads_intros)

lemma reads_parseName [reads_intros]:
  assumes "ready b i" "\<And>n. Q n (Suc i)"
  shows "reads b parseName i Q"
  unfolding parseName_def using assms by (auto intro!: reads_intros)

lemma reads_span_from [reads_intros]: "ready b i \<Longrightarrow> 0 < i \<Longrightarrow> (\<And>sp. Q sp i) \<Longrightarrow> reads b (span_from start) i Q"
  unfolding span_from_def by (auto intro!: reads_intros)

section \<open>Evaluation inside the tokens\<close>

named_theorems exec_simps "evaluation of parsing functions"

lemma exec_seq [exec_simps]:
  "m s = Value x s' \<Longrightarrow> pbind m k s = k x s'" "m s = Value x s' \<Longrightarrow> pthen m r s = r s'" "preturn x s = Value x s"
  by (simp_all add: pbind_def pthen_def preturn_def)

lemma exec_tokens [exec_simps]:
  "i < length (ps_tokens b) \<Longrightarrow> current (parser_at b i) = Value (tok b i) (parser_at b i)"
  "i < length (ps_tokens b) \<Longrightarrow> \<not> is_eof (tok b i) \<Longrightarrow> advance_token (parser_at b i) = Value (tok b i) (parser_at b (Suc i))"
  "i < length (ps_tokens b) \<Longrightarrow> previous_token (parser_at b (Suc i)) = Value (tok b i) (parser_at b (Suc i))"
  by (simp_all add: current_def token_at_def advance_token_def pbind_def previous_token_def)

lemma exec_look [exec_simps]:
  "ps_tokens b \<noteq> [] \<Longrightarrow> look_token d (parser_at b i) = Value (tok b (look_index b (i + d))) (parser_at b i)"
  by (simp add: look_token_def token_at_def look_index_def Let_def)

lemma exec_tests [exec_simps]:
  "i < length (ps_tokens b) \<Longrightarrow> symbol v (parser_at b i) = Value (is_symbol v (tok b i)) (parser_at b i)"
  "i < length (ps_tokens b) \<Longrightarrow> acceptSymbol v (parser_at b i) =
     Value (is_symbol v (tok b i)) (parser_at b (if is_symbol v (tok b i) then Suc i else i))"
  "i < length (ps_tokens b) \<Longrightarrow> acceptWord v (parser_at b i) =
     Value (is_word v (tok b i)) (parser_at b (if is_word v (tok b i) then Suc i else i))"
  "i < length (ps_tokens b) \<Longrightarrow> is_symbol v (tok b i) \<Longrightarrow> expectSymbol v (parser_at b i) = Value () (parser_at b (Suc i))"
  "i < length (ps_tokens b) \<Longrightarrow> is_name_token (tok b i) \<Longrightarrow> parseName (parser_at b i) =
     Value \<lparr>nm_spelling = t_text (tok b i), nm_canonical = t_canonical (tok b i), nm_span = t_span (tok b i)\<rparr> (parser_at b (Suc i))"
  "i < length (ps_tokens b) \<Longrightarrow> span_from sp (parser_at b (Suc i)) = Value (join sp (t_span (tok b i))) (parser_at b (Suc i))"
  by (simp_all add: symbol_def acceptSymbol_def acceptWord_def word_def expectSymbol_def parseName_def span_from_def exec_seq exec_tokens)

lemma exec_tests_bind [exec_simps]:
  "i < length (ps_tokens b) \<Longrightarrow> pbind (symbol v) k (parser_at b i) = k (is_symbol v (tok b i)) (parser_at b i)"
  "i < length (ps_tokens b) \<Longrightarrow> pbind (acceptSymbol v) k (parser_at b i) =
     (if is_symbol v (tok b i) then k True (parser_at b (Suc i)) else k False (parser_at b i))"
  "i < length (ps_tokens b) \<Longrightarrow> pbind (acceptWord v) k (parser_at b i) =
     (if is_word v (tok b i) then k True (parser_at b (Suc i)) else k False (parser_at b i))"
  by (simp_all add: pbind_def exec_tests)

lemma exec_assoc [exec_simps]: "pbind (pbind m k) h = pbind m (\<lambda>x. pbind (k x) h)" "pbind (preturn x) h = h x"
  by (auto simp: pbind_def preturn_def split: outcome.split)

section \<open>Well-formed expressions\<close>

fun children_ok :: "ExpressionKind \<Rightarrow> bool \<Rightarrow> bool \<Rightarrow> bool \<Rightarrow> bool \<Rightarrow> bool" where
  "children_ok KUnary l r c es = (l \<and> \<not> r \<and> \<not> c \<and> \<not> es)"
| "children_ok KBinary l r c es = (l \<and> r \<and> \<not> c \<and> \<not> es)"
| "children_ok KConditional l r c es = (l \<and> c \<and> \<not> es)"
| "children_ok KIndexed l r c es = (l \<and> r \<and> \<not> c \<and> \<not> es)"
| "children_ok KOthers l r c es = (l \<and> \<not> r \<and> \<not> c \<and> \<not> es)"
| "children_ok KAggregate l r c es = (\<not> l \<and> \<not> r \<and> \<not> c \<and> es)"
| "children_ok KRange l r c es = (l \<and> r \<and> \<not> c \<and> \<not> es)"
| "children_ok KCall l r c es = (l \<and> \<not> r \<and> \<not> c \<and> es)"
| "children_ok KSelected l r c es = (l \<and> \<not> r \<and> \<not> c \<and> \<not> es)"
| "children_ok KAssociation l r c es = (l \<and> r \<and> \<not> c \<and> \<not> es)"
| "children_ok KAttribute l r c es = (l \<and> \<not> r \<and> \<not> c \<and> \<not> es)"
| "children_ok _ l r c es = (\<not> l \<and> \<not> r \<and> \<not> c \<and> \<not> es)"

primrec expr_ok :: "Expression \<Rightarrow> bool" where
  "expr_ok (Expression k t c sp l r cn es) \<longleftrightarrow>
     children_ok k (l \<noteq> None) (r \<noteq> None) (cn \<noteq> None) (es \<noteq> []) \<and>
     pred_option id (map_option expr_ok l) \<and> pred_option id (map_option expr_ok r) \<and> pred_option id (map_option expr_ok cn) \<and>
     list_all id (map expr_ok es)"

lemma expr_ok_nodes [simp]:
  "k \<in> {KName, KIntegerLiteral, KRealLiteral, KStringLiteral, KCharacterLiteral, KBitStringLiteral} \<Longrightarrow> expr_ok (leaf k t c sp)"
  "k \<in> {KUnary, KOthers, KSelected, KAttribute} \<Longrightarrow> expr_ok l \<Longrightarrow> expr_ok (unary k t c sp l)"
  "k \<in> {KBinary, KIndexed, KRange, KAssociation} \<Longrightarrow> expr_ok l \<Longrightarrow> expr_ok r \<Longrightarrow> expr_ok (binary k t sp l r)"
  by (auto simp: leaf_def unary_def binary_def)

lemma with_span_ok [simp]: "expr_ok (with_span sp e) = expr_ok e" "ex_kind (with_span sp e) = ex_kind e"
  by (cases e; simp)+

lemma push_element_kind [simp]: "ex_kind (push_element n e) = ex_kind n"
  by (cases n) simp

lemma push_element_ok [simp]:
  "expr_ok n \<Longrightarrow> ex_kind n = KAggregate \<or> ex_kind n = KCall \<Longrightarrow> expr_ok e \<Longrightarrow> expr_ok (push_element n e)"
  by (cases n) auto

section \<open>Leaves\<close>

lemma literal_ok: "ready b i \<Longrightarrow> reads b literal i (\<lambda>e j. i + 1 \<le> j \<and> expr_ok e)"
  unfolding literal_def by (cases "t_kind (tok b i)") (auto intro!: reads_intros)

lemma bit_string_ok:
  assumes "ready b i" "\<not> is_eof (tok b i)"
  shows "reads b bit_string i (\<lambda>e j. i + 1 \<le> j \<and> expr_ok e)"
  unfolding bit_string_def using assms by (auto intro!: reads_intros)

lemma bitStringBase_canonical: "bitStringBase t \<Longrightarrow> t_canonical t \<noteq> [] \<and> \<not> is_eof t"
  by (auto simp: bitStringBase_def)

lemma word_base: "t_kind t = Identifier \<Longrightarrow> t_canonical t = ''d'' \<Longrightarrow> bitStringBase t" "bitStringBase t \<Longrightarrow> t_kind t = Identifier"
  by (auto simp: bitStringBase_def)

lemma bit_string_value_ok:
  assumes "ready b i" "bitStringBase base"
  shows "reads b (bit_string_value start len base lit) i (\<lambda>e j. expr_ok e)"
  unfolding bit_string_value_def using assms bitStringBase_canonical [OF assms(2)]
  by (auto intro!: reads_intros simp: Let_def split: sum.split option.split)

lemma extended_bit_string_ok:
  assumes "ready b i" and "t_kind (tok b i) = IntegerLiteral \<and> bitStringBase (tok b (Suc i)) \<or>
    t_kind (tok b i) \<noteq> IntegerLiteral \<and> bitStringBase (tok b i)"
  shows "reads b parseExtendedBitString i (\<lambda>e j. i + 1 \<le> j \<and> expr_ok e)"
  unfolding parseExtendedBitString_def bit_string_length_def Let_def using assms bitStringBase_canonical
  by (auto intro!: reads_intros bit_string_value_ok [THEN reads_mono] split: option.split)

section \<open>The contract of the recursive calls\<close>

fun goal_rank :: "goal \<Rightarrow> nat" where
  "goal_rank Primary = 1"
| "goal_rank (Expr _) = 2"
| "goal_rank Index = 3"
| "goal_rank (Conditional _) = 3"
| "goal_rank Element = 4"
| "goal_rank _ = 0"

fun goal_ok :: "goal \<Rightarrow> bool" where
  "goal_ok (Expr m) = (0 \<le> m)"
| "goal_ok (Operators m l) = (0 \<le> m \<and> expr_ok l)"
| "goal_ok (Choices e) = (expr_ok e \<and> ex_kind e = KAggregate)"
| "goal_ok (Elements e) = (expr_ok e \<and> ex_kind e = KAggregate)"
| "goal_ok (Arguments e) = (expr_ok e \<and> ex_kind e = KCall)"
| "goal_ok (Suffixes e) = expr_ok e"
| "goal_ok (Associate e) = expr_ok e"
| "goal_ok _ = True"

text \<open>What a call reads at least; the goals of rank 0 are loops that may read nothing.\<close>

abbreviation goal_min :: "goal \<Rightarrow> nat" where
  "goal_min g \<equiv> (if goal_rank g = 0 then 0 else 1)"

lemma op_precedence_eq: "0 \<le> precedence t \<Longrightarrow> op_precedence t = precedence t"
  by (auto simp: precedence_def op_precedence_def is_word_def is_symbol_def split: if_splits)

lemma precedence_not_eof: "0 \<le> precedence t \<Longrightarrow> \<not> is_eof t"
  by (auto simp: precedence_def split: if_splits)

lemma prefix_not_eof [simp]: "is_prefix_operator t \<Longrightarrow> t_kind t \<noteq> EndOfFile"
  by (auto simp: is_prefix_operator_def)

locale descent =
  fixes call :: descent and n :: nat and b :: RecursiveParser
  assumes call_reads: "ready b i \<Longrightarrow> goal_ok g \<Longrightarrow> 8 * (length (ps_tokens b) - i) + goal_rank g < n \<Longrightarrow>
    reads b (call g) i (\<lambda>e j. i + goal_min g \<le> j \<and> expr_ok e)"
begin

lemma call_ok [reads_intros]:
  assumes "ready b i" "goal_ok g" "8 * (length (ps_tokens b) - i) + goal_rank g < n"
    and "\<And>e j. i + goal_min g \<le> j \<Longrightarrow> ready b j \<Longrightarrow> expr_ok e \<Longrightarrow> Q e j"
  shows "reads b (call g) i Q"
  by (rule reads_mono [OF call_reads [OF assms(1-3)]]) (use assms(4) in auto)

abbreviation cost :: "nat \<Rightarrow> nat \<Rightarrow> bool" where
  "cost i r \<equiv> 8 * (length (ps_tokens b) - i) + r < Suc n"

lemma expression_ok:
  "ready b i \<Longrightarrow> 0 \<le> m \<Longrightarrow> cost i 2 \<Longrightarrow> reads b (expression call m) i (\<lambda>e j. i + 1 \<le> j \<and> expr_ok e)"
  unfolding expression_def by (auto intro!: reads_intros simp: ready_def)

lemma index_ok:
  "ready b i \<Longrightarrow> cost i 3 \<Longrightarrow> reads b (parseIndex call) i (\<lambda>e j. i + 1 \<le> j \<and> expr_ok e)"
  unfolding parseIndex_def by (auto intro!: reads_intros simp: ready_def)

lemma conditional_ok:
  "ready b i \<Longrightarrow> cost i 3 \<Longrightarrow> reads b (parseConditional call a) i (\<lambda>e j. i + 1 \<le> j \<and> expr_ok e)"
  unfolding parseConditional_def by (auto intro!: reads_intros simp: ready_def)

lemma operators_ok:
  "ready b i \<Longrightarrow> 0 \<le> m \<Longrightarrow> expr_ok l \<Longrightarrow> cost i 0 \<Longrightarrow> reads b (operators call m l) i (\<lambda>e j. expr_ok e)"
  unfolding operators_def using op_precedence_eq precedence_not_eof
  by (auto intro!: reads_intros simp: ready_def)

lemma prefix_ok:
  "ready b i \<Longrightarrow> is_prefix_operator (tok b i) \<Longrightarrow> cost i 1 \<Longrightarrow> reads b (prefix_expression call) i (\<lambda>e j. i + 1 \<le> j \<and> expr_ok e)"
  unfolding prefix_expression_def by (auto intro!: reads_intros simp: ready_def)

lemma associate_ok:
  "ready b i \<Longrightarrow> expr_ok e \<Longrightarrow> cost i 0 \<Longrightarrow> reads b (associate call e) i (\<lambda>e j. expr_ok e)"
  unfolding associate_def by (auto intro!: reads_intros simp: ready_def)

lemma element_ok:
  "ready b i \<Longrightarrow> cost i 4 \<Longrightarrow> reads b (parseElement call) i (\<lambda>e j. i + 1 \<le> j \<and> expr_ok e)"
  unfolding parseElement_def by (auto intro!: reads_intros simp: ready_def)

lemma parenthesized_ok:
  "ready b i \<Longrightarrow> is_symbol ''('' (tok b i) \<Longrightarrow> cost i 1 \<Longrightarrow> reads b (parenthesized call) i (\<lambda>e j. i + 1 \<le> j \<and> expr_ok e)"
  unfolding parenthesized_def Let_def by (auto intro!: reads_intros simp: ready_def)

lemma suffixes_ok:
  "ready b i \<Longrightarrow> expr_ok e \<Longrightarrow> cost i 0 \<Longrightarrow> reads b (suffixes call e) i (\<lambda>e j. expr_ok e)"
  unfolding suffixes_def named_suffix_def parenthesized_suffix_def by (auto intro!: reads_intros simp: ready_def)

lemma loops_ok:
  "ready b i \<Longrightarrow> expr_ok e \<Longrightarrow> ex_kind e = KAggregate \<Longrightarrow> cost i 0 \<Longrightarrow> reads b (choices_loop call e) i (\<lambda>e j. expr_ok e)"
  "ready b i \<Longrightarrow> expr_ok e \<Longrightarrow> ex_kind e = KAggregate \<Longrightarrow> cost i 0 \<Longrightarrow> reads b (elements_loop call e) i (\<lambda>e j. expr_ok e)"
  "ready b i \<Longrightarrow> expr_ok e \<Longrightarrow> ex_kind e = KCall \<Longrightarrow> cost i 0 \<Longrightarrow> reads b (arguments_loop call e) i (\<lambda>e j. expr_ok e)"
  unfolding choices_loop_def elements_loop_def arguments_loop_def by (auto intro!: reads_intros simp: ready_def)

lemma name_ok:
  "ready b i \<Longrightarrow> cost i 1 \<Longrightarrow> reads b (name_expression call) i (\<lambda>e j. i + 1 \<le> j \<and> expr_ok e)"
  unfolding name_expression_def by (auto intro!: reads_intros simp: ready_def)

lemma primary_ok:
  "ready b i \<Longrightarrow> cost i 1 \<Longrightarrow> reads b (parsePrimary call) i (\<lambda>e j. i + 1 \<le> j \<and> expr_ok e)"
  unfolding parsePrimary_def
  by (intro reads_bind reads_current reads_look reads_if impI prefix_ok parenthesized_ok name_ok literal_ok bit_string_ok extended_bit_string_ok)
    (auto simp: look_next is_word_def word_base(1) dest: word_base(2))

lemma dispatch_ok:
  assumes "ready b i" "goal_ok g" "cost i (goal_rank g)"
  shows "reads b (dispatch call g) i (\<lambda>e j. i + goal_min g \<le> j \<and> expr_ok e)"
proof (cases g)
  case (Expr m) then show ?thesis using expression_ok assms by simp
next
  case (Operators m l) then show ?thesis using operators_ok [THEN reads_mono] assms by simp
next
  case Primary then show ?thesis using primary_ok assms by simp
next
  case Index then show ?thesis using index_ok assms by simp
next
  case (Conditional a) then show ?thesis using conditional_ok assms by simp
next
  case Element then show ?thesis using element_ok assms by simp
next
  case (Choices e) then show ?thesis using loops_ok(1) [THEN reads_mono] assms by simp
next
  case (Elements e) then show ?thesis using loops_ok(2) [THEN reads_mono] assms by simp
next
  case (Suffixes e) then show ?thesis using suffixes_ok [THEN reads_mono] assms by simp
next
  case (Associate e) then show ?thesis using associate_ok [THEN reads_mono] assms by simp
next
  case (Arguments e) then show ?thesis using loops_ok(3) [THEN reads_mono] assms by simp
qed

end

section \<open>The descent\<close>

lemma descend_contract: "descent (descend n) n b"
proof (induction n)
  case 0 show ?case by unfold_locales simp
next
  case (Suc n)
  then show ?case using descent.dispatch_ok [OF Suc] by unfold_locales simp
qed

interpretation descend: descent "descend n" n b for n b
  by (rule descend_contract)

lemma goal_rank_le: "goal_rank g \<le> 4"
  by (cases g) auto

lemma run_goal_reads [reads_intros]:
  assumes "ready b i" "goal_ok g" "\<And>e j. i + goal_min g \<le> j \<Longrightarrow> ready b j \<Longrightarrow> expr_ok e \<Longrightarrow> Q e j"
  shows "reads b (run_goal g) i Q"
proof -
  have "reads b (descend (descent_fuel (parser_at b i)) g) i Q"
    by (rule descend.call_ok) (use assms in \<open>auto simp: descent_fuel_def tokens_left_def goal_rank_le [THEN le_less_trans]\<close>)
  then show ?thesis by (simp add: reads_def run_goal_def)
qed

lemma parseExpression_reads [reads_intros]:
  assumes "ready b i" "0 \<le> m" "\<And>e j. i < j \<Longrightarrow> ready b j \<Longrightarrow> expr_ok e \<Longrightarrow> Q e j"
  shows "reads b (parseExpression m) i Q"
  unfolding parseExpression_def by (rule run_goal_reads) (use assms in auto)

end
