(* ===== verification/VHDLWorks.thy ===== *)
theory VHDLWorks
  imports VHDLDecl VHDLExprSafe
begin

text \<open>
  Weakest preconditions of the parsing functions that report more than one diagnostic and go on.  \<open>works b m s Q\<close>: run from \<open>s\<close>, which
  is ahead of \<open>b\<close>, \<open>m\<close> stays in the tokens; where it gives up it has reported more than \<open>b\<close> had, and where it returns \<open>Q\<close> holds.
  \<open>safe\<close> is the contract of a parsing function, with the least position it may be called at and the tokens it reads at least.
\<close>

section \<open>Positions\<close>

definition dg :: "RecursiveParser \<Rightarrow> nat" where
  "dg s = length (ps_diagnostics s)"

definition ahead :: "RecursiveParser \<Rightarrow> RecursiveParser \<Rightarrow> bool" where
  "ahead b s \<longleftrightarrow> stream (ps_tokens b) \<and> ps_tokens s = ps_tokens b \<and> ps_index b \<le> ps_index s \<and> ps_index s < length (ps_tokens b) \<and>
     (\<exists>d. ps_diagnostics s = ps_diagnostics b @ d)"

abbreviation cur :: "RecursiveParser \<Rightarrow> Token" where
  "cur s \<equiv> ps_tokens s ! ps_index s"

lemma ahead_refl: "ahead b s \<Longrightarrow> ahead s s" "ahead b s \<Longrightarrow> ahead b b"
  by (auto simp: ahead_def)

lemma ahead_trans: "ahead b s \<Longrightarrow> ahead s s' \<Longrightarrow> ahead b s'"
  by (auto simp: ahead_def)

lemma ahead_le: "ahead b s \<Longrightarrow> ps_index b \<le> ps_index s \<and> dg b \<le> dg s"
  by (auto simp: ahead_def dg_def)

lemma ahead_step:
  assumes "ahead b s" "\<not> is_eof (cur s)"
  shows "ahead b (s\<lparr>ps_index := Suc (ps_index s)\<rparr>)" "ahead s (s\<lparr>ps_index := Suc (ps_index s)\<rparr>)"
  using assms by (auto simp: ahead_def stream_def)

section \<open>Weakest preconditions\<close>

definition works :: "RecursiveParser \<Rightarrow> 'a parser \<Rightarrow> RecursiveParser \<Rightarrow> ('a \<Rightarrow> RecursiveParser \<Rightarrow> bool) \<Rightarrow> bool" where
  "works b m s Q \<longleftrightarrow> (case m s of Undefined \<Rightarrow> False | Null s' \<Rightarrow> ahead b s' \<and> dg b < dg s' | Value x s' \<Rightarrow> ahead b s' \<and> Q x s')"

named_theorems works_intros "weakest preconditions of parsing functions"

lemma works_mono: "works b m s Q \<Longrightarrow> (\<And>x s'. ahead b s' \<Longrightarrow> Q x s' \<Longrightarrow> R x s') \<Longrightarrow> works b m s R"
  by (auto simp: works_def split: outcome.splits)

lemma works_bind [works_intros]: "works b m s (\<lambda>x s'. ahead b s' \<longrightarrow> works b (k x) s' Q) \<Longrightarrow> works b (pbind m k) s Q"
  by (auto simp: works_def pbind_def split: outcome.splits)

lemma works_then [works_intros]: "works b m s (\<lambda>_ s'. ahead b s' \<longrightarrow> works b k s' Q) \<Longrightarrow> works b (pthen m k) s Q"
  unfolding pthen_def by (rule works_bind)

lemma works_return [works_intros]: "ahead b s \<Longrightarrow> Q x s \<Longrightarrow> works b (preturn x) s Q"
  by (simp add: works_def preturn_def)

lemma works_null [works_intros]: "ahead b s \<Longrightarrow> dg b < dg s \<Longrightarrow> works b pnull s Q"
  by (simp add: works_def pnull_def)

lemma works_if [works_intros]: "(c \<Longrightarrow> works b m s Q) \<Longrightarrow> (\<not> c \<Longrightarrow> works b k s Q) \<Longrightarrow> works b (if c then m else k) s Q"
  by simp

lemma works_current [works_intros]: "ahead b s \<Longrightarrow> Q (cur s) s \<Longrightarrow> works b current s Q"
  by (simp add: works_def current_def token_at_def ahead_def)

lemma works_look [works_intros]: "ahead b s \<Longrightarrow> (\<And>t. Q t s) \<Longrightarrow> works b (look_token d) s Q"
  by (auto simp: works_def look_token_def token_at_def ahead_def stream_def Let_def)

lemma works_previous [works_intros]: "ahead b s \<Longrightarrow> 0 < ps_index s \<Longrightarrow> (\<And>t. Q t s) \<Longrightarrow> works b previous_token s Q"
  by (auto simp: works_def previous_token_def token_at_def ahead_def)

text \<open>A state that the function leaves: ahead of the state before, with at least \<open>k\<close> more tokens read.\<close>

definition after :: "nat \<Rightarrow> RecursiveParser \<Rightarrow> RecursiveParser \<Rightarrow> bool" where
  "after k s s' \<longleftrightarrow> ahead s s' \<and> ps_index s + k \<le> ps_index s' \<and> dg s \<le> dg s'"

lemma works_advance [works_intros]:
  assumes "ahead b s" "is_eof (cur s) \<Longrightarrow> Q (cur s) s"
    "\<And>s'. ahead b s' \<Longrightarrow> after 1 s s' \<Longrightarrow> ps_index s' = Suc (ps_index s) \<Longrightarrow> \<not> is_eof (cur s) \<Longrightarrow> Q (cur s) s'"
  shows "works b advance_token s Q"
proof -
  have "advance_token s = Value (cur s) (if is_eof (cur s) then s else s\<lparr>ps_index := Suc (ps_index s)\<rparr>)"
    using assms(1) by (simp add: advance_token_def pbind_def current_def token_at_def ahead_def)
  then show ?thesis using assms ahead_step [OF assms(1)] by (auto simp: works_def after_def dg_def)
qed

lemma works_error [works_intros]:
  assumes "ahead b s" "\<And>s'. ahead b s' \<Longrightarrow> after 0 s s' \<Longrightarrow> ps_index s' = ps_index s \<Longrightarrow> cur s' = cur s \<Longrightarrow> dg s' = Suc (dg s) \<Longrightarrow> Q () s'"
  shows "works b (error message span) s Q"
proof -
  let ?s = "s\<lparr>ps_diagnostics := ps_diagnostics s @ [\<lparr>pd_message = message, pd_span = span\<rparr>]\<rparr>"
  have "ahead b ?s" "ahead s ?s" using assms(1) by (auto simp: ahead_def)
  then show ?thesis using assms(2) by (simp add: works_def error_def after_def dg_def)
qed

lemma works_fail_at [works_intros]: "ahead b s \<Longrightarrow> works b (fail_at message span) s Q"
  unfolding fail_at_def by (auto intro!: works_intros dest: ahead_le)

lemma works_fail_here [works_intros]: "ahead b s \<Longrightarrow> works b (fail_here message) s Q"
  unfolding fail_here_def by (auto intro!: works_intros)

lemma works_tests [works_intros]:
  "ahead b s \<Longrightarrow> Q (is_word v (cur s)) s \<Longrightarrow> works b (word v) s Q"
  "ahead b s \<Longrightarrow> Q (is_symbol v (cur s)) s \<Longrightarrow> works b (symbol v) s Q"
  "ahead b s \<Longrightarrow> Q (is_eof (cur s)) s \<Longrightarrow> works b atEnd_token s Q"
  "ahead b s \<Longrightarrow> Q (is_name_token (cur s)) s \<Longrightarrow> works b isNameToken s Q"
  unfolding word_def symbol_def atEnd_token_def isNameToken_def by (auto intro!: works_intros)

lemma works_acceptWord [works_intros]:
  assumes "ahead b s" "\<not> is_word v (cur s) \<Longrightarrow> Q False s"
    "\<And>s'. ahead b s' \<Longrightarrow> after 1 s s' \<Longrightarrow> is_word v (cur s) \<Longrightarrow> Q True s'"
  shows "works b (acceptWord v) s Q"
  unfolding acceptWord_def using assms by (auto intro!: works_intros)

lemma works_acceptSymbol [works_intros]:
  assumes "ahead b s" "\<not> is_symbol v (cur s) \<Longrightarrow> Q False s"
    "\<And>s'. ahead b s' \<Longrightarrow> after 1 s s' \<Longrightarrow> is_symbol v (cur s) \<Longrightarrow> Q True s'"
  shows "works b (acceptSymbol v) s Q"
  unfolding acceptSymbol_def using assms by (auto intro!: works_intros)

text \<open>The contract of a parsing function.\<close>

definition safe :: "nat \<Rightarrow> nat \<Rightarrow> 'a parser \<Rightarrow> bool" where
  "safe p k m \<longleftrightarrow> (\<forall>s. ahead s s \<and> p \<le> ps_index s \<longrightarrow> works s m s (\<lambda>x s'. after k s s'))"

lemma works_rebase:
  assumes "works s m s (\<lambda>x s'. after k s s')" "ahead b s" "\<And>x s'. ahead b s' \<Longrightarrow> after k s s' \<Longrightarrow> Q x s'"
  shows "works b m s Q"
  using assms(1,3) ahead_trans [OF assms(2)] ahead_le [OF assms(2)] by (fastforce simp: works_def split: outcome.splits)

lemma works_call:
  assumes "safe p k m" "ahead b s" "p \<le> ps_index s" "\<And>x s'. ahead b s' \<Longrightarrow> after k s s' \<Longrightarrow> Q x s'"
  shows "works b m s Q"
proof -
  have "works s m s (\<lambda>x s'. after k s s')" using assms(1-3) ahead_refl(1) unfolding safe_def by blast
  then show ?thesis using assms(2,4) by (rule works_rebase)
qed

lemma safeI: "(\<And>s. ahead s s \<Longrightarrow> p \<le> ps_index s \<Longrightarrow> works s m s (\<lambda>x s'. after k s s')) \<Longrightarrow> safe p k m"
  by (simp add: safe_def)

text \<open>The same contract in one list of tokens.\<close>

definition safe_in :: "Token list \<Rightarrow> nat \<Rightarrow> nat \<Rightarrow> 'a parser \<Rightarrow> bool" where
  "safe_in ts p k m \<longleftrightarrow> (\<forall>s. ahead s s \<and> ps_tokens s = ts \<and> p \<le> ps_index s \<longrightarrow> works s m s (\<lambda>x s'. after k s s'))"

lemma safe_iff: "safe p k m \<longleftrightarrow> (\<forall>ts. safe_in ts p k m)"
  by (auto simp: safe_def safe_in_def)

lemma safe_inI:
  "(\<And>s. ahead s s \<Longrightarrow> ps_tokens s = ts \<Longrightarrow> p \<le> ps_index s \<Longrightarrow> works s m s (\<lambda>x s'. after k s s')) \<Longrightarrow> safe_in ts p k m"
  by (simp add: safe_in_def)

lemma works_call_in:
  assumes "safe_in ts p k m" "ahead b s" "ps_tokens b = ts" "p \<le> ps_index s" "\<And>x s'. ahead b s' \<Longrightarrow> after k s s' \<Longrightarrow> Q x s'"
  shows "works b m s Q"
proof -
  have "works s m s (\<lambda>x s'. after k s s')"
    using assms(1-4) ahead_refl(1) unfolding safe_in_def by (auto simp: ahead_def)
  then show ?thesis using assms(2,5) by (rule works_rebase)
qed

text \<open>A result that the caller tests or ignores.\<close>

lemma works_optional:
  assumes "works s m s (\<lambda>x s'. after k s s')" "ahead b s" "\<And>x s'. ahead b s' \<Longrightarrow> after k s s' \<Longrightarrow> Q (Some x) s'"
    "\<And>s'. ahead b s' \<Longrightarrow> after 0 s s' \<Longrightarrow> dg s < dg s' \<Longrightarrow> Q None s'"
  shows "works b (optional m) s Q"
  using assms ahead_trans [OF assms(2)] ahead_le
  by (cases "m s") (fastforce simp: works_def optional_def after_def)+

lemma works_optional_call:
  assumes "safe p k m" "ahead b s" "p \<le> ps_index s" "\<And>x s'. ahead b s' \<Longrightarrow> after k s s' \<Longrightarrow> Q (Some x) s'"
    "\<And>s'. ahead b s' \<Longrightarrow> after 0 s s' \<Longrightarrow> dg s < dg s' \<Longrightarrow> Q None s'"
  shows "works b (optional m) s Q"
  by (rule works_optional) (use assms ahead_refl(1) in \<open>auto simp: safe_def\<close>)

lemma after_refl [simp]: "after 0 s s = ahead s s"
  by (simp add: after_def)

lemma after_trans: "after j s s' \<Longrightarrow> after k s' s'' \<Longrightarrow> after (j + k) s s''"
  by (auto simp: after_def intro: ahead_trans)

lemma after_weaken: "after k s s' \<Longrightarrow> j \<le> k \<Longrightarrow> after j s s'"
  by (simp add: after_def)

section \<open>Tokens, expressions, loops\<close>

lemma expectWord_safe: "safe 0 1 (expectWord v)"
  by (rule safeI) (auto simp: expectWord_def intro!: works_intros)

lemma expectSymbol_safe: "safe 0 1 (expectSymbol v)"
  by (rule safeI) (auto simp: expectSymbol_def intro!: works_intros)

lemma parseName_safe: "safe 0 1 parseName"
  by (rule safeI) (auto simp: parseName_def intro!: works_intros)

lemma span_from_safe: "safe 1 0 (span_from start)"
  by (rule safeI) (auto simp: span_from_def intro!: works_intros)

lemmas token_calls [works_intros] = works_call [OF expectWord_safe] works_call [OF expectSymbol_safe] works_call [OF parseName_safe]
  works_call [OF span_from_safe]

text \<open>The expressions, with the children their kinds demand.\<close>

lemma works_reads:
  assumes "\<And>i. ready s i \<Longrightarrow> i = ps_index s \<Longrightarrow> reads s m i Q" "ahead b s"
    "\<And>x s'. ahead b s' \<Longrightarrow> after 0 s s' \<Longrightarrow> Q x (ps_index s') \<Longrightarrow> R x s'"
  shows "works b m s R"
proof -
  have r: "ready s (ps_index s)" using assms(2) by (auto simp: ready_def ahead_def)
  have "reads s m (ps_index s) Q" using assms(1) [OF r refl] .
  moreover have "parser_at s (ps_index s) = s" by simp
  moreover have "ahead b (parser_at s j) \<and> after 0 s (parser_at s j)" if "ps_index s \<le> j" "ready s j" for j
    using assms(2) that by (auto simp: after_def ahead_def ready_def dg_def)
  moreover have "ahead b ((parser_at s j)\<lparr>ps_diagnostics := ps_diagnostics s @ [d]\<rparr>) \<and> dg b < dg ((parser_at s j)\<lparr>ps_diagnostics := ps_diagnostics s @ [d]\<rparr>)"
    if "ps_index s \<le> j" "ready s j" for j d
    using assms(2) that by (auto simp: ahead_def ready_def dg_def)
  ultimately show ?thesis using assms(3) by (fastforce simp: reads_def works_def reported_def split: outcome.splits)
qed

lemma works_goal:
  assumes "goal_ok g" "ahead b s" "\<And>e s'. ahead b s' \<Longrightarrow> after (goal_min g) s s' \<Longrightarrow> expr_ok e \<Longrightarrow> R e s'"
  shows "works b (run_goal g) s R"
  by (rule works_reads [of s _ "\<lambda>e j. ps_index s + goal_min g \<le> j \<and> expr_ok e", OF _ assms(2)])
    (use assms in \<open>auto intro!: run_goal_reads simp: after_def\<close>)

lemma works_expression [works_intros]:
  assumes "ahead b s" "\<And>e s'. ahead b s' \<Longrightarrow> after 1 s s' \<Longrightarrow> expr_ok e \<Longrightarrow> R e s'"
  shows "works b (parseExpression 0) s R"
  unfolding parseExpression_def by (rule works_goal) (use assms in auto)

lemma expression_safe: "safe 0 1 (parseExpression 0)"
  by (rule safeI) (auto intro!: works_intros)

text \<open>A loop in which every turn reads a token.\<close>

lemma left_decreases: "after 1 s s' \<Longrightarrow> tokens_left s < Suc n \<Longrightarrow> ahead s' s' \<and> ps_index s \<le> ps_index s' \<and> tokens_left s' < n"
  using ahead_refl(1) by (auto simp: tokens_left_def ahead_def after_def)

lemma repeat_while_works:
  assumes body: "\<And>x s. ahead s s \<Longrightarrow> ps_tokens s = ts \<Longrightarrow> p \<le> ps_index s \<Longrightarrow> c (cur s) \<Longrightarrow> works s (body x) s (\<lambda>y s'. after 1 s s')"
  shows "ahead s s \<Longrightarrow> ps_tokens s = ts \<Longrightarrow> p \<le> ps_index s \<Longrightarrow> tokens_left s < n \<Longrightarrow>
    works s (repeat_while n c body x) s (\<lambda>y s'. after 0 s s')"
proof (induction n arbitrary: x s)
  case (Suc n)
  have rest: "works s (repeat_while n c body y) s' (\<lambda>y s'. after 0 s s')" if s': "after 1 s s'" "ahead s s'" for y s'
    using left_decreases [OF s'(1) Suc.prems(4)] Suc.prems(2,3)
    by (intro works_rebase [OF Suc.IH s'(2)]) (use s' in \<open>auto simp: after_def ahead_def\<close>)
  show ?case
    unfolding repeat_while.simps
  proof (intro works_bind works_current works_if impI)
    assume "c (cur s)"
    from body [OF Suc.prems(1-3) this] show "works s (body x) s (\<lambda>y s'. ahead s s' \<longrightarrow> works s (repeat_while n c body y) s' (\<lambda>y s'. after 0 s s'))"
      by (rule works_mono) (use rest in blast)
  qed (use Suc.prems in \<open>auto intro!: works_intros\<close>)
qed simp

lemma while_token_safe_in:
  assumes "\<And>x s. ahead s s \<Longrightarrow> ps_tokens s = ts \<Longrightarrow> p \<le> ps_index s \<Longrightarrow> c (cur s) \<Longrightarrow> works s (body x) s (\<lambda>y s'. after 1 s s')"
  shows "safe_in ts p 0 (while_token c body x)"
proof (rule safe_inI)
  fix s assume "ahead s s" "ps_tokens s = ts" "p \<le> ps_index s"
  then have "works s (repeat_while (tokens_left s + 1) c body x) s (\<lambda>y s'. after 0 s s')"
    by (intro repeat_while_works [where p = p and ts = ts]) (use assms in auto)
  then show "works s (while_token c body x) s (\<lambda>y s'. after 0 s s')" by (simp add: works_def while_token_def)
qed

lemma while_token_safe:
  assumes "\<And>x s. ahead s s \<Longrightarrow> p \<le> ps_index s \<Longrightarrow> c (cur s) \<Longrightarrow> works s (body x) s (\<lambda>y s'. after 1 s s')"
  shows "safe p 0 (while_token c body x)"
  unfolding safe_iff using assms by (blast intro: while_token_safe_in)

lemma repeat_separated_works:
  assumes item: "safe p 1 item"
  shows "ahead s s \<Longrightarrow> p \<le> ps_index s \<Longrightarrow> tokens_left s < n \<Longrightarrow> works s (repeat_separated n sep item) s (\<lambda>y s'. after 1 s s')"
proof (induction n arbitrary: s)
  case (Suc n)
  have rest: "works s (repeat_separated n sep item) s' (\<lambda>y t. after 1 s t)" if s': "after 1 s s'" "ahead s s'" for s'
    using left_decreases [OF s'(1) Suc.prems(3)] Suc.prems(2)
    by (intro works_rebase [OF Suc.IH s'(2)]) (use s' in \<open>auto simp: after_def\<close>)
  have rest': "works s (repeat_separated n sep item) s' Q"
    if "after 1 s s'" "ahead s s'" "\<And>xs t. ahead s t \<Longrightarrow> after 1 s t \<Longrightarrow> Q xs t" for s' Q
    by (rule works_mono [OF rest [OF that(1,2)]]) (rule that(3))
  show ?case
    using Suc.prems by (auto intro!: works_intros works_call [OF item] rest' simp: after_def)
qed simp

lemma separated_list_safe: "safe p 1 item \<Longrightarrow> safe p 1 (separated_list sep item)"
  using repeat_separated_works by (fastforce intro!: safeI simp: separated_list_def works_def)

lemma name_list_safe: "safe 0 1 name_list"
  unfolding name_list_def by (rule separated_list_safe [OF parseName_safe])

lemma synchronize_safe: "safe 0 0 (synchronize w)"
proof -
  have loop: "safe 0 0 (while_token (\<lambda>t. \<not> is_eof t \<and> \<not> is_word w t \<and> \<not> is_symbol '';'' t) (\<lambda>_. pthen advance_token (preturn ())) ())"
    by (rule while_token_safe) (auto intro!: works_intros)
  show ?thesis
    by (rule safeI) (auto simp: synchronize_def after_def intro!: works_intros works_call [OF loop])
qed

lemmas list_calls [works_intros] = works_call [OF name_list_safe] works_call [OF synchronize_safe]

end
