(* ===== verification/VHDLDeclSafe.thy ===== *)
theory VHDLDeclSafe
  imports VHDLWorks
begin

text \<open>The declarations stay in the tokens, end, and report what they give up on.\<close>

lemma works_option [works_intros]:
  "(x = None \<Longrightarrow> works b m s Q) \<Longrightarrow> (\<And>y. x = Some y \<Longrightarrow> works b (k y) s Q) \<Longrightarrow> works b (case x of None \<Rightarrow> m | Some y \<Rightarrow> k y) s Q"
  by (cases x) auto

lemma works_pair [works_intros]: "(\<And>y z. x = (y, z) \<Longrightarrow> works b (k y z) s Q) \<Longrightarrow> works b (case x of (y, z) \<Rightarrow> k y z) s Q"
  by (cases x) auto

section \<open>Ranges\<close>

lemma parseDiscreteRange_safe: "safe 0 1 parseDiscreteRange"
  by (rule safeI) (auto simp: parseDiscreteRange_def Let_def after_def intro!: works_intros)

lemmas range_call [works_intros] = works_call [OF parseDiscreteRange_safe]

lemma constraint_safe: "safe 0 0 paren_constraint" "safe 0 0 range_constraint" "safe 0 0 default_value"
  by (rule safeI, auto simp: paren_constraint_def range_constraint_def default_value_def after_def intro!: works_intros)+

lemmas constraint_calls [works_intros] = constraint_safe [THEN works_call]

lemma constraint_safe' : "safe 0 0 constraint"
  by (rule safeI) (auto simp: constraint_def after_def intro!: works_intros)

lemmas constraint_call [works_intros] = works_call [OF constraint_safe']

section \<open>Clauses\<close>

lemma parseLibraryClause_safe: "safe 0 1 parseLibraryClause"
  by (rule safeI) (auto simp: parseLibraryClause_def after_def intro!: works_intros)

section \<open>Interfaces\<close>

lemma mode_safe: "safe 0 0 (interface_mode procedure)" "safe 0 0 port_mode"
  by (rule safeI, auto simp: interface_mode_def port_mode_def after_def intro!: works_intros)+

lemmas mode_calls [works_intros] = mode_safe [THEN works_call]

lemma parseGenericDeclaration_safe: "safe 0 1 (parseGenericDeclaration procedure)"
  by (rule safeI) (auto simp: parseGenericDeclaration_def Let_def after_def intro!: works_intros)

lemma parsePortDeclaration_safe: "safe 0 1 parsePortDeclaration"
  by (rule safeI) (auto simp: parsePortDeclaration_def Let_def after_def intro!: works_intros)

section \<open>Objects and types\<close>

lemma parseObjectDeclaration_safe: "safe 1 1 (parseObjectDeclaration i)"
  by (rule safeI) (auto simp: parseObjectDeclaration_def after_def intro!: works_intros)

lemmas object_call [works_intros] = works_call [OF parseObjectDeclaration_safe]

lemma parseConstantDeclaration_safe: "safe 1 1 parseConstantDeclaration"
  by (rule safeI) (auto simp: parseConstantDeclaration_def after_def intro!: works_intros)

lemma parseSubtypeDeclaration_safe: "safe 0 1 parseSubtypeDeclaration"
  by (rule safeI) (auto simp: parseSubtypeDeclaration_def after_def intro!: works_intros)

lemma parseEnumerationTypeDeclaration_safe: "safe 1 1 parseEnumerationTypeDeclaration"
  by (rule safeI) (auto simp: parseEnumerationTypeDeclaration_def after_def intro!: works_intros)

lemma parseFileDeclaration_safe: "safe 0 1 parseFileDeclaration"
  by (rule safeI) (auto simp: parseFileDeclaration_def Let_def after_def intro!: works_intros)

lemma parseAlias_safe: "safe 0 1 parseAlias"
  by (rule safeI) (auto simp: parseAlias_def after_def intro!: works_intros)

lemma array_index_safe: "safe 0 1 array_index"
  by (rule safeI) (auto simp: array_index_def after_def intro!: works_intros)

lemmas array_index_call [works_intros] = works_call [OF array_index_safe]

lemma parseArrayTypeDeclaration_safe: "safe 1 1 parseArrayTypeDeclaration"
  by (rule safeI) (auto simp: parseArrayTypeDeclaration_def after_def intro!: works_intros)

lemma closing_name_safe: "safe 0 0 (closing_name strict message n)"
  by (rule safeI) (auto simp: closing_name_def after_def intro!: works_intros)

lemmas closing_call [works_intros] = works_call [OF closing_name_safe]

lemma parseRecordTypeDeclaration_safe: "safe 1 1 parseRecordTypeDeclaration"
proof -
  have loop: "safe 1 0 (while_token (\<lambda>t. \<not> is_eof t \<and> \<not> is_word ''end'' t)
      (\<lambda>fs. pbind (parseObjectDeclaration False) (\<lambda>f. preturn (fs @ [f]))) fs)" for fs
    by (rule while_token_safe) (auto intro!: works_intros)
  show ?thesis
    by (rule safeI) (auto simp: parseRecordTypeDeclaration_def after_def intro!: works_intros works_call [OF loop])
qed

section \<open>Use clauses and entities\<close>

lemma selected_name_safe: "safe 0 1 selected_name"
  unfolding selected_name_def by (rule separated_list_safe [OF parseName_safe])

lemma use_clauses_works:
  "ahead s s \<Longrightarrow> tokens_left s < n \<Longrightarrow> works s (use_clauses n start cs) s (\<lambda>y s'. after 0 s s')"
proof (induction n arbitrary: s cs)
  case (Suc n)
  have rest: "works s (use_clauses n start cs) s' Q"
    if s': "after 1 s s'" "ahead s s'" "\<And>x t. ahead s t \<Longrightarrow> after 0 s t \<Longrightarrow> Q x t" for s' cs Q
    using left_decreases [OF s'(1) Suc.prems(2)]
    by (intro works_rebase [OF Suc.IH s'(2)]) (use s' in \<open>auto simp: after_def\<close>)
  show ?case
    using Suc.prems by (auto intro!: works_intros works_optional_call [OF selected_name_safe] rest simp: Let_def after_def)
qed simp

lemma use_clauses_safe: "safe 0 0 (use_clause_list start)"
  by (rule safeI) (use use_clauses_works [of _ "tokens_left _ + 1" start "[]"] in \<open>simp add: works_def use_clause_list_def\<close>)

lemma parseUseClause_safe:
  assumes "ahead s s" "\<not> is_eof (cur s)"
  shows "works s parseUseClause s (\<lambda>_ s'. after 1 s s')"
  using assms unfolding parseUseClause_def
  by (auto simp: after_def intro!: works_intros works_call [OF use_clauses_safe] works_optional_call [OF expectSymbol_safe])

lemma interface_list_safe:
  assumes item: "safe 0 1 item"
  shows "safe 0 1 (interface_list item stepping message)"
proof -
  have "works s (pbind current (\<lambda>before. pbind (optional item) (\<lambda>r. let xs = (case r of Some x \<Rightarrow> xs @ [x] | None \<Rightarrow> xs) in
          pbind (acceptSymbol '';'') (\<lambda>b. if b then preturn xs
          else pbind current (\<lambda>t. if \<not> is_symbol '')'' t then
              pthen (error message (t_span t)) (pthen (synchronize ''end'') pnull)
            else if stepping \<and> offset (sp_start (t_span before)) = offset (sp_start (t_span t)) then pthen advance_token (preturn xs)
            else preturn xs))))) s (\<lambda>y s'. after 1 s s')"
    if s: "ahead s s" "\<not> is_eof (cur s) \<and> \<not> is_symbol '')'' (cur s)" for xs s
  proof -
    have same: "Suc (ps_index s) \<le> ps_index s'" if "ahead s s'" "is_symbol '')'' (cur s')" for s'
    proof (rule ccontr)
      assume "\<not> Suc (ps_index s) \<le> ps_index s'"
      then have "ps_index s' = ps_index s" "ps_tokens s' = ps_tokens s" using that(1) by (auto simp: ahead_def)
      then show False using that(2) s(2) by simp
    qed
    show ?thesis
      using s by (auto simp: Let_def after_def intro!: works_intros works_optional_call [OF item] intro: same)
  qed
  note loop = while_token_safe [where p = 0, OF this]
  show ?thesis
    by (rule safeI) (auto simp: interface_list_def after_def intro!: works_intros works_call [OF loop])
qed

lemma interface_clauses_safe: "safe 0 0 generic_clause" "safe 0 0 port_clause"
  by (rule safeI, auto simp: generic_clause_def port_clause_def after_def
      intro!: works_intros works_call [OF interface_list_safe [OF parseGenericDeclaration_safe]]
        works_call [OF interface_list_safe [OF parsePortDeclaration_safe]])+

lemmas interface_calls [works_intros] = interface_clauses_safe [THEN works_call]

lemma parseEntity_safe: "safe 0 1 (parseEntity c)"
  by (rule safeI) (auto simp: parseEntity_def after_def intro!: works_intros works_optional_call [OF expectWord_safe])

text \<open>The declarations that statements and design units call.\<close>

lemmas declaration_calls [works_intros] = works_call [OF parseConstantDeclaration_safe] works_call [OF parseSubtypeDeclaration_safe]
  works_call [OF parseEnumerationTypeDeclaration_safe] works_call [OF parseFileDeclaration_safe] works_call [OF parseAlias_safe]
  works_call [OF parseArrayTypeDeclaration_safe] works_call [OF parseRecordTypeDeclaration_safe] works_call [OF parseEntity_safe]

end
