(* ===== verification/VHDLStmt.thy ===== *)
theory VHDLStmt
  imports VHDLDecl
begin

text \<open>
  The statements and functions of \<^verbatim>\<open>src/vhdl/src/Parser.cpp\<close>.  The parsing functions of statements take the parser of the
  statement lists they contain; \<open>statements_at\<close> closes the recursion with fuel, of which a token is worth one unit since every
  nested list follows a keyword.
\<close>

section \<open>Branches, warnings and rewinding\<close>

text \<open>\<open>if (acceptWord(w)) m else k\<close>\<close>

definition on_word :: "string \<Rightarrow> 'a parser \<Rightarrow> 'a parser \<Rightarrow> 'a parser" where
  "on_word w m k = pbind (acceptWord w) (\<lambda>b. if b then m else k)"

definition warn :: "string \<Rightarrow> string \<Rightarrow> SourceSpan \<Rightarrow> unit parser" where
  "warn code message span = (\<lambda>s. Value () (s\<lparr>ps_warnings := ps_warnings s @ [\<lparr>pw_code = code, pw_message = message, pw_span = span\<rparr>]\<rparr>))"

text \<open>\<open>const auto saved = index_; const auto savedDiagnostics = result_.diagnostics.size();\<close> and the way back to them.\<close>

definition mark :: "(nat \<times> nat) parser" where
  "mark = (\<lambda>s. Value (ps_index s, length (ps_diagnostics s)) s)"

definition rewind :: "nat \<times> nat \<Rightarrow> unit parser" where
  "rewind m = (\<lambda>s. Value () (s\<lparr>ps_index := fst m, ps_diagnostics := take (snd m) (ps_diagnostics s)\<rparr>))"

definition synthesis_mode :: "bool parser" where
  "synthesis_mode = (\<lambda>s. Value (ps_synthesis s) s)"

definition wait_allowed :: "bool parser" where
  "wait_allowed = (\<lambda>s. Value (ps_allowWait s) s)"

section \<open>Assignments\<close>

definition target_suffixes :: "Expression list parser" where
  "target_suffixes = while_token (\<lambda>t. is_symbol ''.'' t \<or> is_symbol ''('' t) (\<lambda>es. pbind (acceptSymbol ''.'') (\<lambda>b.
     if b then pbind parseName (\<lambda>n. preturn (es @ [leaf KSelected (nm_spelling n) (nm_canonical n) (nm_span n)]))
     else pthen advance_token (pbind (run_goal Index) (\<lambda>e. pthen (expectSymbol '')'') (preturn (es @ [e])))))) []"

text \<open>The choices after \<open>when\<close>, none for \<open>others\<close>.\<close>

definition choice_list :: "(bool \<times> Expression list) parser" where
  "choice_list = pbind (acceptWord ''others'') (\<lambda>otherwise. if otherwise then preturn (True, [])
     else pbind (separated_list ''|'' (run_goal Index)) (\<lambda>es. preturn (False, es)))"

fun selected_alternatives :: "nat \<Rightarrow> (Expression \<times> Expression list) list parser" where
  "selected_alternatives 0 = (\<lambda>s. Undefined)"
| "selected_alternatives (Suc n) = pbind (parseExpression 0) (\<lambda>v. pthen (expectWord ''when'') (pbind choice_list (\<lambda>(otherwise, choices).
     if otherwise then preturn [(v, choices)]
     else pbind (acceptSymbol '','') (\<lambda>b.
       if b then pbind (selected_alternatives n) (\<lambda>vs. preturn ((v, choices) # vs)) else preturn [(v, choices)]))))"

definition selected_list :: "(Expression \<times> Expression list) list parser" where
  "selected_list = (\<lambda>s. selected_alternatives (tokens_left s + 1) s)"

definition assignment_kind :: "bool \<Rightarrow> AssignmentKind parser" where
  "assignment_kind sequential = pbind (if sequential then acceptSymbol '':='' else preturn False) (\<lambda>b.
     if b then preturn VariableAssignment else pthen (expectSymbol ''<='') (preturn SignalAssignment))"

definition parseAssignment :: "bool \<Rightarrow> bool \<Rightarrow> bool \<Rightarrow> Assignment parser" where
  "parseAssignment sequential selectedAllowed allowOmittedElse = pbind current (\<lambda>first.
     pbind (if selectedAllowed then acceptWord ''with'' else preturn False) (\<lambda>b.
     pbind (if \<not> b then preturn None
            else pbind (parseExpression 0) (\<lambda>e. pthen (expectWord ''select'') (preturn (Some e)))) (\<lambda>selector.
     pbind parseName (\<lambda>target. pbind target_suffixes (\<lambda>indices. pbind (assignment_kind sequential) (\<lambda>kind.
     case selector of
       Some e \<Rightarrow> pbind selected_list (\<lambda>vs. pthen (expectSymbol '';'') (pbind (span_from (t_span first)) (\<lambda>sp.
         preturn (no_assignment\<lparr>as_target := target, as_indices := indices, as_selector := Some e,
           as_alternatives := map fst vs, as_choices := map snd vs, as_span := sp\<rparr>))))
     | None \<Rightarrow> pbind (run_goal (Conditional allowOmittedElse)) (\<lambda>v. pthen (expectSymbol '';'') (pbind (span_from (t_span first)) (\<lambda>sp.
         preturn (no_assignment\<lparr>as_target := target, as_value := Some v, as_span := sp, as_kind := kind, as_indices := indices\<rparr>))))))))))"

text \<open>\<open>cloneExpression\<close> copies every field, so the copy is the expression itself; \<open>None\<close> is the null pointer that is followed.\<close>

fun cloneExpression :: "Expression \<Rightarrow> Expression" where
  "cloneExpression (Expression k t c sp l r cn es) =
     Expression k t c sp (map_option cloneExpression l) (map_option cloneExpression r) (map_option cloneExpression cn) (map cloneExpression es)"

fun conditionalAssignment :: "Assignment \<Rightarrow> Expression \<Rightarrow> SequentialStatement option" where
  "conditionalAssignment a (Expression k t c sp l r cn es) =
     (if k = KConditional then
        (case l of None \<Rightarrow> None | Some v \<Rightarrow> (case conditionalAssignment a v of None \<Rightarrow> None | Some st \<Rightarrow>
           let h = no_head\<lparr>st_span := as_span a, st_kind := SIf, st_condition := cn\<rparr> in
           (case r of None \<Rightarrow> Some (Statement h [st] [] [])
            | Some w \<Rightarrow> (case conditionalAssignment a w of None \<Rightarrow> None | Some al \<Rightarrow> Some (Statement h [st] [al] [])))))
      else Some (Statement (no_head\<lparr>st_span := as_span a, st_assignment := no_assignment\<lparr>as_target := as_target a, as_kind := as_kind a,
        as_span := as_span a, as_indices := map cloneExpression (as_indices a), as_value := Some (Expression k t c sp l r cn es)\<rparr>\<rparr>) [] [] []))"

text \<open>Whether the last \<open>else\<close> of the conditionals is left out.\<close>

fun omits_else :: "Expression \<Rightarrow> bool" where
  "omits_else (Expression k t c sp l r cn es) = (k = KConditional \<and> (case r of None \<Rightarrow> True | Some e \<Rightarrow> omits_else e))"

section \<open>Ignored diagnostics and attributes\<close>

definition labelled :: "bool parser" where
  "labelled = pbind isNameToken (\<lambda>b. pbind (look_token 1) (\<lambda>t. preturn (b \<and> t_text t = '':'')))"

definition startsIgnoredDiagnostic :: "bool parser" where
  "startsIgnoredDiagnostic = pbind synthesis_mode (\<lambda>synthesis. if \<not> synthesis then preturn False
     else pbind labelled (\<lambda>l. let i = (if l then 2 else 0) in
       pbind (look_token i) (\<lambda>t. let i = (if t_canonical t = ''postponed'' then i + 1 else i) in
       pbind (look_token i) (\<lambda>t. preturn (t_canonical t = ''assert'' \<or> t_canonical t = ''report'')))))"

definition skip_label :: "unit parser" where
  "skip_label = pbind labelled (\<lambda>l. if l then pthen advance_token (pthen advance_token (preturn ())) else preturn ())"

text \<open>\<open>report\<close>, which must follow where there is no assertion, and \<open>severity\<close>.\<close>

definition report_clause :: "bool \<Rightarrow> unit parser" where
  "report_clause assertion = pbind (word ''report'') (\<lambda>r.
     if \<not> assertion \<or> r then pthen (expectWord ''report'') (pthen (parseExpression 0) (preturn ())) else preturn ())"

definition severity_clause :: "unit parser" where
  "severity_clause = on_word ''severity'' (pthen (parseExpression 0) (preturn ())) (preturn ())"

definition assertion_clause :: "bool parser" where
  "assertion_clause = on_word ''assert'' (pthen (parseExpression 0) (preturn True)) (preturn False)"

definition parseIgnoredDiagnostic :: "unit parser" where
  "parseIgnoredDiagnostic = pbind current (\<lambda>first. pthen skip_label (pthen (acceptWord ''postponed'') (pbind assertion_clause (\<lambda>assertion.
     pthen (report_clause assertion) (pthen severity_clause (pthen (expectSymbol '';'') (pbind (span_from (t_span first)) (\<lambda>sp.
       warn (if assertion then ''ignored-assertion'' else ''ignored-report'')
         (if assertion then ''assertion ignored for synthesis; condition, report, and severity are not evaluated''
          else ''report ignored for synthesis; message and severity are not evaluated'') sp))))))))"

definition attribute_types :: "string set" where
  "attribute_types = {''string'', ''boolean'', ''integer'', ''natural''}"

definition attribute_classes :: "string set" where
  "attribute_classes = {''signal'', ''variable'', ''label'', ''entity'', ''architecture''}"

definition attribute_entities :: "unit parser" where
  "attribute_entities = on_word ''all'' (preturn ()) (on_word ''others'' (preturn ()) (pthen name_list (preturn ())))"

definition attribute_type :: "unit parser" where
  "attribute_type = pbind (optional parseName) (\<lambda>type.
     if (case type of None \<Rightarrow> True | Some n \<Rightarrow> nameKey n \<notin> attribute_types) then fail_here ''unsupported synthesis attribute type''
     else expectSymbol '';'')"

definition attribute_specification :: "SourceSpan \<Rightarrow> Name \<Rightarrow> unit parser" where
  "attribute_specification start name = pthen (expectWord ''of'') (pthen attribute_entities (pthen (expectSymbol '':'')
     (pbind parseName (\<lambda>entityClass.
       if nameKey entityClass \<notin> attribute_classes then fail_at ''unsupported synthesis attribute entity class'' (nm_span entityClass)
       else pthen (expectWord ''is'') (pthen (parseExpression 0) (pthen (expectSymbol '';'') (pbind (span_from start) (\<lambda>sp.
         warn ''ignored-attribute'' (''attribute '' @ [quote] @ nm_spelling name @ [quote] @
           '' ignored for synthesis; mapping hints are not applied'') sp))))))))"

definition parseSynthesisAttribute :: "unit parser" where
  "parseSynthesisAttribute = pbind advance_token (\<lambda>first. let start = t_span first in pbind parseName (\<lambda>name.
     if nameKey name = ''foreign'' then fail_at ''foreign attributes are unsupported'' start
     else pbind synthesis_mode (\<lambda>synthesis.
       if \<not> synthesis then fail_at ''attribute declarations require synthesis mode'' start
       else pbind (acceptSymbol '':'') (\<lambda>typed. if typed then attribute_type else attribute_specification start name))))"

section \<open>Statements\<close>

text \<open>The name after \<open>end loop\<close> or \<open>end case\<close>: a label that was given.\<close>

definition end_label :: "string \<Rightarrow> Name option \<Rightarrow> unit parser" where
  "end_label message label = pbind isNameToken (\<lambda>b. if \<not> b then preturn ()
     else pbind parseName (\<lambda>closing.
       if (case label of None \<Rightarrow> True | Some l \<Rightarrow> nameKey closing \<noteq> nameKey l) then fail_at message (nm_span closing) else preturn ()))"

definition loopEnd :: "Name option \<Rightarrow> unit parser" where
  "loopEnd label = pthen (expectWord ''end'') (pthen (expectWord ''loop'')
     (pthen (end_label ''loop end label mismatch'' label) (expectSymbol '';'')))"

definition statement_label :: "Name option parser" where
  "statement_label = pbind labelled (\<lambda>l. if \<not> l then preturn None
     else pbind parseName (\<lambda>n. pthen advance_token (pbind current (\<lambda>t.
       if \<not> is_word ''for'' t \<and> \<not> is_word ''while'' t \<and> \<not> is_word ''case'' t
       then fail_at ''only loop and case statement labels are supported'' (t_span t) else preturn (Some n)))))"

abbreviation simple_statement :: "StatementHead \<Rightarrow> SequentialStatement" where "simple_statement h \<equiv> Statement h [] [] []"

definition wait_statement :: "SourceSpan \<Rightarrow> SequentialStatement parser" where
  "wait_statement start = pbind wait_allowed (\<lambda>ok.
     if \<not> ok then fail_at ''wait is supported only in a process without sensitivity'' start
     else pthen (expectSymbol '';'') (preturn (simple_statement (no_head\<lparr>st_kind := SWait\<rparr>))))"

definition exit_statement :: "bool \<Rightarrow> SourceSpan \<Rightarrow> SequentialStatement parser" where
  "exit_statement functionBody start = (if \<not> functionBody then fail_at ''exit is currently supported only in function loops'' start
     else pbind (on_word ''when'' (pbind (parseExpression 0) (\<lambda>e. preturn (Some e)))
        (pbind (symbol '';'') (\<lambda>b. if \<not> b then fail_here ''labeled exit is not supported'' else preturn None))) (\<lambda>c.
       pthen (expectSymbol '';'') (preturn (simple_statement (no_head\<lparr>st_kind := SExit, st_condition := c\<rparr>)))))"

fun case_alternatives :: "nat \<Rightarrow> SequentialStatement list parser \<Rightarrow> (Expression list \<times> SequentialStatement list) list parser" where
  "case_alternatives 0 body = (\<lambda>s. Undefined)"
| "case_alternatives (Suc n) body = pthen (expectWord ''when'') (pbind choice_list (\<lambda>(otherwise, choices).
     pthen (expectSymbol ''=>'') (pbind (optional body) (\<lambda>r. case r of
         None \<Rightarrow> fail_here ''invalid case alternative''
       | Some ss \<Rightarrow> if otherwise then preturn [(choices, ss)]
           else pbind (word ''when'') (\<lambda>b. if b then pbind (case_alternatives n body) (\<lambda>as. preturn ((choices, ss) # as))
             else preturn [(choices, ss)])))))"

definition case_arms :: "SequentialStatement list parser \<Rightarrow> (Expression list \<times> SequentialStatement list) list parser" where
  "case_arms body = (\<lambda>s. case_alternatives (tokens_left s + 1) body s)"

definition case_statement :: "SequentialStatement list parser \<Rightarrow> Name option \<Rightarrow> SequentialStatement parser" where
  "case_statement body label = pbind (parseExpression 0) (\<lambda>e. pthen (expectWord ''is'') (pbind (case_arms body) (\<lambda>as.
     pthen (expectWord ''end'') (pthen (expectWord ''case'') (pthen (end_label ''case end label mismatch'' label) (pthen (expectSymbol '';'')
       (preturn (Statement (no_head\<lparr>st_kind := SCase, st_condition := Some e, st_choices := map fst as\<rparr>) [] [] (map snd as)))))))))"

fun if_statement :: "nat \<Rightarrow> SequentialStatement list parser \<Rightarrow> SequentialStatement parser" where
  "if_statement 0 body = (\<lambda>s. Undefined)"
| "if_statement (Suc n) body = pbind (parseExpression 0) (\<lambda>e. pthen (expectWord ''then'') (pbind body (\<lambda>ss.
     let h = no_head\<lparr>st_kind := SIf, st_condition := Some e\<rparr> in
     on_word ''elsif'' (pbind (if_statement n body) (\<lambda>st. preturn (Statement h ss [st] [])))
       (pbind (on_word ''else'' body (preturn [])) (\<lambda>al.
         pthen (expectWord ''end'') (pthen (expectWord ''if'') (pthen (expectSymbol '';'') (preturn (Statement h ss al [])))))))))"

definition parseIfStatement :: "SequentialStatement list parser \<Rightarrow> SequentialStatement parser" where
  "parseIfStatement body = (\<lambda>s. if_statement (tokens_left s + 1) body s)"

definition while_statement :: "SequentialStatement list parser \<Rightarrow> Name option \<Rightarrow> SequentialStatement parser" where
  "while_statement body label = pbind (parseExpression 0) (\<lambda>e. pthen (expectWord ''loop'') (pbind body (\<lambda>ss. pthen (loopEnd label)
     (preturn (Statement (no_head\<lparr>st_kind := SWhile, st_condition := Some e\<rparr>) ss [] [])))))"

definition for_statement :: "SequentialStatement list parser \<Rightarrow> Name option \<Rightarrow> SequentialStatement parser" where
  "for_statement body label = pbind parseName (\<lambda>i. pthen (expectWord ''in'') (pbind parseDiscreteRange (\<lambda>r. pthen (expectWord ''loop'')
     (pbind body (\<lambda>ss. pthen (loopEnd label) (preturn (Statement (no_head\<lparr>st_kind := SFor, st_iterator := i, st_range := r\<rparr>) ss [] [])))))))"

definition return_statement :: "SequentialStatement parser" where
  "return_statement = pbind (parseExpression 0) (\<lambda>e. pthen (expectSymbol '';'')
     (preturn (simple_statement (no_head\<lparr>st_kind := SReturn, st_returnValue := Some e\<rparr>))))"

definition assignment_statement :: "SequentialStatement parser" where
  "assignment_statement = pbind (parseAssignment True False True) (\<lambda>a. case as_value a of
       None \<Rightarrow> (\<lambda>s. Undefined)
     | Some v \<Rightarrow> if \<not> omits_else v then preturn (simple_statement (no_head\<lparr>st_assignment := a\<rparr>))
         else (case conditionalAssignment a v of None \<Rightarrow> (\<lambda>s. Undefined) | Some st \<Rightarrow> preturn st))"

definition is_call :: "Expression option \<Rightarrow> bool" where
  "is_call e = (case e of None \<Rightarrow> False | Some e \<Rightarrow> ex_kind e = KCall \<or> ex_kind e = KIndexed \<or> ex_kind e = KName)"

text \<open>A procedure call is tried first.\<close>

definition call_statement :: "SequentialStatement parser" where
  "call_statement = pbind mark (\<lambda>saved. pbind (optional (parseExpression 0)) (\<lambda>e. pbind (symbol '';'') (\<lambda>b.
     if is_call e \<and> b then pthen advance_token (preturn (simple_statement (no_head\<lparr>st_kind := SCall, st_procedureCall := e\<rparr>)))
     else pthen (rewind saved) assignment_statement)))"

definition statement :: "SequentialStatement list parser \<Rightarrow> bool \<Rightarrow> SequentialStatement parser" where
  "statement body functionBody = pbind current (\<lambda>first. let start = t_span first in pbind statement_label (\<lambda>label.
     pbind (on_word ''wait'' (wait_statement start)
       (pbind startsIgnoredDiagnostic (\<lambda>ignored.
        if ignored then pthen parseIgnoredDiagnostic (preturn (simple_statement (no_head\<lparr>st_kind := SNull\<rparr>)))
        else on_word ''exit'' (exit_statement functionBody start)
          (on_word ''null'' (pthen (expectSymbol '';'') (preturn (simple_statement (no_head\<lparr>st_kind := SNull\<rparr>))))
          (on_word ''case'' (case_statement body label)
          (on_word ''if'' (parseIfStatement body)
          (on_word ''while'' (while_statement body label)
          (on_word ''for'' (for_statement body label)
          (pbind (if functionBody then acceptWord ''return'' else preturn False) (\<lambda>r.
            if r then return_statement else call_statement))))))))))
     (\<lambda>st. pbind (span_from start) (\<lambda>sp. preturn (statement_span sp st)))))"

definition statement_list :: "SequentialStatement list parser \<Rightarrow> bool \<Rightarrow> SequentialStatement list parser" where
  "statement_list body functionBody = while_token
     (\<lambda>t. \<not> is_eof t \<and> \<not> is_word ''end'' t \<and> \<not> is_word ''else'' t \<and> \<not> is_word ''elsif'' t \<and> \<not> is_word ''when'' t)
     (\<lambda>ss. pbind (statement body functionBody) (\<lambda>st. preturn (ss @ [st]))) []"

fun statements_at :: "nat \<Rightarrow> bool \<Rightarrow> SequentialStatement list parser" where
  "statements_at 0 functionBody = (\<lambda>s. Undefined)"
| "statements_at (Suc n) functionBody = statement_list (statements_at n functionBody) functionBody"

definition parseStatements :: "bool \<Rightarrow> SequentialStatement list parser" where
  "parseStatements functionBody = (\<lambda>s. statements_at (tokens_left s + 1) functionBody s)"

section \<open>Functions\<close>

record SubprogramItems =
  si_files :: "FileDeclaration list"
  si_variables :: "ObjectDeclaration list"
  si_constants :: "ConstantDeclaration list"

definition subprogram_items :: "SubprogramItems parser" where
  "subprogram_items = while_token (\<lambda>t. is_word ''variable'' t \<or> is_word ''constant'' t \<or> is_word ''file'' t) (\<lambda>d.
     pbind (word ''file'') (\<lambda>b.
     if b then pbind parseFileDeclaration (\<lambda>f. preturn (d\<lparr>si_files := si_files d @ [f]\<rparr>))
     else on_word ''variable'' (pbind (parseObjectDeclaration True) (\<lambda>v. preturn (d\<lparr>si_variables := si_variables d @ [v]\<rparr>)))
       (pthen advance_token (pbind parseConstantDeclaration (\<lambda>c. preturn (d\<lparr>si_constants := si_constants d @ [c]\<rparr>))))))
     \<lparr>si_files = [], si_variables = [], si_constants = []\<rparr>"

definition subprogram_parameters :: "bool \<Rightarrow> GenericDeclaration list parser" where
  "subprogram_parameters procedure = pbind (acceptSymbol ''('') (\<lambda>b. if \<not> b then preturn []
     else pbind (separated_list '';'' (parseGenericDeclaration procedure)) (\<lambda>ps. pthen (expectSymbol '')'') (preturn ps)))"

definition subprogram_body :: "bool \<Rightarrow> Name \<Rightarrow> (SubprogramItems \<times> SequentialStatement list) parser" where
  "subprogram_body procedure name = pbind subprogram_items (\<lambda>d. pthen (expectWord ''begin'') (pbind (parseStatements True) (\<lambda>ss.
     pthen (expectWord ''end'') (pthen (acceptWord (if procedure then ''procedure'' else ''function''))
       (pthen (closing_name True ''function end name mismatch'' name) (preturn (d, ss)))))))"

definition parseFunction :: "FunctionDeclaration parser" where
  "parseFunction = pbind current (\<lambda>first. pbind (acceptWord ''impure'') (\<lambda>impure.
     pthen (if \<not> impure then acceptWord ''pure'' else preturn False)
     (pbind (acceptWord ''procedure'') (\<lambda>procedure. pthen (if \<not> procedure then expectWord ''function'' else preturn ())
     (pbind parseName (\<lambda>name. pbind (subprogram_parameters procedure) (\<lambda>ps.
     pbind (if procedure then preturn \<lparr>tm_name = no_name, tm_constraint = None\<rparr>
            else pthen (expectWord ''return'') (pbind parseName (\<lambda>n. preturn \<lparr>tm_name = n, tm_constraint = None\<rparr>))) (\<lambda>result.
     pbind (acceptWord ''is'') (\<lambda>body.
     pbind (if \<not> body then preturn (\<lparr>si_files = [], si_variables = [], si_constants = []\<rparr>, []) else subprogram_body procedure name) (\<lambda>(d, ss).
     pthen (expectSymbol '';'') (pbind (span_from (t_span first)) (\<lambda>sp.
       preturn \<lparr>fn_name = name, fn_parameters = ps, fn_returnType = result, fn_variables = si_variables d, fn_constants = si_constants d,
         fn_statements = ss, fn_span = sp, fn_body = body, fn_pure = \<not> impure, fn_procedure = procedure, fn_files = si_files d\<rparr>))))))))))))"

end
