(* ===== verification/VHDLStmtSafe.thy ===== *)
theory VHDLStmtSafe
  imports VHDLDeclSafe VHDLStmt
begin

text \<open>The statements stay in the tokens, end, and report what they give up on, whatever the nesting.\<close>

section \<open>Branches, warnings and rewinding\<close>

lemma works_on_word [works_intros]:
  assumes "ahead b s" "\<not> is_word w (cur s) \<Longrightarrow> works b k s Q" "\<And>s'. ahead b s' \<Longrightarrow> after 1 s s' \<Longrightarrow> is_word w (cur s) \<Longrightarrow> works b m s' Q"
  shows "works b (on_word w m k) s Q"
  unfolding on_word_def using assms by (auto intro!: works_intros)

lemma works_warn [works_intros]:
  assumes "ahead b s" "\<And>s'. ahead b s' \<Longrightarrow> after 0 s s' \<Longrightarrow> Q () s'"
  shows "works b (warn code message span) s Q"
  using assms by (auto simp: works_def warn_def after_def ahead_def dg_def)

lemma works_mark: "ahead b s \<Longrightarrow> Q (ps_index s, dg s) s \<Longrightarrow> works b mark s Q"
  by (simp add: works_def mark_def dg_def)

lemma works_rewind:
  assumes "ahead b s" "ahead s s'" "\<And>t. ahead b t \<Longrightarrow> after 0 s t \<Longrightarrow> ps_index t = ps_index s \<Longrightarrow> dg t = dg s \<Longrightarrow> Q () t"
  shows "works b (rewind (ps_index s, dg s)) s' Q"
proof -
  let ?t = "s'\<lparr>ps_index := ps_index s, ps_diagnostics := ps_diagnostics s\<rparr>"
  have "rewind (ps_index s, dg s) s' = Value () ?t" using assms(2) by (auto simp: rewind_def ahead_def dg_def)
  moreover have "ahead b ?t" "after 0 s ?t" using assms(1,2) by (auto simp: ahead_def after_def dg_def)
  ultimately show ?thesis using assms(3) by (simp add: works_def dg_def)
qed

lemma works_modes [works_intros]:
  "ahead b s \<Longrightarrow> (\<And>v. Q v s) \<Longrightarrow> works b synthesis_mode s Q" "ahead b s \<Longrightarrow> (\<And>v. Q v s) \<Longrightarrow> works b wait_allowed s Q"
  by (simp_all add: works_def synthesis_mode_def wait_allowed_def)

section \<open>Assignments\<close>

lemma index_safe: "safe 0 1 (run_goal Index)" "safe 0 1 (run_goal (Conditional c))"
  by (rule safeI, rule works_goal, auto)+

lemmas index_call [works_intros] = works_call [OF index_safe(1)]

lemma target_suffixes_safe: "safe 0 0 target_suffixes"
  unfolding target_suffixes_def by (rule while_token_safe) (auto simp: after_def intro!: works_intros)

lemma choice_list_safe: "safe 0 1 choice_list"
  by (rule safeI) (auto simp: choice_list_def intro!: works_intros works_call [OF separated_list_safe [OF index_safe(1)]])

lemmas choice_call [works_intros] = works_call [OF choice_list_safe]

lemma selected_alternatives_works:
  "ahead s s \<Longrightarrow> tokens_left s < n \<Longrightarrow> works s (selected_alternatives n) s (\<lambda>y s'. after 0 s s')"
proof (induction n arbitrary: s)
  case (Suc n)
  have rest: "works s (selected_alternatives n) s' Q"
    if s': "after 1 s s'" "ahead s s'" "\<And>x t. ahead s t \<Longrightarrow> after 0 s t \<Longrightarrow> Q x t" for s' Q
    using left_decreases [OF s'(1) Suc.prems(2)]
    by (intro works_rebase [OF Suc.IH s'(2)]) (use s' in \<open>auto simp: after_def\<close>)
  show ?case
    using Suc.prems by (auto intro!: works_intros rest simp: after_def)
qed simp

lemma selected_list_safe: "safe 0 0 selected_list"
  by (rule safeI) (use selected_alternatives_works [of _ "tokens_left _ + 1"] in \<open>simp add: works_def selected_list_def\<close>)

lemma assignment_kind_safe: "safe 0 1 (assignment_kind q)"
  by (rule safeI) (auto simp: assignment_kind_def intro!: works_intros)

text \<open>An assignment that is not selected has a value.\<close>

lemma parseAssignment_works:
  assumes "ahead s s"
  shows "works s (parseAssignment q selectable omit) s (\<lambda>a s'. after 1 s s' \<and> (selectable \<or> (\<exists>v. as_value a = Some v \<and> expr_ok v)))"
  using assms unfolding parseAssignment_def
  by (auto simp: after_def no_assignment_def intro!: works_intros works_call [OF target_suffixes_safe] works_call [OF assignment_kind_safe]
      works_call [OF selected_list_safe] works_goal)

lemma parseAssignment_safe: "safe 0 1 (parseAssignment q selectable omit)"
  by (rule safeI) (rule works_mono [OF parseAssignment_works], auto)

lemma conditionalAssignment_defined: "expr_ok e \<Longrightarrow> conditionalAssignment a e \<noteq> None"
proof (induction e)
  case (Expression k t c sp l r cn es)
  then show ?case by (cases l; cases r) (auto simp: Let_def split: option.splits)
qed

lemma cloneExpression_same [simp]: "cloneExpression e = e"
proof (induction e)
  case (Expression k t c sp l r cn es)
  moreover have "map cloneExpression es = es" using Expression(4) by (simp add: map_idI)
  ultimately show ?case by (cases l; cases r; cases cn) auto
qed

lemma assignment_statement_safe: "safe 0 1 assignment_statement"
proof (rule safeI)
  fix s assume "ahead s s"
  then show "works s assignment_statement s (\<lambda>_ s'. after 1 s s')"
    unfolding assignment_statement_def
    by (auto intro!: works_intros works_mono [OF parseAssignment_works] simp: conditionalAssignment_defined)
qed

lemma call_statement_safe: "safe 0 1 call_statement"
proof (rule safeI)
  fix s assume s: "ahead s s"
  show "works s call_statement s (\<lambda>_ s'. after 1 s s')"
    unfolding call_statement_def
    using s by (auto simp: is_call_def after_def
      intro!: works_intros works_mark works_optional_call [OF expression_safe] works_rewind [OF s] works_call [OF assignment_statement_safe])
qed

section \<open>Ignored diagnostics and attributes\<close>

lemma works_labelled [works_intros]: "ahead b s \<Longrightarrow> (\<And>l. (l \<Longrightarrow> is_name_token (cur s)) \<Longrightarrow> Q l s) \<Longrightarrow> works b labelled s Q"
  by (auto simp: labelled_def intro!: works_intros)

lemma works_startsIgnored [works_intros]: "ahead b s \<Longrightarrow> (\<And>v. Q v s) \<Longrightarrow> works b startsIgnoredDiagnostic s Q"
  by (auto simp: startsIgnoredDiagnostic_def Let_def intro!: works_intros)

lemma diagnostic_parts_safe: "safe 0 0 skip_label" "safe 0 0 (report_clause a)" "safe 0 0 severity_clause" "safe 0 0 assertion_clause"
  by (rule safeI, auto simp: skip_label_def report_clause_def severity_clause_def assertion_clause_def after_def intro!: works_intros)+

lemmas diagnostic_calls [works_intros] = diagnostic_parts_safe [THEN works_call]

lemma parseIgnoredDiagnostic_safe: "safe 0 1 parseIgnoredDiagnostic"
  by (rule safeI) (auto simp: parseIgnoredDiagnostic_def after_def intro!: works_intros)

lemma attribute_entities_safe: "safe 0 0 attribute_entities"
  by (rule safeI) (auto simp: attribute_entities_def after_def intro!: works_intros)

lemmas attribute_entities_call [works_intros] = works_call [OF attribute_entities_safe]

lemma attribute_parts_safe: "safe 0 1 attribute_type" "safe 0 1 (attribute_specification start name)"
  by (rule safeI, auto simp: attribute_type_def attribute_specification_def after_def
      intro!: works_intros works_optional_call [OF parseName_safe])+

lemma parseSynthesisAttribute_safe: "safe 0 1 parseSynthesisAttribute"
  by (rule safeI) (auto simp: parseSynthesisAttribute_def Let_def after_def intro!: works_intros works_call [OF attribute_parts_safe(1)]
      works_call [OF attribute_parts_safe(2)])

lemmas ignored_calls [works_intros] = works_call [OF parseIgnoredDiagnostic_safe] works_call [OF parseSynthesisAttribute_safe]

section \<open>Statements\<close>

lemma end_label_safe: "safe 0 0 (end_label message label)"
  by (rule safeI) (auto simp: end_label_def after_def intro!: works_intros)

lemmas end_label_call [works_intros] = works_call [OF end_label_safe]

lemma loopEnd_safe: "safe 0 1 (loopEnd label)"
  by (rule safeI) (auto simp: loopEnd_def after_def intro!: works_intros)

lemma statement_label_safe: "safe 0 0 statement_label"
  by (rule safeI) (auto simp: statement_label_def after_def intro!: works_intros)

lemma wait_statement_safe: "safe 0 0 (wait_statement start)"
  by (rule safeI) (auto simp: wait_statement_def after_def intro!: works_intros)

lemma exit_statement_safe: "safe 0 0 (exit_statement f start)"
  by (rule safeI) (auto simp: exit_statement_def after_def intro!: works_intros)

lemma return_statement_safe: "safe 0 0 return_statement"
  by (rule safeI) (auto simp: return_statement_def after_def intro!: works_intros)

lemmas statement_calls [works_intros] = works_call [OF loopEnd_safe] works_call [OF statement_label_safe] works_call [OF wait_statement_safe]
  works_call [OF exit_statement_safe] works_call [OF return_statement_safe] works_call [OF call_statement_safe]

text \<open>The statements that contain statements, for lists that may be read from position \<open>p\<close> on.\<close>

lemma case_alternatives_works:
  assumes body: "safe_in ts p 0 body"
  shows "ahead s s \<Longrightarrow> ps_tokens s = ts \<Longrightarrow> p \<le> ps_index s \<Longrightarrow> tokens_left s < n \<Longrightarrow>
    works s (case_alternatives n body) s (\<lambda>y s'. after 1 s s')"
proof (induction n arbitrary: s)
  case (Suc n)
  have rest: "works s (case_alternatives n body) s' Q"
    if s': "after 1 s s'" "ahead s s'" "\<And>x t. ahead s t \<Longrightarrow> after 1 s t \<Longrightarrow> Q x t" for s' Q
    using left_decreases [OF s'(1) Suc.prems(4)] Suc.prems(2,3)
    by (intro works_rebase [OF Suc.IH s'(2)]) (use s' in \<open>auto simp: after_def ahead_def\<close>)
  have bodies: "works s (optional body) s' Q"
    if s': "after 1 s s'" "ahead s s'" "\<And>x t. ahead s t \<Longrightarrow> after 1 s t \<Longrightarrow> Q x t" for s' Q
    using s' Suc.prems body ahead_refl(1) [OF s'(2)]
    by (intro works_optional [of s' body 0]) (auto simp: safe_in_def after_def ahead_def)
  show ?case
    using Suc.prems by (auto intro!: works_intros bodies rest simp: after_def)
qed simp

lemma case_arms_safe: "safe_in ts p 0 body \<Longrightarrow> safe_in ts p 1 (case_arms body)"
  by (rule safe_inI) (use case_alternatives_works [of ts p body _ "tokens_left _ + 1"] in \<open>simp add: works_def case_arms_def\<close>)

lemma if_statement_works:
  assumes body: "safe_in ts p 0 body"
  shows "ahead s s \<Longrightarrow> ps_tokens s = ts \<Longrightarrow> p \<le> ps_index s \<Longrightarrow> tokens_left s < n \<Longrightarrow>
    works s (if_statement n body) s (\<lambda>y s'. after 1 s s')"
proof (induction n arbitrary: s)
  case (Suc n)
  have rest: "works s (if_statement n body) s' Q"
    if s': "after 1 s s'" "ahead s s'" "\<And>x t. ahead s t \<Longrightarrow> after 1 s t \<Longrightarrow> Q x t" for s' Q
    using left_decreases [OF s'(1) Suc.prems(4)] Suc.prems(2,3)
    by (intro works_rebase [OF Suc.IH s'(2)]) (use s' in \<open>auto simp: after_def ahead_def\<close>)
  show ?case
    using Suc.prems by (auto intro!: works_intros works_call_in [OF body] rest simp: after_def Let_def)
qed simp

lemma parseIfStatement_safe: "safe_in ts p 0 body \<Longrightarrow> safe_in ts p 1 (parseIfStatement body)"
  by (rule safe_inI) (use if_statement_works [of ts p body _ "tokens_left _ + 1"] in \<open>simp add: works_def parseIfStatement_def\<close>)

lemma nested_statements_safe:
  assumes "safe_in ts p 0 body"
  shows "safe_in ts p 0 (case_statement body label)" "safe_in ts p 0 (while_statement body label)" "safe_in ts p 0 (for_statement body label)"
  by (rule safe_inI, auto simp: case_statement_def while_statement_def for_statement_def after_def
      intro!: works_intros works_call_in [OF assms] works_call_in [OF case_arms_safe [OF assms]])+

lemma statement_works:
  assumes "safe_in ts (Suc p) 0 body" "ahead s s" "ps_tokens s = ts" "p \<le> ps_index s"
  shows "works s (statement body f) s (\<lambda>y s'. after 1 s s')"
  using assms(2-4) unfolding statement_def Let_def
  by (auto simp: after_def intro!: works_intros nested_statements_safe [OF assms(1), THEN works_call_in]
      parseIfStatement_safe [OF assms(1), THEN works_call_in])

lemma statement_list_safe:
  assumes "safe_in ts (Suc p) 0 body"
  shows "safe_in ts p 0 (statement_list body f)"
proof -
  have turn: "works s (statement body f) s Q"
    if "ahead s s" "ps_tokens s = ts" "p \<le> ps_index s" "\<And>x t. ahead s t \<Longrightarrow> after 1 s t \<Longrightarrow> Q x t" for s Q
    by (rule works_rebase [OF statement_works [OF assms that(1-3)] that(1)]) (rule that(4))
  show ?thesis
    unfolding statement_list_def by (rule while_token_safe_in) (auto intro!: works_intros turn)
qed

lemma statements_at_safe: "length ts \<le> p + n \<Longrightarrow> safe_in ts p 0 (statements_at n f)"
proof (induction n arbitrary: p)
  case 0 then show ?case by (auto simp: safe_in_def ahead_def)
next
  case (Suc n) then show ?case by (auto intro!: statement_list_safe)
qed

lemma parseStatements_safe: "safe 0 0 (parseStatements f)"
proof (rule safeI)
  fix s assume s: "ahead s s"
  then have "length (ps_tokens s) \<le> ps_index s + (tokens_left s + 1)" by (simp add: tokens_left_def)
  from statements_at_safe [OF this, of f] s show "works s (parseStatements f) s (\<lambda>x s'. after 0 s s')"
    by (simp add: safe_in_def parseStatements_def works_def)
qed

lemmas statements_call [works_intros] = works_call [OF parseStatements_safe]

section \<open>Functions\<close>

lemma subprogram_items_safe: "safe 0 0 subprogram_items"
  unfolding subprogram_items_def by (rule while_token_safe) (auto simp: after_def intro!: works_intros)

lemma subprogram_parameters_safe: "safe 0 0 (subprogram_parameters procedure)"
  by (rule safeI) (auto simp: subprogram_parameters_def after_def
      intro!: works_intros works_call [OF separated_list_safe [OF parseGenericDeclaration_safe]])

lemma subprogram_body_safe: "safe 0 0 (subprogram_body procedure name)"
  by (rule safeI) (auto simp: subprogram_body_def after_def intro!: works_intros works_call [OF subprogram_items_safe])

lemma parseFunction_safe: "safe 0 1 parseFunction"
  by (rule safeI) (auto simp: parseFunction_def after_def
      intro!: works_intros works_call [OF subprogram_body_safe] works_call [OF subprogram_parameters_safe])

lemmas function_calls [works_intros] = works_call [OF parseFunction_safe] works_call [OF parseAssignment_safe]

end
