(* ===== verification/VHDLProc.thy ===== *)
theory VHDLProc
  imports VHDLStmt
begin

text \<open>
  The processes of \<^verbatim>\<open>src/vhdl/src/Parser.cpp\<close>: clock guards, declarations, and the combinational and edge-triggered forms.
\<close>

section \<open>Clock guards\<close>

record ClockPredicate =
  ck_eventSignal :: "Name option"
  ck_levelSignal :: "Name option"
  ck_level :: string
  ck_form :: ClockEdgeForm

definition level_text :: "bool \<Rightarrow> string" where
  "level_text falling = [quote] @ (if falling then ''0'' else ''1'') @ [quote]"

definition edge_call :: "ClockPredicate parser" where
  "edge_call = pbind (acceptWord ''falling_edge'') (\<lambda>falling. pthen (if \<not> falling then pthen advance_token (preturn ()) else preturn ())
     (pthen (expectSymbol ''('') (pbind parseName (\<lambda>n. pthen (expectSymbol '')'')
       (preturn \<lparr>ck_eventSignal = Some n, ck_levelSignal = Some n, ck_level = level_text falling,
          ck_form = (if falling then FallingEdgeCall else RisingEdgeCall)\<rparr>)))))"

text \<open>\<open>=\<close> and a character literal.\<close>

definition level_literal :: "string \<Rightarrow> string parser" where
  "level_literal message = pthen (expectSymbol ''='') (pbind current (\<lambda>t.
     if t_kind t \<noteq> CharacterLiteral then fail_at message (t_span t) else pthen advance_token (preturn (t_text t))))"

definition event_or_level :: "ClockPredicate parser" where
  "event_or_level = pbind parseName (\<lambda>n. pbind (acceptSymbol [quote]) (\<lambda>b.
     if b then pthen (expectWord ''event'')
       (preturn \<lparr>ck_eventSignal = Some n, ck_levelSignal = None, ck_level = [], ck_form = EventAndLevel\<rparr>)
     else pbind (level_literal ''expected a clock level character literal'') (\<lambda>l.
       preturn \<lparr>ck_eventSignal = None, ck_levelSignal = Some n, ck_level = l, ck_form = EventAndLevel\<rparr>)))"

definition both_signals :: "ClockPredicate \<Rightarrow> ClockPredicate \<Rightarrow> ClockPredicate parser" where
  "both_signals p r =
     (if ck_form p \<noteq> EventAndLevel \<or> ck_form r \<noteq> EventAndLevel \<or> (ck_eventSignal p \<noteq> None \<and> ck_eventSignal r \<noteq> None) \<or>
         (ck_levelSignal p \<noteq> None \<and> ck_levelSignal r \<noteq> None)
      then fail_here ''expected one clock event and one clock level''
      else let p = (if ck_eventSignal r \<noteq> None then p\<lparr>ck_eventSignal := ck_eventSignal r\<rparr> else p) in
        preturn (if ck_levelSignal r \<noteq> None then p\<lparr>ck_levelSignal := ck_levelSignal r, ck_level := ck_level r\<rparr> else p))"

fun clock_predicate :: "nat \<Rightarrow> bool \<Rightarrow> ClockPredicate parser" where
  "clock_predicate 0 operand = (\<lambda>s. Undefined)"
| "clock_predicate (Suc n) operand =
     pbind (pbind (acceptSymbol ''('') (\<lambda>b.
       if b then pbind (clock_predicate n False) (\<lambda>p. pthen (expectSymbol '')'') (preturn p))
       else pbind current (\<lambda>t. if is_word ''rising_edge'' t \<or> is_word ''falling_edge'' t then edge_call else event_or_level))) (\<lambda>p.
     pbind (if \<not> operand \<and> ck_form p = EventAndLevel then acceptWord ''and'' else preturn False) (\<lambda>b.
       if b then pbind (clock_predicate n True) (both_signals p) else preturn p))"

definition parseClockPredicate :: "ClockPredicate parser" where
  "parseClockPredicate = (\<lambda>s. clock_predicate (tokens_left s + 1) False s)"

text \<open>
  A guard that fails has written some fields of the process: the result is whether it succeeds, and the process.
\<close>

definition clock_enable :: "ClockedProcess \<Rightarrow> (bool \<times> ClockedProcess) parser" where
  "clock_enable p = on_word ''and'' (pbind (optional (parseExpression 0)) (\<lambda>e. preturn (e \<noteq> None, p\<lparr>cp_clockEnable := e\<rparr>))) (preturn (True, p))"

definition parseClockGuard :: "ClockedProcess \<Rightarrow> (bool \<times> ClockedProcess) parser" where
  "parseClockGuard p = pbind (optional parseClockPredicate) (\<lambda>r. case r of
       None \<Rightarrow> preturn (False, p)
     | Some c \<Rightarrow> (case ck_eventSignal c of
         None \<Rightarrow> pbind current (\<lambda>t. pthen (error ''expected rising_edge or a clock event and level guard'' (t_span t)) (preturn (False, p)))
       | Some ev \<Rightarrow> (case ck_levelSignal c of
           None \<Rightarrow> pbind current (\<lambda>t. pthen (error ''expected rising_edge or a clock event and level guard'' (t_span t)) (preturn (False, p)))
         | Some lv \<Rightarrow> pbind (clock_enable (p\<lparr>cp_eventSignal := ev, cp_levelSignal := lv, cp_level := ck_level c, cp_edgeForm := ck_form c\<rparr>))
             (\<lambda>(ok, p). if \<not> ok then preturn (False, p)
               else pbind (optional (expectWord ''then'')) (\<lambda>r. preturn (r \<noteq> None, p))))))"

text \<open>\<open>if (!parseClockGuard(process)) return std::nullopt;\<close>\<close>

definition clock_guard :: "ClockedProcess \<Rightarrow> ClockedProcess parser" where
  "clock_guard p = pbind (parseClockGuard p) (\<lambda>(ok, p). if ok then preturn p else pnull)"

definition parseProcessEnd :: "Name option \<Rightarrow> unit parser" where
  "parseProcessEnd label = pthen (expectWord ''end'') (pthen (expectWord ''process'')
     (pthen (end_label ''process end label does not match its declaration'' label) (expectSymbol '';'')))"

section \<open>Declarations\<close>

text \<open>After \<open>type\<close>: an enumeration, a record or an array.\<close>

datatype TypeDeclaration =
  EnumerationType EnumerationTypeDeclaration | RecordType RecordTypeDeclaration | ArrayType ArrayTypeDeclaration

definition type_declaration :: "TypeDeclaration parser" where
  "type_declaration = pbind (look_token 2) (\<lambda>t.
     if t_text t = ''('' then pbind parseEnumerationTypeDeclaration (\<lambda>d. preturn (EnumerationType d))
     else if t_canonical t = ''record'' then pbind parseRecordTypeDeclaration (\<lambda>d. preturn (RecordType d))
     else pbind parseArrayTypeDeclaration (\<lambda>d. preturn (ArrayType d)))"

definition starts_function :: "Token \<Rightarrow> bool" where
  "starts_function t \<longleftrightarrow> is_word ''function'' t \<or> is_word ''pure'' t \<or> is_word ''impure'' t \<or> is_word ''procedure'' t"

fun add_process_type :: "ClockedProcess \<Rightarrow> TypeDeclaration \<Rightarrow> ClockedProcess" where
  "add_process_type p (EnumerationType d) = p\<lparr>cp_enumerationTypes := cp_enumerationTypes p @ [d]\<rparr>"
| "add_process_type p (RecordType d) = p\<lparr>cp_recordTypes := cp_recordTypes p @ [d]\<rparr>"
| "add_process_type p (ArrayType d) = p\<lparr>cp_arrayTypes := cp_arrayTypes p @ [d]\<rparr>"

definition process_declaration :: "ClockedProcess \<Rightarrow> ClockedProcess parser" where
  "process_declaration p =
     on_word ''variable'' (pbind (parseObjectDeclaration True) (\<lambda>d. preturn (p\<lparr>cp_variables := cp_variables p @ [d]\<rparr>)))
     (on_word ''constant'' (pbind parseConstantDeclaration (\<lambda>d. preturn (p\<lparr>cp_constants := cp_constants p @ [d]\<rparr>)))
     (pbind current (\<lambda>t.
      if is_word ''subtype'' t then pbind parseSubtypeDeclaration (\<lambda>d. preturn (p\<lparr>cp_subtypes := cp_subtypes p @ [d]\<rparr>))
      else if starts_function t then pbind parseFunction (\<lambda>d. preturn (p\<lparr>cp_functions := cp_functions p @ [d]\<rparr>))
      else on_word ''type'' (pbind type_declaration (\<lambda>d. preturn (add_process_type p d)))
        (fail_at ''unsupported process declaration'' (t_span t)))))"

definition parseProcessDeclarations :: "ClockedProcess \<Rightarrow> ClockedProcess parser" where
  "parseProcessDeclarations p = while_token (\<lambda>t. \<not> is_eof t \<and> \<not> is_word ''begin'' t) process_declaration p"

definition sensitivity_item :: "(Name \<times> Name list) parser" where
  "sensitivity_item = pbind parseName (\<lambda>n.
     pbind (while_token (is_symbol ''.'') (\<lambda>fs. pthen advance_token (pbind parseName (\<lambda>f. preturn (fs @ [f])))) []) (\<lambda>fields. preturn (n, fields)))"

definition add_sensitivity :: "ClockedProcess \<Rightarrow> (Name \<times> Name list) list \<Rightarrow> ClockedProcess" where
  "add_sensitivity p xs = p\<lparr>cp_sensitivityList := map fst xs, cp_sensitivityFields := map snd xs\<rparr>"

section \<open>The restricted form\<close>

definition assignments_until :: "(Token \<Rightarrow> bool) \<Rightarrow> Assignment list parser" where
  "assignments_until stop = pbind (parseAssignment True False False) (\<lambda>a.
     while_token (\<lambda>t. \<not> is_eof t \<and> \<not> stop t) (\<lambda>as. pbind (parseAssignment True False False) (\<lambda>a. preturn (as @ [a]))) [a])"

definition ends_statements :: "Token \<Rightarrow> bool" where
  "ends_statements t \<longleftrightarrow> is_word ''end'' t \<or> is_word ''else'' t \<or> is_word ''elsif'' t \<or> is_word ''when'' t"

definition level_test :: "string \<Rightarrow> (Name \<times> string) parser" where
  "level_test message = pbind parseName (\<lambda>n. pbind (level_literal message) (\<lambda>l. pthen (expectWord ''then'') (preturn (n, l))))"

text \<open>
  The assignments under the clock: with an enable, with a synchronous reset, with both, or with neither.
\<close>

definition clocked_assignments :: "ClockedProcess \<Rightarrow> ClockedProcess parser" where
  "clocked_assignments p = pbind (on_word ''if'' (pbind (level_test ''expected a control level character literal'') (\<lambda>c. preturn (Some c)))
       (preturn None)) (\<lambda>control.
     pbind (assignments_until ends_statements) (\<lambda>as. case control of
       None \<Rightarrow> preturn (p\<lparr>cp_assignments := as\<rparr>)
     | Some (signal, level) \<Rightarrow> let reset = p\<lparr>cp_resetSignal := Some signal, cp_resetLevel := level, cp_resetAssignments := as\<rparr> in
         on_word ''elsif'' (pbind (level_test ''expected an enable level character literal'') (\<lambda>(enable, level).
             pbind (assignments_until (is_word ''end'')) (\<lambda>as.
               preturn (reset\<lparr>cp_enableSignal := Some enable, cp_enableLevel := level, cp_assignments := as\<rparr>))))
         (on_word ''else'' (pbind (assignments_until (is_word ''end'')) (\<lambda>as. preturn (reset\<lparr>cp_assignments := as\<rparr>)))
           (preturn (p\<lparr>cp_enableSignal := Some signal, cp_enableLevel := level, cp_assignments := as\<rparr>)))))"

definition end_if :: "unit parser" where
  "end_if = pthen (expectWord ''end'') (pthen (expectWord ''if'') (expectSymbol '';''))"

text \<open>\<open>None\<close> is the empty result that comes without a diagnostic; the caller rewinds from it as from the others.\<close>

definition parseSimpleClockedProcess :: "Name option \<Rightarrow> ClockedProcess option parser" where
  "parseSimpleClockedProcess label = pbind advance_token (\<lambda>start. pthen (expectSymbol ''('') (pbind parseName (\<lambda>sensitivity.
     pthen (expectSymbol '')'') (pthen (acceptWord ''is'')
     (pbind (while_token (is_word ''variable'') (\<lambda>vs. pthen advance_token (pbind (parseObjectDeclaration False) (\<lambda>v. preturn (vs @ [v])))) []) (\<lambda>variables.
     pthen (expectWord ''begin'') (pthen (expectWord ''if'') (pbind (clock_guard no_process) (\<lambda>p.
     if cp_clockEnable p \<noteq> None then preturn None
     else pbind (clocked_assignments p) (\<lambda>p.
       pthen (if cp_enableSignal p \<noteq> None \<or> cp_resetSignal p \<noteq> None then end_if else preturn ())
       (pthen end_if (pthen (parseProcessEnd label) (pbind (span_from (t_span start)) (\<lambda>sp.
         preturn (Some (p\<lparr>cp_sensitivity := sensitivity, cp_variables := variables, cp_span := sp\<rparr>))))))))))))))))"

section \<open>Edge-triggered and combinational processes\<close>

text \<open>The reset of a process: an equality of a signal and a level, in either order.\<close>

definition reset_test :: "ClockedProcess \<Rightarrow> ClockedProcess parser" where
  "reset_test p = pbind (optional (parseExpression 0)) (\<lambda>r. case r of
       None \<Rightarrow> fail_here ''expected a clock guard or scalar reset equality''
     | Some e \<Rightarrow> if ex_kind e \<noteq> KBinary \<or> ex_text e \<noteq> ''='' then fail_here ''expected a clock guard or scalar reset equality''
         else (case (ex_left e, ex_right e) of
           (Some l, Some r) \<Rightarrow> let (signal, level) = (if ex_kind l = KCharacterLiteral then (r, l) else (l, r)) in
             if ex_kind signal \<noteq> KName \<or> ex_kind level \<noteq> KCharacterLiteral \<or> (ex_text level \<noteq> level_text True \<and> ex_text level \<noteq> level_text False)
             then fail_at (''asynchronous reset must compare a signal to '' @ level_text True @ '' or '' @ level_text False) (ex_span e)
             else preturn (p\<lparr>cp_asynchronousReset := True,
               cp_resetSignal := Some \<lparr>nm_spelling = ex_text signal, nm_canonical = ex_canonical signal, nm_span = ex_span signal\<rparr>,
               cp_resetLevel := ex_text level\<rparr>)
         | _ \<Rightarrow> (\<lambda>s. Undefined)))"

definition guard_or_reset :: "ClockedProcess \<Rightarrow> ClockedProcess parser" where
  "guard_or_reset p = pbind mark (\<lambda>saved. pbind (parseClockGuard p) (\<lambda>(ok, p).
     if ok then preturn p
     else pthen (rewind saved) (pbind (reset_test p) (\<lambda>p. pthen (expectWord ''then'') (pbind (parseStatements False) (\<lambda>ss.
       pthen (expectWord ''elsif'') (clock_guard (p\<lparr>cp_resetStatements := ss\<rparr>))))))))"

text \<open>The clock enable becomes an \<open>if\<close> around the statements.\<close>

definition enabled_statements :: "ClockedProcess \<Rightarrow> SequentialStatement list \<Rightarrow> ClockedProcess" where
  "enabled_statements p ss = (case cp_clockEnable p of
       None \<Rightarrow> p\<lparr>cp_statements := ss\<rparr>
     | Some e \<Rightarrow> p\<lparr>cp_clockEnable := None,
         cp_statements := [Statement (no_head\<lparr>st_kind := SIf, st_span := ex_span e, st_condition := Some e\<rparr>) ss [] []]\<rparr>)"

definition full_edge_process :: "Name option \<Rightarrow> ClockedProcess parser" where
  "full_edge_process label = pbind advance_token (\<lambda>start. pthen (expectSymbol ''('') (pbind (separated_list '','' sensitivity_item) (\<lambda>xs.
     pthen (expectSymbol '')'') (pthen (acceptWord ''is'') (pbind (parseProcessDeclarations (add_sensitivity no_process xs)) (\<lambda>p.
     pthen (expectWord ''begin'') (pthen (expectWord ''if'') (pbind (guard_or_reset p) (\<lambda>p.
     case xs of [] \<Rightarrow> (\<lambda>s. Undefined) | x # _ \<Rightarrow> let p = p\<lparr>cp_sensitivity := fst x\<rparr> in
     pbind (word ''end'') (\<lambda>b. if b then fail_here ''expected a statement inside the clock guard''
     else pbind (parseStatements False) (\<lambda>ss. pthen end_if (let p = enabled_statements p ss in
     pbind (while_token (\<lambda>t. \<not> is_eof t \<and> \<not> is_word ''end'' t)
       (\<lambda>as. pbind (parseAssignment False False False) (\<lambda>a. preturn (as @ [a]))) []) (\<lambda>as.
     pthen (parseProcessEnd label) (pbind (span_from (t_span start)) (\<lambda>sp. preturn (p\<lparr>cp_assignments := as, cp_span := sp\<rparr>))))))))))))))))"

definition parseEdgeProcess :: "Name option \<Rightarrow> ClockedProcess parser" where
  "parseEdgeProcess label = pbind mark (\<lambda>saved. pbind (optional (parseSimpleClockedProcess label)) (\<lambda>legacy.
     case legacy of Some (Some p) \<Rightarrow> preturn p | _ \<Rightarrow> pthen (rewind saved) (full_edge_process label)))"

text \<open>The scan for an edge before the end of the process; \<open>u\<close> is the token before the list.\<close>

fun has_edge :: "Token \<Rightarrow> Token list \<Rightarrow> bool" where
  "has_edge u [] = False"
| "has_edge u (t # ts) =
     (if t_canonical t = ''process'' \<and> t_canonical u = ''end'' then False
      else if (t_canonical t = ''rising_edge'' \<or> t_canonical t = ''falling_edge'') \<and> ts \<noteq> [] \<and> t_text (hd ts) = ''('' \<or>
        t_canonical t = ''event'' \<and> t_text u = [quote] then True
      else has_edge t ts)"

definition edge_ahead :: "bool parser" where
  "edge_ahead = (\<lambda>s. Value (has_edge (ps_tokens s ! ps_index s) (drop (ps_index s + 1) (ps_tokens s))) s)"

definition set_allowWait :: "bool \<Rightarrow> unit parser" where
  "set_allowWait b = (\<lambda>s. Value () (s\<lparr>ps_allowWait := b\<rparr>))"

definition process_sensitivity :: "ClockedProcess \<Rightarrow> ClockedProcess parser" where
  "process_sensitivity p = pbind (acceptSymbol ''('') (\<lambda>b. if \<not> b then preturn p
     else pbind (on_word ''all'' (preturn (p\<lparr>cp_allSensitivity := True\<rparr>))
            (pbind (separated_list '','' sensitivity_item) (\<lambda>xs. preturn (add_sensitivity p xs)))) (\<lambda>p.
       pthen (expectSymbol '')'') (preturn p)))"

definition process_body :: "Name option \<Rightarrow> SequentialStatement list parser" where
  "process_body label = pthen (expectWord ''begin'') (pbind (parseStatements False) (\<lambda>ss. pthen (parseProcessEnd label) (preturn ss)))"

definition combinational_process :: "Name option \<Rightarrow> ClockedProcess parser" where
  "combinational_process label = pbind advance_token (\<lambda>start.
     pbind (process_sensitivity (no_process\<lparr>cp_combinational := True, cp_label := label\<rparr>)) (\<lambda>p. pthen (acceptWord ''is'')
     (pbind (parseProcessDeclarations p) (\<lambda>p. pbind wait_allowed (\<lambda>previousWait.
       pthen (set_allowWait (\<not> cp_allSensitivity p \<and> cp_sensitivityList p = []))
       (pbind (optional (process_body label)) (\<lambda>body. pthen (set_allowWait previousWait)
       (case body of None \<Rightarrow> pnull | Some ss \<Rightarrow> pbind (span_from (t_span start)) (\<lambda>sp.
         preturn (p\<lparr>cp_statements := ss, cp_span := sp\<rparr>))))))))))"

definition parseClockedProcess :: "Name option \<Rightarrow> ClockedProcess parser" where
  "parseClockedProcess label = pbind edge_ahead (\<lambda>b.
     if b then pbind (parseEdgeProcess label) (\<lambda>p. preturn (p\<lparr>cp_label := label\<rparr>)) else combinational_process label)"

end
