(* ===== verification/VHDLProcSafe.thy ===== *)
theory VHDLProcSafe
  imports VHDLStmtSafe VHDLProc
begin

text \<open>The processes stay in the tokens, end, and report what they give up on.\<close>

section \<open>Clock guards\<close>

lemma clock_parts_safe: "safe 0 1 edge_call" "safe 0 1 (level_literal m)"
  by (rule safeI, auto simp: edge_call_def level_literal_def after_def intro!: works_intros)+

lemmas clock_calls [works_intros] = clock_parts_safe [THEN works_call]

lemma event_or_level_safe: "safe 0 1 event_or_level"
  by (rule safeI) (auto simp: event_or_level_def after_def intro!: works_intros)

lemma both_signals_safe: "safe 0 0 (both_signals p r)"
  by (rule safeI) (auto simp: both_signals_def Let_def intro!: works_intros)

lemmas signal_calls [works_intros] = works_call [OF event_or_level_safe] works_call [OF both_signals_safe]

lemma clock_predicate_works:
  "ahead s s \<Longrightarrow> tokens_left s < n \<Longrightarrow> works s (clock_predicate n operand) s (\<lambda>y s'. after 1 s s')"
proof (induction n arbitrary: s operand)
  case (Suc n)
  have rest: "works s (clock_predicate n operand) s' Q"
    if s': "after 1 s s'" "ahead s s'" "\<And>x t. ahead s t \<Longrightarrow> after 1 s t \<Longrightarrow> Q x t" for s' Q operand
    using left_decreases [OF s'(1) Suc.prems(2)]
    by (intro works_rebase [OF Suc.IH s'(2)]) (use s' in \<open>auto simp: after_def\<close>)
  show ?case
    using Suc.prems by (auto intro!: works_intros rest simp: after_def)
qed simp

lemma parseClockPredicate_safe: "safe 0 1 parseClockPredicate"
  by (rule safeI) (use clock_predicate_works [of _ "tokens_left _ + 1" False] in \<open>simp add: works_def parseClockPredicate_def\<close>)

text \<open>A guard that fails has reported it.\<close>

definition judged :: "RecursiveParser \<Rightarrow> bool \<times> 'a \<Rightarrow> RecursiveParser \<Rightarrow> bool" where
  "judged s r s' \<longleftrightarrow> after 0 s s' \<and> (fst r \<or> dg s < dg s')"

lemma works_judged:
  assumes "works s m s (judged s)" "ahead b s" "\<And>x s'. ahead b s' \<Longrightarrow> judged s x s' \<Longrightarrow> Q x s'"
  shows "works b m s Q"
  using assms(1,3) ahead_trans [OF assms(2)] ahead_le [OF assms(2)] by (fastforce simp: works_def split: outcome.splits)

lemma clock_enable_works: "ahead s s \<Longrightarrow> works s (clock_enable p) s (judged s)"
  by (auto simp: clock_enable_def judged_def after_def intro!: works_intros works_optional_call [OF expression_safe])

lemma parseClockGuard_works: "ahead s s \<Longrightarrow> works s (parseClockGuard p) s (judged s)"
  by (auto simp: parseClockGuard_def judged_def after_def intro!: works_intros works_judged [OF clock_enable_works] dest: ahead_refl(1)
      intro!: works_optional_call [OF parseClockPredicate_safe] works_optional_call [OF expectWord_safe])

lemma clock_guard_safe: "safe 0 0 (clock_guard p)"
  by (rule safeI) (auto simp: clock_guard_def judged_def after_def intro!: works_intros works_judged [OF parseClockGuard_works])

lemma parseProcessEnd_safe: "safe 0 1 (parseProcessEnd label)"
  by (rule safeI) (auto simp: parseProcessEnd_def after_def intro!: works_intros)

lemmas guard_calls [works_intros] = works_call [OF clock_guard_safe] works_call [OF parseProcessEnd_safe]

section \<open>Declarations\<close>

lemma type_declaration_safe: "safe 1 1 type_declaration"
  by (rule safeI) (auto simp: type_declaration_def after_def intro!: works_intros)

lemmas type_call [works_intros] = works_call [OF type_declaration_safe]

lemma process_declaration_safe: "safe 0 1 (process_declaration p)"
  by (rule safeI) (auto simp: process_declaration_def after_def intro!: works_intros)

lemma parseProcessDeclarations_safe: "safe 0 0 (parseProcessDeclarations p)"
  unfolding parseProcessDeclarations_def
  by (rule while_token_safe) (use process_declaration_safe in \<open>auto simp: safe_def\<close>)

lemma sensitivity_item_safe: "safe 0 1 sensitivity_item"
proof -
  have loop: "safe 0 0 (while_token (is_symbol ''.'') (\<lambda>fs. pthen advance_token (pbind parseName (\<lambda>f. preturn (fs @ [f])))) fs)" for fs
    by (rule while_token_safe) (auto simp: after_def intro!: works_intros)
  show ?thesis
    by (rule safeI) (auto simp: sensitivity_item_def after_def intro!: works_intros works_call [OF loop])
qed

lemma repeat_separated_nonempty: "repeat_separated n sep item s = Value xs s' \<Longrightarrow> xs \<noteq> []"
  by (cases n) (auto simp: pbind_def preturn_def split: outcome.splits if_splits)

lemma works_separated:
  assumes "safe p 1 item" "ahead b s" "p \<le> ps_index s" "\<And>xs s'. ahead b s' \<Longrightarrow> after 1 s s' \<Longrightarrow> xs \<noteq> [] \<Longrightarrow> Q xs s'"
  shows "works b (separated_list sep item) s Q"
proof -
  have "works b (separated_list sep item) s (\<lambda>xs s'. after 1 s s')"
    by (rule works_call [OF separated_list_safe [OF assms(1)] assms(2,3)])
  moreover have "xs \<noteq> []" if "separated_list sep item s = Value xs s'" for xs s'
    using that unfolding separated_list_def by (rule repeat_separated_nonempty)
  ultimately show ?thesis
    using assms(4) by (cases "separated_list sep item s") (simp_all add: works_def)
qed

lemmas declarations_calls [works_intros] = works_call [OF parseProcessDeclarations_safe] works_separated [OF sensitivity_item_safe]

section \<open>The restricted form\<close>

lemma assignments_until_safe: "safe 0 1 (assignments_until stop)"
proof -
  have loop: "safe 0 0 (while_token (\<lambda>t. \<not> is_eof t \<and> \<not> stop t) (\<lambda>as. pbind (parseAssignment True False False) (\<lambda>a. preturn (as @ [a]))) as)" for as
    by (rule while_token_safe) (auto intro!: works_intros)
  show ?thesis
    by (rule safeI) (auto simp: assignments_until_def after_def intro!: works_intros works_call [OF loop])
qed

lemma level_test_safe: "safe 0 1 (level_test m)"
  by (rule safeI) (auto simp: level_test_def after_def intro!: works_intros)

lemma end_if_safe: "safe 0 1 end_if"
  by (rule safeI) (auto simp: end_if_def after_def intro!: works_intros)

lemmas clocked_calls [works_intros] = works_call [OF assignments_until_safe] works_call [OF level_test_safe] works_call [OF end_if_safe]

lemma clocked_assignments_safe: "safe 0 1 (clocked_assignments p)"
  by (rule safeI) (auto simp: clocked_assignments_def Let_def after_def intro!: works_intros)

lemma parseSimpleClockedProcess_safe: "safe 0 1 (parseSimpleClockedProcess label)"
proof -
  have loop: "safe 0 0 (while_token (is_word ''variable'') (\<lambda>vs. pthen advance_token (pbind (parseObjectDeclaration False) (\<lambda>v. preturn (vs @ [v])))) vs)" for vs
    by (rule while_token_safe) (auto simp: after_def intro!: works_intros)
  show ?thesis
    by (rule safeI) (auto simp: parseSimpleClockedProcess_def after_def intro!: works_intros works_call [OF loop] works_call [OF clocked_assignments_safe])
qed

section \<open>Edge-triggered and combinational processes\<close>

lemma binary_children: "expr_ok e \<Longrightarrow> ex_kind e = KBinary \<Longrightarrow> \<exists>l r. ex_left e = Some l \<and> ex_right e = Some r"
  by (cases e) auto

lemma reset_test_safe: "safe 0 0 (reset_test p)"
proof (rule safeI)
  fix s assume s: "ahead s s"
  have expr: "works s (optional (parseExpression 0)) s Q"
    if "\<And>e s'. ahead s s' \<Longrightarrow> after 0 s s' \<Longrightarrow> expr_ok e \<Longrightarrow> Q (Some e) s'" "\<And>s'. ahead s s' \<Longrightarrow> after 0 s s' \<Longrightarrow> Q None s'" for Q
  proof -
    have "works s (parseExpression 0) s (\<lambda>e s'. after 0 s s' \<and> expr_ok e)" using s by (auto simp: after_def intro!: works_intros)
    then show ?thesis using that by (cases "parseExpression 0 s") (auto simp: works_def optional_def after_def dest: ahead_le)
  qed
  have other: "works s (case (ex_left e, ex_right e) of (Some l, Some r) \<Rightarrow> k l r | _ \<Rightarrow> (\<lambda>s. Undefined)) s' Q"
    if "expr_ok e" "ex_kind e = KBinary" "\<And>l r. works s (k l r) s' Q" for e s' k and Q :: "'b \<Rightarrow> RecursiveParser \<Rightarrow> bool"
    using binary_children [OF that(1,2)] that(3) by auto
  show "works s (reset_test p) s (\<lambda>x s'. after 0 s s')"
    unfolding reset_test_def
    by (intro works_bind expr impI works_option works_if other works_fail_here works_fail_at)
      (auto simp: Let_def intro!: works_intros split: option.split)
qed

lemma guard_or_reset_safe: "safe 0 0 (guard_or_reset p)"
proof (rule safeI)
  fix s assume s: "ahead s s"
  show "works s (guard_or_reset p) s (\<lambda>x s'. after 0 s s')"
    unfolding guard_or_reset_def using s
    by (auto simp: judged_def after_def intro!: works_intros works_mark works_judged [OF parseClockGuard_works] works_rewind [OF s]
        works_call [OF reset_test_safe])
qed

lemmas reset_calls [works_intros] = works_call [OF guard_or_reset_safe]

lemma full_edge_process_safe: "safe 0 1 (full_edge_process label)"
proof -
  have loop: "safe 0 0 (while_token (\<lambda>t. \<not> is_eof t \<and> \<not> is_word ''end'' t) (\<lambda>as. pbind (parseAssignment False False False) (\<lambda>a. preturn (as @ [a]))) as)" for as
    by (rule while_token_safe) (auto intro!: works_intros)
  show ?thesis
    by (rule safeI) (auto simp: full_edge_process_def Let_def after_def neq_Nil_conv intro!: works_intros works_call [OF loop])
qed

text \<open>The restricted form is tried first; whatever it gave up on, the general form starts again at the same place.\<close>

lemma parseEdgeProcess_safe: "safe 0 1 (parseEdgeProcess label)"
proof (rule safeI)
  fix s assume s: "ahead s s"
  show "works s (parseEdgeProcess label) s (\<lambda>x s'. after 1 s s')"
    unfolding parseEdgeProcess_def using s
    by (auto simp: after_def intro!: works_intros works_mark works_optional_call [OF parseSimpleClockedProcess_safe] works_rewind [OF s]
        works_call [OF full_edge_process_safe])
qed

lemma works_edge_ahead [works_intros]: "ahead b s \<Longrightarrow> (\<And>v. Q v s) \<Longrightarrow> works b edge_ahead s Q"
  by (simp add: works_def edge_ahead_def)

lemma works_set_allowWait [works_intros]:
  assumes "ahead b s" "\<And>s'. ahead b s' \<Longrightarrow> after 0 s s' \<Longrightarrow> Q () s'"
  shows "works b (set_allowWait v) s Q"
  using assms by (auto simp: works_def set_allowWait_def after_def ahead_def dg_def)

lemma process_sensitivity_safe: "safe 0 0 (process_sensitivity p)"
  by (rule safeI) (auto simp: process_sensitivity_def after_def intro!: works_intros)

lemma process_body_safe: "safe 0 1 (process_body label)"
  by (rule safeI) (auto simp: process_body_def after_def intro!: works_intros)

lemma combinational_process_safe: "safe 0 1 (combinational_process label)"
  by (rule safeI) (auto simp: combinational_process_def after_def intro!: works_intros works_call [OF process_sensitivity_safe]
      works_optional_call [OF process_body_safe])

lemma parseClockedProcess_safe: "safe 0 1 (parseClockedProcess label)"
  by (rule safeI) (auto simp: parseClockedProcess_def after_def intro!: works_intros works_call [OF parseEdgeProcess_safe]
      works_call [OF combinational_process_safe])

lemmas process_call [works_intros] = works_call [OF parseClockedProcess_safe]

end
