(* ===== verification/VHDLUnit.thy ===== *)
theory VHDLUnit
  imports VHDLProc
begin

text \<open>
  The design units of \<^verbatim>\<open>src/vhdl/src/Parser.cpp\<close>: instantiations, generate statements, architectures, packages, and the main loop.
\<close>

section \<open>Instantiations\<close>

fun named_association :: "nat \<Rightarrow> Token list \<Rightarrow> bool" where
  "named_association depth [] = False"
| "named_association depth (t # ts) =
     (if t_text t = ''=>'' \<and> depth = 0 then True
      else if t_text t = ''('' then named_association (depth + 1) ts
      else if t_text t = '')'' then (if depth = 0 then False else named_association (depth - 1) ts)
      else if t_text t = '','' \<and> depth = 0 \<or> t_text t = '';'' then False
      else named_association depth ts)"

definition startsNamedPortAssociation :: "bool parser" where
  "startsNamedPortAssociation = pbind isNameToken (\<lambda>b s.
     Value (b \<and> named_association 0 (drop (ps_index s + 1) (ps_tokens s))) s)"

definition parsePortSelection :: "Expression list parser" where
  "parsePortSelection = target_suffixes"

definition generic_association :: "GenericAssociation parser" where
  "generic_association = pbind current (\<lambda>t. pbind (look_token 1) (\<lambda>t1.
     pbind (if is_name_token t \<and> t_kind t1 = Symbol \<and> t_text t1 = ''=>'' then pbind parseName (\<lambda>n. pthen advance_token (preturn (Some n)))
            else preturn None) (\<lambda>formal.
     pbind (parseExpression 0) (\<lambda>e. preturn \<lparr>ga_formal = formal, ga_actual = e, ga_span = join (t_span t) (ex_span e)\<rparr>))))"

text \<open>\<open>( ... )\<close> that may be empty.\<close>

definition association_list :: "'a parser \<Rightarrow> 'a list parser" where
  "association_list item = pthen (expectSymbol ''('') (pbind (symbol '')'') (\<lambda>b.
     pbind (if b then preturn [] else separated_list '','' item) (\<lambda>xs. pthen (expectSymbol '')'') (preturn xs))))"

definition generic_map :: "GenericAssociation list parser" where
  "generic_map = on_word ''generic'' (pthen (expectWord ''map'') (association_list generic_association)) (preturn [])"

text \<open>The innermost prefix of selections and indices, and whether there is an index; \<open>None\<close> is a null pointer that is followed.\<close>

fun port_prefix :: "Expression \<Rightarrow> (bool \<times> Expression) option" where
  "port_prefix (Expression k t c sp l r cn es) =
     (if k = KSelected \<or> k = KIndexed then
        (case l of None \<Rightarrow> None | Some e \<Rightarrow> map_option (\<lambda>(indexed, p). (indexed \<or> k = KIndexed, p)) (port_prefix e))
      else Some (False, Expression k t c sp l r cn es))"

record PortAssociation =
  pa_formal :: "Name option"
  pa_formalIndices :: "Expression list"
  pa_open :: bool
  pa_actual :: Name
  pa_literal :: "Expression option"
  pa_indices :: "Expression list"

definition port_formal :: "(Name option \<times> Expression list) parser" where
  "port_formal = pbind startsNamedPortAssociation (\<lambda>b. if \<not> b then preturn (None, [])
     else pbind parseName (\<lambda>n. pbind parsePortSelection (\<lambda>es. pthen (expectSymbol ''=>'') (preturn (Some n, es)))))"

definition return_to :: "nat \<Rightarrow> unit parser" where
  "return_to i = (\<lambda>s. Value () (s\<lparr>ps_index := i\<rparr>))"

definition port_actual :: "PortAssociation \<Rightarrow> PortAssociation parser" where
  "port_actual a = pbind mark (\<lambda>saved. pbind (parseExpression 0) (\<lambda>v. case port_prefix v of
       None \<Rightarrow> (\<lambda>s. Undefined)
     | Some (indexed, prefix) \<Rightarrow>
         if ex_kind prefix \<noteq> KName then preturn (a\<lparr>pa_literal := Some v\<rparr>)
         else pthen (return_to (fst saved)) (pbind parseName (\<lambda>n. pbind parsePortSelection (\<lambda>es.
           preturn (a\<lparr>pa_actual := n, pa_literal := (if indexed then Some v else None), pa_indices := es\<rparr>))))))"

definition port_association :: "PortAssociation parser" where
  "port_association = pbind port_formal (\<lambda>(formal, indices).
     let a = \<lparr>pa_formal = formal, pa_formalIndices = indices, pa_open = False, pa_actual = no_name, pa_literal = None, pa_indices = []\<rparr> in
     on_word ''open'' (pbind previous_token (\<lambda>t. preturn (a\<lparr>pa_open := True, pa_actual := no_name\<lparr>nm_span := t_span t\<rparr>\<rparr>)))
       (port_actual a))"

definition instantiated_library :: "SourceSpan \<Rightarrow> (bool \<times> Name) parser" where
  "instantiated_library start = on_word ''entity'' (pbind parseName (\<lambda>n. pthen (expectSymbol ''.'') (preturn (False, n))))
     (preturn (True, fixed_name ''work'' start))"

definition instantiated_architecture :: "Name option parser" where
  "instantiated_architecture = pbind (acceptSymbol ''('') (\<lambda>b. if \<not> b then preturn None
     else pbind parseName (\<lambda>n. pthen (expectSymbol '')'') (preturn (Some n))))"

definition parseEntityInstantiation :: "EntityInstantiation parser" where
  "parseEntityInstantiation = pbind current (\<lambda>first. let start = t_span first in pbind parseName (\<lambda>label. pthen (expectSymbol '':'')
     (pbind (instantiated_library start) (\<lambda>(component, library). pbind parseName (\<lambda>entity. pbind instantiated_architecture (\<lambda>architecture.
     pbind generic_map (\<lambda>generics. pthen (expectWord ''port'') (pthen (expectWord ''map'') (pbind (association_list port_association) (\<lambda>as.
     pthen (expectSymbol '';'') (pbind (span_from start) (\<lambda>sp.
       preturn \<lparr>ei_label = label, ei_library = library, ei_entity = entity, ei_architecture = architecture, ei_generics = generics,
         ei_actuals = map pa_actual as, ei_span = sp, ei_formals = map pa_formal as, ei_component = component,
         ei_actualIndices = map pa_indices as, ei_actualLiterals = map pa_literal as, ei_formalIndices = map pa_formalIndices as,
         ei_actualOpen = map pa_open as\<rparr>))))))))))))"

section \<open>Generate statements\<close>

definition startsGenerate :: "bool parser" where
  "startsGenerate = pbind current (\<lambda>t. pbind labelled (\<lambda>l. pbind (look_token 2) (\<lambda>t2.
     preturn (is_word ''for'' t \<or> is_word ''if'' t \<or> (l \<and> (t_canonical t2 = ''for'' \<or> t_canonical t2 = ''if''))))))"

fun add_generate_type :: "GenerateHead \<Rightarrow> TypeDeclaration \<Rightarrow> GenerateHead" where
  "add_generate_type g (EnumerationType d) = g\<lparr>gh_enumerationTypes := gh_enumerationTypes g @ [d]\<rparr>"
| "add_generate_type g (RecordType d) = g\<lparr>gh_recordTypes := gh_recordTypes g @ [d]\<rparr>"
| "add_generate_type g (ArrayType d) = g\<lparr>gh_arrayTypes := gh_arrayTypes g @ [d]\<rparr>"

definition starts_generate_declaration :: "Token \<Rightarrow> bool" where
  "starts_generate_declaration t \<longleftrightarrow> is_word ''signal'' t \<or> is_word ''constant'' t \<or> is_word ''type'' t \<or> is_word ''subtype'' t \<or>
     is_word ''attribute'' t \<or> starts_function t"

definition generate_declaration :: "GenerateHead \<Rightarrow> GenerateHead parser" where
  "generate_declaration g = pbind current (\<lambda>t.
     if starts_function t then pbind parseFunction (\<lambda>d. preturn (g\<lparr>gh_functions := gh_functions g @ [d]\<rparr>))
     else if is_word ''attribute'' t then pthen parseSynthesisAttribute (preturn g)
     else if is_word ''subtype'' t then pbind parseSubtypeDeclaration (\<lambda>d. preturn (g\<lparr>gh_subtypes := gh_subtypes g @ [d]\<rparr>))
     else on_word ''signal'' (pbind (parseObjectDeclaration True) (\<lambda>d. preturn (g\<lparr>gh_signals := gh_signals g @ [d]\<rparr>)))
       (on_word ''constant'' (pbind parseConstantDeclaration (\<lambda>d. preturn (g\<lparr>gh_constants := gh_constants g @ [d]\<rparr>)))
       (pthen advance_token (pbind type_declaration (\<lambda>d. preturn (add_generate_type g d))))))"

text \<open>A declaration that is not supported is reported by its keyword.\<close>

definition refuse_words :: "string \<Rightarrow> string list \<Rightarrow> unit parser" where
  "refuse_words prefix ws = pbind current (\<lambda>t. case find (\<lambda>w. is_word w t) ws of
       None \<Rightarrow> preturn ()
     | Some w \<Rightarrow> fail_at (prefix @ w @ '' declarations are not supported'') (t_span t))"

definition process_label :: "Name option parser" where
  "process_label = pbind labelled (\<lambda>l. pbind (look_token 2) (\<lambda>t2.
     if l \<and> t_canonical t2 = ''process'' then pbind parseName (\<lambda>n. pthen advance_token (preturn (Some n))) else preturn None))"

type_synonym generate_state = "GenerateHead \<times> GenerateStatement list"

definition generate_item :: "GenerateStatement parser \<Rightarrow> generate_state \<Rightarrow> generate_state parser" where
  "generate_item child = (\<lambda>(g, cs). pbind process_label (\<lambda>label. pbind startsIgnoredDiagnostic (\<lambda>ignored.
     if ignored then pthen parseIgnoredDiagnostic (preturn (g, cs))
     else pbind startsGenerate (\<lambda>b.
       if b then pbind child (\<lambda>c. preturn (g, cs @ [c]))
       else pbind (word ''process'') (\<lambda>b.
         if b then pbind (parseClockedProcess label) (\<lambda>p. preturn (g\<lparr>gh_processes := gh_processes g @ [p]\<rparr>, cs))
         else pbind labelled (\<lambda>l.
           if l then pbind parseEntityInstantiation (\<lambda>i. preturn (g\<lparr>gh_instantiations := gh_instantiations g @ [i]\<rparr>, cs))
           else pbind (parseAssignment False True False) (\<lambda>a. preturn (g\<lparr>gh_assignments := gh_assignments g @ [a]\<rparr>, cs))))))))"

definition parseGenerateBody :: "GenerateStatement parser \<Rightarrow> GenerateHead \<Rightarrow> generate_state parser" where
  "parseGenerateBody child g = pbind current (\<lambda>t. let declarations = starts_generate_declaration t in
     pbind (while_token starts_generate_declaration generate_declaration g) (\<lambda>g.
     pthen (refuse_words ''generate-local '' [''subtype'', ''function'', ''procedure'', ''component'', ''attribute'', ''shared'', ''file'', ''alias'', ''use''])
     (pthen (if declarations then expectWord ''begin'' else pthen (acceptWord ''begin'') (preturn ()))
     (while_token (\<lambda>t. \<not> is_eof t \<and> \<not> is_word ''end'' t \<and> \<not> is_word ''elsif'' t \<and> \<not> is_word ''else'' t) (generate_item child) (g, [])))))"

fun generate_alternatives :: "nat \<Rightarrow> GenerateStatement parser \<Rightarrow> GenerateStatement list parser" where
  "generate_alternatives 0 child = (\<lambda>s. Undefined)"
| "generate_alternatives (Suc n) child = pbind current (\<lambda>t.
     if \<not> is_word ''elsif'' t \<and> \<not> is_word ''else'' t then preturn []
     else pbind (acceptWord ''else'') (\<lambda>otherwise.
       pbind (if otherwise then preturn None else pthen advance_token (pbind (parseExpression 0) (\<lambda>e. preturn (Some e)))) (\<lambda>c.
       pthen (expectWord ''generate'') (pbind (parseGenerateBody child (no_generate\<lparr>gh_conditional := True, gh_condition := c\<rparr>)) (\<lambda>(g, cs).
         if otherwise then preturn [Generate g cs []]
         else pbind (generate_alternatives n child) (\<lambda>gs. preturn (Generate g cs [] # gs)))))))"

definition generate_branches :: "GenerateStatement parser \<Rightarrow> GenerateStatement list parser" where
  "generate_branches child = (\<lambda>s. generate_alternatives (tokens_left s + 1) child s)"

definition generate_label :: "Name parser" where
  "generate_label = pbind labelled (\<lambda>l. if \<not> l then preturn no_name else pbind parseName (\<lambda>n. pthen advance_token (preturn n)))"

definition generate_scheme :: "Name \<Rightarrow> GenerateHead parser" where
  "generate_scheme label = on_word ''if'' (pbind (parseExpression 0) (\<lambda>e.
       preturn (no_generate\<lparr>gh_label := label, gh_conditional := True, gh_condition := Some e\<rparr>)))
     (pthen (expectWord ''for'') (pbind parseName (\<lambda>i. pthen (expectWord ''in'') (pbind parseDiscreteRange (\<lambda>r.
       preturn (no_generate\<lparr>gh_label := label, gh_iterator := i, gh_range := r\<rparr>))))))"

definition generate_statement :: "GenerateStatement parser \<Rightarrow> GenerateStatement parser" where
  "generate_statement child = pbind generate_label (\<lambda>label. pbind (generate_scheme label) (\<lambda>g. pthen (expectWord ''generate'')
     (pbind (parseGenerateBody child g) (\<lambda>(g, cs).
     pbind (if gh_conditional g then generate_branches child else preturn []) (\<lambda>alternatives.
     pthen (expectWord ''end'') (pthen (expectWord ''generate'') (pthen (closing_name True ''generate end name mismatch'' label)
       (pthen (expectSymbol '';'') (preturn (Generate g cs alternatives))))))))))"

fun generate_at :: "nat \<Rightarrow> GenerateStatement parser" where
  "generate_at 0 = (\<lambda>s. Undefined)"
| "generate_at (Suc n) = generate_statement (generate_at n)"

definition parseGenerate :: "GenerateStatement parser" where
  "parseGenerate = (\<lambda>s. generate_at (tokens_left s + 1) s)"

section \<open>Architectures\<close>

fun add_architecture_type :: "ArchitectureBody \<Rightarrow> TypeDeclaration \<Rightarrow> ArchitectureBody" where
  "add_architecture_type a (EnumerationType d) = a\<lparr>ab_enumerationTypes := ab_enumerationTypes a @ [d]\<rparr>"
| "add_architecture_type a (RecordType d) = a\<lparr>ab_recordTypes := ab_recordTypes a @ [d]\<rparr>"
| "add_architecture_type a (ArrayType d) = a\<lparr>ab_arrayTypes := ab_arrayTypes a @ [d]\<rparr>"

definition starts_architecture_declaration :: "Token \<Rightarrow> bool" where
  "starts_architecture_declaration t \<longleftrightarrow> is_word ''signal'' t \<or> is_word ''type'' t \<or> is_word ''component'' t \<or> is_word ''constant'' t \<or>
     is_word ''subtype'' t \<or> is_word ''attribute'' t \<or> starts_function t \<or> is_word ''alias'' t"

definition architecture_declaration :: "ArchitectureBody \<Rightarrow> ArchitectureBody parser" where
  "architecture_declaration a = pbind current (\<lambda>t.
     if is_word ''alias'' t then pbind parseAlias (\<lambda>d. preturn (a\<lparr>ab_aliases := ab_aliases a @ [d]\<rparr>))
     else if is_word ''attribute'' t then pthen parseSynthesisAttribute (preturn a)
     else if is_word ''subtype'' t then pbind parseSubtypeDeclaration (\<lambda>d. preturn (a\<lparr>ab_subtypes := ab_subtypes a @ [d]\<rparr>))
     else if starts_function t then pbind parseFunction (\<lambda>d. preturn (a\<lparr>ab_functions := ab_functions a @ [d]\<rparr>))
     else on_word ''signal'' (pbind (parseObjectDeclaration True) (\<lambda>d. preturn (a\<lparr>ab_signals := ab_signals a @ [d]\<rparr>)))
       (on_word ''constant'' (pbind parseConstantDeclaration (\<lambda>d. preturn (a\<lparr>ab_constants := ab_constants a @ [d]\<rparr>)))
       (pbind (word ''component'') (\<lambda>b.
        if b then pbind (parseEntity True) (\<lambda>d. preturn (a\<lparr>ab_components := ab_components a @ [d]\<rparr>))
        else pthen advance_token (pbind type_declaration (\<lambda>d. preturn (add_architecture_type a d)))))))"

text \<open>An item that fails is left out, and reading goes on after the next \<open>;\<close> or at \<open>end\<close>.\<close>

definition or_synchronize :: "'a parser \<Rightarrow> ('a \<Rightarrow> 'b) \<Rightarrow> 'b \<Rightarrow> 'b parser" where
  "or_synchronize m f x = pbind (optional m) (\<lambda>r. case r of Some y \<Rightarrow> preturn (f y) | None \<Rightarrow> pthen (synchronize ''end'') (preturn x))"

definition architecture_item :: "Name option \<Rightarrow> ArchitectureBody \<Rightarrow> ArchitectureBody parser" where
  "architecture_item label a = pbind startsGenerate (\<lambda>b.
     if b then pbind parseGenerate (\<lambda>g. preturn (a\<lparr>ab_generates := ab_generates a @ [g]\<rparr>))
     else pbind labelled (\<lambda>l.
       if l then or_synchronize parseEntityInstantiation (\<lambda>i. a\<lparr>ab_instantiations := ab_instantiations a @ [i]\<rparr>) a
       else pbind (word ''process'') (\<lambda>b.
         if b then or_synchronize (parseClockedProcess label) (\<lambda>p. a\<lparr>ab_processes := ab_processes a @ [p]\<rparr>) a
         else or_synchronize (parseAssignment False True False) (\<lambda>v. a\<lparr>ab_assignments := ab_assignments a @ [v]\<rparr>) a)))"

text \<open>\<open>if (!atEnd() && current().span.start.offset == before) advance();\<close>, with a word at which it stays.\<close>

definition step_over :: "Token \<Rightarrow> (Token \<Rightarrow> bool) \<Rightarrow> unit parser" where
  "step_over first stay = pbind current (\<lambda>t.
     if \<not> is_eof t \<and> \<not> stay t \<and> offset (sp_start (t_span t)) = offset (sp_start (t_span first)) then pthen advance_token (preturn ())
     else preturn ())"

definition architecture_statement :: "ArchitectureBody \<Rightarrow> ArchitectureBody parser" where
  "architecture_statement a = pbind current (\<lambda>first. pbind process_label (\<lambda>label. pbind startsIgnoredDiagnostic (\<lambda>ignored.
     if ignored then pthen parseIgnoredDiagnostic (preturn a)
     else pbind (architecture_item label a) (\<lambda>a. pthen (step_over first (is_word ''end'')) (preturn a)))))"

definition new_architecture :: "Name \<Rightarrow> Name \<Rightarrow> SourceSpan \<Rightarrow> ArchitectureBody" where
  "new_architecture name entity sp = \<lparr>ab_name = name, ab_entity = entity, ab_assignments = [], ab_processes = [], ab_arrayTypes = [],
     ab_signals = [], ab_instantiations = [], ab_span = sp, ab_context = no_context, ab_generates = [], ab_components = [],
     ab_constants = [], ab_recordTypes = [], ab_enumerationTypes = [], ab_functions = [], ab_subtypes = [], ab_aliases = []\<rparr>"

definition parseArchitecture :: "ArchitectureBody parser" where
  "parseArchitecture = pbind advance_token (\<lambda>start. pbind parseName (\<lambda>name. pthen (expectWord ''of'') (pbind parseName (\<lambda>entity.
     pthen (expectWord ''is'')
     (pbind (while_token starts_architecture_declaration architecture_declaration (new_architecture name entity (t_span start))) (\<lambda>a.
     pthen (refuse_words ''architecture '' [''subtype'', ''variable'', ''shared'', ''file'', ''alias'', ''attribute'', ''procedure'',
       ''package'', ''use'', ''group'', ''disconnect'', ''configuration''])
     (pthen (expectWord ''begin'')
     (pbind (while_token (\<lambda>t. \<not> is_eof t \<and> \<not> is_word ''end'' t) architecture_statement a) (\<lambda>a.
     pthen (expectWord ''end'') (pthen (acceptWord ''architecture'')
     (pthen (closing_name False ''architecture end name does not match its declaration'' name)
     (pthen (expectSymbol '';'') (pbind (span_from (t_span start)) (\<lambda>sp. preturn (a\<lparr>ab_span := sp\<rparr>)))))))))))))))"

section \<open>Packages\<close>

fun add_package_type :: "PackageDeclaration \<Rightarrow> TypeDeclaration \<Rightarrow> PackageDeclaration" where
  "add_package_type p (EnumerationType d) = p\<lparr>pk_enumerationTypes := pk_enumerationTypes p @ [d]\<rparr>"
| "add_package_type p (RecordType d) = p\<lparr>pk_recordTypes := pk_recordTypes p @ [d]\<rparr>"
| "add_package_type p (ArrayType d) = p\<lparr>pk_arrayTypes := pk_arrayTypes p @ [d]\<rparr>"

definition package_function :: "PackageDeclaration \<Rightarrow> PackageDeclaration parser" where
  "package_function p = pbind parseFunction (\<lambda>f.
     if pk_body p \<and> \<not> fn_body f then fail_at ''package body requires a function body'' (fn_span f)
     else preturn (p\<lparr>pk_functions := pk_functions p @ [f]\<rparr>))"

definition package_declaration :: "PackageDeclaration \<Rightarrow> PackageDeclaration parser" where
  "package_declaration p = pbind current (\<lambda>t.
     if is_word ''subtype'' t then pbind parseSubtypeDeclaration (\<lambda>d. preturn (p\<lparr>pk_subtypes := pk_subtypes p @ [d]\<rparr>))
     else if \<not> pk_body p \<and> is_word ''type'' t then pthen advance_token (pbind type_declaration (\<lambda>d. preturn (add_package_type p d)))
     else if \<not> pk_body p \<and> is_word ''constant'' t then
       pthen advance_token (pbind parseConstantDeclaration (\<lambda>d. preturn (p\<lparr>pk_constants := pk_constants p @ [d]\<rparr>)))
     else if \<not> pk_body p \<and> is_word ''component'' t then pbind (parseEntity True) (\<lambda>d. preturn (p\<lparr>pk_components := pk_components p @ [d]\<rparr>))
     else if starts_function t then package_function p
     else fail_at ''unsupported package declaration'' (t_span t))"

definition new_package :: "Name \<Rightarrow> bool \<Rightarrow> PackageDeclaration" where
  "new_package name body = \<lparr>pk_name = name, pk_context = no_context, pk_arrayTypes = [], pk_constants = [], pk_components = [],
     pk_body = body, pk_recordTypes = [], pk_enumerationTypes = [], pk_functions = [], pk_subtypes = []\<rparr>"

definition parsePackage :: "PackageDeclaration parser" where
  "parsePackage = pthen advance_token (pbind (acceptWord ''body'') (\<lambda>body. pbind parseName (\<lambda>name. pthen (expectWord ''is'')
     (pbind (while_token (\<lambda>t. \<not> is_eof t \<and> \<not> is_word ''end'' t) package_declaration (new_package name body)) (\<lambda>p.
     pthen (expectWord ''end'')
     (pthen (pbind (acceptWord ''package'') (\<lambda>b. if b \<and> body then pthen (optional (expectWord ''body'')) (preturn ()) else preturn ()))
     (pthen (closing_name False ''package end name mismatch'' name) (pthen (expectSymbol '';'') (preturn p)))))))))"

section \<open>Design files\<close>

definition context_item :: "ContextClause \<Rightarrow> ContextClause parser" where
  "context_item c = pbind (word ''library'') (\<lambda>b.
     if b then pbind (optional parseLibraryClause) (\<lambda>r. preturn (case r of Some l \<Rightarrow> c\<lparr>cc_libraries := cc_libraries c @ [l]\<rparr> | None \<Rightarrow> c))
     else pbind parseUseClause (\<lambda>us. preturn (c\<lparr>cc_uses := cc_uses c @ us\<rparr>)))"

definition context_clause :: "ContextClause parser" where
  "context_clause = while_token (\<lambda>t. is_word ''library'' t \<or> is_word ''use'' t) context_item no_context"

definition design_unit :: "ContextClause \<Rightarrow> DesignFile \<Rightarrow> DesignFile parser" where
  "design_unit c d = pbind current (\<lambda>t.
     if is_word ''entity'' t then pbind (optional (parseEntity False)) (\<lambda>r. preturn (case r of
       Some e \<Rightarrow> d\<lparr>df_entities := df_entities d @ [e\<lparr>ed_context := c\<rparr>]\<rparr> | None \<Rightarrow> d))
     else if is_word ''architecture'' t then pbind (optional parseArchitecture) (\<lambda>r. preturn (case r of
       Some a \<Rightarrow> d\<lparr>df_architectures := df_architectures d @ [a\<lparr>ab_context := c\<rparr>]\<rparr> | None \<Rightarrow> d))
     else if is_word ''package'' t then pbind (optional parsePackage) (\<lambda>r. preturn (case r of
       Some p \<Rightarrow> d\<lparr>df_packages := df_packages d @ [p\<lparr>pk_context := c\<rparr>]\<rparr> | None \<Rightarrow> d))
     else pthen (error ''expected an entity or architecture design unit'' (t_span t)) (pthen advance_token (preturn d)))"

definition run_turn :: "DesignFile \<Rightarrow> DesignFile parser" where
  "run_turn d = pbind current (\<lambda>first. pbind context_clause (\<lambda>c. pbind (design_unit c d) (\<lambda>d.
     pthen (step_over first (\<lambda>_. False)) (preturn d))))"

definition run_file :: "DesignFile parser" where
  "run_file = while_token (\<lambda>t. \<not> is_eof t) run_turn \<lparr>df_packages = [], df_entities = [], df_architectures = []\<rparr>"

record ParseResult =
  pr_syntax :: DesignFile
  pr_diagnostics :: "ParseDiagnostic list"
  pr_warnings :: "ParseWarning list"

definition hasErrors :: "ParseResult \<Rightarrow> bool" where
  "hasErrors r \<longleftrightarrow> pr_diagnostics r \<noteq> []"

text \<open>\<open>Parser::parse\<close>; \<open>None\<close> where a read would be outside the text or the tokens, or where a loop would not end.\<close>

definition Parser_parse :: "string \<Rightarrow> bool \<Rightarrow> ParseResult option" where
  "Parser_parse src synthesis = (case scan src synthesis of Inl _ \<Rightarrow> None | Inr (ts, ds) \<Rightarrow>
     (case run_file (new_parser ts ds synthesis) of
        Value d s \<Rightarrow> Some \<lparr>pr_syntax = d, pr_diagnostics = ps_diagnostics s, pr_warnings = ps_warnings s\<rparr>
      | _ \<Rightarrow> None))"

end
