(* ===== verification/VHDLUnitSafe.thy ===== *)
theory VHDLUnitSafe
  imports VHDLProcSafe VHDLUnit
begin

text \<open>The design units stay in the tokens, end, and report what they give up on; the main loop goes on to the end of the file.\<close>

section \<open>Instantiations\<close>

lemma works_named [works_intros]: "ahead b s \<Longrightarrow> (\<And>v. Q v s) \<Longrightarrow> works b startsNamedPortAssociation s Q"
  by (auto simp: startsNamedPortAssociation_def works_def pbind_def isNameToken_def preturn_def current_def token_at_def ahead_def)

lemma selection_safe: "safe 0 0 parsePortSelection"
  unfolding parsePortSelection_def by (rule target_suffixes_safe)

lemmas selection_call [works_intros] = works_call [OF selection_safe]

lemma association_safe: "safe 0 1 generic_association" "safe 0 0 port_formal"
  by (rule safeI, auto simp: generic_association_def port_formal_def after_def intro!: works_intros)+

lemma association_list_safe: "safe 0 1 item \<Longrightarrow> safe 0 1 (association_list item)"
  by (rule safeI) (auto simp: association_list_def after_def intro!: works_intros works_call [OF separated_list_safe])

lemma generic_map_safe: "safe 0 0 generic_map"
  by (rule safeI) (auto simp: generic_map_def after_def intro!: works_intros works_call [OF association_list_safe [OF association_safe(1)]])

lemma port_prefix_defined: "expr_ok e \<Longrightarrow> port_prefix e \<noteq> None"
proof (induction e)
  case (Expression k t c sp l r cn es)
  then show ?case by (cases l) auto
qed

lemma works_return_to:
  assumes "ahead b s" "ahead s s'" "\<And>t. ahead b t \<Longrightarrow> after 0 s t \<Longrightarrow> ps_index t = ps_index s \<Longrightarrow> Q () t"
  shows "works b (return_to (ps_index s)) s' Q"
proof -
  have "ahead b (s'\<lparr>ps_index := ps_index s\<rparr>)" "after 0 s (s'\<lparr>ps_index := ps_index s\<rparr>)"
    using assms(1,2) by (auto simp: ahead_def after_def dg_def)
  then show ?thesis using assms(3) by (simp add: works_def return_to_def)
qed

lemma port_actual_safe: "safe 0 1 (port_actual a)"
proof (rule safeI)
  fix s assume s: "ahead s s"
  show "works s (port_actual a) s (\<lambda>_ s'. after 1 s s')"
    unfolding port_actual_def using s
    by (auto simp: after_def port_prefix_defined intro!: works_intros works_mark works_return_to [OF s])
qed

lemma port_association_safe: "safe 0 1 port_association"
  by (rule safeI) (auto simp: port_association_def Let_def after_def intro!: works_intros works_call [OF association_safe(2)]
      works_call [OF port_actual_safe])

lemma instantiated_safe: "safe 0 0 (instantiated_library start)" "safe 0 0 instantiated_architecture"
  by (rule safeI, auto simp: instantiated_library_def instantiated_architecture_def after_def intro!: works_intros)+

lemma parseEntityInstantiation_safe: "safe 0 1 parseEntityInstantiation"
  by (rule safeI) (auto simp: parseEntityInstantiation_def Let_def after_def intro!: works_intros instantiated_safe [THEN works_call]
      works_call [OF generic_map_safe] works_call [OF association_list_safe [OF port_association_safe]])

lemmas instantiation_call [works_intros] = works_call [OF parseEntityInstantiation_safe]

section \<open>Generate statements\<close>

lemma works_startsGenerate [works_intros]: "ahead b s \<Longrightarrow> (\<And>v. Q v s) \<Longrightarrow> works b startsGenerate s Q"
  by (auto simp: startsGenerate_def intro!: works_intros)

lemma generate_declaration_works:
  assumes "ahead s s" "starts_generate_declaration (cur s)"
  shows "works s (generate_declaration g) s (\<lambda>_ s'. after 1 s s')"
  using assms unfolding generate_declaration_def starts_generate_declaration_def
  by (auto simp: after_def intro!: works_intros)

lemma refuse_words_safe: "safe 0 0 (refuse_words prefix ws)"
  by (rule safeI) (auto simp: refuse_words_def after_def intro!: works_intros)

lemma process_label_safe: "safe 0 0 process_label"
  by (rule safeI) (auto simp: process_label_def after_def intro!: works_intros)

lemmas generate_calls [works_intros] = works_call [OF refuse_words_safe] works_call [OF process_label_safe]

lemma generate_item_works:
  assumes "safe_in ts p 1 child" "ahead s s" "ps_tokens s = ts" "p \<le> ps_index s"
  shows "works s (generate_item child x) s (\<lambda>_ s'. after 1 s s')"
  using assms(2-4) unfolding generate_item_def
  by (cases x) (auto simp: after_def intro!: works_intros works_call_in [OF assms(1)])

lemma parseGenerateBody_safe:
  assumes "safe_in ts p 1 child"
  shows "safe_in ts p 0 (parseGenerateBody child g)"
proof -
  have ds: "safe 0 0 (while_token starts_generate_declaration generate_declaration g)" for g
    by (rule while_token_safe) (rule generate_declaration_works)
  have items: "safe_in ts p 0 (while_token (\<lambda>t. \<not> is_eof t \<and> \<not> is_word ''end'' t \<and> \<not> is_word ''elsif'' t \<and> \<not> is_word ''else'' t)
      (generate_item child) x)" for x
    by (rule while_token_safe_in) (rule generate_item_works [OF assms])
  show ?thesis
    by (rule safe_inI) (auto simp: parseGenerateBody_def Let_def after_def intro!: works_intros works_call [OF ds] works_call_in [OF items])
qed

lemma generate_alternatives_works:
  assumes child: "safe_in ts p 1 child"
  shows "ahead s s \<Longrightarrow> ps_tokens s = ts \<Longrightarrow> p \<le> ps_index s \<Longrightarrow> tokens_left s < n \<Longrightarrow>
    works s (generate_alternatives n child) s (\<lambda>y s'. after 0 s s')"
proof (induction n arbitrary: s)
  case (Suc n)
  have rest: "works s (generate_alternatives n child) s' Q"
    if s': "after 1 s s'" "ahead s s'" "\<And>x t. ahead s t \<Longrightarrow> after 0 s t \<Longrightarrow> Q x t" for s' Q
    using left_decreases [OF s'(1) Suc.prems(4)] Suc.prems(2,3)
    by (intro works_rebase [OF Suc.IH s'(2)]) (use s' in \<open>auto simp: after_def ahead_def\<close>)
  show ?case
    using Suc.prems by (auto intro!: works_intros works_call_in [OF parseGenerateBody_safe [OF child]] rest simp: after_def)
qed simp

lemma generate_branches_safe: "safe_in ts p 1 child \<Longrightarrow> safe_in ts p 0 (generate_branches child)"
  by (rule safe_inI)
    (use generate_alternatives_works [of ts p child _ "tokens_left _ + 1"] in \<open>simp add: works_def generate_branches_def\<close>)

lemma generate_scheme_safe: "safe 0 1 (generate_scheme label)" "safe 0 0 generate_label"
  by (rule safeI, auto simp: generate_scheme_def generate_label_def after_def intro!: works_intros)+

lemmas scheme_calls [works_intros] = generate_scheme_safe [THEN works_call]

lemma generate_statement_safe:
  assumes "safe_in ts (Suc p) 1 child"
  shows "safe_in ts p 1 (generate_statement child)"
  by (rule safe_inI) (auto simp: generate_statement_def after_def intro!: works_intros
      works_call_in [OF parseGenerateBody_safe [OF assms]] works_call_in [OF generate_branches_safe [OF assms]])

lemma generate_at_safe: "length ts \<le> p + n \<Longrightarrow> safe_in ts p 1 (generate_at n)"
proof (induction n arbitrary: p)
  case 0 then show ?case by (auto simp: safe_in_def ahead_def)
next
  case (Suc n) then show ?case by (auto intro!: generate_statement_safe [simplified])
qed

lemma parseGenerate_safe: "safe 0 1 parseGenerate"
proof (rule safeI)
  fix s assume s: "ahead s s"
  then have "length (ps_tokens s) \<le> ps_index s + (tokens_left s + 1)" by (simp add: tokens_left_def)
  from generate_at_safe [OF this] s show "works s parseGenerate s (\<lambda>x s'. after 1 s s')"
    by (simp add: safe_in_def parseGenerate_def works_def)
qed

lemmas generate_call [works_intros] = works_call [OF parseGenerate_safe]

section \<open>Architectures and packages\<close>

lemma architecture_declaration_works:
  assumes "ahead s s" "starts_architecture_declaration (cur s)"
  shows "works s (architecture_declaration a) s (\<lambda>_ s'. after 1 s s')"
  using assms unfolding architecture_declaration_def starts_architecture_declaration_def
  by (auto simp: after_def intro!: works_intros)

lemma or_synchronize_works:
  assumes "safe p k m" "ahead b s" "p \<le> ps_index s" "\<And>x s'. ahead b s' \<Longrightarrow> after 0 s s' \<Longrightarrow> Q x s'"
  shows "works b (or_synchronize m f y) s Q"
  unfolding or_synchronize_def using assms(2,3)
  by (auto simp: after_def intro!: works_intros works_optional_call [OF assms(1)] assms(4) intro: ahead_trans)

lemma architecture_item_safe: "safe 0 0 (architecture_item label a)"
  by (rule safeI) (auto simp: architecture_item_def after_def intro!: works_intros or_synchronize_works [OF parseEntityInstantiation_safe]
      or_synchronize_works [OF parseClockedProcess_safe] or_synchronize_works [OF parseAssignment_safe])

text \<open>A turn that read nothing is made to read a token.\<close>

lemma works_step_over:
  assumes "ahead s s'" "\<not> is_eof (cur s)" "\<not> stay (cur s)" "\<And>t. ahead s t \<Longrightarrow> after 1 s t \<Longrightarrow> Q () t"
  shows "works s (step_over (cur s) stay) s' Q"
proof (cases "ps_index s' = ps_index s")
  case True
  then have "cur s' = cur s" using assms(1) by (simp add: ahead_def)
  then show ?thesis
    unfolding step_over_def using assms True by (auto simp: after_def dest: ahead_le intro!: works_intros)
next
  case False
  then have "after 1 s s'" using assms(1) ahead_le [OF assms(1)] by (auto simp: after_def)
  then show ?thesis
    unfolding step_over_def using assms by (auto simp: after_def intro!: works_intros)
qed

lemma architecture_statement_works:
  assumes "ahead s s" "\<not> is_eof (cur s)" "\<not> is_word ''end'' (cur s)"
  shows "works s (architecture_statement a) s (\<lambda>_ s'. after 1 s s')"
  using assms unfolding architecture_statement_def
  by (auto simp: after_def intro!: works_intros works_step_over works_call [OF architecture_item_safe])

lemma parseArchitecture_safe: "safe 0 1 parseArchitecture"
proof -
  have ds: "safe 0 0 (while_token starts_architecture_declaration architecture_declaration a)" for a
    by (rule while_token_safe) (rule architecture_declaration_works)
  have items: "safe 0 0 (while_token (\<lambda>t. \<not> is_eof t \<and> \<not> is_word ''end'' t) architecture_statement a)" for a
    by (rule while_token_safe) (rule architecture_statement_works, auto)
  show ?thesis
    by (rule safeI) (auto simp: parseArchitecture_def after_def intro!: works_intros works_call [OF ds] works_call [OF items])
qed

lemma package_function_safe: "safe 0 1 (package_function p)"
  by (rule safeI) (auto simp: package_function_def after_def intro!: works_intros)

lemma package_declaration_safe: "safe 0 1 (package_declaration p)"
  by (rule safeI) (auto simp: package_declaration_def after_def intro!: works_intros works_call [OF package_function_safe])

lemma parsePackage_safe: "safe 0 1 parsePackage"
proof -
  have ds: "safe 0 0 (while_token (\<lambda>t. \<not> is_eof t \<and> \<not> is_word ''end'' t) package_declaration p)" for p
    by (rule while_token_safe) (use package_declaration_safe in \<open>auto simp: safe_def\<close>)
  show ?thesis
    by (rule safeI) (auto simp: parsePackage_def after_def intro!: works_intros works_call [OF ds] works_optional_call [OF expectWord_safe])
qed

section \<open>Design files\<close>

text \<open>A clause that is given up has read its keyword.\<close>

lemma works_optional_advance:
  assumes "ahead b s" "\<not> is_eof (cur s)" "\<And>t. safe 1 0 (k t)" "\<And>x s'. ahead b s' \<Longrightarrow> after 1 s s' \<Longrightarrow> Q x s'"
  shows "works b (optional (pbind advance_token k)) s Q"
proof -
  let ?s = "s\<lparr>ps_index := Suc (ps_index s)\<rparr>"
  have s: "ahead b ?s" "ahead s ?s" using ahead_step [OF assms(1,2)] by auto
  have "optional (pbind advance_token k) s = optional (k (cur s)) ?s"
    using assms(1,2) by (simp add: optional_def advance_token_def pbind_def current_def token_at_def ahead_def)
  moreover have "works b (optional (k (cur s))) ?s Q"
    by (rule works_optional_call [OF assms(3) s(1)]) (use s in \<open>auto simp: after_def dg_def intro!: assms(4) intro: ahead_trans\<close>)
  ultimately show ?thesis by (simp add: works_def)
qed

lemma context_item_works:
  assumes "ahead s s" "is_word ''library'' (cur s) \<or> is_word ''use'' (cur s)"
  shows "works s (context_item c) s (\<lambda>_ s'. after 1 s s')"
proof -
  have clause: "safe 1 0 (pbind name_list (\<lambda>names. pthen (expectSymbol '';'')
      (pbind (span_from (t_span t)) (\<lambda>sp. preturn \<lparr>lc_names = names, lc_span = sp\<rparr>))))" for t
    by (rule safeI) (auto simp: after_def intro!: works_intros)
  have library: "works s (optional parseLibraryClause) s Q" if "\<And>x s'. ahead s s' \<Longrightarrow> after 1 s s' \<Longrightarrow> Q x s'" for Q
    unfolding parseLibraryClause_def by (rule works_optional_advance [OF assms(1) _ clause]) (use assms(2) that in auto)
  have "works s parseUseClause s (\<lambda>_ s'. after 1 s s')" using assms by (intro parseUseClause_safe) auto
  note use = works_rebase [OF this]
  show ?thesis
    using assms unfolding context_item_def by (auto intro!: works_intros library use)
qed

lemma context_clause_safe: "safe 0 0 context_clause"
  unfolding context_clause_def by (rule while_token_safe) (rule context_item_works)

lemma design_unit_safe: "safe 0 0 (design_unit c d)"
  by (rule safeI) (auto simp: design_unit_def after_def intro!: works_intros works_optional_call [OF parseEntity_safe]
      works_optional_call [OF parseArchitecture_safe] works_optional_call [OF parsePackage_safe])

lemma run_turn_works:
  assumes "ahead s s" "\<not> is_eof (cur s)"
  shows "works s (run_turn d) s (\<lambda>_ s'. after 1 s s')"
  using assms unfolding run_turn_def
  by (auto simp: after_def intro!: works_intros works_step_over works_call [OF context_clause_safe] works_call [OF design_unit_safe])

end
