(* ===== verification/VHDLFile.thy ===== *)
theory VHDLFile
  imports VHDLUnitSafe
begin

text \<open>
  The main loop of the VHDL parser: it returns on every list of tokens, and where it reports nothing it has split
  the tokens into design units.
\<close>

section \<open>Functions that never give up\<close>

definition never_null :: "'a parser \<Rightarrow> bool" where
  "never_null m \<longleftrightarrow> (\<forall>s s'. m s \<noteq> Null s')"

named_theorems never_null_intros "parsing functions that never give up"

lemma never_null_seq [never_null_intros]:
  "never_null m \<Longrightarrow> (\<And>x. never_null (k x)) \<Longrightarrow> never_null (pbind m k)" "never_null m \<Longrightarrow> never_null r \<Longrightarrow> never_null (pthen m r)"
  "never_null (preturn x)" "never_null (optional n)" "(c \<Longrightarrow> never_null m) \<Longrightarrow> (\<not> c \<Longrightarrow> never_null m') \<Longrightarrow> never_null (if c then m else m')"
  by (auto simp: never_null_def pbind_def pthen_def preturn_def optional_def split: outcome.splits)

lemma never_null_tokens [never_null_intros]:
  "never_null current" "never_null advance_token" "never_null (word v)" "never_null (acceptSymbol v)" "never_null (error m sp)"
  "never_null (span_from sp)"
  by (auto simp: never_null_def current_def token_at_def advance_token_def word_def acceptSymbol_def symbol_def error_def span_from_def
      previous_token_def pbind_def pthen_def preturn_def split: outcome.splits if_splits)

lemma never_null_repeat: "(\<And>x. never_null (body x)) \<Longrightarrow> never_null (repeat_while n c body x)"
  by (induction n arbitrary: x) (auto intro!: never_null_intros simp: never_null_def [of "\<lambda>s. Undefined"])

lemma never_null_while [never_null_intros]: "(\<And>x. never_null (body x)) \<Longrightarrow> never_null (while_token c body x)"
proof -
  assume "\<And>x. never_null (body x)"
  then have "never_null (repeat_while n c body x)" for n by (rule never_null_repeat)
  then show ?thesis by (simp add: never_null_def while_token_def del: repeat_while.simps)
qed

lemma never_null_use_clauses: "never_null (use_clauses n start cs)"
  by (induction n arbitrary: cs) (auto intro!: never_null_intros simp: Let_def never_null_def [of "\<lambda>s. Undefined"] split: option.split)

lemma never_null_use_list [never_null_intros]: "never_null (use_clause_list start)"
  using never_null_use_clauses by (simp add: never_null_def use_clause_list_def del: use_clauses.simps)

lemma never_null_use [never_null_intros]: "never_null parseUseClause"
  unfolding parseUseClause_def
  by (auto intro!: never_null_intros split: prod.split)

lemma never_null_turn: "never_null (run_turn d)"
  unfolding run_turn_def context_clause_def context_item_def design_unit_def step_over_def
  by (auto intro!: never_null_intros)

lemma run_file_safe: "safe 0 0 run_file"
  unfolding run_file_def by (rule while_token_safe) (rule run_turn_works)

lemma run_file_value:
  assumes "ahead s s"
  shows "\<exists>d t. run_file s = Value d t \<and> ahead s t"
proof -
  have "works s run_file s (\<lambda>_ t. after 0 s t)" using run_file_safe assms by (simp add: safe_def)
  moreover have "never_null run_file" unfolding run_file_def by (rule never_null_while) (rule never_null_turn)
  ultimately show ?thesis by (cases "run_file s") (auto simp: works_def never_null_def)
qed

section \<open>Design units\<close>

text \<open>A design file as a sequence of design units, each after its context clause, with nothing between them.\<close>

definition empty_file :: DesignFile where
  "empty_file = \<lparr>df_packages = [], df_entities = [], df_architectures = []\<rparr>"

inductive design_units :: "RecursiveParser \<Rightarrow> DesignFile \<Rightarrow> RecursiveParser \<Rightarrow> DesignFile \<Rightarrow> bool" where
  no_unit: "design_units s d s d"
| entity_unit: "context_clause s = Value c u \<Longrightarrow> is_word ''entity'' (cur u) \<Longrightarrow> parseEntity False u = Value e v \<Longrightarrow>
    design_units v (d\<lparr>df_entities := df_entities d @ [e\<lparr>ed_context := c\<rparr>]\<rparr>) t d' \<Longrightarrow> design_units s d t d'"
| architecture_unit: "context_clause s = Value c u \<Longrightarrow> is_word ''architecture'' (cur u) \<Longrightarrow> parseArchitecture u = Value a v \<Longrightarrow>
    design_units v (d\<lparr>df_architectures := df_architectures d @ [a\<lparr>ab_context := c\<rparr>]\<rparr>) t d' \<Longrightarrow> design_units s d t d'"
| package_unit: "context_clause s = Value c u \<Longrightarrow> is_word ''package'' (cur u) \<Longrightarrow> parsePackage u = Value p v \<Longrightarrow>
    design_units v (d\<lparr>df_packages := df_packages d @ [p\<lparr>pk_context := c\<rparr>]\<rparr>) t d' \<Longrightarrow> design_units s d t d'"

lemma safe_cases:
  assumes "safe p k m" "ahead s s" "p \<le> ps_index s"
  shows "m s = Value x t \<Longrightarrow> after k s t" "m s = Null t \<Longrightarrow> dg s < dg t"
proof -
  have "works s m s (\<lambda>_ t. after k s t)" using assms by (simp add: safe_def)
  then show "m s = Value x t \<Longrightarrow> after k s t" "m s = Null t \<Longrightarrow> dg s < dg t" by (auto simp: works_def)
qed

lemma pbind_value: "pbind m k s = Value y t \<Longrightarrow> (\<And>x u. m s = Value x u \<Longrightarrow> k x u = Value y t \<Longrightarrow> P) \<Longrightarrow> P"
  by (auto simp: pbind_def split: outcome.splits)

lemma optional_value:
  assumes "pbind (optional m) (\<lambda>r. preturn (f r)) s = Value y t"
  obtains (Some) x where "m s = Value x t" "y = f (Some x)" | (None) "m s = Null t"
  using assms by (auto simp: pbind_def optional_def preturn_def split: outcome.splits)

text \<open>A unit that is read without a diagnostic is in the result.\<close>

lemma design_unit_silent:
  assumes "design_unit c d u = Value d1 v" "ahead u u" "dg v = 0"
  shows "after 1 u v \<and>
    (is_word ''entity'' (cur u) \<and> (\<exists>e. parseEntity False u = Value e v \<and> d1 = d\<lparr>df_entities := df_entities d @ [e\<lparr>ed_context := c\<rparr>]\<rparr>) \<or>
     is_word ''architecture'' (cur u) \<and> (\<exists>a. parseArchitecture u = Value a v \<and> d1 = d\<lparr>df_architectures := df_architectures d @ [a\<lparr>ab_context := c\<rparr>]\<rparr>) \<or>
     is_word ''package'' (cur u) \<and> (\<exists>p. parsePackage u = Value p v \<and> d1 = d\<lparr>df_packages := df_packages d @ [p\<lparr>pk_context := c\<rparr>]\<rparr>))"
proof -
  have cur: "current u = Value (cur u) u" using assms(2) by (simp add: current_def token_at_def ahead_def)
  have unit: "\<exists>x. m u = Value x v \<and> d1 = f (Some x) \<and> after 1 u v"
    if "safe 0 1 m" "pbind (optional m) (\<lambda>r. preturn (f r)) u = Value d1 v" for m :: "'b parser" and f
    using that(2) safe_cases [OF that(1) assms(2)] assms(3) by (auto elim!: optional_value)
  have rest: False if "pthen (error msg sp) (pthen advance_token (preturn d)) u = Value d1 v" for msg sp
    using that assms(2,3)
    by (auto simp: pthen_def pbind_def error_def advance_token_def current_def token_at_def preturn_def dg_def split: outcome.splits if_splits)
  note run = assms(1) [unfolded design_unit_def exec_seq(1) [of current, OF cur]]
  consider "is_word ''entity'' (cur u)" | "\<not> is_word ''entity'' (cur u)" "is_word ''architecture'' (cur u)"
    | "\<not> is_word ''entity'' (cur u)" "\<not> is_word ''architecture'' (cur u)" "is_word ''package'' (cur u)"
    | "\<not> is_word ''entity'' (cur u)" "\<not> is_word ''architecture'' (cur u)" "\<not> is_word ''package'' (cur u)" by blast
  then show ?thesis
  proof cases
    case 1
    show ?thesis using unit [OF parseEntity_safe run [unfolded if_P [OF 1]]] 1 by auto
  next
    case 2
    show ?thesis using unit [OF parseArchitecture_safe run [unfolded if_not_P [OF 2(1)] if_P [OF 2(2)]]] 2 by auto
  next
    case 3
    show ?thesis using unit [OF parsePackage_safe run [unfolded if_not_P [OF 3(1)] if_not_P [OF 3(2)] if_P [OF 3(3)]]] 3 by auto
  next
    case 4 then show ?thesis using rest run by auto
  qed
qed

text \<open>The tokens start at different offsets, so a turn that read a token is not made to read another.\<close>

definition starts_apart :: "Token list \<Rightarrow> bool" where
  "starts_apart ts \<longleftrightarrow> (\<forall>j < length ts. \<forall>i < j. offset (sp_start (t_span (ts ! i))) < offset (sp_start (t_span (ts ! j))))"

lemma step_over_stays:
  assumes "ahead s v" "after 1 s v" "starts_apart (ps_tokens s)"
  shows "step_over (cur s) stay v = Value () v"
proof -
  have "offset (sp_start (t_span (cur s))) < offset (sp_start (t_span (cur v)))"
    using assms by (simp add: starts_apart_def ahead_def after_def)
  moreover have "current v = Value (cur v) v" using assms(1) by (simp add: current_def token_at_def ahead_def)
  ultimately show ?thesis by (simp add: step_over_def exec_seq)
qed

lemma run_turn_silent:
  assumes "run_turn d s = Value d1 t" "ahead s s" "dg t = 0" "starts_apart (ps_tokens s)"
  shows "after 1 s t \<and> (\<forall>t' d'. design_units t d1 t' d' \<longrightarrow> design_units s d t' d')"
proof -
  have cur: "current s = Value (cur s) s" using assms(2) by (simp add: current_def token_at_def ahead_def)
  obtain c u v where c: "context_clause s = Value c u" and v: "design_unit c d u = Value d1 v"
    and o: "step_over (cur s) (\<lambda>_. False) v = Value () t"
    using assms(1) unfolding run_turn_def exec_seq(1) [of current, OF cur]
    by (auto simp: pthen_def preturn_def elim!: pbind_value)
  have u: "after 0 s u" using safe_cases(1) [OF context_clause_safe assms(2)] c by simp
  then have uu: "ahead u u" by (auto simp: after_def dest: ahead_refl)
  have "after 0 u v" using safe_cases(1) [OF design_unit_safe uu] v by simp
  then have vv: "ahead v v" by (auto simp: after_def dest: ahead_refl)
  have "dg v \<le> dg t"
    using o vv by (auto simp: step_over_def pbind_def current_def token_at_def advance_token_def pthen_def preturn_def dg_def ahead_def split: if_splits)
  then have v0: "dg v = 0" using assms(3) by simp
  note unit = design_unit_silent [OF v uu v0]
  have sv: "after 1 s v" using after_trans [OF u] unit by fastforce
  then have "t = v" using step_over_stays [OF _ sv assms(4)] o by (auto simp: after_def)
  moreover have "design_units s d t' d'" if "design_units v d1 t' d'" for t' d'
    using unit that entity_unit [OF c] architecture_unit [OF c] package_unit [OF c] by auto
  ultimately show ?thesis using sv by simp
qed

lemma run_loop_silent:
  assumes "repeat_while n (\<lambda>t. \<not> is_eof t) run_turn d s = Value d' t" "ahead s s" "dg t = 0" "starts_apart (ps_tokens s)"
  shows "design_units s d t d' \<and> ahead s t \<and> is_eof (cur t)"
  using assms
proof (induction n arbitrary: d s)
  case (Suc n)
  have cur: "current s = Value (cur s) s" using Suc.prems(2) by (simp add: current_def token_at_def ahead_def)
  show ?case
  proof (cases "is_eof (cur s)")
    case True
    then show ?thesis using Suc.prems(1,2) no_unit by (simp add: exec_seq(1) [of current, OF cur] preturn_def)
  next
    case False
    obtain d1 s1 where s1: "run_turn d s = Value d1 s1" "repeat_while n (\<lambda>t. \<not> is_eof t) run_turn d1 s1 = Value d' t"
      using Suc.prems(1) False by (auto simp: exec_seq(1) [of current, OF cur] elim!: pbind_value)
    have "works s (run_turn d) s (\<lambda>_ s'. after 1 s s')" by (rule run_turn_works [OF Suc.prems(2) False])
    then have a: "ahead s s1" using s1(1) by (simp add: works_def)
    note ss = ahead_refl(1) [OF a]
    have apart: "starts_apart (ps_tokens s1)" using a Suc.prems(4) by (simp add: ahead_def)
    note rest = Suc.IH [OF s1(2) ss Suc.prems(3) apart]
    then have "dg s1 = 0" using ahead_le [of s1 t] Suc.prems(3) by simp
    then show ?thesis using run_turn_silent [OF s1(1) Suc.prems(2) _ Suc.prems(4)] rest ahead_trans [OF a] by auto
  qed
qed simp

lemma run_file_silent:
  assumes "run_file s = Value d t" "ahead s s" "dg t = 0" "starts_apart (ps_tokens s)"
  shows "design_units s empty_file t d \<and> ahead s t \<and> is_eof (cur t)"
  using assms(1) unfolding run_file_def while_token_def empty_file_def [symmetric]
  by (rule run_loop_silent) (use assms in auto)

end
