(* ===== verification/VHDLBits.thy ===== *)
theory VHDLBits
  imports VHDLExprSafe
begin

text \<open>
  The decimal bit strings of \<open>parseExtendedBitString\<close>: the loop that multiplies a little-endian text of bits by ten computes the
  binary representation without leading zeros, so the length test is a test of the value.
\<close>

section \<open>Values of texts of bits\<close>

definition is_bit :: "char \<Rightarrow> bool" where
  "is_bit c \<longleftrightarrow> c = CHR ''0'' \<or> c = CHR ''1''"

text \<open>Little-endian; a bit string is read from its left end.\<close>

fun le_value :: "string \<Rightarrow> nat" where
  "le_value [] = 0"
| "le_value (b # bs) = digit_value b + 2 * le_value bs"

definition bits_value :: "string \<Rightarrow> nat" where
  "bits_value bs = le_value (rev bs)"

lemma bit_char_bit [simp]: "is_bit (bit_char n)" "of_char (bit_char n) - 48 = n mod 2"
  by (auto simp: bit_char_def is_bit_def)

lemma digit_value_bit: "is_bit c \<Longrightarrow> digit_value c \<le> 1"
  by (auto simp: is_bit_def)

lemma le_value_append: "le_value (xs @ ys) = le_value xs + 2 ^ length xs * le_value ys"
  by (induction xs) (auto simp: algebra_simps)

lemma le_value_less: "list_all is_bit bs \<Longrightarrow> le_value bs < 2 ^ length bs"
  by (induction bs) (auto dest: digit_value_bit)

lemma le_value_zeros [simp]: "le_value (replicate n CHR ''0'') = 0"
  by (induction n) auto

lemma zeros_are_bits [simp]: "list_all is_bit (replicate n CHR ''0'')"
  by (induction n) (auto simp: is_bit_def)

lemma le_value_all_zero: "list_all (\<lambda>c. c = CHR ''0'') bs \<Longrightarrow> le_value bs = 0"
  by (induction bs) auto

lemma le_value_pos: "CHR ''1'' \<in> set bs \<Longrightarrow> 0 < le_value bs"
  by (induction bs) auto

lemma times_ten_value:
  "times_ten carry bs = (bs', out) \<Longrightarrow> list_all is_bit bs \<Longrightarrow>
     length bs' = length bs \<and> list_all is_bit bs' \<and> le_value bs' + 2 ^ length bs * out = carry + 10 * le_value bs"
proof (induction bs arbitrary: carry bs' out)
  case (Cons b bs)
  let ?c = "carry + digit_value b * 10"
  obtain r o' where r: "times_ten (?c div 2) bs = (r, o')" by fastforce
  then have eq: "bs' = bit_char ?c # r" "out = o'" using Cons.prems(1) by (auto simp: Let_def)
  have IH: "length r = length bs \<and> list_all is_bit r \<and> le_value r + 2 ^ length bs * o' = ?c div 2 + 10 * le_value bs"
    using Cons.IH [OF r] Cons.prems(2) by simp
  have "2 * (le_value r + 2 ^ length bs * o') + ?c mod 2 = ?c + 20 * le_value bs" using IH by simp
  then show ?case using IH eq by (simp add: algebra_simps)
qed simp

lemma carry_bits_value: "list_all is_bit (carry_bits c) \<and> le_value (carry_bits c) = c \<and> (c \<noteq> 0 \<longrightarrow> carry_bits c \<noteq> [] \<and> last (carry_bits c) = CHR ''1'')"
proof (induction c rule: carry_bits.induct)
  case (1 c)
  show ?case
  proof (cases "c = 0")
    case False
    then have eq: "carry_bits c = bit_char c # carry_bits (c div 2)" by (simp add: carry_bits.simps)
    show ?thesis
    proof (cases "c div 2 = 0")
      case True
      then have "c = 1" using False by simp
      then show ?thesis by (simp add: eq carry_bits.simps bit_char_def is_bit_def)
    qed (use 1 [OF False] in \<open>simp add: eq\<close>)
  qed (simp add: carry_bits.simps)
qed

lemma le_value_last:
  assumes "bs \<noteq> []"
  shows "le_value bs = le_value (butlast bs) + 2 ^ (length bs - 1) * digit_value (last bs)"
  using le_value_append [of "butlast bs" "[last bs]"] assms by simp

text \<open>Without leading zeros, at the right end.\<close>

definition minimal_bits :: "string \<Rightarrow> bool" where
  "minimal_bits bs \<longleftrightarrow> list_all is_bit bs \<and> bs \<noteq> [] \<and> (length bs = 1 \<or> last bs = CHR ''1'')"

lemma minimal_bits_bound:
  assumes "minimal_bits bs"
  shows "length bs \<le> 1 \<or> 2 ^ (length bs - 1) \<le> le_value bs"
  using assms le_value_last [of bs] by (auto simp: minimal_bits_def)

lemma minimal_bits_length:
  assumes "minimal_bits bs" "0 < n"
  shows "length bs \<le> n \<longleftrightarrow> le_value bs < 2 ^ n"
proof
  assume "length bs \<le> n"
  then show "le_value bs < 2 ^ n"
    using le_value_less [of bs] assms(1) by (auto simp: minimal_bits_def intro: less_le_trans [OF _ power_increasing])
next
  assume v: "le_value bs < 2 ^ n"
  show "length bs \<le> n"
  proof (rule ccontr)
    assume "\<not> length bs \<le> n"
    then have "(2 :: nat) ^ n \<le> 2 ^ (length bs - 1)" by (intro power_increasing) auto
    moreover have "2 ^ (length bs - 1) \<le> le_value bs" using minimal_bits_bound [OF assms(1)] assms(2) \<open>\<not> length bs \<le> n\<close> by auto
    ultimately show False using v by linarith
  qed
qed

text \<open>A step of the loop: ten times the value, plus the digit.\<close>

lemma decimal_step:
  assumes "minimal_bits bits" "times_ten d bits = (bits', carry)"
  shows "minimal_bits (bits' @ carry_bits carry)" "le_value (bits' @ carry_bits carry) = 10 * le_value bits + d"
proof -
  have b: "list_all is_bit bits" using assms(1) by (simp add: minimal_bits_def)
  note t = times_ten_value [OF assms(2) b]
  note c = carry_bits_value [of carry]
  show v: "le_value (bits' @ carry_bits carry) = 10 * le_value bits + d" using t c by (simp add: le_value_append)
  have ne: "bits' \<noteq> []" using t assms(1) by (auto simp: minimal_bits_def)
  show "minimal_bits (bits' @ carry_bits carry)"
  proof (cases "carry = 0")
    case False then show ?thesis using t c ne by (auto simp: minimal_bits_def)
  next
    case True
    then have e: "bits' @ carry_bits carry = bits'" by (simp add: carry_bits.simps)
    have "last bits' = CHR ''1''" if "length bits \<noteq> 1"
    proof (rule ccontr)
      assume "last bits' \<noteq> CHR ''1''"
      moreover have "is_bit (last bits')" using t ne by (simp add: list_all_iff)
      ultimately have "le_value bits' = le_value (butlast bits')" using le_value_last [OF ne] by (simp add: is_bit_def)
      moreover have "list_all is_bit (butlast bits')" using t by (auto simp: list_all_iff dest: in_set_butlastD)
      moreover have "2 ^ (length bits - 1) \<le> le_value bits" using minimal_bits_bound [OF assms(1)] that assms(1) by (cases bits) (auto simp: minimal_bits_def)
      ultimately show False using le_value_less [of "butlast bits'"] v e t by simp
    qed
    then show ?thesis using t ne e by (auto simp: minimal_bits_def)
  qed
qed

section \<open>The loop over the digits\<close>

abbreviation decimal_digits :: "string \<Rightarrow> string" where
  "decimal_digits cs \<equiv> filter (\<lambda>c. c \<noteq> CHR ''_'') cs"

lemma max_bits_pos: "0 < max_bits"
  by (simp add: max_bits_def)

lemma decimal_value_mono: "v \<le> decimal_value v cs"
proof (induction cs arbitrary: v)
  case (Cons c cs)
  have "v \<le> 10 * v + digit_value c" by simp
  also have "\<dots> \<le> decimal_value (10 * v + digit_value c) cs" by (rule Cons.IH)
  finally show ?case by simp
qed simp

lemma decimal_bits_value:
  assumes "minimal_bits bits" "length bits \<le> max_bits" "list_all isDigit (decimal_digits cs)"
  shows "if decimal_value (le_value bits) (decimal_digits cs) < 2 ^ max_bits
    then \<exists>r. decimal_bits bits cs = Inr r \<and> minimal_bits r \<and> le_value r = decimal_value (le_value bits) (decimal_digits cs)
    else \<exists>e. decimal_bits bits cs = Inl e"
  using assms
proof (induction cs arbitrary: bits)
  case Nil
  then show ?case using minimal_bits_length [OF _ max_bits_pos] by auto
next
  case (Cons c cs)
  show ?case
  proof (cases "c = CHR ''_''")
    case True
    then have "decimal_bits bits (c # cs) = decimal_bits bits cs" "decimal_digits (c # cs) = decimal_digits cs" by simp_all
    note eqs = this
    have "list_all isDigit (decimal_digits cs)" using Cons.prems(3) unfolding eqs .
    then show ?thesis unfolding eqs by (rule Cons.IH [OF Cons.prems(1,2)])
  next
    case False
    obtain bits' carry where t: "times_ten (digit_value c) bits = (bits', carry)" by fastforce
    let ?b = "bits' @ carry_bits carry"
    note step = decimal_step [OF Cons.prems(1) t]
    have d: "isDigit c" "list_all isDigit (decimal_digits cs)" using Cons.prems(3) False by auto
    have v: "decimal_value (le_value bits) (decimal_digits (c # cs)) = decimal_value (le_value ?b) (decimal_digits cs)"
      using False step(2) by simp
    show ?thesis
    proof (cases "length ?b \<le> max_bits")
      case True
      then have "decimal_bits bits (c # cs) = decimal_bits ?b cs" using False d(1) t by (simp add: Let_def)
      then show ?thesis using Cons.IH [OF step(1) True d(2)] v by presburger
    next
      case over: False
      then have "2 ^ max_bits \<le> le_value ?b" using minimal_bits_length [OF step(1) max_bits_pos] by simp
      then have "2 ^ max_bits \<le> decimal_value (le_value bits) (decimal_digits (c # cs))"
        unfolding v using decimal_value_mono order.trans by blast
      moreover have "\<exists>e. decimal_bits bits (c # cs) = Inl e" using False d(1) t over by (auto simp: Let_def)
      ultimately show ?thesis by (meson not_less)
    qed
  qed
qed

text \<open>The whole literal, most significant bit first.\<close>

lemma expand_decimal:
  assumes "list_all isDigit (decimal_digits cs)"
  defines "v \<equiv> decimal_value 0 (decimal_digits cs)"
  shows "if v < 2 ^ max_bits then \<exists>r. expand_bits CHR ''d'' cs = Inr r \<and> minimal_bits (rev r) \<and> bits_value r = v
    else \<exists>e. expand_bits CHR ''d'' cs = Inl e"
proof -
  have "minimal_bits ''0''" "length ''0'' \<le> max_bits" "le_value ''0'' = 0" by (auto simp: minimal_bits_def is_bit_def max_bits_def)
  from decimal_bits_value [OF this(1,2) assms(1)] this(3) show ?thesis
    unfolding v_def bits_value_def expand_bits_def by (auto split: if_splits)
qed

text \<open>Cutting and padding with zeros keep the value, and fail exactly when it does not fit.\<close>


lemma bits_value_split:
  assumes "n \<le> length bits"
  shows "bits_value bits = bits_value (drop (length bits - n) bits) + 2 ^ n * bits_value (take (length bits - n) bits)"
proof -
  have "rev bits = rev (drop (length bits - n) bits) @ rev (take (length bits - n) bits)"
    by (metis append_take_drop_id rev_append)
  then show ?thesis using assms by (simp add: bits_value_def le_value_append)
qed

lemma leading_zeros:
  assumes "list_all is_bit bits" "k \<le> length bits"
  shows "k \<le> length (takeWhile (\<lambda>c. c = CHR ''0'') bits) \<longleftrightarrow> bits_value (take k bits) = 0"
  using assms
proof (induction bits arbitrary: k)
  case (Cons c bits)
  then show ?case
    by (cases k) (auto simp: is_bit_def bits_value_def le_value_append)
qed (simp add: bits_value_def)

lemma fit_zeros:
  assumes "list_all is_bit bits"
  shows "if bits_value bits < 2 ^ n then \<exists>r. fit_bits n CHR ''0'' bits = Some r \<and> list_all is_bit r \<and> length r = n \<and> bits_value r = bits_value bits
    else fit_bits n CHR ''0'' bits = None"
proof (cases "n < length bits")
  case False
  have "list_all is_bit (rev bits)" using assms by simp
  then have "bits_value bits < 2 ^ length bits" using le_value_less [of "rev bits"] by (simp add: bits_value_def)
  also have "\<dots> \<le> 2 ^ n" using False by (intro power_increasing) auto
  finally have "bits_value bits < 2 ^ n" .
  moreover have "list_all is_bit (replicate (n - length bits) CHR ''0'' @ bits)" using assms by simp
  ultimately show ?thesis using False by (simp add: fit_bits_def bits_value_def le_value_append)
next
  case True
  let ?x = "length bits - n"
  have d: "list_all is_bit (drop ?x bits)" using assms by (auto simp: list_all_iff dest: in_set_dropD)
  then have small: "bits_value (drop ?x bits) < 2 ^ n" using le_value_less [of "rev (drop ?x bits)"] True by (simp add: bits_value_def)
  note split = bits_value_split [OF less_imp_le [OF True]]
  show ?thesis
  proof (cases "bits_value (take ?x bits) = 0")
    case zero: True
    then have "fit_bits n CHR ''0'' bits = Some (drop ?x bits)" using leading_zeros [OF assms, of ?x] True by (simp add: fit_bits_def Let_def)
    then show ?thesis using zero True split small d by simp
  next
    case False
    then have "2 ^ n \<le> 2 ^ n * bits_value (take ?x bits)" by simp
    then have "\<not> bits_value bits < 2 ^ n" using split by linarith
    moreover have "fit_bits n CHR ''0'' bits = None" using leading_zeros [OF assms, of ?x] False True by (simp add: fit_bits_def Let_def)
    ultimately show ?thesis by simp
  qed
qed

section \<open>Sized decimal literals\<close>

text \<open>\<open>n d"cs"\<close> at a position: the length, the base and the string, adjacent, with digits and separating underscores.\<close>

definition sized_decimal :: "RecursiveParser \<Rightarrow> nat \<Rightarrow> nat \<Rightarrow> string \<Rightarrow> bool" where
  "sized_decimal b i n cs \<longleftrightarrow> ready b (i + 2) \<and> t_kind (tok b i) = IntegerLiteral \<and> is_word ''d'' (tok b (i + 1)) \<and>
     t_kind (tok b (i + 2)) = StringLiteral \<and> t_text (tok b (i + 2)) = [CHR 0x22] @ cs @ [CHR 0x22] \<and>
     from_chars_size (decimal_digits (t_text (tok b i))) = Some n \<and> n \<le> max_bits \<and>
     offset (sp_end (t_span (tok b i))) = offset (sp_start (t_span (tok b (i + 1)))) \<and>
     offset (sp_end (t_span (tok b (i + 1)))) = offset (sp_start (t_span (tok b (i + 2)))) \<and>
     \<not> underscores_misplaced ([CHR 0x22] @ cs @ [CHR 0x22]) \<and> list_all isDigit (decimal_digits cs)"

lemma sized_decimal_run:
  assumes "sized_decimal b i n cs"
  shows "parseExtendedBitString (parser_at b i) =
    bit_string_value (t_span (tok b i)) (Some n) (tok b (i + 1)) (tok b (i + 2)) (parser_at b (i + 3))"
proof -
  let ?start = "t_span (tok b i)"
  have r: "i < length (ps_tokens b)" "Suc i < length (ps_tokens b)" "Suc (Suc i) < length (ps_tokens b)"
    using assms by (auto simp: sized_decimal_def ready_def)
  have k: "\<not> is_eof (tok b i)" "\<not> is_eof (tok b (Suc i))" "\<not> is_eof (tok b (Suc (Suc i)))"
    using assms by (auto simp: sized_decimal_def)
  have "bit_string_length ?start (parser_at b i) = Value (Some n) (parser_at b (Suc i))"
    using assms r k by (simp add: bit_string_length_def sized_decimal_def exec_simps)
  then show ?thesis
    using assms r k by (simp add: parseExtendedBitString_def sized_decimal_def exec_simps eval_nat_numeral Let_def)
qed

lemma sized_decimal_spec:
  assumes "sized_decimal b i n cs"
  defines "v \<equiv> decimal_value 0 (decimal_digits cs)"
  shows "if v < 2 ^ n
    then \<exists>e bits. parseExtendedBitString (parser_at b i) = Value e (parser_at b (i + 3)) \<and> ex_text e = [CHR 0x22] @ bits @ [CHR 0x22] \<and>
      list_all is_bit bits \<and> length bits = n \<and> bits_value bits = v
    else \<exists>d. parseExtendedBitString (parser_at b i) = Null ((parser_at b (i + 3))\<lparr>ps_diagnostics := ps_diagnostics b @ [d]\<rparr>)"
proof -
  have base: "t_canonical (tok b (i + 1)) = ''d''" and body: "take (length (t_text (tok b (i + 2))) - 2) (drop 1 (t_text (tok b (i + 2)))) = cs"
    and n: "n \<le> max_bits" and digits: "list_all isDigit (decimal_digits cs)" using assms(1) by (auto simp: sized_decimal_def is_word_def)
  have le: "(2 :: nat) ^ n \<le> 2 ^ max_bits" using n by (intro power_increasing) auto
  let ?s = "parser_at b (i + 3)" and ?lit = "t_span (tok b (i + 2))" and ?start = "t_span (tok b i)"
  have run: "parseExtendedBitString (parser_at b i) = (case expand_bits CHR ''d'' cs of
        Inl (message, at_start) \<Rightarrow> fail_at message (if at_start then ?start else ?lit) ?s
      | Inr r \<Rightarrow> (case fit_bits n CHR ''0'' r of None \<Rightarrow> fail_at ''excess non-padding digits in bit string literal'' ?lit ?s
          | Some q \<Rightarrow> Value (leaf KBitStringLiteral ([CHR 0x22] @ q @ [CHR 0x22]) ''b'' (join ?start ?lit)) ?s))"
    unfolding sized_decimal_run [OF assms(1)] bit_string_value_def Let_def body base
    by (simp add: Let_def preturn_def split: sum.split option.split prod.split)
  have fails: "\<exists>d. (fail_at m sp :: Expression parser) (parser_at b (i + 3)) = Null ((parser_at b (i + 3))\<lparr>ps_diagnostics := ps_diagnostics b @ [d]\<rparr>)" for m sp
    by (auto simp: fail_at_def pthen_def pbind_def error_def pnull_def intro!: exI [of _ "\<lparr>pd_message = m, pd_span = sp\<rparr>"])
  show ?thesis
  proof (cases "v < 2 ^ max_bits")
    case False
    then obtain e where "expand_bits CHR ''d'' cs = Inl e" using expand_decimal [OF digits] by (auto simp: v_def split: if_splits)
    moreover have "\<not> v < 2 ^ n" using False le by linarith
    ultimately show ?thesis unfolding run using fails by (cases e) simp
  next
    case True
    then obtain r where r: "expand_bits CHR ''d'' cs = Inr r" "minimal_bits (rev r)" "bits_value r = v"
      using expand_decimal [OF digits] by (auto simp: v_def split: if_splits)
    have "list_all is_bit r" using r(2) by (simp add: minimal_bits_def)
    note f = fit_zeros [OF this, of n, unfolded r(3)]
    show ?thesis
    proof (cases "v < 2 ^ n")
      case True
      then obtain q where "fit_bits n CHR ''0'' r = Some q" "list_all is_bit q" "length q = n" "bits_value q = v" using f by auto
      then show ?thesis unfolding run using r(1) True
        by (simp add: preturn_def leaf_def)
    next
      case False
      then have "fit_bits n CHR ''0'' r = None" using f by auto
      then show ?thesis unfolding run using r(1) False fails by simp
    qed
  qed
qed

text \<open>
  A signed binary literal that is cut to a shorter length: the characters cut off are compared with the sign, the sign of
  what is left is not, and the value changes its sign.
\<close>

lemma signed_cut_changes_sign: "fit_bits 3 (hd ''1011'') ''1011'' = Some ''011''"
  by (simp add: fit_bits_def)

end
