(* ===== verification/VHDLExprTree.thy ===== *)
theory VHDLExprTree
  imports VHDLExprSafe
begin

text \<open>
  The abstract syntax of expressions with its printer, the reference for the descent: \<open>print p\<close> puts the parentheses that
  the precedence \<open>p\<close> of the context demands.  Trees carry tokens whose spans do not matter.
\<close>

section \<open>Trees\<close>

datatype tree =
    Ident Token | Lit Token | BitStr Token Token | Prefix Token tree | Bin Token tree tree
  | Sel tree Token | Attr tree Token | Idx tree tree | App tree tree "tree list"
  | Oth tree | Aggr tree "tree list" | Rng Token tree tree | Assoc tree "tree list" tree

definition sym :: "string \<Rightarrow> Token" where
  "sym v = \<lparr>t_kind = Symbol, t_text = v, t_canonical = '''', t_span = no_span\<rparr>"

definition others_token :: Token where
  "others_token = \<lparr>t_kind = Identifier, t_text = ''others'', t_canonical = ''others'', t_span = no_span\<rparr>"

definition is_sign :: "Token \<Rightarrow> bool" where
  "is_sign t \<longleftrightarrow> t_text t = ''+'' \<or> t_text t = ''-''"

text \<open>The precedences at which the operands of an operator are printed; 7 is that of a primary.\<close>

definition left_level :: "Token \<Rightarrow> int" where
  "left_level op = (if precedence op = 6 then 7 else precedence op)"

definition right_level :: "Token \<Rightarrow> int" where
  "right_level op = (if precedence op = 6 then 6 else precedence op + 1)"

definition paren :: "bool \<Rightarrow> Token list \<Rightarrow> Token list" where
  "paren c ts = (if c then sym ''('' # ts @ [sym '')''] else ts)"

fun print :: "int \<Rightarrow> tree \<Rightarrow> Token list" where
  "print p (Ident t) = [t]"
| "print p (Lit t) = [t]"
| "print p (BitStr base t) = [base, t]"
| "print p (Prefix op e) = paren (is_sign op \<and> 5 \<le> p) (op # print (if is_sign op then 5 else 7) e)"
| "print p (Bin op l r) = paren (precedence op < p) (print (left_level op) l @ op # print (right_level op) r)"
| "print p (Sel e n) = print 7 e @ [sym ''.'', n]"
| "print p (Attr e n) = print 7 e @ [sym [quote], n]"
| "print p (Idx e i) = print 7 e @ sym ''('' # print 0 i @ [sym '')'']"
| "print p (App e a as) = print 7 e @ sym ''('' # print 0 a @ concat (map (\<lambda>x. sym '','' # print 0 x) as) @ [sym '')'']"
| "print p (Oth e) = sym ''('' # others_token # sym ''=>'' # print 0 e @ [sym '')'']"
| "print p (Aggr a as) = sym ''('' # print 0 a @ concat (map (\<lambda>x. sym '','' # print 0 x) as) @ [sym '')'']"
| "print p (Rng d l r) = print 0 l @ d # print 0 r"
| "print p (Assoc c cs e) = print 0 c @ concat (map (\<lambda>x. sym ''|'' # print 0 x) cs) @ sym ''=>'' # print 0 e"

section \<open>The expression a tree stands for\<close>

definition aggregate :: "Expression list \<Rightarrow> Expression" where
  "aggregate es = Expression KAggregate '''' '''' no_span None None None es"

fun expression_of :: "tree \<Rightarrow> Expression" where
  "expression_of (Ident t) = leaf KName (t_text t) (t_canonical t) no_span"
| "expression_of (Lit t) = leaf (the (literal_kind (t_kind t))) (t_text t) '''' no_span"
| "expression_of (BitStr base t) = leaf KBitStringLiteral (t_text t) (t_canonical base) no_span"
| "expression_of (Prefix op e) = unary KUnary (op_name op) '''' no_span (expression_of e)"
| "expression_of (Bin op l r) = binary KBinary (op_name op) no_span (expression_of l) (expression_of r)"
| "expression_of (Sel e n) = unary KSelected (t_text n) (t_canonical n) no_span (expression_of e)"
| "expression_of (Attr e n) = unary KAttribute (t_text n) (t_canonical n) no_span (expression_of e)"
| "expression_of (Idx e i) = binary KIndexed '''' no_span (expression_of e) (expression_of i)"
| "expression_of (App e a as) = Expression KCall '''' '''' no_span (Some (expression_of e)) None None (expression_of a # map expression_of as)"
| "expression_of (Oth e) = unary KOthers '''' '''' no_span (expression_of e)"
| "expression_of (Aggr a as) = aggregate (expression_of a # map expression_of as)"
| "expression_of (Rng d l r) = binary KRange (t_canonical d) no_span (expression_of l) (expression_of r)"
| "expression_of (Assoc c cs e) =
     binary KAssociation '''' no_span (if cs = [] then expression_of c else aggregate (expression_of c # map expression_of cs)) (expression_of e)"

primrec strip :: "Expression \<Rightarrow> Expression" where
  "strip (Expression k t c sp l r cn es) =
     Expression k t c no_span (map_option strip l) (map_option strip r) (map_option strip cn) (map strip es)"

section \<open>Well-formed trees\<close>

fun is_assoc :: "tree \<Rightarrow> bool" where
  "is_assoc (Assoc _ _ _) = True"
| "is_assoc _ = False"

text \<open>An expression, not a range or an association; a name with suffixes.\<close>

fun is_expr :: "tree \<Rightarrow> bool" where
  "is_expr (Assoc _ _ _) = False"
| "is_expr (Rng _ _ _) = False"
| "is_expr _ = True"

fun is_chain :: "tree \<Rightarrow> bool" where
  "is_chain (Ident _) = True"
| "is_chain (Sel _ _) = True"
| "is_chain (Attr _ _) = True"
| "is_chain (Idx _ _) = True"
| "is_chain (App _ _ _) = True"
| "is_chain _ = False"

definition name_ok :: "Token \<Rightarrow> bool" where
  "name_ok t \<longleftrightarrow> is_name_token t \<and> \<not> is_prefix_operator t"

fun is_others :: "tree \<Rightarrow> bool" where
  "is_others (Ident t) = is_word ''others'' t"
| "is_others _ = False"

text \<open>
  The arguments of a call after the first one have no ranges; the first element of an aggregate is not \<open>others\<close>.
\<close>

fun single_assoc :: "tree \<Rightarrow> bool" where
  "single_assoc (Assoc c cs e) = (cs = [])"
| "single_assoc _ = True"

fun plain_argument :: "tree \<Rightarrow> bool" where
  "plain_argument (Assoc c cs e) = (cs = [] \<and> is_expr c)"
| "plain_argument t = is_expr t"

fun others_first :: "tree \<Rightarrow> bool" where
  "others_first (Assoc c _ _) = is_others c"
| "others_first _ = False"

definition operator_ok :: "Token \<Rightarrow> bool" where
  "operator_ok t \<longleftrightarrow> 0 \<le> precedence t \<and> (t_kind t = Identifier \<longrightarrow> t_text t \<noteq> ''**'')"

fun wf_tree :: "tree \<Rightarrow> bool" where
  "wf_tree (Ident t) = (name_ok t \<and> \<not> is_word ''others'' t)"
| "wf_tree (Lit t) = (literal_kind (t_kind t) \<noteq> None)"
| "wf_tree (BitStr base t) = ((is_word ''x'' base \<or> is_word ''b'' base \<or> is_word ''o'' base) \<and> t_kind t = StringLiteral)"
| "wf_tree (Prefix op e) = (is_prefix_operator op \<and> wf_tree e \<and> is_expr e)"
| "wf_tree (Bin op l r) = (operator_ok op \<and> wf_tree l \<and> wf_tree r \<and> is_expr l \<and> is_expr r)"
| "wf_tree (Sel e n) = (wf_tree e \<and> is_chain e \<and> is_name_token n)"
| "wf_tree (Attr e n) = (wf_tree e \<and> is_chain e \<and> is_name_token n)"
| "wf_tree (Idx e i) = (wf_tree e \<and> is_chain e \<and> wf_tree i \<and> \<not> is_assoc i)"
| "wf_tree (App e a as) = (wf_tree e \<and> is_chain e \<and> wf_tree a \<and> single_assoc a \<and> (as = [] \<longrightarrow> is_assoc a) \<and>
     (\<forall>x\<in>set as. wf_tree x \<and> plain_argument x))"
| "wf_tree (Oth e) = (wf_tree e \<and> is_expr e)"
| "wf_tree (Aggr a as) = (wf_tree a \<and> \<not> others_first a \<and> (as = [] \<longrightarrow> is_assoc a) \<and> (\<forall>x\<in>set as. wf_tree x))"
| "wf_tree (Rng d l r) = ((is_word ''to'' d \<or> is_word ''downto'' d) \<and> wf_tree l \<and> wf_tree r \<and> is_expr l \<and> is_expr r)"
| "wf_tree (Assoc c cs e) = ((wf_tree c \<and> \<not> is_assoc c \<or> cs = [] \<and> is_others c) \<and> (\<forall>x\<in>set cs. wf_tree x \<and> \<not> is_assoc x) \<and>
     wf_tree e \<and> is_expr e)"

section \<open>Tokens that match\<close>

definition same :: "Token \<Rightarrow> Token \<Rightarrow> bool" where
  "same t u \<longleftrightarrow> t_kind t = t_kind u \<and> t_text t = t_text u \<and> t_canonical t = t_canonical u"

fun prints :: "RecursiveParser \<Rightarrow> nat \<Rightarrow> Token list \<Rightarrow> bool" where
  "prints b i [] = True"
| "prints b i (t # ts) = (i < length (ps_tokens b) \<and> same (tok b i) t \<and> prints b (Suc i) ts)"

lemma prints_append [simp]: "prints b i (xs @ ys) \<longleftrightarrow> prints b i xs \<and> prints b (i + length xs) ys"
  by (induction xs arbitrary: i) auto

lemma same_tests:
  assumes "same t u"
  shows "is_word v t = is_word v u" "is_symbol v t = is_symbol v u" "is_name_token t = is_name_token u"
    "is_prefix_operator t = is_prefix_operator u" "precedence t = precedence u" "op_name t = op_name u"
    "t_kind t = t_kind u" "t_text t = t_text u" "t_canonical t = t_canonical u" "bitStringBase t = bitStringBase u"
    "op_precedence t = op_precedence u"
  using assms by (auto simp: same_def is_word_def is_symbol_def is_name_token_def is_prefix_operator_def precedence_def op_name_def
      bitStringBase_def op_precedence_def)

lemma sym_tests [simp]: "is_symbol v (sym w) = (v = w)" "is_word v (sym w) = False" "t_kind (sym w) = Symbol" "t_text (sym w) = w"
  by (auto simp: is_symbol_def is_word_def sym_def)

lemma strip_nodes [simp]:
  "strip (leaf k t c sp) = leaf k t c no_span" "strip (unary k t c sp e) = unary k t c no_span (strip e)"
  "strip (binary k t sp l r) = binary k t no_span (strip l) (strip r)" "strip (with_span sp e) = strip e"
  by (simp_all add: leaf_def unary_def binary_def) (cases e; simp)

lemma strip_kind [simp]: "ex_kind (strip e) = ex_kind e"
  by (cases e) simp

lemma strip_push: "strip (push_element n e) = push_element (strip n) (strip e)"
  by (cases n) simp

end
