(* ===== verification/VHDLExprRound.thy ===== *)
theory VHDLExprRound
  imports VHDLExprTree
begin

text \<open>
  Parsing what was printed gives the tree back.  \<open>gives\<close> says that a goal of the descent returns an expression with enough fuel;
  each form of tree has a lemma that reduces it to its parts.
\<close>

section \<open>More fuel changes nothing\<close>

definition defined_le :: "'a parser \<Rightarrow> 'a parser \<Rightarrow> bool" where
  "defined_le m m' \<longleftrightarrow> (\<forall>s. m s = Undefined \<or> m s = m' s)"

lemma defined_le_refl [simp, intro]: "defined_le m m"
  by (simp add: defined_le_def)

lemma defined_le_bind [intro]:
  assumes "defined_le m m'" "\<And>x. defined_le (k x) (k' x)"
  shows "defined_le (pbind m k) (pbind m' k')"
  unfolding defined_le_def
proof
  fix s
  have "m s = Undefined \<or> m s = m' s" "\<forall>x t. k x t = Undefined \<or> k x t = k' x t" using assms by (auto simp: defined_le_def)
  then show "pbind m k s = Undefined \<or> pbind m k s = pbind m' k' s" by (cases "m' s") (auto simp: pbind_def, metis)
qed

lemma defined_le_then [intro]: "defined_le m m' \<Longrightarrow> defined_le k k' \<Longrightarrow> defined_le (pthen m k) (pthen m' k')"
  unfolding pthen_def by (rule defined_le_bind)

lemma defined_le_if [intro]:
  "defined_le m m' \<Longrightarrow> defined_le k k' \<Longrightarrow> defined_le (if c then m else k) (if c then m' else k')"
  by simp

lemmas dispatch_defs = expression_def operators_def parseIndex_def parseConditional_def parsePrimary_def prefix_expression_def
  parenthesized_def parseElement_def choices_loop_def elements_loop_def arguments_loop_def associate_def suffixes_def
  parenthesized_suffix_def name_expression_def Let_def

lemma dispatch_mono:
  assumes "\<And>g. defined_le (call g) (call' g)"
  shows "defined_le (dispatch call g) (dispatch call' g)"
  using assms by (cases g) (simp_all only: dispatch.simps dispatch_defs, (intro defined_le_bind defined_le_then defined_le_if defined_le_refl assms)+)

lemma descend_mono: "defined_le (descend n g) (descend (n + k) g)"
proof (induction n arbitrary: g)
  case 0 show ?case by (simp add: defined_le_def)
next
  case (Suc n) then show ?case by (simp add: dispatch_mono)
qed

section \<open>Results\<close>

definition gives :: "RecursiveParser \<Rightarrow> goal \<Rightarrow> nat \<Rightarrow> nat \<Rightarrow> Expression \<Rightarrow> bool" where
  "gives b g i j e0 \<longleftrightarrow> (\<exists>e N. strip e = e0 \<and> (\<forall>n\<ge>N. descend n g (parser_at b i) = Value e (parser_at b j)))"

lemma run_goal_gives:
  assumes "gives b g i j e0" "ready b i" "goal_ok g"
  shows "\<exists>e. run_goal g (parser_at b i) = Value e (parser_at b j) \<and> strip e = e0"
proof -
  obtain e N where e: "strip e = e0" "\<forall>n\<ge>N. descend n g (parser_at b i) = Value e (parser_at b j)"
    using assms(1) by (auto simp: gives_def)
  let ?f = "descent_fuel (parser_at b i)"
  have "reads b (run_goal g) i (\<lambda>_ _. True)" by (rule run_goal_reads [OF assms(2,3)]) simp
  then have "descend ?f g (parser_at b i) \<noteq> Undefined" by (auto simp: reads_def run_goal_def)
  then have "descend ?f g (parser_at b i) = descend (?f + N) g (parser_at b i)" using descend_mono [of ?f g N] by (auto simp: defined_le_def)
  then show ?thesis using e by (auto simp: run_goal_def)
qed

text \<open>One turn of the descent; the result does not depend on the fuel.\<close>

lemma givesI:
  assumes "\<And>n. N \<le> n \<Longrightarrow> \<exists>e. dispatch (descend n) g (parser_at b i) = Value e (parser_at b j) \<and> strip e = e0"
  shows "gives b g i j e0"
proof -
  obtain e where e: "descend (Suc N) g (parser_at b i) = Value e (parser_at b j)" "strip e = e0" using assms [of N] by auto
  have "descend n g (parser_at b i) = Value e (parser_at b j)" if "Suc N \<le> n" for n
    using descend_mono [of "Suc N" g "n - Suc N"] that e unfolding defined_le_def
    by (metis le_add_diff_inverse outcome.distinct(3))
  then show ?thesis unfolding gives_def using e(2) by blast
qed

text \<open>A goal that calls another one and returns; or calls a third one with the result.\<close>

lemma gives_one:
  assumes "gives b g1 i1 j1 e1"
    and "\<And>c e. c g1 (parser_at b i1) = Value e (parser_at b j1) \<Longrightarrow> strip e = e1 \<Longrightarrow>
      \<exists>q. dispatch c g (parser_at b i) = Value q (parser_at b j) \<and> strip q = e0"
  shows "gives b g i j e0"
proof -
  obtain r N where "strip r = e1" "\<forall>n\<ge>N. descend n g1 (parser_at b i1) = Value r (parser_at b j1)" using assms(1) by (auto simp: gives_def)
  then show ?thesis using assms(2) by (intro givesI [of N]) auto
qed

lemma gives_seq:
  assumes "gives b g1 i1 j1 e1" "\<And>e. strip e = e1 \<Longrightarrow> gives b (g2 e) i2 j2 e2"
    and "\<And>c e. c g1 (parser_at b i1) = Value e (parser_at b j1) \<Longrightarrow> strip e = e1 \<Longrightarrow>
      dispatch c g (parser_at b i) = c (g2 e) (parser_at b i2)"
  shows "gives b g i j2 e2"
proof -
  obtain r N where r: "strip r = e1" "\<forall>n\<ge>N. descend n g1 (parser_at b i1) = Value r (parser_at b j1)" using assms(1) by (auto simp: gives_def)
  obtain q M where q: "strip q = e2" "\<forall>n\<ge>M. descend n (g2 r) (parser_at b i2) = Value q (parser_at b j2)"
    using assms(2) [OF r(1)] by (auto simp: gives_def)
  show ?thesis by (rule givesI [of "max N M"]) (use r q assms(3) in auto)
qed

text \<open>A goal that calls two others and returns.\<close>

lemma gives_two:
  assumes "gives b g1 i1 j1 e1" "\<And>e. strip e = e1 \<Longrightarrow> gives b (g2 e) i2 j2 e2"
    and "\<And>c e e'. c g1 (parser_at b i1) = Value e (parser_at b j1) \<Longrightarrow> strip e = e1 \<Longrightarrow>
      c (g2 e) (parser_at b i2) = Value e' (parser_at b j2) \<Longrightarrow> strip e' = e2 \<Longrightarrow>
      \<exists>q. dispatch c g (parser_at b i) = Value q (parser_at b j) \<and> strip q = e0"
  shows "gives b g i j e0"
proof -
  obtain r N where r: "strip r = e1" "\<forall>n\<ge>N. descend n g1 (parser_at b i1) = Value r (parser_at b j1)" using assms(1) by (auto simp: gives_def)
  obtain q M where q: "strip q = e2" "\<forall>n\<ge>M. descend n (g2 r) (parser_at b i2) = Value q (parser_at b j2)"
    using assms(2) [OF r(1)] by (auto simp: gives_def)
  show ?thesis by (rule givesI [of "max N M"]) (use r q assms(3) in auto)
qed

text \<open>A goal that calls two others and then a third one with the results.\<close>

lemma gives_three:
  assumes "gives b g1 i1 j1 e1" "\<And>e. strip e = e1 \<Longrightarrow> gives b (g2 e) i2 j2 e2"
    "\<And>e e'. strip e = e1 \<Longrightarrow> strip e' = e2 \<Longrightarrow> gives b (g3 e e') i3 j3 e3"
    and "\<And>c e e'. c g1 (parser_at b i1) = Value e (parser_at b j1) \<Longrightarrow> strip e = e1 \<Longrightarrow>
      c (g2 e) (parser_at b i2) = Value e' (parser_at b j2) \<Longrightarrow> strip e' = e2 \<Longrightarrow>
      dispatch c g (parser_at b i) = c (g3 e e') (parser_at b i3)"
  shows "gives b g i j3 e3"
proof -
  obtain r N where r: "strip r = e1" "\<forall>n\<ge>N. descend n g1 (parser_at b i1) = Value r (parser_at b j1)" using assms(1) by (auto simp: gives_def)
  obtain q M where q: "strip q = e2" "\<forall>n\<ge>M. descend n (g2 r) (parser_at b i2) = Value q (parser_at b j2)"
    using assms(2) [OF r(1)] by (auto simp: gives_def)
  obtain p K where p: "strip p = e3" "\<forall>n\<ge>K. descend n (g3 r q) (parser_at b i3) = Value p (parser_at b j3)"
    using assms(3) [OF r(1) q(1)] by (auto simp: gives_def)
  show ?thesis by (rule givesI [of "max N (max M K)"]) (use r q p assms(4) in auto)
qed

lemma gives_four:
  assumes "gives b g1 i1 j1 e1" "\<And>e. strip e = e1 \<Longrightarrow> gives b (g2 e) i2 j2 e2"
    "\<And>e'. strip e' = e2 \<Longrightarrow> gives b (g3 e') i3 j3 e3" "\<And>e''. strip e'' = e3 \<Longrightarrow> gives b (g4 e'') i4 j4 e4"
    and "\<And>c e e' e''. c g1 (parser_at b i1) = Value e (parser_at b j1) \<Longrightarrow> strip e = e1 \<Longrightarrow>
      c (g2 e) (parser_at b i2) = Value e' (parser_at b j2) \<Longrightarrow> strip e' = e2 \<Longrightarrow>
      c (g3 e') (parser_at b i3) = Value e'' (parser_at b j3) \<Longrightarrow> strip e'' = e3 \<Longrightarrow>
      dispatch c g (parser_at b i) = c (g4 e'') (parser_at b i4)"
  shows "gives b g i j4 e4"
proof -
  obtain r N where r: "strip r = e1" "\<forall>n\<ge>N. descend n g1 (parser_at b i1) = Value r (parser_at b j1)" using assms(1) by (auto simp: gives_def)
  obtain q M where q: "strip q = e2" "\<forall>n\<ge>M. descend n (g2 r) (parser_at b i2) = Value q (parser_at b j2)"
    using assms(2) [OF r(1)] by (auto simp: gives_def)
  obtain p K where p: "strip p = e3" "\<forall>n\<ge>K. descend n (g3 q) (parser_at b i3) = Value p (parser_at b j3)"
    using assms(3) [OF q(1)] by (auto simp: gives_def)
  obtain v L where v: "strip v = e4" "\<forall>n\<ge>L. descend n (g4 p) (parser_at b i4) = Value v (parser_at b j4)"
    using assms(4) [OF p(1)] by (auto simp: gives_def)
  show ?thesis by (rule givesI [of "max (max N M) (max K L)"]) (use r q p v assms(5) in auto)
qed

end
