(* ===== verification/VHDLExprForms.thy ===== *)
theory VHDLExprForms
  imports VHDLExprRound
begin

text \<open>
  The forms of expressions, each parsed when its parts are: operators by precedence climbing (\<open>parsesE\<close>), primaries
  (\<open>parsesP\<close>), names with suffixes (\<open>parsesN\<close>), indexes and elements in parentheses (\<open>parsesI\<close>, \<open>parsesL\<close>).
\<close>

section \<open>What may follow\<close>

definition closer :: "Token \<Rightarrow> bool" where
  "closer t \<longleftrightarrow> t_kind t \<noteq> StringLiteral \<and> \<not> bitStringBase t \<and> \<not> is_symbol ''.'' t \<and> \<not> is_symbol ''('' t \<and> \<not> is_symbol [quote] t"

definition follow :: "int \<Rightarrow> Token \<Rightarrow> bool" where
  "follow p t \<longleftrightarrow> closer t \<and> (p = 7 \<or> precedence t \<le> min p 5)"

abbreviation end_of :: "nat \<Rightarrow> int \<Rightarrow> tree \<Rightarrow> nat" where
  "end_of i p t \<equiv> i + length (print p t)"

text \<open>A tree is printed at a position, and what follows it is there.\<close>

definition placed :: "RecursiveParser \<Rightarrow> nat \<Rightarrow> int \<Rightarrow> tree \<Rightarrow> bool" where
  "placed b i p t \<longleftrightarrow> prints b i (print p t) \<and> end_of i p t < length (ps_tokens b)"

definition parsesE :: "RecursiveParser \<Rightarrow> int \<Rightarrow> tree \<Rightarrow> bool" where
  "parsesE b p t \<longleftrightarrow> (\<forall>i m k R. placed b i p t \<and> follow p (tok b (end_of i p t)) \<and> 0 \<le> m \<and> m \<le> p \<and>
     (\<forall>e. strip e = expression_of t \<longrightarrow> gives b (Operators m e) (end_of i p t) k R) \<longrightarrow> gives b (Expr m) i k R)"

definition parsesP :: "RecursiveParser \<Rightarrow> int \<Rightarrow> tree \<Rightarrow> bool" where
  "parsesP b p t \<longleftrightarrow> (\<forall>i. placed b i p t \<and> follow p (tok b (end_of i p t)) \<longrightarrow> gives b Primary i (end_of i p t) (expression_of t))"

definition parsesN :: "RecursiveParser \<Rightarrow> tree \<Rightarrow> bool" where
  "parsesN b t \<longleftrightarrow> (\<forall>i k R. placed b i 7 t \<and> t_kind (tok b (end_of i 7 t)) \<noteq> StringLiteral \<and>
     (\<forall>e. strip e = expression_of t \<longrightarrow> gives b (Suffixes e) (end_of i 7 t) k R) \<longrightarrow> gives b Primary i k R)"

text \<open>After an index there is no direction of a range, after an element no bar and no arrow.\<close>

definition parsesI :: "RecursiveParser \<Rightarrow> tree \<Rightarrow> bool" where
  "parsesI b t \<longleftrightarrow> (\<forall>i. placed b i 0 t \<and> t_kind (tok b (end_of i 0 t)) = Symbol \<and> follow 0 (tok b (end_of i 0 t)) \<longrightarrow>
     gives b Index i (end_of i 0 t) (expression_of t))"

definition parsesL :: "RecursiveParser \<Rightarrow> tree \<Rightarrow> bool" where
  "parsesL b t \<longleftrightarrow> (\<forall>i. placed b i 0 t \<and> (is_symbol '','' (tok b (end_of i 0 t)) \<or> is_symbol '')'' (tok b (end_of i 0 t))) \<longrightarrow>
     gives b Element i (end_of i 0 t) (expression_of t))"

lemma symbol_unique: "is_symbol v t \<Longrightarrow> is_symbol w t = (v = w)"
  by (auto simp: is_symbol_def)

lemma follow_symbol:
  assumes "is_symbol v t" "v \<in> {'','', '')'', ''=>'', ''|''}"
  shows "follow p t = (p = 7 \<or> -1 \<le> p)" "t_kind t = Symbol" "\<not> is_word w t" "closer t"
  using assms by (auto simp: follow_def closer_def precedence_def is_symbol_def is_word_def bitStringBase_def)

lemma precedence_le: "precedence t \<le> 6" "precedence t = -1 \<or> 1 \<le> precedence t"
  by (auto simp: precedence_def)

lemma precedence_cases:
  assumes "0 \<le> precedence t"
  shows "t_kind t = Identifier \<and> t_canonical t \<in> {''or'', ''nor'', ''xor'', ''xnor'', ''and'', ''nand'', ''mod'', ''rem''} \<or>
    t_kind t = Symbol \<and> t_text t \<in> {''='', ''/='', ''<'', ''<='', ''>'', ''>='', ''+'', ''-'', ''&'', ''*'', ''/'', ''**''}"
proof (rule ccontr)
  assume "\<not> ?thesis"
  then have "precedence t = -1" by (simp add: precedence_def is_word_def is_symbol_def)
  then show False using assms by simp
qed

lemma closer_operator: "0 \<le> precedence t \<Longrightarrow> closer t"
  using precedence_cases [of t] by (auto simp: closer_def bitStringBase_def is_symbol_def)

lemma operator_star:
  assumes "operator_ok t"
  shows "(t_text t = ''**'') = (precedence t = 6)"
  using assms precedence_cases [of t] by (auto simp: operator_ok_def precedence_def is_word_def is_symbol_def)

lemma placed_less: "placed b i p t \<Longrightarrow> i < length (ps_tokens b) \<and> ps_tokens b \<noteq> []"
  by (auto simp: placed_def)

section \<open>Operators\<close>

lemma stop_operators:
  assumes "j < length (ps_tokens b)" "precedence (tok b j) < m"
  shows "gives b (Operators m e) j j (strip e)"
  by (rule givesI [of 0]) (use assms in \<open>simp add: operators_def exec_simps\<close>)

lemma parsesE_stop:
  assumes "parsesE b p t" "placed b i p t" "follow p (tok b (end_of i p t))" "0 \<le> m" "m \<le> p"
    "precedence (tok b (end_of i p t)) < m"
  shows "gives b (Expr m) i (end_of i p t) (expression_of t)"
proof -
  have "gives b (Operators m e) (end_of i p t) (end_of i p t) (expression_of t)" if "strip e = expression_of t" for e
    using stop_operators [of "end_of i p t" b m e] assms that by (simp add: placed_def)
  then show ?thesis using assms unfolding parsesE_def by blast
qed

lemma parsesE_P:
  assumes "parsesP b p t"
  shows "parsesE b p t"
  unfolding parsesE_def
proof (intro allI impI, elim conjE)
  fix i m k R
  assume a: "placed b i p t" "follow p (tok b (end_of i p t))"
    "\<forall>e. strip e = expression_of t \<longrightarrow> gives b (Operators m e) (end_of i p t) k R"
  show "gives b (Expr m) i k R"
    by (rule gives_seq [where ?g1.0 = Primary and ?g2.0 = "Operators m"])
      (use assms a in \<open>auto simp: parsesP_def expression_def exec_simps\<close>)
qed

lemma parsesE_Bin:
  assumes ok: "operator_ok op" and "p \<le> precedence op"
    and l: "parsesE b (left_level op) l" and r: "parsesE b (right_level op) r"
  shows "parsesE b p (Bin op l r)"
  unfolding parsesE_def
proof (intro allI impI, elim conjE)
  fix i m k R
  have op: "0 \<le> precedence op" "p \<le> precedence op" "precedence op \<le> 6" using assms(1,2) precedence_le(1) by (auto simp: operator_ok_def)
  let ?q = "left_level op" and ?q' = "right_level op"
  let ?x = "end_of i ?q l" and ?j = "end_of (Suc (end_of i ?q l)) ?q' r"
  assume pl: "placed b i p (Bin op l r)" and fo: "follow p (tok b (end_of i p (Bin op l r)))" and m: "0 \<le> m" "m \<le> p"
    and rest: "\<forall>e. strip e = expression_of (Bin op l r) \<longrightarrow> gives b (Operators m e) (end_of i p (Bin op l r)) k R"
  have j: "end_of i p (Bin op l r) = ?j" using op(2) by (simp add: paren_def)
  have pl: "placed b i ?q l" "same (tok b ?x) op" "?x < length (ps_tokens b)" "placed b (Suc ?x) ?q' r" "?j < length (ps_tokens b)"
    using pl op(2) by (auto simp: placed_def paren_def)
  note t = same_tests [OF pl(2)]
  have fl: "follow ?q (tok b ?x)" "m \<le> ?q" using closer_operator op m t(5) by (auto simp: follow_def left_level_def)
  have fr: "follow ?q' (tok b ?j)" "precedence (tok b ?j) < ?q'" "0 \<le> ?q'"
    using fo op m unfolding j follow_def right_level_def by auto
  have op_q: "op_precedence (tok b ?x) + (if t_text (tok b ?x) = ''**'' then 0 else 1) = ?q'"
    using op_precedence_eq [OF op(1)] operator_star [OF ok] t(8,11) by (simp add: right_level_def)
  have R: "gives b (Expr ?q') (Suc ?x) ?j (expression_of r)" by (rule parsesE_stop [OF r pl(4) fr(1) fr(3) order.refl fr(2)])
  have "gives b (Operators m e) ?x k R" if "strip e = expression_of l" for e
  proof (rule gives_seq [OF R, where ?g2.0 = "\<lambda>e'. Operators m (binary KBinary (op_name (tok b ?x)) (join (ex_span e) (ex_span e')) e e')"])
    show "gives b (Operators m (binary KBinary (op_name (tok b ?x)) (join (ex_span e) (ex_span e')) e e')) ?j k R"
      if "strip e' = expression_of r" for e'
      using rest that \<open>strip e = expression_of l\<close> t(6) unfolding j by simp
    show "dispatch c (Operators m e) (parser_at b ?x) =
        c (Operators m (binary KBinary (op_name (tok b ?x)) (join (ex_span e) (ex_span e')) e e')) (parser_at b ?j)"
      if "c (Expr ?q') (parser_at b (Suc ?x)) = Value e' (parser_at b ?j)" for c e'
      using that pl(3) m op(1,2) t(5) op_q precedence_not_eof [of "tok b ?x"] by (simp add: operators_def exec_simps)
  qed
  then show "gives b (Expr m) i k R" using l pl(1) fl m(1) unfolding parsesE_def by blast
qed

section \<open>Primaries\<close>

lemma parsesP_D:
  "parsesP b p t \<Longrightarrow> placed b i p t \<Longrightarrow> follow p (tok b (end_of i p t)) \<Longrightarrow> gives b Primary i (end_of i p t) (expression_of t)"
  by (simp add: parsesP_def)

text \<open>The branch of \<open>parsePrimary\<close> that the first tokens select.\<close>

lemma prefix_operator_cases:
  "is_prefix_operator t \<Longrightarrow> t_kind t \<noteq> IntegerLiteral \<and> \<not> bitStringBase t \<and> \<not> is_word ''d'' t \<and> \<not> is_eof t"
  by (auto simp: is_prefix_operator_def bitStringBase_def is_word_def is_symbol_def)

lemma paren_cases:
  "is_symbol ''('' t \<Longrightarrow> t_kind t \<noteq> IntegerLiteral \<and> \<not> bitStringBase t \<and> \<not> is_word ''d'' t \<and> \<not> is_prefix_operator t"
  by (auto simp: is_prefix_operator_def bitStringBase_def is_word_def is_symbol_def)

lemma base_cases:
  "is_word ''x'' t \<or> is_word ''b'' t \<or> is_word ''o'' t \<Longrightarrow> t_kind t \<noteq> IntegerLiteral \<and> length (t_canonical t) = 1 \<and> \<not> is_word ''d'' t \<and>
     \<not> is_prefix_operator t \<and> \<not> is_symbol ''('' t"
  by (auto simp: is_prefix_operator_def is_word_def is_symbol_def)

lemma name_cases:
  "name_ok t \<Longrightarrow> t_kind t \<noteq> IntegerLiteral \<and> \<not> is_prefix_operator t \<and> \<not> is_symbol ''('' t \<and> is_name_token t"
  by (auto simp: name_ok_def is_name_token_def is_symbol_def)

lemma literal_cases:
  assumes "literal_kind (t_kind t) = Some k"
  shows "\<not> bitStringBase t \<and> \<not> is_word w t \<and> \<not> is_prefix_operator t \<and> \<not> is_symbol v t \<and> \<not> is_name_token t"
proof -
  have "t_kind t \<noteq> Identifier" "t_kind t \<noteq> Symbol" "t_kind t \<noteq> ExtendedIdentifier" using assms by auto
  then show ?thesis by (simp add: is_prefix_operator_def bitStringBase_def is_word_def is_symbol_def is_name_token_def)
qed

lemma primary_branches:
  assumes "i < length (ps_tokens b)"
  shows "is_prefix_operator (tok b i) \<Longrightarrow> parsePrimary c (parser_at b i) = prefix_expression c (parser_at b i)"
    and "is_symbol ''('' (tok b i) \<Longrightarrow> parsePrimary c (parser_at b i) = parenthesized c (parser_at b i)"
    and "Suc i < length (ps_tokens b) \<Longrightarrow> is_word ''x'' (tok b i) \<or> is_word ''b'' (tok b i) \<or> is_word ''o'' (tok b i) \<Longrightarrow>
      t_kind (tok b (Suc i)) = StringLiteral \<Longrightarrow> parsePrimary c (parser_at b i) = bit_string (parser_at b i)"
    and "Suc i < length (ps_tokens b) \<Longrightarrow> name_ok (tok b i) \<Longrightarrow> t_kind (tok b (Suc i)) \<noteq> StringLiteral \<Longrightarrow>
      parsePrimary c (parser_at b i) = name_expression c (parser_at b i)"
    and "Suc i < length (ps_tokens b) \<Longrightarrow> literal_kind (t_kind (tok b i)) = Some k \<Longrightarrow> \<not> bitStringBase (tok b (Suc i)) \<Longrightarrow>
      parsePrimary c (parser_at b i) = literal (parser_at b i)"
proof -
  have ne: "ps_tokens b \<noteq> []" using assms by auto
  let ?t = "tok b i"
  show "parsePrimary c (parser_at b i) = prefix_expression c (parser_at b i)" if "is_prefix_operator ?t"
    using assms ne that prefix_operator_cases [OF that] by (simp add: parsePrimary_def exec_simps)
  show "parsePrimary c (parser_at b i) = parenthesized c (parser_at b i)" if "is_symbol ''('' ?t"
    using assms ne that paren_cases [OF that] by (simp add: parsePrimary_def exec_simps)
  show "parsePrimary c (parser_at b i) = bit_string (parser_at b i)"
    if "Suc i < length (ps_tokens b)" "is_word ''x'' ?t \<or> is_word ''b'' ?t \<or> is_word ''o'' ?t" "t_kind (tok b (Suc i)) = StringLiteral"
    using assms ne that base_cases [OF that(2)] by (simp add: parsePrimary_def exec_simps look_index_def)
  show "parsePrimary c (parser_at b i) = name_expression c (parser_at b i)"
    if "Suc i < length (ps_tokens b)" "name_ok ?t" "t_kind (tok b (Suc i)) \<noteq> StringLiteral"
    using assms ne that name_cases [OF that(2)] by (simp add: parsePrimary_def exec_simps look_index_def)
  show "parsePrimary c (parser_at b i) = literal (parser_at b i)"
    if "Suc i < length (ps_tokens b)" "literal_kind (t_kind ?t) = Some k" "\<not> bitStringBase (tok b (Suc i))"
    using assms ne that literal_cases [OF that(2)] by (simp add: parsePrimary_def exec_simps look_index_def)
qed

lemma parsesP_Lit:
  assumes "wf_tree (Lit t)"
  shows "parsesP b p (Lit t)"
  unfolding parsesP_def
proof (intro allI impI, elim conjE)
  fix i
  assume a: "placed b i p (Lit t)" "follow p (tok b (end_of i p (Lit t)))"
  then have s: "same (tok b i) t" "Suc i < length (ps_tokens b)" "\<not> bitStringBase (tok b (Suc i))"
    by (auto simp: placed_def follow_def closer_def)
  obtain k where k: "literal_kind (t_kind t) = Some k" using assms by auto
  then have "\<not> is_eof t" by (cases "t_kind t") auto
  then show "gives b Primary i (end_of i p (Lit t)) (expression_of (Lit t))"
    using s k same_tests [OF s(1)] primary_branches(5) [of i b k]
    by (intro givesI [of 0]) (simp add: literal_def exec_simps)
qed

lemma parsesP_BitStr:
  assumes "wf_tree (BitStr base t)"
  shows "parsesP b p (BitStr base t)"
  unfolding parsesP_def
proof (intro allI impI, elim conjE)
  fix i
  assume "placed b i p (BitStr base t)"
  then have s: "same (tok b i) base" "same (tok b (Suc i)) t" "Suc i < length (ps_tokens b)" by (auto simp: placed_def)
  note t = same_tests [OF s(1)] same_tests [OF s(2)]
  have k: "\<not> is_eof (tok b i)" "\<not> is_eof (tok b (Suc i))" using assms t by (auto simp: is_word_def)
  show "gives b Primary i (end_of i p (BitStr base t)) (expression_of (BitStr base t))"
    using s k t assms primary_branches(3) [of i b]
    by (intro givesI [of 0]) (simp add: bit_string_def exec_simps)
qed

lemma parsesP_Prefix:
  assumes op: "is_prefix_operator op" and p: "is_sign op \<longrightarrow> p < 5" and e: "parsesE b 5 e" "is_sign op \<or> parsesP b 7 e"
  shows "parsesP b p (Prefix op e)"
  unfolding parsesP_def
proof (intro allI impI, elim conjE)
  fix i
  let ?q = "if is_sign op then 5 else 7 :: int"
  let ?g = "if is_sign op then Expr 5 else Primary"
  assume pl: "placed b i p (Prefix op e)" and fo: "follow p (tok b (end_of i p (Prefix op e)))"
  have j: "end_of i p (Prefix op e) = end_of (Suc i) ?q e" using p by (auto simp: paren_def)
  have s: "same (tok b i) op" "i < length (ps_tokens b)" "placed b (Suc i) ?q e" using pl p by (auto simp: placed_def paren_def)
  note t = same_tests [OF s(1)]
  have g: "gives b ?g (Suc i) (end_of (Suc i) ?q e) (expression_of e)"
  proof (cases "is_sign op")
    case True
    then have "follow 5 (tok b (end_of (Suc i) 5 e))" "precedence (tok b (end_of (Suc i) 5 e)) < 5"
      using fo p unfolding j follow_def by auto
    then show ?thesis using True s(3) e(1) parsesE_stop [of b 5 e "Suc i" 5] by simp
  next
    case False
    then show ?thesis using parsesP_D [of b 7 e "Suc i"] e(2) s(3) fo unfolding j by (simp add: follow_def)
  qed
  show "gives b Primary i (end_of i p (Prefix op e)) (expression_of (Prefix op e))"
    unfolding j
  proof (rule gives_one [OF g])
    fix c r
    assume "c ?g (parser_at b (Suc i)) = Value r (parser_at b (end_of (Suc i) ?q e))" "strip r = expression_of e"
    then show "\<exists>q. dispatch c Primary (parser_at b i) = Value q (parser_at b (end_of (Suc i) ?q e)) \<and> strip q = expression_of (Prefix op e)"
      using primary_branches(1) [OF s(2), of c] op t s(2) prefix_operator_cases [OF op]
      by (auto simp: prefix_expression_def exec_simps is_sign_def)
  qed
qed

text \<open>Parentheses around an expression that is not an association.\<close>

lemma expression_kind: "is_expr t \<Longrightarrow> wf_tree t \<Longrightarrow> ex_kind (expression_of t) \<noteq> KAssociation"
  by (cases t) (auto simp: leaf_def unary_def binary_def aggregate_def elim: literal_kind.elims)

section \<open>Indexes, associations, lists\<close>

lemma follow_zero: "follow 0 t \<Longrightarrow> precedence t < 0"
  using precedence_le(2) [of t] by (auto simp: follow_def)

lemma direction_follows:
  assumes "is_word ''to'' t \<or> is_word ''downto'' t"
  shows "follow 0 t"
proof -
  have "t_kind t = Identifier" "t_canonical t \<in> {''to'', ''downto''}" using assms by (auto simp: is_word_def)
  then have "\<not> 0 \<le> precedence t" "closer t" using precedence_cases [of t] by (auto simp: closer_def is_symbol_def bitStringBase_def)
  then show ?thesis by (simp add: follow_def)
qed

lemma parsesE_zero:
  assumes "parsesE b 0 t" "placed b i 0 t" "follow 0 (tok b (end_of i 0 t))"
  shows "gives b (Expr 0) i (end_of i 0 t) (expression_of t)"
  using parsesE_stop [OF assms] follow_zero [OF assms(3)] by simp

lemma parsesI_expr:
  assumes "parsesE b 0 t"
  shows "parsesI b t"
  unfolding parsesI_def
proof (intro allI impI, elim conjE)
  fix i
  assume a: "placed b i 0 t" "t_kind (tok b (end_of i 0 t)) = Symbol" "follow 0 (tok b (end_of i 0 t))"
  then have "end_of i 0 t < length (ps_tokens b)" "\<not> is_word w (tok b (end_of i 0 t))" for w by (auto simp: placed_def is_word_def)
  then show "gives b Index i (end_of i 0 t) (expression_of t)"
    by (intro gives_one [OF parsesE_zero [OF assms a(1,3)]]) (simp add: parseIndex_def exec_simps)
qed

lemma parsesI_Rng:
  assumes d: "is_word ''to'' d \<or> is_word ''downto'' d" and l: "parsesE b 0 l" and r: "parsesE b 0 r"
  shows "parsesI b (Rng d l r)"
  unfolding parsesI_def
proof (intro allI impI, elim conjE)
  fix i
  let ?x = "end_of i 0 l" let ?j = "end_of (Suc ?x) 0 r"
  assume a: "placed b i 0 (Rng d l r)" "follow 0 (tok b (end_of i 0 (Rng d l r)))"
  have j: "end_of i 0 (Rng d l r) = ?j" by simp
  have s: "placed b i 0 l" "same (tok b ?x) d" "?x < length (ps_tokens b)" "placed b (Suc ?x) 0 r" using a(1) by (auto simp: placed_def)
  note t = same_tests [OF s(2)]
  have d': "is_word ''to'' (tok b ?x) \<or> is_word ''downto'' (tok b ?x)" using d t by simp
  then have eof: "\<not> is_eof (tok b ?x)" using word_not_eof by blast
  have R: "gives b (Expr 0) (Suc ?x) ?j (expression_of r)" using parsesE_zero [OF r s(4)] a(2) unfolding j by simp
  show "gives b Index i (end_of i 0 (Rng d l r)) (expression_of (Rng d l r))"
    unfolding j
    by (rule gives_two [OF parsesE_zero [OF l s(1) direction_follows [OF d']] R])
      (use d' s(3) eof t(9) in \<open>simp add: parseIndex_def exec_simps\<close>)
qed

text \<open>An element of a list of arguments: what the goal \<open>G\<close> reads, then perhaps an arrow and a value.\<close>

abbreviation list_end :: "Token \<Rightarrow> bool" where
  "list_end t \<equiv> is_symbol '','' t \<or> is_symbol '')'' t"

definition parsesA :: "RecursiveParser \<Rightarrow> goal \<Rightarrow> tree \<Rightarrow> bool" where
  "parsesA b G t \<longleftrightarrow> (\<forall>i. placed b i 0 t \<and> list_end (tok b (end_of i 0 t)) \<longrightarrow>
     (\<exists>x c. gives b G i x c \<and> x < length (ps_tokens b) \<and> \<not> is_symbol ''|'' (tok b x) \<and>
       (\<forall>e. strip e = c \<longrightarrow> gives b (Associate e) x (end_of i 0 t) (expression_of t))))"

lemma list_end_follows: "list_end t \<Longrightarrow> follow 0 t \<and> t_kind t = Symbol \<and> \<not> is_symbol ''=>'' t \<and> \<not> is_symbol ''|'' t"
  using follow_symbol(1,2) [of "'',''" t] follow_symbol(1,2) [of "'')''" t] by (auto simp: symbol_unique)

lemma stop_associate:
  assumes "j < length (ps_tokens b)" "\<not> is_symbol ''=>'' (tok b j)"
  shows "gives b (Associate e) j j (strip e)"
  by (rule givesI [of 0]) (use assms in \<open>simp add: associate_def exec_simps\<close>)

lemma parsesA_item:
  assumes "\<And>i. placed b i 0 t \<Longrightarrow> t_kind (tok b (end_of i 0 t)) = Symbol \<Longrightarrow> follow 0 (tok b (end_of i 0 t)) \<Longrightarrow>
      gives b G i (end_of i 0 t) (expression_of t)"
  shows "parsesA b G t"
  unfolding parsesA_def
proof (intro allI impI, elim conjE)
  fix i
  let ?j = "end_of i 0 t"
  assume a: "placed b i 0 t" "list_end (tok b ?j)"
  note f = list_end_follows [OF a(2)]
  have j: "?j < length (ps_tokens b)" using a(1) by (simp add: placed_def)
  have "gives b G i ?j (expression_of t)" using assms a f by blast
  moreover have "\<forall>e. strip e = expression_of t \<longrightarrow> gives b (Associate e) ?j ?j (expression_of t)"
    using stop_associate [OF j] f by metis
  ultimately show "\<exists>x c. gives b G i x c \<and> x < length (ps_tokens b) \<and> \<not> is_symbol ''|'' (tok b x) \<and>
       (\<forall>e. strip e = c \<longrightarrow> gives b (Associate e) x ?j (expression_of t))" using j f by blast
qed

lemma associate_gives:
  assumes "x < length (ps_tokens b)" "is_symbol ''=>'' (tok b x)" "parsesE b 0 v" "placed b (Suc x) 0 v" "follow 0 (tok b (end_of (Suc x) 0 v))"
  shows "gives b (Associate e) x (end_of (Suc x) 0 v) (binary KAssociation '''' no_span (strip e) (expression_of v))"
  by (rule gives_one [OF parsesE_zero [OF assms(3-5)]]) (use assms(1,2) in \<open>simp add: associate_def exec_simps\<close>)

lemma arrow_follows: "is_symbol ''=>'' t \<Longrightarrow> follow 0 t \<and> t_kind t = Symbol \<and> \<not> is_symbol ''|'' t"
  using follow_symbol(1,2) [of "''=>''" t] by (auto simp: symbol_unique)

lemma parsesA_Assoc:
  assumes c: "\<And>i. placed b i 0 c \<Longrightarrow> t_kind (tok b (end_of i 0 c)) = Symbol \<Longrightarrow> follow 0 (tok b (end_of i 0 c)) \<Longrightarrow>
      gives b G i (end_of i 0 c) (expression_of c)" and v: "parsesE b 0 v"
  shows "parsesA b G (Assoc c [] v)"
  unfolding parsesA_def
proof (intro allI impI, elim conjE)
  fix i
  let ?x = "end_of i 0 c" let ?j = "end_of (Suc ?x) 0 v"
  assume a: "placed b i 0 (Assoc c [] v)" "list_end (tok b (end_of i 0 (Assoc c [] v)))"
  have j: "end_of i 0 (Assoc c [] v) = ?j" by simp
  have s: "placed b i 0 c" "same (tok b ?x) (sym ''=>'')" "?x < length (ps_tokens b)" "placed b (Suc ?x) 0 v"
    using a(1) by (auto simp: placed_def)
  have arrow: "is_symbol ''=>'' (tok b ?x)" using same_tests(2) [OF s(2)] by simp
  note f = arrow_follows [OF this]
  have "gives b G i ?x (expression_of c)" using c s(1) f by blast
  moreover have "\<forall>e. strip e = expression_of c \<longrightarrow> gives b (Associate e) ?x ?j (expression_of (Assoc c [] v))"
    using associate_gives [OF s(3) arrow v s(4)] list_end_follows [OF a(2)] unfolding j by (metis expression_of.simps(13))
  ultimately show "\<exists>x e. gives b G i x e \<and> x < length (ps_tokens b) \<and> \<not> is_symbol ''|'' (tok b x) \<and>
       (\<forall>r. strip r = e \<longrightarrow> gives b (Associate r) x (end_of i 0 (Assoc c [] v)) (expression_of (Assoc c [] v)))"
    unfolding j using s(3) f by blast
qed

lemma parsesL_A:
  assumes "parsesA b Index t"
  shows "parsesL b t"
  unfolding parsesL_def
proof (intro allI impI, elim conjE)
  fix i
  assume "placed b i 0 t" "list_end (tok b (end_of i 0 t))"
  then obtain x c where x: "gives b Index i x c" "x < length (ps_tokens b)" "\<not> is_symbol ''|'' (tok b x)"
    "\<And>e. strip e = c \<Longrightarrow> gives b (Associate e) x (end_of i 0 t) (expression_of t)" using assms unfolding parsesA_def by blast
  show "gives b Element i (end_of i 0 t) (expression_of t)"
    by (rule gives_seq [OF x(1), where ?g2.0 = Associate, OF x(4)]) (use x(2,3) in \<open>simp_all add: parseElement_def exec_simps\<close>)
qed

text \<open>The loops over separated parts.\<close>

abbreviation separated_by :: "string \<Rightarrow> tree list \<Rightarrow> Token list" where
  "separated_by sep xs \<equiv> concat (map (\<lambda>x. sym sep # print 0 x) xs)"

lemma loop_gives:
  assumes step: "\<And>i n x k R. x \<in> set xs \<Longrightarrow> i < length (ps_tokens b) \<Longrightarrow> is_symbol sep (tok b i) \<Longrightarrow> placed b (Suc i) 0 x \<Longrightarrow>
      is_symbol sep (tok b (end_of (Suc i) 0 x)) \<or> stop (tok b (end_of (Suc i) 0 x)) \<Longrightarrow> ex_kind n = kd \<Longrightarrow>
      (\<And>e. strip e = expression_of x \<Longrightarrow> gives b (G (push_element n e)) (end_of (Suc i) 0 x) k R) \<Longrightarrow> gives b (G n) i k R"
    and fin: "\<And>j n. j < length (ps_tokens b) \<Longrightarrow> stop (tok b j) \<Longrightarrow> gives b (G n) j j (strip n)"
  shows "prints b i (separated_by sep xs) \<Longrightarrow> i + length (separated_by sep xs) < length (ps_tokens b) \<Longrightarrow>
    stop (tok b (i + length (separated_by sep xs))) \<Longrightarrow> ex_kind n = kd \<Longrightarrow>
    gives b (G n) i (i + length (separated_by sep xs)) (foldl push_element (strip n) (map expression_of xs))"
  using step
proof (induction xs arbitrary: i n)
  case Nil
  then show ?case using fin by simp
next
  case (Cons x xs)
  let ?y = "end_of (Suc i) 0 x" let ?j = "?y + length (separated_by sep xs)"
  have j: "i + length (separated_by sep (x # xs)) = ?j" by simp
  have s: "i < length (ps_tokens b)" "same (tok b i) (sym sep)" "placed b (Suc i) 0 x" "prints b ?y (separated_by sep xs)" "?j < length (ps_tokens b)"
    using Cons.prems(1,2) by (auto simp: placed_def)
  have nxt: "is_symbol sep (tok b ?y) \<or> stop (tok b ?y)"
  proof (cases xs)
    case Nil then show ?thesis using Cons.prems(3) by simp
  next
    case (Cons z zs)
    then have "same (tok b ?y) (sym sep)" using s(4) by simp
    then show ?thesis using same_tests(2) by fastforce
  qed
  have loop: "gives b (G m) ?y ?j (foldl push_element (strip m) (map expression_of xs))" if "ex_kind m = kd" for m
  proof (rule Cons.IH [OF s(4,5) _ that])
    show "stop (tok b ?j)" using Cons.prems(3) by (simp add: add.assoc)
  qed (rule Cons.prems(5), auto)
  have IH: "gives b (G (push_element n e)) ?y ?j (foldl push_element (strip n) (map expression_of (x # xs)))" if "strip e = expression_of x" for e
    using loop [of "push_element n e"] Cons.prems(4) that by (simp add: strip_push)
  show ?case unfolding j
    by (rule Cons.prems(5) [of x i n ?j, OF _ s(1) _ s(3) nxt Cons.prems(4) IH]) (use same_tests(2) [OF s(2)] in auto)
qed

lemma foldl_push: "foldl push_element (Expression k t c sp l r cn es) xs = Expression k t c sp l r cn (es @ xs)"
  by (induction xs arbitrary: es) auto

lemma choices_gives:
  assumes "\<forall>x\<in>set cs. parsesI b x" "prints b i (separated_by ''|'' cs)" "i + length (separated_by ''|'' cs) < length (ps_tokens b)"
    "is_symbol ''=>'' (tok b (i + length (separated_by ''|'' cs)))"
  shows "gives b (Choices n) i (i + length (separated_by ''|'' cs)) (foldl push_element (strip n) (map expression_of cs))"
proof (rule loop_gives [where stop = "is_symbol ''=>''" and kd = "ex_kind n", OF _ _ assms(2-4) refl])
  fix i n x k R
  let ?y = "end_of (Suc i) 0 x"
  assume a: "x \<in> set cs" "i < length (ps_tokens b)" "is_symbol ''|'' (tok b i)" "placed b (Suc i) 0 x"
    "is_symbol ''|'' (tok b ?y) \<or> is_symbol ''=>'' (tok b ?y)"
    "\<And>e. strip e = expression_of x \<Longrightarrow> gives b (Choices (push_element n e)) ?y k R"
  have f: "t_kind (tok b ?y) = Symbol" "follow 0 (tok b ?y)"
    using a(5) follow_symbol(1,2) [of "''|''" "tok b ?y"] follow_symbol(1,2) [of "''=>''" "tok b ?y"] by auto
  have "gives b Index (Suc i) ?y (expression_of x)" using assms(1) a(1,4) f unfolding parsesI_def by blast
  then show "gives b (Choices n) i k R"
    by (rule gives_seq [where ?g2.0 = "\<lambda>e. Choices (push_element n e)", OF _ a(6)]) (use a(2,3) in \<open>simp_all add: choices_loop_def exec_simps\<close>)
next
  fix j n
  assume a: "j < length (ps_tokens b)" "is_symbol ''=>'' (tok b j)"
  then show "gives b (Choices n) j j (strip n)"
    by (intro givesI [of 0]) (simp add: choices_loop_def exec_simps symbol_unique [OF a(2)])
qed

lemma elements_gives:
  assumes "\<forall>x\<in>set cs. parsesL b x" "prints b i (separated_by '','' cs)" "i + length (separated_by '','' cs) < length (ps_tokens b)"
    "is_symbol '')'' (tok b (i + length (separated_by '','' cs)))"
  shows "gives b (Elements n) i (i + length (separated_by '','' cs)) (foldl push_element (strip n) (map expression_of cs))"
proof (rule loop_gives [where stop = "is_symbol '')''" and kd = "ex_kind n", OF _ _ assms(2-4) refl])
  fix i n x k R
  let ?y = "end_of (Suc i) 0 x"
  assume a: "x \<in> set cs" "i < length (ps_tokens b)" "is_symbol '','' (tok b i)" "placed b (Suc i) 0 x"
    "list_end (tok b ?y)" "\<And>e. strip e = expression_of x \<Longrightarrow> gives b (Elements (push_element n e)) ?y k R"
  have "gives b Element (Suc i) ?y (expression_of x)" using assms(1) a(1,4,5) unfolding parsesL_def by blast
  then show "gives b (Elements n) i k R"
    by (rule gives_seq [where ?g2.0 = "\<lambda>e. Elements (push_element n e)", OF _ a(6)]) (use a(2,3) in \<open>simp_all add: elements_loop_def exec_simps\<close>)
next
  fix j n
  assume a: "j < length (ps_tokens b)" "is_symbol '')'' (tok b j)"
  then show "gives b (Elements n) j j (strip n)"
    by (intro givesI [of 0]) (simp add: elements_loop_def exec_simps symbol_unique [OF a(2)])
qed

lemma arguments_gives:
  assumes "\<forall>x\<in>set cs. parsesA b (Expr 0) x" "prints b i (separated_by '','' cs)" "i + length (separated_by '','' cs) < length (ps_tokens b)"
    "is_symbol '')'' (tok b (i + length (separated_by '','' cs)))"
  shows "gives b (Arguments n) i (i + length (separated_by '','' cs)) (foldl push_element (strip n) (map expression_of cs))"
proof (rule loop_gives [where stop = "is_symbol '')''" and kd = "ex_kind n", OF _ _ assms(2-4) refl])
  fix i n x k R
  let ?y = "end_of (Suc i) 0 x"
  assume a: "x \<in> set cs" "i < length (ps_tokens b)" "is_symbol '','' (tok b i)" "placed b (Suc i) 0 x"
    "list_end (tok b ?y)" "\<And>e. strip e = expression_of x \<Longrightarrow> gives b (Arguments (push_element n e)) ?y k R"
  obtain z c where z: "gives b (Expr 0) (Suc i) z c" "\<And>e. strip e = c \<Longrightarrow> gives b (Associate e) z ?y (expression_of x)"
    using assms(1) a(1,4,5) unfolding parsesA_def by blast
  show "gives b (Arguments n) i k R"
    by (rule gives_three [OF z(1), where ?g2.0 = Associate and ?g3.0 = "\<lambda>_ e. Arguments (push_element n e)", OF z(2) a(6)])
      (use a(2,3) in \<open>simp_all add: arguments_loop_def exec_simps\<close>)
next
  fix j n
  assume a: "j < length (ps_tokens b)" "is_symbol '')'' (tok b j)"
  then show "gives b (Arguments n) j j (strip n)"
    by (intro givesI [of 0]) (simp add: arguments_loop_def exec_simps symbol_unique [OF a(2)])
qed

lemma element_choices:
  assumes "c Index (parser_at b i) = Value e (parser_at b x)" "x < length (ps_tokens b)" "is_symbol ''|'' (tok b x)"
    "c (Choices (Expression KAggregate '''' '''' (ex_span e) None None None [e])) (parser_at b x) = Value e' (parser_at b y)"
    "y < length (ps_tokens b)" "is_symbol ''=>'' (tok b y)"
  shows "dispatch c Element (parser_at b i) = c (Associate e') (parser_at b y)"
  using assms by (simp add: parseElement_def exec_simps)

lemma parsesL_Assoc:
  assumes c: "parsesI b c" "\<forall>x\<in>set cs. parsesI b x" "cs \<noteq> []" and v: "parsesE b 0 v"
  shows "parsesL b (Assoc c cs v)"
  unfolding parsesL_def
proof (intro allI impI, elim conjE)
  fix i
  let ?x = "end_of i 0 c" let ?y = "?x + length (separated_by ''|'' cs)" let ?j = "end_of (Suc ?y) 0 v"
  assume a: "placed b i 0 (Assoc c cs v)" "list_end (tok b (end_of i 0 (Assoc c cs v)))"
  have j: "end_of i 0 (Assoc c cs v) = ?j" by simp
  have s: "placed b i 0 c" "prints b ?x (separated_by ''|'' cs)" "same (tok b ?y) (sym ''=>'')" "?y < length (ps_tokens b)" "placed b (Suc ?y) 0 v"
    "?x < length (ps_tokens b)" using a(1) by (auto simp: placed_def)
  have bar: "is_symbol ''|'' (tok b ?x)" using s(2) c(3) same_tests(2) by (cases cs) fastforce+
  have arrow: "is_symbol ''=>'' (tok b ?y)" using same_tests(2) [OF s(3)] by simp
  have I: "gives b Index i ?x (expression_of c)"
    using c(1) s(1) follow_symbol(1,2) [OF bar] unfolding parsesI_def by simp
  let ?g = "\<lambda>e. Choices (Expression KAggregate '''' '''' (ex_span e) None None None [e])"
  have C: "gives b (?g e) ?x ?y (aggregate (expression_of c # map expression_of cs))" if "strip e = expression_of c" for e
    using choices_gives [OF c(2) s(2,4) arrow, of "Expression KAggregate '''' '''' (ex_span e) None None None [e]"] that
    by (simp add: foldl_push aggregate_def)
  have A: "gives b (Associate e') ?y ?j (expression_of (Assoc c cs v))" if "strip e' = aggregate (expression_of c # map expression_of cs)" for e'
    using associate_gives [OF s(4) arrow v s(5), of e'] list_end_follows [OF a(2)] that c(3) unfolding j by simp
  show "gives b Element i (end_of i 0 (Assoc c cs v)) (expression_of (Assoc c cs v))"
    unfolding j
    by (rule gives_three [OF I C, where ?g3.0 = "\<lambda>_. Associate", OF _ A])
      (assumption | rule element_choices [OF _ s(6) bar _ s(4) arrow])+
qed

end
