(* ===== verification/VHDLExprPrint.thy ===== *)
theory VHDLExprPrint
  imports VHDLExprForms
begin

text \<open>Parentheses, aggregates and names; then the round trip by induction on the tree.\<close>

section \<open>Parentheses\<close>

lemma chain_not_assoc: "is_chain t \<Longrightarrow> is_expr t" "is_expr t \<Longrightarrow> \<not> is_assoc t \<and> \<not> others_first t"
  by (cases t; simp)+

lemma first_token:
  "wf_tree t \<Longrightarrow> \<not> others_first t \<Longrightarrow> print p t \<noteq> [] \<and> \<not> is_word ''others'' (hd (print p t))"
proof (induction t arbitrary: p)
  case (Prefix op e)
  have "\<not> is_word ''others'' op" using Prefix.prems by (auto simp: is_prefix_operator_def is_word_def is_symbol_def)
  then show ?case by (simp add: paren_def)
next
  case (Lit t)
  then have "t_kind t \<noteq> Identifier" by auto
  then show ?case by (simp add: is_word_def)
next
  case (BitStr u t)
  then have "\<not> is_word ''others'' u" by (auto simp: is_word_def)
  then show ?case by simp
next
  case (Bin op l r)
  then have "print q l \<noteq> [] \<and> \<not> is_word ''others'' (hd (print q l))" for q using chain_not_assoc(2) by simp
  then show ?case by (simp add: paren_def)
next
  case (Rng op l r)
  then show ?case using chain_not_assoc(2) by simp
next
  case (Assoc c cs v)
  have "\<not> others_first c" "wf_tree c" using Assoc.prems by (cases c; auto)+
  then show ?case using Assoc.IH(1) by simp
next
  case (Sel e n) then show ?case using chain_not_assoc by simp
next
  case (Attr e n) then show ?case using chain_not_assoc by simp
next
  case (Idx e i) then show ?case using chain_not_assoc by simp
next
  case (App e a as) then show ?case using chain_not_assoc by simp
qed simp_all

lemma placed_first:
  assumes "wf_tree t" "\<not> others_first t" "placed b i p t"
  shows "\<not> is_word ''others'' (tok b i)"
proof -
  obtain u us where u: "print p t = u # us" "\<not> is_word ''others'' u" using first_token [OF assms(1,2), of p] by (cases "print p t") auto
  then have "same (tok b i) u" using assms(3) by (simp add: placed_def)
  then show ?thesis using u(2) same_tests(1) by simp
qed

text \<open>A parenthesized primary at a position: the parenthesis, the element, the closing parenthesis.\<close>

lemma parenthesized_start:
  assumes "i < length (ps_tokens b)" "is_symbol ''('' (tok b i)" "Suc i < length (ps_tokens b)" "\<not> is_word ''others'' (tok b (Suc i))"
  shows "dispatch c Primary (parser_at b i) =
    pbind (c Element) (\<lambda>nested. pbind (symbol '','') (\<lambda>comma.
       pbind (if comma \<or> ex_kind nested = KAssociation
              then c (Elements (Expression KAggregate '''' '''' no_span None None None [nested])) else preturn nested) (\<lambda>nested.
       pthen (expectSymbol '')'') (pbind (span_from (t_span (tok b i))) (\<lambda>sp. preturn (with_span sp nested)))))) (parser_at b (Suc i))"
  using assms primary_branches(2) [OF assms(1,2), of c] by (simp add: parenthesized_def exec_simps Let_def)

lemma parsesP_paren:
  assumes t: "parsesL b t" "wf_tree t" "is_expr t" and p: "print p t = sym ''('' # print 0 t @ [sym '')'']"
  shows "parsesP b p t"
  unfolding parsesP_def
proof (intro allI impI, elim conjE)
  fix i
  let ?x = "end_of (Suc i) 0 t"
  assume "placed b i p t"
  then have s: "i < length (ps_tokens b)" "same (tok b i) (sym ''('')" "placed b (Suc i) 0 t" "?x < length (ps_tokens b)" "same (tok b ?x) (sym '')'')"
    by (auto simp: placed_def p)
  have q: "is_symbol ''('' (tok b i)" "is_symbol '')'' (tok b ?x)" using same_tests(2) [OF s(2)] same_tests(2) [OF s(5)] by auto
  have ncomma: "\<not> is_symbol '','' (tok b ?x)" using symbol_unique [OF q(2), of "'',''"] by simp
  have first: "\<not> is_word ''others'' (tok b (Suc i))" using placed_first [OF t(2) _ s(3)] chain_not_assoc(2) [OF t(3)] by simp
  have j: "end_of i p t = Suc ?x" by (simp add: p)
  have "gives b Element (Suc i) ?x (expression_of t)" using t(1) s(3) q(2) unfolding parsesL_def by blast
  then show "gives b Primary i (end_of i p t) (expression_of t)"
    unfolding j
  proof (rule gives_one)
    fix c e
    assume e: "c Element (parser_at b (Suc i)) = Value e (parser_at b ?x)" "strip e = expression_of t"
    then have "ex_kind e \<noteq> KAssociation" using expression_kind [OF t(3,2)] by (metis strip_kind)
    then show "\<exists>q. dispatch c Primary (parser_at b i) = Value q (parser_at b (Suc ?x)) \<and> strip q = expression_of t"
      using e s(4) q(2) ncomma parenthesized_start [OF s(1) q(1) _ first] by (simp add: exec_simps)
  qed
qed

lemma parsesP_Oth:
  assumes "parsesE b 0 e"
  shows "parsesP b p (Oth e)"
  unfolding parsesP_def
proof (intro allI impI, elim conjE)
  fix i
  let ?k = "Suc (Suc (Suc i))" let ?x = "end_of ?k 0 e"
  assume "placed b i p (Oth e)"
  then have s: "i < length (ps_tokens b)" "same (tok b i) (sym ''('')" "same (tok b (Suc i)) others_token" "same (tok b (Suc (Suc i))) (sym ''=>'')"
    "placed b ?k 0 e" "?x < length (ps_tokens b)" "same (tok b ?x) (sym '')'')" "Suc (Suc i) < length (ps_tokens b)"
    by (auto simp: placed_def)
  have q: "is_symbol ''('' (tok b i)" "is_word ''others'' (tok b (Suc i))" "is_symbol ''=>'' (tok b (Suc (Suc i)))" "is_symbol '')'' (tok b ?x)"
    using same_tests(2) [OF s(2)] same_tests(1) [OF s(3)] same_tests(2) [OF s(4)] same_tests(2) [OF s(7)] by (auto simp: others_token_def is_word_def)
  have j: "end_of i p (Oth e) = Suc ?x" by simp
  have "gives b (Expr 0) ?k ?x (expression_of e)" using parsesE_zero [OF assms s(5)] list_end_follows q(4) by blast
  then show "gives b Primary i (end_of i p (Oth e)) (expression_of (Oth e))"
    unfolding j
    by (rule gives_one) (use s q primary_branches(2) [OF s(1) q(1)] in \<open>simp add: parenthesized_def exec_simps Let_def\<close>)
qed

lemma parsesP_Aggr:
  assumes a: "parsesL b a" "wf_tree a" "\<not> others_first a" and as: "\<forall>x\<in>set as. parsesL b x" "as = [] \<longrightarrow> is_assoc a"
  shows "parsesP b p (Aggr a as)"
  unfolding parsesP_def
proof (intro allI impI, elim conjE)
  fix i
  let ?x = "end_of (Suc i) 0 a" let ?y = "?x + length (separated_by '','' as)"
  assume "placed b i p (Aggr a as)"
  then have s: "i < length (ps_tokens b)" "same (tok b i) (sym ''('')" "placed b (Suc i) 0 a" "prints b ?x (separated_by '','' as)"
    "?y < length (ps_tokens b)" "same (tok b ?y) (sym '')'')" "?x < length (ps_tokens b)"
    by (auto simp: placed_def)
  have q: "is_symbol ''('' (tok b i)" "is_symbol '')'' (tok b ?y)" using same_tests(2) [OF s(2)] same_tests(2) [OF s(6)] by auto
  have nxt: "if as = [] then is_symbol '')'' (tok b ?x) else is_symbol '','' (tok b ?x)"
  proof (cases as)
    case Nil then show ?thesis using q(2) by simp
  next
    case (Cons z zs)
    then have "same (tok b ?x) (sym '','')" using s(4) by simp
    then show ?thesis using Cons same_tests(2) by fastforce
  qed
  have first: "\<not> is_word ''others'' (tok b (Suc i))" using placed_first [OF a(2,3) s(3)] by simp
  have j: "end_of i p (Aggr a as) = Suc ?y" by simp
  have "gives b Element (Suc i) ?x (expression_of a)" using a(1) s(3) nxt unfolding parsesL_def by (metis (full_types))
  moreover have "gives b (Elements (Expression KAggregate '''' '''' no_span None None None [e])) ?x ?y (expression_of (Aggr a as))"
    if "strip e = expression_of a" for e
    using elements_gives [OF as(1) s(4,5) q(2), of "Expression KAggregate '''' '''' no_span None None None [e]"] that
    by (simp add: foldl_push aggregate_def)
  ultimately show "gives b Primary i (end_of i p (Aggr a as)) (expression_of (Aggr a as))"
    unfolding j
  proof (rule gives_two)
    fix c e e'
    assume e: "c Element (parser_at b (Suc i)) = Value e (parser_at b ?x)" "strip e = expression_of a"
      "c (Elements (Expression KAggregate '''' '''' no_span None None None [e])) (parser_at b ?x) = Value e' (parser_at b ?y)"
      "strip e' = expression_of (Aggr a as)"
    have "is_symbol '','' (tok b ?x) \<or> ex_kind e = KAssociation"
    proof (cases "as = []")
      case True
      then have "ex_kind (strip e) = KAssociation" using as(2) e(2) by (cases a) (auto simp: binary_def)
      then show ?thesis by simp
    qed (use nxt in simp)
    then show "\<exists>q. dispatch c Primary (parser_at b i) = Value q (parser_at b (Suc ?y)) \<and> strip q = expression_of (Aggr a as)"
      using e s(5,7) q parenthesized_start [OF s(1) q(1) _ first] by (simp add: exec_simps)
  qed
qed

section \<open>Names\<close>

lemma parsesN_Ident:
  assumes "name_ok t"
  shows "parsesN b (Ident t)"
  unfolding parsesN_def
proof (intro allI impI, elim conjE)
  fix i k R
  assume a: "placed b i 7 (Ident t)" "t_kind (tok b (end_of i 7 (Ident t))) \<noteq> StringLiteral"
    "\<forall>e. strip e = expression_of (Ident t) \<longrightarrow> gives b (Suffixes e) (end_of i 7 (Ident t)) k R"
  have s: "same (tok b i) t" "Suc i < length (ps_tokens b)" "t_kind (tok b (Suc i)) \<noteq> StringLiteral" using a(1,2) by (auto simp: placed_def)
  note t = same_tests [OF s(1)]
  have n: "name_ok (tok b i)" "is_name_token (tok b i)" using assms t by (auto simp: name_ok_def)
  let ?e = "leaf KName (t_text (tok b i)) (t_canonical (tok b i)) (t_span (tok b i))"
  have "gives b (Suffixes ?e) (Suc i) k R" using a(3) t by simp
  then show "gives b Primary i k R"
    by (rule gives_one) (use s(2) n primary_branches(4) [OF _ s(2) n(1) s(3)] in \<open>simp add: name_expression_def exec_simps\<close>)
qed

lemma parsesP_N:
  assumes "parsesN b t" "print p t = print 7 t"
  shows "parsesP b p t"
  unfolding parsesP_def
proof (intro allI impI, elim conjE)
  fix i
  assume a: "placed b i p t" "follow p (tok b (end_of i p t))"
  let ?j = "end_of i 7 t"
  have s: "placed b i 7 t" "closer (tok b ?j)" "?j < length (ps_tokens b)" using a assms(2) by (auto simp: placed_def follow_def)
  have "gives b (Suffixes e) ?j ?j (strip e)" for e
    by (rule givesI [of 0]) (use s(2,3) in \<open>simp add: suffixes_def closer_def exec_simps\<close>)
  then have "\<forall>e. strip e = expression_of t \<longrightarrow> gives b (Suffixes e) ?j ?j (expression_of t)" by metis
  then show "gives b Primary i (end_of i p t) (expression_of t)"
    using assms s(1,2) unfolding parsesN_def closer_def by auto
qed

lemma parsesN_named:
  assumes e: "parsesN b e" and n: "is_name_token n"
  shows "parsesN b (Sel e n)" "parsesN b (Attr e n)"
proof -
  have gen: "gives b (Suffixes r) x k R"
    if v: "same (tok b x) (sym v)" "v = ''.'' \<and> kd = KSelected \<or> v = [quote] \<and> kd = KAttribute" "same (tok b (Suc x)) n"
      "Suc x < length (ps_tokens b)" and rest: "\<And>r'. strip r' = unary kd (t_text n) (t_canonical n) no_span (strip r) \<Longrightarrow> gives b (Suffixes r') (Suc (Suc x)) k R"
    for r x k R v kd
  proof -
    have q: "is_symbol v (tok b x)" "is_name_token (tok b (Suc x))" "\<not> is_eof (tok b x)"
      using same_tests(2,7) [OF v(1)] same_tests(3) [OF v(3)] n by auto
    let ?r = "unary kd (t_text (tok b (Suc x))) (t_canonical (tok b (Suc x))) (join (ex_span r) (t_span (tok b (Suc x)))) r"
    have "gives b (Suffixes ?r) (Suc (Suc x)) k R" using rest same_tests(8,9) [OF v(3)] by simp
    then show ?thesis
      by (rule gives_one) (use v(2,4) q in \<open>auto simp: suffixes_def named_suffix_def exec_simps symbol_unique [OF q(1)]\<close>)
  qed
  show "parsesN b (Sel e n)" unfolding parsesN_def
  proof (intro allI impI, elim conjE)
    fix i k R
    let ?x = "end_of i 7 e"
    assume a: "placed b i 7 (Sel e n)" "\<forall>r. strip r = expression_of (Sel e n) \<longrightarrow> gives b (Suffixes r) (end_of i 7 (Sel e n)) k R"
    have s: "placed b i 7 e" "same (tok b ?x) (sym ''.'')" "same (tok b (Suc ?x)) n" "Suc ?x < length (ps_tokens b)" using a(1) by (auto simp: placed_def)
    have "gives b (Suffixes r) ?x k R" if "strip r = expression_of e" for r
      by (rule gen [OF s(2) _ s(3,4), where kd = KSelected]) (use a(2) that in auto)
    then show "gives b Primary i k R" using e s(1) same_tests(7) [OF s(2)] unfolding parsesN_def by simp
  qed
  show "parsesN b (Attr e n)" unfolding parsesN_def
  proof (intro allI impI, elim conjE)
    fix i k R
    let ?x = "end_of i 7 e"
    assume a: "placed b i 7 (Attr e n)" "\<forall>r. strip r = expression_of (Attr e n) \<longrightarrow> gives b (Suffixes r) (end_of i 7 (Attr e n)) k R"
    have s: "placed b i 7 e" "same (tok b ?x) (sym [quote])" "same (tok b (Suc ?x)) n" "Suc ?x < length (ps_tokens b)" using a(1) by (auto simp: placed_def)
    have "gives b (Suffixes r) ?x k R" if "strip r = expression_of e" for r
      by (rule gen [OF s(2) _ s(3,4), where kd = KAttribute]) (use a(2) that in auto)
    then show "gives b Primary i k R" using e s(1) same_tests(7) [OF s(2)] unfolding parsesN_def by simp
  qed
qed

lemma kind_not_assoc: "\<not> is_assoc t \<Longrightarrow> wf_tree t \<Longrightarrow> ex_kind (expression_of t) \<noteq> KAssociation"
  by (cases t) (auto simp: leaf_def unary_def binary_def aggregate_def elim: literal_kind.elims)

lemma open_paren_suffix:
  assumes "x < length (ps_tokens b)" "is_symbol ''('' (tok b x)"
  shows "dispatch c (Suffixes r) (parser_at b x) = pbind (parenthesized_suffix c r) (\<lambda>e. c (Suffixes e)) (parser_at b x)"
  using assms by (simp add: suffixes_def exec_simps symbol_unique [OF assms(2)])

lemma parsesN_Idx:
  assumes e: "parsesN b e" and t: "parsesI b t" "wf_tree t" "\<not> is_assoc t"
  shows "parsesN b (Idx e t)"
  unfolding parsesN_def
proof (intro allI impI, elim conjE)
  fix i k R
  let ?x = "end_of i 7 e" let ?y = "end_of (Suc ?x) 0 t"
  assume a: "placed b i 7 (Idx e t)" "\<forall>r. strip r = expression_of (Idx e t) \<longrightarrow> gives b (Suffixes r) (end_of i 7 (Idx e t)) k R"
  have s: "placed b i 7 e" "same (tok b ?x) (sym ''('')" "placed b (Suc ?x) 0 t" "same (tok b ?y) (sym '')'')"
    "?x < length (ps_tokens b)" "?y < length (ps_tokens b)" using a(1) by (auto simp: placed_def)
  have q: "is_symbol ''('' (tok b ?x)" "is_symbol '')'' (tok b ?y)" using same_tests(2) [OF s(2)] same_tests(2) [OF s(4)] by auto
  have j: "end_of i 7 (Idx e t) = Suc ?y" by simp
  have nc: "\<not> is_symbol '','' (tok b ?y)" "\<not> is_symbol ''=>'' (tok b ?y)" using symbol_unique [OF q(2)] by auto
  have I: "gives b Index (Suc ?x) ?y (expression_of t)" using t(1) s(3) list_end_follows q(2) unfolding parsesI_def by blast
  have "gives b (Suffixes r) ?x k R" if r: "strip r = expression_of e" for r
  proof (rule gives_three [OF I, where ?g2.0 = Associate and ?j2.0 = ?y and ?i2.0 = ?y and ?e2.0 = "expression_of t" and
        ?g3.0 = "\<lambda>_ z. Suffixes (binary KIndexed '''' (join (ex_span r) (t_span (tok b ?y))) r z)" and ?i3.0 = "Suc ?y"])
    show "gives b (Associate z) ?y ?y (expression_of t)" if "strip z = expression_of t" for z using stop_associate [OF s(6) nc(2), of z] that by simp
    let ?n = "\<lambda>z. binary KIndexed '''' (join (ex_span r) (t_span (tok b ?y))) r z"
    show "gives b (Suffixes (?n z')) (Suc ?y) k R" if "strip z' = expression_of t" for z' using a(2) r that unfolding j by simp
    show "dispatch c (Suffixes r) (parser_at b ?x) = c (Suffixes (?n z')) (parser_at b (Suc ?y))"
      if z: "c Index (parser_at b (Suc ?x)) = Value z (parser_at b ?y)" "c (Associate z) (parser_at b ?y) = Value z' (parser_at b ?y)"
        "strip z' = expression_of t" for c z z'
    proof -
      have "ex_kind z' \<noteq> KAssociation" using kind_not_assoc [OF t(3,2)] z(3) by (metis strip_kind)
      then show ?thesis unfolding open_paren_suffix [OF s(5) q(1)]
        using z s(5,6) q nc(1) by (simp add: parenthesized_suffix_def exec_simps)
    qed
  qed
  then show "gives b Primary i k R" using e s(1) same_tests(7) [OF s(2)] unfolding parsesN_def by simp
qed

lemma parsesN_App:
  assumes e: "parsesN b e" and t: "parsesA b Index t" and ts: "\<forall>x\<in>set ts. parsesA b (Expr 0) x" "ts = [] \<longrightarrow> is_assoc t"
  shows "parsesN b (App e t ts)"
  unfolding parsesN_def
proof (intro allI impI, elim conjE)
  fix i k R
  let ?x = "end_of i 7 e" let ?y = "end_of (Suc ?x) 0 t" let ?z = "?y + length (separated_by '','' ts)"
  assume a: "placed b i 7 (App e t ts)" "\<forall>r. strip r = expression_of (App e t ts) \<longrightarrow> gives b (Suffixes r) (end_of i 7 (App e t ts)) k R"
  have j: "end_of i 7 (App e t ts) = Suc ?z" by simp
  have s: "placed b i 7 e" "same (tok b ?x) (sym ''('')" "placed b (Suc ?x) 0 t" "same (tok b ?z) (sym '')'')"
    "?x < length (ps_tokens b)" "?y < length (ps_tokens b)" "prints b ?y (separated_by '','' ts)" "?z < length (ps_tokens b)"
    using a(1) by (auto simp: placed_def)
  have q: "is_symbol ''('' (tok b ?x)" "is_symbol '')'' (tok b ?z)" using same_tests(2) [OF s(2)] same_tests(2) [OF s(4)] by auto
  have nxt: "if ts = [] then is_symbol '')'' (tok b ?y) else is_symbol '','' (tok b ?y)"
  proof (cases ts)
    case Nil then show ?thesis using q(2) by simp
  next
    case (Cons u us)
    then have "same (tok b ?y) (sym '','')" using s(7) by simp
    then show ?thesis using Cons same_tests(2) by fastforce
  qed
  then have "list_end (tok b ?y)" by (auto split: if_splits)
  then obtain w c where w: "gives b Index (Suc ?x) w c" "\<And>z. strip z = c \<Longrightarrow> gives b (Associate z) w ?y (expression_of t)"
    using t s(3) unfolding parsesA_def by blast
  have "gives b (Suffixes r) ?x k R" if r: "strip r = expression_of e" for r
  proof -
    let ?n = "\<lambda>z. Expression KCall '''' '''' no_span (Some r) None None [z]"
    have args: "gives b (Arguments (?n z)) ?y ?z (expression_of (App e t ts))" if "strip z = expression_of t" for z
      using arguments_gives [OF ts(1) s(7,8) q(2), of "?n z"] r that by (simp add: foldl_push)
    let ?m = "\<lambda>z. with_span (join (ex_span r) (t_span (tok b ?z))) z"
    have rest: "gives b (Suffixes (?m z)) (Suc ?z) k R" if "strip z = expression_of (App e t ts)" for z using a(2) that unfolding j by simp
    show ?thesis
    proof (rule gives_four [OF w args rest])
      fix c z z' z''
      assume z: "c Index (parser_at b (Suc ?x)) = Value z (parser_at b w)" "c (Associate z) (parser_at b w) = Value z' (parser_at b ?y)"
        "strip z' = expression_of t" "c (Arguments (?n z')) (parser_at b ?y) = Value z'' (parser_at b ?z)"
      have "is_symbol '','' (tok b ?y) \<or> ex_kind z' = KAssociation"
      proof (cases "ts = []")
        case True
        then have "ex_kind (strip z') = KAssociation" using ts(2) z(3) by (cases t) (auto simp: binary_def)
        then show ?thesis by simp
      qed (use nxt in simp)
      then show "dispatch c (Suffixes r) (parser_at b ?x) = c (Suffixes (?m z'')) (parser_at b (Suc ?z))"
        unfolding open_paren_suffix [OF s(5) q(1)] using z s(5,6,8) q by (simp add: parenthesized_suffix_def exec_simps)
    qed
  qed
  then show "gives b Primary i k R" using e s(1) same_tests(7) [OF s(2)] unfolding parsesN_def by simp
qed

section \<open>All trees\<close>

definition parses_expr :: "RecursiveParser \<Rightarrow> tree \<Rightarrow> bool" where
  "parses_expr b t \<longleftrightarrow> (\<forall>p. 0 \<le> p \<and> p \<le> 7 \<longrightarrow> parsesE b p t) \<and> parsesP b 7 t"

definition parses_tree :: "RecursiveParser \<Rightarrow> tree \<Rightarrow> bool" where
  "parses_tree b t \<longleftrightarrow> (is_expr t \<longrightarrow> parses_expr b t) \<and> (is_chain t \<longrightarrow> parsesN b t) \<and> (\<not> is_assoc t \<longrightarrow> parsesI b t) \<and>
     (single_assoc t \<longrightarrow> parsesA b Index t) \<and> (plain_argument t \<longrightarrow> parsesA b (Expr 0) t) \<and> parsesL b t"

lemma parsesI_A: "parsesI b t \<Longrightarrow> parsesA b Index t"
  by (rule parsesA_item) (simp add: parsesI_def)

lemma parsesE_A: "parsesE b 0 t \<Longrightarrow> parsesA b (Expr 0) t"
  by (rule parsesA_item) (rule parsesE_zero)

lemma parses_tree_expr:
  assumes "is_expr t" "parses_expr b t" "is_chain t \<Longrightarrow> parsesN b t"
  shows "parses_tree b t"
proof -
  have E: "parsesE b 0 t" using assms(2) by (simp add: parses_expr_def)
  have "plain_argument t = is_expr t" using assms(1) by (cases t) auto
  then show ?thesis unfolding parses_tree_def
    using assms parsesI_expr [OF E] parsesE_A [OF E] parsesI_A [OF parsesI_expr [OF E]] parsesL_A by blast
qed

lemma parses_tree_primary:
  assumes "is_expr t" "\<And>p. parsesP b p t" "is_chain t \<Longrightarrow> parsesN b t"
  shows "parses_tree b t"
  using assms parsesE_P by (intro parses_tree_expr) (auto simp: parses_expr_def)

lemma parses_tree_chain:
  assumes "is_chain t" "parsesN b t" "\<And>p. print p t = print 7 t"
  shows "parses_tree b t"
  by (rule parses_tree_primary [OF chain_not_assoc(1) [OF assms(1)]]) (rule parsesP_N [OF assms(2,3)], rule assms(2))

text \<open>A tree that is printed in parentheses at some precedences, and parsed as an operator expression at the others.\<close>

lemma parses_tree_operator:
  assumes "is_expr t" "wf_tree t" "\<not> is_chain t" "parsesE b 0 t"
    and "\<And>p. 0 \<le> p \<Longrightarrow> p \<le> 7 \<Longrightarrow> print p t = sym ''('' # print 0 t @ [sym '')''] \<or> parsesE b p t"
    and "print 7 t = sym ''('' # print 0 t @ [sym '')''] \<or> parsesP b 7 t"
  shows "parses_tree b t"
proof -
  have L: "parsesL b t" by (rule parsesL_A [OF parsesI_A [OF parsesI_expr [OF assms(4)]]])
  have "parses_expr b t" unfolding parses_expr_def using parsesP_paren [OF L assms(2,1)] parsesE_P assms(5,6) by blast
  then show ?thesis using parses_tree_expr assms(1,3) by blast
qed

lemma parses_others: "is_others c \<Longrightarrow> parses_tree b c"
proof (cases c)
  case (Ident t)
  assume "is_others c"
  then have "name_ok t" using Ident by (auto simp: name_ok_def is_name_token_def is_prefix_operator_def is_word_def is_symbol_def)
  then show ?thesis using Ident parses_tree_chain parsesN_Ident by simp
qed auto

lemma parses_Prefix:
  assumes "wf_tree (Prefix op e)" "parses_expr b e"
  shows "parses_tree b (Prefix op e)"
proof (cases "is_sign op")
  case True
  have "parsesE b p (Prefix op e)" if "p < 5" for p
    by (rule parsesE_P, rule parsesP_Prefix) (use assms True that in \<open>auto simp: parses_expr_def\<close>)
  then show ?thesis using assms(1) True by (intro parses_tree_operator) (auto simp: paren_def)
next
  case False
  then show ?thesis using assms by (intro parses_tree_primary parsesP_Prefix) (auto simp: parses_expr_def)
qed

lemma parses_Bin:
  assumes "wf_tree (Bin op l r)" "parses_expr b l" "parses_expr b r"
  shows "parses_tree b (Bin op l r)"
proof -
  have ok: "operator_ok op" "0 \<le> precedence op" "precedence op \<le> 6" using assms(1) precedence_le(1) by (auto simp: operator_ok_def)
  have "0 \<le> left_level op" "left_level op \<le> 7" "0 \<le> right_level op" "right_level op \<le> 7"
    using ok(2,3) by (auto simp: left_level_def right_level_def)
  then have "parsesE b (left_level op) l" "parsesE b (right_level op) r" using assms(2,3) by (simp_all add: parses_expr_def)
  then have E: "parsesE b p (Bin op l r)" if "p \<le> precedence op" for p using parsesE_Bin ok(1) that by blast
  show ?thesis
    by (rule parses_tree_operator) (use assms(1) ok E in \<open>auto simp: paren_def\<close>)
qed

lemma parses_Rng:
  assumes "wf_tree (Rng d l r)" "parses_expr b l" "parses_expr b r"
  shows "parses_tree b (Rng d l r)"
proof -
  have I: "parsesI b (Rng d l r)" using assms by (intro parsesI_Rng) (auto simp: parses_expr_def)
  show ?thesis unfolding parses_tree_def using I parsesI_A [OF I] parsesL_A [OF parsesI_A [OF I]] by simp
qed

lemma parses_Assoc:
  assumes "wf_tree (Assoc c cs v)" "parses_tree b c" "\<forall>x\<in>set cs. parses_tree b x" "parses_expr b v"
  shows "parses_tree b (Assoc c cs v)"
proof -
  have c: "\<not> is_assoc c" "\<forall>x\<in>set cs. \<not> is_assoc x" using assms(1) by (auto elim!: is_others.elims(2))
  have v: "parsesE b 0 v" using assms(4) by (simp add: parses_expr_def)
  have I: "parsesI b c" "\<forall>x\<in>set cs. parsesI b x" using assms(2,3) c by (auto simp: parses_tree_def)
  have A: "parsesA b Index (Assoc c [] v)" by (rule parsesA_Assoc [OF _ v]) (use I(1) in \<open>simp add: parsesI_def\<close>)
  have X: "parsesA b (Expr 0) (Assoc c [] v)" if "is_expr c"
    by (rule parsesA_Assoc [OF _ v]) (use assms(2) that parsesE_zero in \<open>auto simp: parses_tree_def parses_expr_def\<close>)
  show ?thesis
  proof (cases "cs = []")
    case True then show ?thesis unfolding parses_tree_def using A X parsesL_A [OF A] by simp
  next
    case False then show ?thesis unfolding parses_tree_def using parsesL_Assoc [OF I False v] by simp
  qed
qed

lemma parses_all: "wf_tree t \<Longrightarrow> parses_tree b t"
proof (induction t)
  case (Ident t) then show ?case using parses_tree_chain parsesN_Ident by simp
next
  case (Lit t) then show ?case using parsesP_Lit by (intro parses_tree_primary) auto
next
  case (BitStr u t) then show ?case using parsesP_BitStr by (intro parses_tree_primary) auto
next
  case (Prefix op e) then show ?case by (intro parses_Prefix) (auto simp: parses_tree_def)
next
  case (Bin op l r) then show ?case by (intro parses_Bin) (auto simp: parses_tree_def)
next
  case (Sel e n) then show ?case by (intro parses_tree_chain parsesN_named) (auto simp: parses_tree_def)
next
  case (Attr e n) then show ?case by (intro parses_tree_chain parsesN_named) (auto simp: parses_tree_def)
next
  case (Idx e t) then show ?case by (intro parses_tree_chain parsesN_Idx) (auto simp: parses_tree_def)
next
  case (App e t ts) then show ?case by (intro parses_tree_chain parsesN_App) (auto simp: parses_tree_def)
next
  case (Oth e) then show ?case by (intro parses_tree_primary parsesP_Oth) (auto simp: parses_tree_def parses_expr_def)
next
  case (Aggr t ts) then show ?case by (intro parses_tree_primary parsesP_Aggr) (auto simp: parses_tree_def)
next
  case (Rng d l r) then show ?case by (intro parses_Rng) (auto simp: parses_tree_def)
next
  case (Assoc c cs v)
  then have "parses_tree b c" using parses_others by auto
  then show ?case using Assoc by (intro parses_Assoc) (auto simp: parses_tree_def)
qed

lemma parseExpression_print:
  assumes "wf_tree t" "is_expr t" "ready b i" "placed b i 0 t" "follow 0 (tok b (end_of i 0 t))"
  shows "\<exists>e. parseExpression 0 (parser_at b i) = Value e (parser_at b (end_of i 0 t)) \<and> strip e = expression_of t"
proof -
  have "parsesE b 0 t" using parses_all [OF assms(1), of b] assms(2) by (simp add: parses_tree_def parses_expr_def)
  then have "gives b (Expr 0) i (end_of i 0 t) (expression_of t)" using parsesE_zero assms(4,5) by blast
  then show ?thesis unfolding parseExpression_def using run_goal_gives assms(3) by simp
qed

end
