(* ===== verification/VHDLExprTheorems.thy ===== *)
theory VHDLExprTheorems
  imports VHDLBits VHDLExprPrint
begin

text \<open>The properties of the expression parser, over the tokens that the scanner returns.\<close>

section \<open>The tokens of a scan\<close>

lemma scan_stream:
  assumes "scan src synthesis = Inr (ts, ds)"
  shows "stream ts"
proof -
  obtain us where us: "ts = us @ [end_of_file src]" "list_all (token_wf src) us" using scan_spec [of src synthesis] assms by auto
  have "\<not> is_eof t" if "t \<in> set us" for t using us(2) that by (auto simp: list_all_iff token_wf_def)
  then show ?thesis by (auto simp: us(1) stream_def nth_append end_of_file_def Let_def)
qed

definition parser_on :: "string \<Rightarrow> RecursiveParser" where
  "parser_on src = (case scan src False of Inr (ts, ds) \<Rightarrow> new_parser ts ds False | Inl _ \<Rightarrow> new_parser [] [] False)"

lemma parser_on_stream [simp]: "stream (ps_tokens (parser_on src))"
proof -
  obtain ts ds where "scan src False = Inr (ts, ds)" using scan_spec [of src False] by blast
  then show ?thesis using scan_stream by (simp add: parser_on_def new_parser_def)
qed

section \<open>Properties\<close>

text \<open>
  C35.  \<open>parseExpression\<close>, at any position in the tokens of a scan and with any precedence from 0, returns: it never reads outside
  the tokens.  When it returns an expression, it has read at least one token, reported nothing, and every node of the
  expression has the children its kind demands; when it returns null, it has reported exactly one diagnostic.  In
  both cases nothing else of the parser changes.
\<close>

theorem vhdl_expression_safe:
  assumes "scan src synthesis = Inr (ps_tokens b, ds)" "i < length (ps_tokens b)" "0 \<le> m"
  shows "case parseExpression m (b\<lparr>ps_index := i\<rparr>) of Undefined \<Rightarrow> False
    | Null s \<Rightarrow> \<exists>j d. i \<le> j \<and> j < length (ps_tokens b) \<and> s = b\<lparr>ps_index := j, ps_diagnostics := ps_diagnostics b @ [d]\<rparr>
    | Value e s \<Rightarrow> \<exists>j. i < j \<and> j < length (ps_tokens b) \<and> s = b\<lparr>ps_index := j\<rparr> \<and> expr_ok e"
proof -
  have "ready b i" using assms scan_stream by (simp add: ready_def)
  then have "reads b (parseExpression m) i (\<lambda>e j. i < j \<and> expr_ok e)" using assms(3) by (intro parseExpression_reads) auto
  then show ?thesis unfolding reads_def reported_def ready_def by (auto split: outcome.splits)
qed

definition sum_source :: string where "sum_source = ''a + f(2, b) * ;''"

theorem vhdl_expression_safe_witness:
  "case parseExpression 0 ((parser_on sum_source)\<lparr>ps_index := 0\<rparr>) of Undefined \<Rightarrow> False
    | Null s \<Rightarrow> \<exists>j d. 0 \<le> j \<and> j < length (ps_tokens (parser_on sum_source)) \<and>
        s = (parser_on sum_source)\<lparr>ps_index := j, ps_diagnostics := ps_diagnostics (parser_on sum_source) @ [d]\<rparr>
    | Value e s \<Rightarrow> \<exists>j. 0 < j \<and> j < length (ps_tokens (parser_on sum_source)) \<and> s = (parser_on sum_source)\<lparr>ps_index := j\<rparr> \<and> expr_ok e"
proof -
  obtain ts ds where s: "scan sum_source False = Inr (ts, ds)" using scan_spec [of sum_source False] by blast
  then have "scan sum_source False = Inr (ps_tokens (parser_on sum_source), ds)" by (simp add: parser_on_def new_parser_def)
  moreover have "0 < length (ps_tokens (parser_on sum_source))" using parser_on_stream [of sum_source] by (simp add: stream_def)
  ultimately show ?thesis by (rule vhdl_expression_safe) simp
qed

text \<open>
  C36.  Printing and parsing: when the tokens at a position are those of a well-formed expression tree, printed with the
  parentheses that the precedences demand, and the token after it cannot continue an expression, \<open>parseExpression\<close>
  returns that tree (up to the spans), stops after its last token and reports nothing.
\<close>

theorem vhdl_expression_round_trip:
  assumes "wf_tree t" "is_expr t" "stream (ps_tokens b)" "i + length (print 0 t) < length (ps_tokens b)"
    and "prints b i (print 0 t)" "follow 0 (ps_tokens b ! (i + length (print 0 t)))"
  shows "\<exists>e. parseExpression 0 (b\<lparr>ps_index := i\<rparr>) = Value e (b\<lparr>ps_index := i + length (print 0 t)\<rparr>) \<and> strip e = expression_of t"
  using parseExpression_print [OF assms(1,2), of b i] assms(3-) by (simp add: ready_def placed_def)

text \<open>A tree with every kind of node, and its source.\<close>

definition id_token :: "string \<Rightarrow> Token" where
  "id_token v = \<lparr>t_kind = Identifier, t_text = v, t_canonical = v, t_span = no_span\<rparr>"

definition int_token :: "string \<Rightarrow> Token" where
  "int_token v = \<lparr>t_kind = IntegerLiteral, t_text = v, t_canonical = [], t_span = no_span\<rparr>"

definition string_token :: "string \<Rightarrow> Token" where
  "string_token v = \<lparr>t_kind = StringLiteral, t_text = [CHR 0x22] @ v @ [CHR 0x22], t_canonical = [], t_span = no_span\<rparr>"

abbreviation num :: "string \<Rightarrow> tree" where "num v \<equiv> Lit (int_token v)"
abbreviation ident :: "string \<Rightarrow> tree" where "ident v \<equiv> Ident (id_token v)"

definition sample_tree :: tree where
  "sample_tree = Bin (id_token ''and'')
     (Bin (sym ''*'') (Bin (sym ''+'') (ident ''a'') (Prefix (sym ''-'') (num ''1''))) (Bin (sym ''**'') (ident ''b'') (num ''2'')))
     (App (Sel (Idx (ident ''f'') (Rng (id_token ''to'') (num ''1'') (num ''2''))) (id_token ''g''))
       (Aggr (num ''1'') [Assoc (num ''2'') [num ''3''] (BitStr (id_token ''x'') (string_token ''F'')), Assoc (ident ''others'') [] (num ''4'')])
       [Assoc (ident ''k'') [] (Oth (Attr (ident ''c'') (id_token ''low''))), Prefix (id_token ''not'') (ident ''d'')])"

definition sample_parser :: RecursiveParser where
  "sample_parser = new_parser (print 0 sample_tree @ [sym '';'', end_of_file '''']) [] False"

theorem vhdl_expression_round_trip_witness:
  "\<exists>e. parseExpression 0 (sample_parser\<lparr>ps_index := 0\<rparr>) = Value e (sample_parser\<lparr>ps_index := 0 + length (print 0 sample_tree)\<rparr>) \<and>
    strip e = expression_of sample_tree"
proof (rule vhdl_expression_round_trip)
  show "wf_tree sample_tree" "is_expr sample_tree" by code_simp+
  show "stream (ps_tokens sample_parser)" by code_simp
  show "0 + length (print 0 sample_tree) < length (ps_tokens sample_parser)" by code_simp
  show "prints sample_parser 0 (print 0 sample_tree)" by code_simp
  show "follow 0 (ps_tokens sample_parser ! (0 + length (print 0 sample_tree)))" by code_simp
qed

text \<open>
  C37.  A decimal bit string with a length of at most 65536, such as \<open>12d"1_000"\<close>, is accepted exactly when its value fits the
  length; the bits returned are then the binary representation of the value with that many digits.  Otherwise
  exactly one diagnostic is reported.
\<close>

theorem vhdl_decimal_bit_string:
  assumes "sized_decimal b i n cs"
  defines "v \<equiv> decimal_value 0 (filter (\<lambda>c. c \<noteq> CHR ''_'') cs)"
  shows "if v < 2 ^ n
    then \<exists>e bits. parseExtendedBitString (b\<lparr>ps_index := i\<rparr>) = Value e (b\<lparr>ps_index := i + 3\<rparr>) \<and>
      ex_text e = [CHR 0x22] @ bits @ [CHR 0x22] \<and> list_all is_bit bits \<and> length bits = n \<and> bits_value bits = v
    else \<exists>d. parseExtendedBitString (b\<lparr>ps_index := i\<rparr>) = Null (b\<lparr>ps_index := i + 3, ps_diagnostics := ps_diagnostics b @ [d]\<rparr>)"
  using sized_decimal_spec [OF assms(1)] unfolding v_def by simp

definition span_of :: "nat \<Rightarrow> nat \<Rightarrow> SourceSpan" where
  "span_of i j = \<lparr>sp_start = \<lparr>offset = i, line = 1, column = i + 1\<rparr>, sp_end = \<lparr>offset = j, line = 1, column = j + 1\<rparr>\<rparr>"

definition decimal_parser :: RecursiveParser where
  "decimal_parser = new_parser [(int_token ''12'')\<lparr>t_span := span_of 0 2\<rparr>, (id_token ''d'')\<lparr>t_span := span_of 2 3\<rparr>,
     (string_token ''1_000'')\<lparr>t_span := span_of 3 10\<rparr>, end_of_file ''''] [] False"

theorem vhdl_decimal_bit_string_witness:
  "if decimal_value 0 (filter (\<lambda>c. c \<noteq> CHR ''_'') ''1_000'') < 2 ^ 12
    then \<exists>e bits. parseExtendedBitString (decimal_parser\<lparr>ps_index := 0\<rparr>) = Value e (decimal_parser\<lparr>ps_index := 0 + 3\<rparr>) \<and>
      ex_text e = [CHR 0x22] @ bits @ [CHR 0x22] \<and> list_all is_bit bits \<and> length bits = 12 \<and>
      bits_value bits = decimal_value 0 (filter (\<lambda>c. c \<noteq> CHR ''_'') ''1_000'')
    else \<exists>d. parseExtendedBitString (decimal_parser\<lparr>ps_index := 0\<rparr>) =
      Null (decimal_parser\<lparr>ps_index := 0 + 3, ps_diagnostics := ps_diagnostics decimal_parser @ [d]\<rparr>)"
proof (rule vhdl_decimal_bit_string)
  have "stream (ps_tokens decimal_parser)" by code_simp
  then show "sized_decimal decimal_parser 0 12 ''1_000''"
    by (simp add: sized_decimal_def decimal_parser_def new_parser_def ready_def int_token_def id_token_def string_token_def span_of_def
        is_word_def from_chars_size_def isDigit_def between_def max_bits_def underscores_misplaced_def upt_rec)
qed

end
