(* ===== verification/VHDLUnitTheorems.thy ===== *)
theory VHDLUnitTheorems
  imports VHDLFile VHDLExprTheorems
begin

text \<open>The properties of the VHDL parser on whole files.\<close>

lemma scan_starts_apart:
  assumes "scan src synthesis = Inr (ts, ds)"
  shows "starts_apart ts"
proof -
  obtain us where us: "ts = us @ [end_of_file src]" "list_all (token_wf src) us" "sorted_wrt before us"
    using scan_spec [of src synthesis] assms by auto
  have wf: "offset (sp_start (t_span (us ! i))) < offset (sp_end (t_span (us ! i)))" "offset (sp_end (t_span (us ! i))) \<le> length src"
    if "i < length us" for i
    using us(2) that by (auto simp: list_all_length token_wf_def spans_def Let_def)
  have "offset (sp_start (t_span (end_of_file src))) = length src" by (simp add: end_of_file_def Let_def pos_at_def)
  moreover have "offset (sp_end (t_span (us ! i))) \<le> offset (sp_start (t_span (us ! j)))" if "i < j" "j < length us" for i j
    using sorted_wrt_nth_less [OF us(3)] that by (simp add: before_def)
  ultimately have "offset (sp_start (t_span (ts ! i))) < offset (sp_start (t_span (ts ! j)))" if "i < j" "j < length ts" for i j
    using that wf [of i] by (cases "j < length us") (auto simp: us(1) nth_append intro: less_le_trans)
  then show ?thesis by (simp add: starts_apart_def)
qed

lemma new_parser_ahead: "scan src synthesis = Inr (ts, ds) \<Longrightarrow> ahead (new_parser ts ds synthesis) (new_parser ts ds synthesis)"
  using scan_stream [of src synthesis ts ds] by (auto simp: ahead_def new_parser_def stream_def)

text \<open>
  C38.  \<open>Parser::parse\<close> returns on every source text, in both modes: no parsing function reads outside the text or the
  tokens or follows a null pointer, every loop and every recursion ends, whatever the errors in the text.  The diagnostics of the
  scanner come first in the result, in their order, and those of the parser after them.
\<close>

theorem vhdl_parse_total:
  "\<exists>r ts ds es. Parser_parse src synthesis = Some r \<and> scan src synthesis = Inr (ts, ds) \<and>
     map (\<lambda>d. (pd_message d, pd_span d)) (pr_diagnostics r) = map (\<lambda>d. (d_message d, d_span d)) ds @ es"
proof -
  obtain ts ds where scan: "scan src synthesis = Inr (ts, ds)" using scan_spec [of src synthesis] by blast
  obtain d t where run: "run_file (new_parser ts ds synthesis) = Value d t" "ahead (new_parser ts ds synthesis) t"
    using run_file_value [OF new_parser_ahead [OF scan]] by blast
  then have "\<exists>es. map (\<lambda>d. (pd_message d, pd_span d)) (ps_diagnostics t) = map (\<lambda>d. (d_message d, d_span d)) ds @ es"
    by (auto simp: ahead_def new_parser_def o_def)
  then show ?thesis using scan run(1) by (simp add: Parser_parse_def)
qed

text \<open>
  C39.  Where \<open>Parser::parse\<close> reports nothing, nothing was skipped: the scanner reported nothing either, and the tokens, from the
  first to the end of the file, are a sequence of design units, each with its context clause and each read in full by
  \<open>parseEntity\<close>, \<open>parseArchitecture\<close> or \<open>parsePackage\<close>; the syntax has exactly these units in this order.
\<close>

theorem vhdl_parse_complete:
  assumes "Parser_parse src synthesis = Some r" "\<not> hasErrors r"
  shows "\<exists>ts t. scan src synthesis = Inr (ts, []) \<and> design_units (new_parser ts [] synthesis) empty_file t (pr_syntax r) \<and>
    ps_tokens t = ts \<and> ps_index t + 1 = length ts"
proof -
  obtain ts ds where scan: "scan src synthesis = Inr (ts, ds)" using scan_spec [of src synthesis] by blast
  let ?s = "new_parser ts ds synthesis"
  note s = new_parser_ahead [OF scan]
  obtain d t where run: "run_file ?s = Value d t" "ahead ?s t" using run_file_value [OF s] by blast
  then have r: "pr_syntax r = d" "dg t = 0" using assms scan by (auto simp: Parser_parse_def hasErrors_def dg_def)
  then have ds: "ds = []" using run(2) by (auto simp: ahead_def new_parser_def dg_def)
  have apart: "starts_apart (ps_tokens ?s)" using scan_starts_apart [OF scan] by (simp add: new_parser_def)
  have units: "design_units ?s empty_file t d" "is_eof (cur t)" using run_file_silent [OF run(1) s r(2) apart] by auto
  have "ps_tokens t = ts" using run(2) by (simp add: ahead_def new_parser_def)
  moreover have "ps_index t + 1 = length ts"
    using units(2) run(2) scan_stream [OF scan] by (auto simp: ahead_def new_parser_def stream_def)
  ultimately show ?thesis using scan ds units(1) r(1) by blast
qed

text \<open>A small file.\<close>

definition small_source :: string where "small_source = ''entity e is end;''"

lemma small_source_parse: "case Parser_parse small_source False of None \<Rightarrow> False | Some r \<Rightarrow> \<not> hasErrors r \<and>
    map (nm_spelling \<circ> ed_name) (df_entities (pr_syntax r)) = [''e'']"
  by code_simp

theorem vhdl_parse_complete_witness:
  "\<exists>r ts t. Parser_parse small_source False = Some r \<and> map (nm_spelling \<circ> ed_name) (df_entities (pr_syntax r)) = [''e''] \<and>
    scan small_source False = Inr (ts, []) \<and> design_units (new_parser ts [] False) empty_file t (pr_syntax r) \<and>
    ps_tokens t = ts \<and> ps_index t + 1 = length ts"
proof -
  obtain r where r: "Parser_parse small_source False = Some r" "\<not> hasErrors r" "map (nm_spelling \<circ> ed_name) (df_entities (pr_syntax r)) = [''e'']"
    using small_source_parse by (auto split: option.splits)
  obtain ts t where "scan small_source False = Inr (ts, [])" "design_units (new_parser ts [] False) empty_file t (pr_syntax r)"
    "ps_tokens t = ts" "ps_index t + 1 = length ts"
    using vhdl_parse_complete [OF r(1,2)] by blast
  with r(1,3) show ?thesis by (intro exI conjI)
qed

section \<open>Conditional assignments\<close>

text \<open>The value that a conditional expression selects under an assignment of truth values, if any.\<close>

fun chosen :: "(Expression \<Rightarrow> bool) \<Rightarrow> Expression \<Rightarrow> Expression option" where
  "chosen ev (Expression k t c sp l r cn es) =
     (if k \<noteq> KConditional then Some (Expression k t c sp l r cn es)
      else case cn of None \<Rightarrow> None | Some b \<Rightarrow>
        if ev b then (case l of None \<Rightarrow> None | Some e \<Rightarrow> chosen ev e) else (case r of None \<Rightarrow> None | Some e \<Rightarrow> chosen ev e))"

text \<open>The assignments that statements execute.\<close>

fun executed :: "(Expression \<Rightarrow> bool) \<Rightarrow> SequentialStatement \<Rightarrow> Assignment list" where
  "executed ev (Statement h ss al bs) =
     (if st_kind h = SAssignment then [st_assignment h]
      else if st_kind h = SIf then
        (case st_condition h of None \<Rightarrow> [] | Some c \<Rightarrow> if ev c then concat (map (executed ev) ss) else concat (map (executed ev) al))
      else [])"

text \<open>An assignment with another value, or none.\<close>

definition assigned :: "Assignment \<Rightarrow> Expression option \<Rightarrow> Assignment list" where
  "assigned a v = (case v of None \<Rightarrow> [] | Some w \<Rightarrow> [no_assignment\<lparr>as_target := as_target a, as_value := Some w, as_span := as_span a,
     as_kind := as_kind a, as_indices := as_indices a\<rparr>])"

text \<open>
  C40.  A conditional assignment whose last \<open>else\<close> is left out becomes statements that do what it says: for every truth
  assignment to the conditions they execute one assignment, of the value the conditions choose, to the same target, indices and kind,
  or none where no condition that guards a value holds: the old value is not read.
\<close>

theorem conditional_assignment_executes:
  assumes "expr_ok v"
  shows "\<exists>st. conditionalAssignment a v = Some st \<and> executed ev st = assigned a (chosen ev v)"
  using assms
proof (induction v)
  case (Expression k t c sp l r cn es)
  show ?case
  proof (cases "k = KConditional")
    case True
    then obtain e b where e: "l = Some e" "cn = Some b" "expr_ok e" using Expression.prems by auto
    obtain st where st: "conditionalAssignment a e = Some st" "executed ev st = assigned a (chosen ev e)"
      using Expression.IH(1) e by fastforce
    show ?thesis
    proof (cases r)
      case None
      then show ?thesis using True e st by (simp add: Let_def assigned_def)
    next
      case (Some f)
      then have "expr_ok f" using Expression.prems by simp
      then obtain al where "conditionalAssignment a f = Some al" "executed ev al = assigned a (chosen ev f)"
        using Expression.IH(2) Some by fastforce
      then show ?thesis using True e st Some by (simp add: Let_def)
    qed
  next
    case False
    then show ?thesis by (simp add: assigned_def no_head_def no_assignment_def map_idI)
  qed
qed

text \<open>\<open>q <= a when b;\<close>\<close>

theorem conditional_assignment_executes_witness:
  "\<exists>st. conditionalAssignment (no_assignment\<lparr>as_kind := VariableAssignment\<rparr>)
      (Expression KConditional [] [] no_span (Some (leaf KName ''a'' ''a'' no_span)) None (Some (leaf KName ''b'' ''b'' no_span)) []) = Some st \<and>
    executed (\<lambda>_. True) st = [no_assignment\<lparr>as_value := Some (leaf KName ''a'' ''a'' no_span), as_kind := VariableAssignment\<rparr>]"
  using conditional_assignment_executes [of "Expression KConditional [] [] no_span (Some (leaf KName ''a'' ''a'' no_span)) None
      (Some (leaf KName ''b'' ''b'' no_span)) []" "no_assignment\<lparr>as_kind := VariableAssignment\<rparr>" "\<lambda>_. True"]
  by (simp add: leaf_def no_assignment_def assigned_def)

end
