(* ===== verification/Spec2Isabelle.thy ===== *)
theory Spec2Isabelle
  imports TruthTableVector LibraryTables NetlistTheorems LibertyTheorems TimingTheorems VHDLTheorems VHDLUnitTheorems
begin

text \<open>
  \<^bold>\<open>Naja: a verification development of the netlist data model and its logic decorators.\<close>

  Naja keeps gate-level and RTL netlists of integrated circuits in memory (\<^verbatim>\<open>src/nl/netlist\<close>), reads and
  writes them (\<^verbatim>\<open>src/nl/formats\<close>, \<^verbatim>\<open>src/vhdl\<close>) and optimises them (\<^verbatim>\<open>src/optimization\<close>, \<^verbatim>\<open>src/bne\<close>).
  A universe holds databases, a database libraries, a library designs; a design holds terminals, nets and
  instances of other designs, and a net is the set of its components (bit terminals and instance terminals).
  Primitives carry a truth table, over which the optimisation passes propagate constants and look up
  replacement cells.

  \<^bold>\<open>Conventions.\<close>  A C++ operation is a function on an explicit state that returns \<open>Inr\<close> of the result or
  \<open>Inl\<close> of a \<open>cpp_error\<close>: the exception the code throws, or \<open>UndefinedBehaviour\<close> where the code reads
  outside a vector, through a null pointer or through a pointer whose object is gone.  A theorem that an
  operation returns is therefore also a theorem that none of these happen.  Assertions are compiled out in
  release builds and are not checks of the model.  Unsigned 32- and 64-bit arithmetic that can wrap is
  written with \<open>u32\<close> or in \<open>64 word\<close>; bit numbers of buses are integers.  Texts of errors leave out the names of
  the objects.

  \<^bold>\<open>Theories.\<close>
  \<^item> \<open>Naja_Prelude\<close>: the result type with its bind and folds, words, rows of truth tables, generic lemmas.
  \<^item> \<open>StdMap\<close>: \<open>std::map\<close> and the intrusive sets as sorted association lists under the order of the program,
    with the locale \<open>map_key\<close> for an order that is strict and total on the keys in use; it is
    interpreted for truth tables, for identifiers and for numbers.
  \<^item> \<open>BitVec\<close>, \<open>BitDeps\<close> (\<^verbatim>\<open>decorators/NLBitVecDynamic.h\<close>, \<^verbatim>\<open>NLBitDependencies.cpp\<close>): bit vectors of a mask or a
    vector, dependency blocks; their values, round trips and the hole test.
  \<^item> \<open>TruthTable\<close>, \<open>TruthTableProps\<close>, \<open>TruthTableReduce\<close>, \<open>TruthTableCofactor\<close>, \<open>TruthTableVector\<close>,
    \<open>TruthTableRemove\<close>, \<open>TruthTableOrder\<close> (\<^verbatim>\<open>decorators/SNLTruthTable.h\<close>): the tables with their generic kinds,
    their meaning \<open>tt_eval\<close>, the recognisers, the reduction by constants, the vector generics, the removal of an
    input, the order.
  \<^item> \<open>LibraryTables\<close> (\<^verbatim>\<open>decorators/NLLibraryTruthTables.cpp\<close>): the index of the primitives of a library and
    the lookup of a table.
  \<^item> \<open>NLID\<close> (\<^verbatim>\<open>core/NLID.h\<close>): identifiers and references.
  \<^item> \<open>Netlist\<close>, \<open>NetlistOps\<close>, \<open>NetlistBus\<close> (\<^verbatim>\<open>snl/SNLDesign.cpp\<close>, \<^verbatim>\<open>SNLInstance.cpp\<close>, \<^verbatim>\<open>SNLBusNet.cpp\<close>,
    \<^verbatim>\<open>SNLBusTerm.cpp\<close>, \<^verbatim>\<open>SNLBitNet.cpp\<close>, \<^verbatim>\<open>SNLMacros.h\<close> and the scalar classes): the store and its operations.
    \<open>NetlistConn\<close> states the connection invariant, \<open>NetlistInv\<close> and \<open>NetlistDestroy\<close> show that creations and
    destructions keep it, \<open>NetlistNames\<close> has the locale \<open>member_index\<close> of a set of members with its name
    index (interpreted for nets, terminals and instances), \<open>NetlistMerge\<close> the merging of assigns,
    \<open>NetlistAlign\<close> the flat numbers and the instance terminals that creations add, \<open>NetlistClient\<close> the stores that a
    client reaches by calls in any order, with the name indexes kept by every operation, \<open>NetlistExamples\<close> concrete stores and the runs that reach undefined behaviour,
    \<open>NetlistTheorems\<close> the properties.
  \<^item> \<open>BoolTree\<close> (\<^verbatim>\<open>formats/liberty/SNLBooleanTree.cpp\<close>, \<^verbatim>\<open>SNLDesignModeling.h\<close>): the scanner and the
    shift-reduce parser of Liberty functions, the truth table and the Boolean expression built from the tree.
    \<open>BoolTreeGrammar\<close> has the grammar as an inductive relation and shows that the parser decides it,
    \<open>BoolTreeTable\<close> that the table, \<open>BoolTreeExpr\<close> that the expression denotes the function; \<open>LibertyTheorems\<close>
    has the properties.
  \<^item> \<open>TimingGraph\<close> (\<^verbatim>\<open>src/tgraph/TGraph.cpp\<close>, \<^verbatim>\<open>TNode.cpp\<close>, \<^verbatim>\<open>TEdge.cpp\<close>): the timing graph, with the locale
    \<open>pool\<close> of a vector with a free list (interpreted for nodes, edges and capture edges); \<open>TimingGraphInv\<close> shows
    that every operation keeps its invariant.  \<open>TimingLoop\<close>, \<open>TimingLoopProof\<close> (\<^verbatim>\<open>TLoopBreaker.cpp\<close>): the search that
    disables the edges closing a cycle.  \<open>TimingClock\<close>, \<open>TimingForward\<close>, \<open>TimingCapture\<close>
    (\<^verbatim>\<open>TClockPropagator.cpp\<close>): the forward and backward passes.  \<open>TimingTheorems\<close> has the properties, over
    sequences of calls of a client.
  \<^item> \<open>VHDLLexer\<close> (\<^verbatim>\<open>src/vhdl/src/Lexer.cpp\<close>): the VHDL scanner; \<open>VHDLLexerProof\<close> shows what each token scanner
    consumes and emits, \<open>VHDLScan\<close> has the main loop with its invariants, \<open>VHDLTheorems\<close> the properties.
  \<^item> \<open>VHDLTokens\<close>, \<open>VHDLExpr\<close> (\<^verbatim>\<open>src/vhdl/src/Parser.cpp\<close>): the state of the VHDL parser, the functions that read
    tokens, and the expressions as one recursive descent.  A parsing function returns a value, null, or \<open>Undefined\<close> where it would read
    outside the tokens or through a null pointer.  \<open>VHDLExprSafe\<close> has the weakest preconditions \<open>reads\<close> and the locale \<open>descent\<close> of
    the recursive calls, \<open>VHDLBits\<close> the bit strings, \<open>VHDLExprTree\<close>, \<open>VHDLExprRound\<close>, \<open>VHDLExprForms\<close> and \<open>VHDLExprPrint\<close> the
    round trip of printed trees, \<open>VHDLExprTheorems\<close> the properties.
  \<^item> \<open>VHDLAst\<close> (\<^verbatim>\<open>src/vhdl/include/vhdl/Parser.h\<close>): the syntax trees.  \<open>VHDLDecl\<close>, \<open>VHDLStmt\<close>, \<open>VHDLProc\<close>, \<open>VHDLUnit\<close>
    (\<^verbatim>\<open>Parser.cpp\<close>): declarations and entities; statements and functions; processes; instantiations, generate
    statements, architectures, packages and the main loop, in the order of the calls.  \<open>VHDLWorks\<close> has the weakest preconditions
    \<open>works\<close> of functions that may report and go on, with the contract \<open>safe\<close> of a parsing function; \<open>VHDLDeclSafe\<close>, \<open>VHDLStmtSafe\<close>,
    \<open>VHDLProcSafe\<close> and \<open>VHDLUnitSafe\<close> show it for every function, \<open>VHDLFile\<close> shows what the main loop returns, \<open>VHDLUnitTheorems\<close>
    has the properties of whole files and of conditional assignments.

  \<^bold>\<open>Bounds.\<close>  There is no fuel in the netlist and truth table theories: every loop of the code there runs over a
  finite container, and the model is total.  The reduction loop of the Liberty parser, the depth first search of
  the loop breaker and the loops of the VHDL scanner are total by a measure.  The queue of Kahn's algorithm grows while it is read and is run with fuel; one step
  more than there are live nodes is shown to be enough, since no node is queued twice.
  The VHDL parser recurses as deep as the text nests: the expressions run with eight units of fuel for each token left,
  loops, statements and generate statements with one, since every turn and every nested call reads a token; that this is always enough is
  part of what \<open>safe\<close> and \<open>reads\<close> say.  Row loops of tables are bounded by \<open>2 ^ 6\<close> rows (the code switches to the generic
  representation above); identifiers wrap at 32 bits, so creations assume that the next identifier is free.

  \<^bold>\<open>Not modelled.\<close>  The SystemVerilog front end translates the syntax trees of the external \<open>slang\<close> library;
  the Python bindings wrap the API; serialisation goes through Cap'n Proto generated code; LEF/DEF, visual
  and logging parts are input and output.  The elaboration of VHDL syntax trees into a netlist, the Verilog
  front end and its dumper, and the timing graph constructor are left out.  Bundle terminals, parameters, attributes, RTL information,
  clones and comparisons of designs are not part of the netlist state yet.
\<close>

section \<open>Concrete inputs for the witnesses\<close>

text \<open>The multiplexer \<open>0xCA\<close>, a three-input \<open>AND\<close>, a 2-bit adder and a 2-element vector select.\<close>

definition mask_table :: "nat \<Rightarrow> u64 \<Rightarrow> SNLTruthTable" where
  "mask_table n m = tt_default\<lparr>tt_size := n, tt_bits := \<lparr>nbits = 2 ^ n, bdata = Mask m\<rparr>,
     tt_deps := fullDependencies n\<rparr>"

definition mux_table :: SNLTruthTable where "mux_table = mask_table 3 0xCA"
definition and3_table :: SNLTruthTable where "and3_table = mask_table 3 0x80"

definition add2_table :: SNLTruthTable where
  "add2_table = tt_default\<lparr>tt_size := 4, tt_deps := fullDependencies 4, tt_generic := ADD_SUB,
     tt_word := word0\<lparr>w_width := 2, w_outputBit := 1\<rparr>\<rparr>"

definition select_table :: SNLTruthTable where
  "select_table = tt_default\<lparr>tt_size := 3, tt_deps := fullDependencies 3, tt_generic := VECTOR_SELECT,
     tt_vsel := \<lparr>s_width = 2, s_selectWidth = 1, s_addressSize = 1, s_outputBit = 0, s_isSigned = False\<rparr>\<rparr>"

definition update_table :: SNLTruthTable where
  "update_table = tt_default\<lparr>tt_size := 4, tt_deps := fullDependencies 4, tt_generic := VECTOR_UPDATE,
     tt_vupd := \<lparr>u_width = 2, u_updateWidth = 1, u_addressSize = 1, u_outputBit = 1, u_isSigned = False\<rparr>\<rparr>"

definition tiny_library :: "nat library" where
  "tiny_library = Library True [\<lparr>p_design = 7, p_word = False, p_table = mux_table\<rparr>]
     [Library True [\<lparr>p_design = 8, p_word = False, p_table = and3_table\<rparr>] []]"

named_theorems sample_simps "the concrete inputs"

lemma mask_table_sel [sample_simps]:
  "tt_size (mask_table n m) = n" "tt_generic (mask_table n m) = G_NONE"
  "tt_deps (mask_table n m) = fullDependencies n" "nbits (tt_bits (mask_table n m)) = 2 ^ n"
  by (simp_all add: mask_table_def tt_default_def)

lemma mask_table_wf [sample_simps]: "n \<le> 6 \<Longrightarrow> tt_wf (mask_table n m)"
  unfolding mask_table_def by (rule tt_wf_mask) simp_all

lemma sample_generic_wf [sample_simps]: "tt_wf add2_table" "tt_wf select_table" "tt_wf update_table"
  unfolding add2_table_def select_table_def update_table_def
  by (simp_all add: tt_wf_def validateGenericMetadata_def isWordArithmetic_def tt_default_def word_inputs_def
      word0_def vsel0_def vupd0_def)

lemma tiny_library_ok [sample_simps]:
  "lib_primitives tiny_library" "prims_ok (lib_prims tiny_library)"
  by (simp_all add: tiny_library_def prims_ok_def mux_table_def and3_table_def sample_simps)

lemmas sample_defs = mux_table_def and3_table_def

section \<open>Truth tables\<close>

text \<open>
  C1.  \<open>SNLTruthTable::getReducedWithConstants\<close> on a plain table or a gate whose dependencies have no
  hole, with distinct constant inputs in range, always returns; the returned table is well-formed
  and denotes the cofactor: fed with the remaining inputs in their order, it gives the value of the
  original table with the constants put in.
\<close>

theorem reduction_is_cofactor:
  assumes "tt_wf t" "tt_generic t = G_NONE \<or> is_gate (tt_generic t)" "isSimple (tt_deps t)" "cs \<noteq> []"
    and "distinct (map fst cs)" "\<forall>c\<in>set cs. fst c < tt_size t"
  shows "\<exists>r. getReducedWithConstants t cs = Inr r \<and> tt_wf r \<and>
    (\<forall>a. tt_eval r (\<lambda>p. a (remaining (tt_size t) cs ! p)) = tt_eval t (cofactor cs a))"
  using reduced_denotes [OF assms] unfolding denotes_def .

theorem reduction_is_cofactor_witness:
  "\<exists>r. getReducedWithConstants mux_table [(2, True)] = Inr r \<and> tt_wf r \<and>
    (\<forall>a. tt_eval r (\<lambda>p. a (remaining (tt_size mux_table) [(2, True)] ! p)) =
      tt_eval mux_table (cofactor [(2, True)] a))"
  by (rule reduction_is_cofactor) (simp_all add: sample_defs sample_simps)

text \<open>
  C2.  \<open>NLLibraryTruthTables::getDesignForTruthTable\<close> over the index that \<open>construct\<close> builds from a
  primitives library, whose primitives have well-formed tables, plain or gates, never fails on a table of at most 6
  inputs or a gate, and what it returns
  implements the table: a primitive of the library whose table, fed with all the inputs but the
  returned indexes, computes the requested function.
\<close>

theorem library_lookup_sound:
  assumes "lib_primitives lib" "prims_ok (lib_prims lib)"
    and "tt_wf t" "tt_generic t = G_NONE \<or> is_gate (tt_generic t)" "tt_size t \<le> 6 \<or> tt_generic t \<noteq> G_NONE"
  shows "\<exists>tables res. construct lib = Inr tables \<and> getDesignForTruthTable tables t = Inr res \<and>
    (case res of (None, indexes) \<Rightarrow> indexes = []
     | (Some d, indexes) \<Rightarrow>
         (\<exists>p\<in>set (lib_prims lib). p_design p = d \<and> implements (p_table p) indexes t))"
proof -
  obtain tables where t: "construct lib = Inr tables" "tables_inv (lib_prims lib) tables"
    using construct_inv [OF assms(1,2)] by blast
  obtain d indexes where r: "getDesignForTruthTable tables t = Inr (d, indexes)"
    "\<And>x. d = Some x \<Longrightarrow> found_ok (lib_prims lib) t indexes x"
    using lookup_sound [OF t(2) assms(2-5)] by auto
  have "d = None \<Longrightarrow> indexes = []"
    using r(1) lookup_none_indexes by blast
  with t(1) r show ?thesis
    unfolding found_ok_def by (cases d) auto
qed

theorem library_lookup_sound_witness:
  "\<exists>tables res. construct tiny_library = Inr tables \<and> getDesignForTruthTable tables and3_table = Inr res \<and>
    (case res of (None, indexes) \<Rightarrow> indexes = []
     | (Some d, indexes) \<Rightarrow>
         (\<exists>p\<in>set (lib_prims tiny_library). p_design p = d \<and> implements (p_table p) indexes and3_table))"
  by (rule library_lookup_sound) (simp_all add: sample_defs sample_simps)

text \<open>
  C3.  Completeness of the lookup: in a library whose primitives have well-formed tables, plain or gates, the table of every indexed primitive of the library or of its
  nested primitives libraries is found without removing an input, and the design returned computes
  the same function.
\<close>

theorem library_lookup_complete:
  assumes "lib_primitives lib" "prims_ok (lib_prims lib)"
    and "p \<in> set (lib_prims lib)" "\<not> p_word p" "isInitialized (p_table p)"
  shows "\<exists>tables d q. construct lib = Inr tables \<and>
    getDesignForTruthTable tables (p_table p) = Inr (Some d, []) \<and>
    q \<in> set (lib_prims lib) \<and> p_design q = d \<and> implements (p_table q) [] (p_table p)"
  using lookup_complete [OF assms] unfolding found_ok_def by blast

theorem library_lookup_complete_witness:
  "\<exists>tables d q. construct tiny_library = Inr tables \<and>
    getDesignForTruthTable tables and3_table = Inr (Some d, []) \<and>
    q \<in> set (lib_prims tiny_library) \<and> p_design q = d \<and> implements (p_table q) [] and3_table"
proof -
  let ?p = "\<lparr>p_design = 8, p_word = False, p_table = and3_table\<rparr> :: nat prim"
  have "isInitialized (p_table ?p)" "?p \<in> set (lib_prims tiny_library)"
    by (simp_all add: isInitialized_def sample_defs sample_simps tiny_library_def)
  then show ?thesis
    using library_lookup_complete [of tiny_library ?p] by (simp add: sample_simps)
qed

text \<open>
  C4.  \<open>SNLTruthTable::evaluateVectorSelect\<close> on a well-formed \<open>VECTOR_SELECT\<close> table returns the bit of the
  vector that the address names, plus the output bit, and no value when that position is outside
  the vector; the address inputs are read most significant first, as two's complement when signed.
\<close>

theorem vector_select_reads_addressed_bit:
  assumes "tt_wf t" "tt_generic t = VECTOR_SELECT" "s_selectWidth (tt_vsel t) \<le> u32_max"
    and "length inputs = tt_size t" "m = tt_vsel t"
    and "pos = address_value (s_isSigned m) (s_addressSize m)
      (\<lambda>b. inputs ! (s_width m + s_addressSize m - 1 - b)) + int (s_outputBit m)"
  shows "evaluateVectorSelect t inputs =
    Inr (if 0 \<le> pos \<and> pos < int (s_width m) then Some (inputs ! (s_width m - 1 - nat pos)) else None)"
  unfolding assms(5,6) by (rule evaluateVectorSelect_spec [OF assms(1-4)])

theorem vector_select_reads_addressed_bit_witness:
  "evaluateVectorSelect select_table [True, False, True] = Inr (Some True)"
  by (subst vector_select_reads_addressed_bit [OF sample_generic_wf(2) _ _ _ refl refl])
    (simp_all add: select_table_def tt_default_def u32_max_def address_value_def)

text \<open>
  C5.  \<open>SNLTruthTable::evaluateVectorUpdate\<close> on a well-formed \<open>VECTOR_UPDATE\<close> table returns the update
  bit that lands on the output bit when the enable (the last input) is set and the addressed window
  covers it, and otherwise the old value, the first input.
\<close>

theorem vector_update_writes_addressed_bits:
  assumes "tt_wf t" "tt_generic t = VECTOR_UPDATE" "u_width (tt_vupd t) \<le> u32_max"
    and "length inputs = tt_size t" "m = tt_vupd t"
    and "pos = int (u_outputBit m) - address_value (u_isSigned m) (u_addressSize m)
      (\<lambda>b. inputs ! (1 + u_updateWidth m + u_addressSize m - 1 - b))"
  shows "evaluateVectorUpdate t inputs =
    Inr (if last inputs \<and> 0 \<le> pos \<and> pos < int (u_updateWidth m)
         then inputs ! (u_updateWidth m - nat pos) else hd inputs)"
  unfolding assms(5,6) by (rule evaluateVectorUpdate_spec [OF assms(1-4)])

theorem vector_update_writes_addressed_bits_witness:
  "evaluateVectorUpdate update_table [False, True, True, True] = Inr True"
  by (subst vector_update_writes_addressed_bits [OF sample_generic_wf(3) _ _ _ refl refl])
    (simp_all add: update_table_def tt_default_def u32_max_def address_value_def)

text \<open>
  C6.  The operator \<open><\<close> of \<open>SNLTruthTable\<close>, under which the library index keeps its keys, never fails on
  well-formed tables and is a strict total order whose equivalence is equality.
\<close>

theorem truth_table_order_strict_total:
  assumes "tt_wf a" "tt_wf b" "tt_wf c"
  shows "(\<exists>x. tt_less a b = Inr x) \<and> tt_less a a = Inr False \<and>
    (tt_less a b = Inr True \<and> tt_less b c = Inr True \<longrightarrow> tt_less a c = Inr True) \<and>
    (tt_less a b = Inr False \<and> tt_less b a = Inr False \<longrightarrow> tt_eq a b \<and> a = b)"
  using assms tt_key_inj [of a b] by (auto simp: tt_less_key tt_eq_def bv_eq_def)

theorem truth_table_order_strict_total_witness:
  "(\<exists>x. tt_less mux_table and3_table = Inr x) \<and> tt_less mux_table mux_table = Inr False"
  using truth_table_order_strict_total [of mux_table and3_table mux_table]
  by (simp add: sample_defs sample_simps)

text \<open>
  C7.  The recognisers \<open>isAnd\<close>, \<open>isNand\<close>, \<open>isOr\<close>, \<open>isNor\<close>, \<open>isXor\<close>, \<open>isXnor\<close> decide, on a well-formed plain
  table or gate of at least two inputs that is initialized (it has dependencies), whether the table computes that gate on all its inputs,
  whichever of the two representations it has.
\<close>

theorem gate_recognisers_decide:
  assumes "tt_wf t" "tt_generic t = G_NONE \<or> is_gate (tt_generic t)" "2 \<le> tt_size t" "tt_deps t \<noteq> []"
  shows "isAnd t = Inr (\<forall>a. tt_eval t a = gate_fun G_AND (map a [0..<tt_size t])) \<and>
    isNand t = Inr (\<forall>a. tt_eval t a = gate_fun G_NAND (map a [0..<tt_size t])) \<and>
    isOr t = Inr (\<forall>a. tt_eval t a = gate_fun G_OR (map a [0..<tt_size t])) \<and>
    isNor t = Inr (\<forall>a. tt_eval t a = gate_fun G_NOR (map a [0..<tt_size t])) \<and>
    isXor t = Inr (\<forall>a. tt_eval t a = gate_fun G_XOR (map a [0..<tt_size t])) \<and>
    isXnor t = Inr (\<forall>a. tt_eval t a = gate_fun G_XNOR (map a [0..<tt_size t]))"
  unfolding isAnd_def isNand_def isOr_def isNor_def isXor_def isXnor_def
  by (intro conjI isGenericOrEquivalent_iff assms) (simp_all add: is_gate_def)

theorem gate_recognisers_decide_witness:
  "isAnd and3_table = Inr (\<forall>a. tt_eval and3_table a = gate_fun G_AND (map a [0..<tt_size and3_table]))"
  using gate_recognisers_decide [of and3_table] by (simp add: sample_defs sample_simps)

text \<open>
  C8.  \<open>SNLTruthTable::removeVariable\<close> on a plain table of at most 6 inputs returns a well-formed table with
  one input less, the negative cofactor with respect to the removed input.
\<close>

theorem removeVariable_is_negative_cofactor:
  assumes "tt_wf t" "tt_generic t = G_NONE" "tt_size t \<le> 6" "v < tt_size t"
  shows "\<exists>r. removeVariable t v = Inr r \<and> tt_wf r \<and> tt_size r = tt_size t - 1 \<and>
    (\<forall>a. tt_eval r a = tt_eval t (insert_false v a))"
  by (rule removeVariable_small [OF assms])

theorem removeVariable_is_negative_cofactor_witness:
  "\<exists>r. removeVariable mux_table 2 = Inr r \<and> tt_wf r \<and> tt_size r = tt_size mux_table - 1 \<and>
    (\<forall>a. tt_eval r a = tt_eval mux_table (insert_false 2 a))"
  by (rule removeVariable_is_negative_cofactor) (simp_all add: sample_defs sample_simps)



text \<open>
  C10.  \<open>SNLTruthTable::hasNoInfluence\<close> on a plain table or gate with simple dependencies always returns,
  and decides whether the function does not depend on the input.
\<close>

theorem hasNoInfluence_decides:
  assumes "tt_wf t" "tt_generic t = G_NONE \<or> is_gate (tt_generic t)" "isSimple (tt_deps t)" "i < tt_size t"
  shows "hasNoInfluence t i = Inr (\<forall>a. tt_eval t (a(i := True)) = tt_eval t (a(i := False)))"
  by (rule hasNoInfluence_iff [OF assms])

theorem hasNoInfluence_decides_witness:
  "hasNoInfluence mux_table 1 =
    Inr (\<forall>a. tt_eval mux_table (a(1 := True)) = tt_eval mux_table (a(1 := False)))"
  by (rule hasNoInfluence_decides) (simp_all add: sample_defs sample_simps)

end
